(* ===== verification/Prelude.thy ===== *)
theory Prelude
  imports Main "HOL-Library.Word"
begin

unbundle bit_operations_syntax

text \<open>
  Shared vocabulary of the development: machine integers, byte strings, the result type of C code
  that may abort, memory blocks with bounds, little-endian integers, and the index arithmetic of
  the circular instance tables. Collections of facts: \<open>res_simps\<close> unfolds the result
  monad, \<open>mem_simps\<close> computes with memory blocks given as concatenations.
\<close>

named_theorems res_simps "unfolding of the result monad"
named_theorems mem_simps "reads and writes on memory blocks"
named_theorems le_simps "little-endian integers"

section \<open>Machine integers and bytes\<close>

type_synonym u8 = "8 word"
type_synonym u16 = "16 word"
type_synonym u32 = "32 word"
type_synonym u64 = "64 word"
type_synonym bytes = "u8 list"

text \<open>Ranges, and the steps up and down that do not wrap.\<close>

lemma unat_u8_less: "unat (w :: u8) < 256"
  using unsigned_less [of w] by simp

lemma unat_u16_less: "unat (w :: u16) < 65536"
  using unsigned_less [of w] by simp

lemma unat_u32_less: "unat (w :: u32) < 4294967296"
  using unsigned_less [of w] by simp

lemma unat_u32_Suc: "Suc (unat w) < 4294967296 \<Longrightarrow> unat (w + 1) = Suc (unat w)" for w :: u32
  by (simp add: unat_word_ariths)

lemma unat_u32_pred:
  fixes w :: u32
  assumes "unat w = Suc k"
  shows "w \<noteq> 0 \<and> unat (w - 1) = k"
proof -
  have "w \<noteq> 0" using assms by auto
  then show ?thesis using unat_minus_one [of w] assms by simp
qed

lemma unat_u64_less: "unat (w :: u64) < 18446744073709551616"
  using unsigned_less [of w] by simp

lemma unat_u64_Suc: "Suc (unat w) < 18446744073709551616 \<Longrightarrow> unat (w + 1) = Suc (unat w)" for w :: u64
  by (simp add: unat_word_ariths)

lemma u64_less_Suc:
  fixes w :: u64
  assumes "w + 1 \<noteq> 0"
  shows "w < w + 1" and "unat (w + 1) = Suc (unat w)"
proof -
  have "Suc (unat w) < 18446744073709551616"
  proof (rule ccontr)
    assume "\<not> Suc (unat w) < 18446744073709551616"
    then have "unat w + 1 = 18446744073709551616" using unat_u64_less [of w] by simp
    then have "unat (w + 1) = 0" by (simp add: unat_word_ariths)
    then show False using assms by (simp add: unat_eq_0)
  qed
  then show "unat (w + 1) = Suc (unat w)" by (rule unat_u64_Suc)
  then show "w < w + 1" by (simp add: word_less_nat_alt)
qed

lemma unat_ucast_u8: "unat (ucast (w :: u8) :: u32) = unat w"
  using unat_u8_less [of w] by (simp add: unsigned_ucast_eq take_bit_eq_mod)

lemma unat_ucast_u16: "unat (ucast (w :: u16) :: u32) = unat w"
  using unat_u16_less [of w] by (simp add: unsigned_ucast_eq take_bit_eq_mod)

section \<open>C code that may abort\<close>

text \<open>
  An \<^verbatim>\<open>assert\<close> that fails, a null dereference and an access outside an array end the
  process; they are the faults of the model. A computation is a fault or a result.
\<close>

datatype fault = AssertFailed | NullPointer | OutOfBounds

type_synonym 'a res = "fault + 'a"

definition rbind :: "'a res \<Rightarrow> ('a \<Rightarrow> 'b res) \<Rightarrow> 'b res" where
  "rbind m f = (case m of Inl e \<Rightarrow> Inl e | Inr x \<Rightarrow> f x)"

definition rassert :: "bool \<Rightarrow> 'a res \<Rightarrow> 'a res" where
  "rassert c k = (if c then k else Inl AssertFailed)"

definition rguard :: "bool \<Rightarrow> 'a res \<Rightarrow> 'a res" where
  "rguard c k = (if c then k else Inl OutOfBounds)"

fun ok :: "'a res \<Rightarrow> bool" where
  "ok (Inl _) = False"
| "ok (Inr _) = True"

lemma rbind_simps [simp, res_simps]:
  "rbind (Inl e) f = Inl e" "rbind (Inr x) f = f x"
  by (simp_all add: rbind_def)

lemma rassert_simps [simp, res_simps]:
  "rassert True k = k" "rassert False k = Inl AssertFailed"
  by (simp_all add: rassert_def)

lemma rguard_simps [simp, res_simps]:
  "rguard True k = k" "rguard False k = Inl OutOfBounds"
  by (simp_all add: rguard_def)

lemma rbind_cong [fundef_cong]:
  "m = m' \<Longrightarrow> (\<And>x. m' = Inr x \<Longrightarrow> f x = f' x) \<Longrightarrow> rbind m f = rbind m' f'"
  by (cases m') auto

lemma rassert_cong [fundef_cong]: "c = c' \<Longrightarrow> (c' \<Longrightarrow> k = k') \<Longrightarrow> rassert c k = rassert c' k'"
  by (simp add: rassert_def)

lemma rguard_cong [fundef_cong]: "c = c' \<Longrightarrow> (c' \<Longrightarrow> k = k') \<Longrightarrow> rguard c k = rguard c' k'"
  by (simp add: rguard_def)

lemma rbind_eq_Inr: "rbind m f = Inr y \<longleftrightarrow> (\<exists>x. m = Inr x \<and> f x = Inr y)"
  by (cases m) auto

lemma rassert_eq_Inr: "rassert c k = Inr y \<longleftrightarrow> c \<and> k = Inr y"
  by (simp add: rassert_def)

lemma rguard_eq_Inr: "rguard c k = Inr y \<longleftrightarrow> c \<and> k = Inr y"
  by (simp add: rguard_def)

lemmas res_eq_Inr = rbind_eq_Inr rassert_eq_Inr rguard_eq_Inr

lemma rbind_assoc: "rbind (rbind m f) g = rbind m (\<lambda>x. rbind (f x) g)"
  by (cases m) auto

lemma ok_iff: "ok m \<longleftrightarrow> (\<exists>x. m = Inr x)"
  by (cases m) auto

section \<open>Memory blocks\<close>

text \<open>
  \<open>mread b off n\<close> and \<open>mwrite b off bs\<close> are the accesses to a block of bytes
  (\<^verbatim>\<open>memcpy\<close>, or a field of a struct laid over the block); an access outside the block
  is the fault \<open>OutOfBounds\<close>.
\<close>

definition mread :: "bytes \<Rightarrow> nat \<Rightarrow> nat \<Rightarrow> bytes res" where
  "mread b off n = rguard (off + n \<le> length b) (Inr (take n (drop off b)))"

definition mwrite :: "bytes \<Rightarrow> nat \<Rightarrow> bytes \<Rightarrow> bytes res" where
  "mwrite b off bs = rguard (off + length bs \<le> length b)
     (Inr (take off b @ bs @ drop (off + length bs) b))"

text \<open>
  A block is given as the concatenation of its parts: an access skips the parts before it and then
  meets the part it is for.
\<close>

lemma mread_skip [mem_simps]:
  "length x \<le> off \<Longrightarrow> mread (x @ b) off n = mread b (off - length x) n"
  by (auto simp: mread_def rguard_def)

lemma mread_here [mem_simps]: "n = length x \<Longrightarrow> mread (x @ c) 0 n = Inr x"
  by (simp add: mread_def)

lemma mwrite_skip [mem_simps]:
  "length x \<le> off \<Longrightarrow>
     mwrite (x @ b) off bs = rbind (mwrite b (off - length x) bs) (\<lambda>b'. Inr (x @ b'))"
  by (auto simp: mwrite_def rguard_def)

lemma mwrite_here [mem_simps]:
  "length bs = length x \<Longrightarrow> mwrite (x @ c) 0 bs = Inr (bs @ c)"
  by (simp add: mwrite_def)

lemma mwrite_length: "mwrite b off bs = Inr b' \<Longrightarrow> length b' = length b"
  by (auto simp: mwrite_def res_eq_Inr)

lemma mread_length: "mread b off n = Inr x \<Longrightarrow> length x = n"
  by (auto simp: mread_def res_eq_Inr)

lemma mwrite_in_range: "off + length bs \<le> length b \<Longrightarrow> ok (mwrite b off bs)"
  by (simp add: mwrite_def)

section \<open>Little-endian integers\<close>

fun le_bytes :: "nat \<Rightarrow> nat \<Rightarrow> bytes" where
  "le_bytes 0 k = []"
| "le_bytes (Suc n) k = word_of_nat (k mod 256) # le_bytes n (k div 256)"

fun le_nat :: "bytes \<Rightarrow> nat" where
  "le_nat [] = 0"
| "le_nat (b # bs) = unat b + 256 * le_nat bs"

lemma length_le_bytes [simp]: "length (le_bytes n k) = n"
  by (induction n arbitrary: k) auto

lemma unat_byte_mod: "unat (word_of_nat (k mod 256) :: u8) = k mod 256"
  by (simp add: unat_of_nat)

lemma le_nat_bytes_mod: "le_nat (le_bytes n k) = k mod 256 ^ n"
proof (induction n arbitrary: k)
  case 0
  then show ?case by simp
next
  case (Suc n)
  have "k mod 256 ^ Suc n = k mod 256 + 256 * ((k div 256) mod 256 ^ n)"
    by (simp add: mod_mult2_eq)
  with Suc show ?case by (simp add: unat_byte_mod del: power_Suc)
qed

lemma le_nat_bytes [le_simps]: "k < 256 ^ n \<Longrightarrow> le_nat (le_bytes n k) = k"
  by (simp add: le_nat_bytes_mod)

lemma le_nat_less: "le_nat bs < 256 ^ length bs"
proof (induction bs)
  case Nil
  then show ?case by simp
next
  case (Cons b bs)
  have "unat b < 256" using unsigned_less [of b] by simp
  with Cons show ?case by simp
qed

lemma le_bytes_u16 [le_simps]: "word_of_nat (le_nat (le_bytes 2 (unat (w :: u16)))) = w"
proof -
  have "unat w < 256 ^ 2" using unsigned_less [of w] by simp
  then show ?thesis by (simp add: le_nat_bytes)
qed

lemma le_bytes_u32 [le_simps]: "word_of_nat (le_nat (le_bytes 4 (unat (w :: u32)))) = w"
proof -
  have "unat w < 256 ^ 4" using unsigned_less [of w] by simp
  then show ?thesis by (simp add: le_nat_bytes)
qed

section \<open>Circular tables\<close>

text \<open>
  The instance tables are arrays indexed by the instance number modulo the size of the table.
  \<open>circular\<close> is what their clients rely on: two instances share a slot exactly when their
  numbers agree modulo the size, so the instances of a window no longer than the table have a
  slot each.
\<close>

locale circular =
  fixes slot :: "nat \<Rightarrow> 'i" and size :: nat
  assumes size_pos: "0 < size"
    and slot_eq: "slot i = slot j \<longleftrightarrow> i mod size = j mod size"
begin

lemma window_slot_inj:
  assumes "c \<le> i" "i < c + size" "c \<le> j" "j < c + size" "slot i = slot j"
  shows "i = j"
proof -
  have "(i - c) mod size = (j - c) mod size"
  proof -
    have "i mod size = j mod size" using assms(5) slot_eq by simp
    then have "int i mod int size = int j mod int size" by (metis of_nat_mod)
    then have "(int i - int c) mod int size = (int j - int c) mod int size"
      by (metis mod_diff_left_eq)
    with assms(1,3) show ?thesis
      by (metis (no_types) nat_int of_nat_diff of_nat_mod)
  qed
  then show ?thesis using assms(1-4) by auto
qed

lemma slot_shift: "slot (i + size) = slot i"
  by (simp add: slot_eq)

end

lemma unat_and_mask: "unat (w AND mask n :: 'a::len word) = unat w mod 2 ^ n"
proof -
  have "unat (w AND mask n) = take_bit n (unat w)"
    by (simp add: take_bit_eq_mask [symmetric] unsigned_take_bit_eq)
  then show ?thesis by (simp add: take_bit_eq_mod)
qed

lemma mask_2047: "(2047 :: u32) = mask 11"
  by (simp add: mask_eq_exp_minus_1)

text \<open>A table of 2048 entries indexed by the low bits of a 32-bit instance number.\<close>

lemma unat_and_2047: "unat (w AND 2047 :: u32) = unat w mod 2048"
  using unat_and_mask [of w 11] by (simp add: mask_2047)

lemma and_2047_eq_iff:
  "(v AND 2047 :: u32) = w AND 2047 \<longleftrightarrow> unat v mod 2048 = unat w mod 2048"
  by (metis unat_and_2047 word_unat_eq_iff)

lemma circular_mod: "0 < n \<Longrightarrow> circular (\<lambda>i. i mod n) n"
  by unfold_locales auto

interpretation tab2048: circular "\<lambda>i. i mod 2048" 2048
  by unfold_locales auto

section \<open>Lists\<close>

lemma sum_list_map_le: "x \<in> set xs \<Longrightarrow> f x \<le> sum_list (map f xs)" for f :: "'a \<Rightarrow> nat"
  by (induction xs) auto

lemma length_concat_map: "length (concat (map f xs)) = sum_list (map (\<lambda>x. length (f x)) xs)"
  by (simp add: length_concat comp_def)

end
