(* ===== verification/Messages.thy ===== *)
theory Messages
  imports Prelude
begin

text \<open>
  The message types of libpaxos (\<^verbatim>\<open>paxos2/include/libpaxos_messages.h\<close>,
  \<^verbatim>\<open>paxos2/libpaxos.h\<close>, \<^verbatim>\<open>paxos2/paxos_config.h\<close>) and their layout in memory. A
  struct with a flexible array member (\<^verbatim>\<open>char value[0]\<close>) is a record whose last field is
  the byte string; its \<^verbatim>\<open>value_size\<close> is the length of that string. The layout is that of
  a little-endian LP64 machine: \<^verbatim>\<open>short\<close> 2 bytes, \<^verbatim>\<open>int\<close> and enums 4,
  \<^verbatim>\<open>size_t\<close> 8, each field at a multiple of its size; padding is written as zero and never
  read. A \<^verbatim>\<open>size_t\<close> is a natural number below \<open>2 ^ 64\<close>, its wrap-around written out
  where the code adds to a value taken from the network.
\<close>

section \<open>Configuration\<close>

definition MAX_UDP_MSG_SIZE :: nat where "MAX_UDP_MSG_SIZE = 7500"
definition PAXOS_MAX_VALUE_SIZE :: nat where "PAXOS_MAX_VALUE_SIZE = MAX_UDP_MSG_SIZE - 40"
definition MAX_N_OF_PROPOSERS :: nat where "MAX_N_OF_PROPOSERS = 10"
definition N_OF_ACCEPTORS :: nat where "N_OF_ACCEPTORS = 3"
definition QUORUM :: nat where "QUORUM = N_OF_ACCEPTORS div 2 + 1"

lemmas config_defs = MAX_UDP_MSG_SIZE_def PAXOS_MAX_VALUE_SIZE_def MAX_N_OF_PROPOSERS_def
  N_OF_ACCEPTORS_def QUORUM_def

type_synonym ballot_t = u32
type_synonym iid_t = u32

section \<open>Message codes and structs\<close>

datatype paxos_msg_code =
    prepare_reqs | prepare_acks | accept_reqs | accept_acks
  | repeat_reqs | submit | leader_announce | alive_ping

fun msg_code :: "paxos_msg_code \<Rightarrow> u32" where
  "msg_code prepare_reqs = 1"
| "msg_code prepare_acks = 2"
| "msg_code accept_reqs = 4"
| "msg_code accept_acks = 8"
| "msg_code repeat_reqs = 16"
| "msg_code submit = 32"
| "msg_code leader_announce = 64"
| "msg_code alive_ping = 65"

definition decode_code :: "u32 \<Rightarrow> paxos_msg_code option" where
  "decode_code w =
     (if w = 1 then Some prepare_reqs else if w = 2 then Some prepare_acks
      else if w = 4 then Some accept_reqs else if w = 8 then Some accept_acks
      else if w = 16 then Some repeat_reqs else if w = 32 then Some submit
      else if w = 64 then Some leader_announce else if w = 65 then Some alive_ping
      else None)"

lemma decode_msg_code [simp]: "decode_code (msg_code c) = Some c"
  by (cases c) (simp_all add: decode_code_def)

record prepare_req =
  pr_iid :: iid_t
  pr_ballot :: ballot_t

record prepare_ack =
  pa_iid :: iid_t
  pa_ballot :: ballot_t
  pa_value_ballot :: ballot_t
  pa_value :: bytes

record accept_req =
  ar_iid :: iid_t
  ar_ballot :: ballot_t
  ar_value :: bytes

record accept_ack =
  aa_iid :: iid_t
  aa_ballot :: ballot_t
  aa_value_ballot :: ballot_t
  aa_is_final :: u16
  aa_value :: bytes

text \<open>The record an acceptor stores for an instance is an \<^verbatim>\<open>accept_ack\<close>.\<close>

type_synonym acceptor_record = accept_ack

section \<open>Layout\<close>

definition sizeof_paxos_msg :: nat where "sizeof_paxos_msg = 16"
definition offsetof_data :: nat where "offsetof_data = 12"
definition sizeof_batch :: nat where "sizeof_batch = 4"

lemmas layout_defs = sizeof_paxos_msg_def offsetof_data_def sizeof_batch_def

definition enc16 :: "u16 \<Rightarrow> bytes" where "enc16 w = le_bytes 2 (unat w)"
definition enc32 :: "u32 \<Rightarrow> bytes" where "enc32 w = le_bytes 4 (unat w)"
definition enc64 :: "nat \<Rightarrow> bytes" where "enc64 n = le_bytes 8 n"

definition padding :: "nat \<Rightarrow> bytes" where "padding n = replicate n 0"

definition rd16 :: "bytes \<Rightarrow> nat \<Rightarrow> u16 res" where
  "rd16 b off = rbind (mread b off 2) (\<lambda>x. Inr (word_of_nat (le_nat x)))"
definition rd32 :: "bytes \<Rightarrow> nat \<Rightarrow> u32 res" where
  "rd32 b off = rbind (mread b off 4) (\<lambda>x. Inr (word_of_nat (le_nat x)))"
definition rd64 :: "bytes \<Rightarrow> nat \<Rightarrow> nat res" where
  "rd64 b off = rbind (mread b off 8) (\<lambda>x. Inr (le_nat x))"

lemma length_enc [simp]: "length (enc16 w) = 2" "length (enc32 v) = 4" "length (enc64 n) = 8"
  "length (padding m) = m"
  by (simp_all add: enc16_def enc32_def enc64_def padding_def)

lemma rd_skip [mem_simps]:
  "length x \<le> off \<Longrightarrow> rd16 (x @ b) off = rd16 b (off - length x)"
  "length x \<le> off \<Longrightarrow> rd32 (x @ b) off = rd32 b (off - length x)"
  "length x \<le> off \<Longrightarrow> rd64 (x @ b) off = rd64 b (off - length x)"
  by (simp_all add: rd16_def rd32_def rd64_def mem_simps)

lemma rd_here [mem_simps]:
  "rd16 (enc16 w @ c) 0 = Inr w"
  "rd32 (enc32 v @ c) 0 = Inr v"
  "n < 2 ^ 64 \<Longrightarrow> rd64 (enc64 n @ c) 0 = Inr n"
  by (simp_all add: rd16_def rd32_def rd64_def enc16_def enc32_def enc64_def mem_simps le_simps)

lemma rd64_less: "rd64 b off = Inr n \<Longrightarrow> n < 2 ^ 64"
proof -
  assume "rd64 b off = Inr n"
  then obtain x where x: "mread b off 8 = Inr x" "n = le_nat x"
    by (auto simp: rd64_def res_eq_Inr)
  then have "length x = 8" by (auto dest: mread_length)
  with x(2) le_nat_less [of x] show ?thesis by simp
qed

subsection \<open>The structs as bytes\<close>

definition enc_prepare_req :: "prepare_req \<Rightarrow> bytes" where
  "enc_prepare_req r = enc32 (pr_iid r) @ enc32 (pr_ballot r)"

definition enc_prepare_ack :: "prepare_ack \<Rightarrow> bytes" where
  "enc_prepare_ack r = enc32 (pa_iid r) @ enc32 (pa_ballot r) @ enc32 (pa_value_ballot r)
     @ padding 4 @ enc64 (length (pa_value r)) @ pa_value r"

definition enc_accept_req :: "accept_req \<Rightarrow> bytes" where
  "enc_accept_req r = enc32 (ar_iid r) @ enc32 (ar_ballot r)
     @ enc64 (length (ar_value r)) @ ar_value r"

definition enc_accept_ack :: "accept_ack \<Rightarrow> bytes" where
  "enc_accept_ack r = enc32 (aa_iid r) @ enc32 (aa_ballot r) @ enc32 (aa_value_ballot r)
     @ enc16 (aa_is_final r) @ padding 2 @ enc64 (length (aa_value r)) @ aa_value r"

text \<open>Reading the struct that starts at an offset of a block.\<close>

definition rd_prepare_req :: "bytes \<Rightarrow> nat \<Rightarrow> prepare_req res" where
  "rd_prepare_req b off =
     rbind (rd32 b off) (\<lambda>i. rbind (rd32 b (off + 4)) (\<lambda>bal.
       Inr \<lparr>pr_iid = i, pr_ballot = bal\<rparr>))"

definition rd_prepare_ack :: "bytes \<Rightarrow> nat \<Rightarrow> prepare_ack res" where
  "rd_prepare_ack b off =
     rbind (rd32 b off) (\<lambda>i. rbind (rd32 b (off + 4)) (\<lambda>bal. rbind (rd32 b (off + 8)) (\<lambda>vb.
     rbind (rd64 b (off + 16)) (\<lambda>n. rbind (mread b (off + 24) n) (\<lambda>v.
       Inr \<lparr>pa_iid = i, pa_ballot = bal, pa_value_ballot = vb, pa_value = v\<rparr>)))))"

definition rd_accept_req :: "bytes \<Rightarrow> nat \<Rightarrow> accept_req res" where
  "rd_accept_req b off =
     rbind (rd32 b off) (\<lambda>i. rbind (rd32 b (off + 4)) (\<lambda>bal.
     rbind (rd64 b (off + 8)) (\<lambda>n. rbind (mread b (off + 16) n) (\<lambda>v.
       Inr \<lparr>ar_iid = i, ar_ballot = bal, ar_value = v\<rparr>))))"

definition rd_accept_ack :: "bytes \<Rightarrow> nat \<Rightarrow> accept_ack res" where
  "rd_accept_ack b off =
     rbind (rd32 b off) (\<lambda>i. rbind (rd32 b (off + 4)) (\<lambda>bal. rbind (rd32 b (off + 8)) (\<lambda>vb.
     rbind (rd16 b (off + 12)) (\<lambda>fin.
     rbind (rd64 b (off + 16)) (\<lambda>n. rbind (mread b (off + 24) n) (\<lambda>v.
       Inr \<lparr>aa_iid = i, aa_ballot = bal, aa_value_ballot = vb, aa_is_final = fin,
             aa_value = v\<rparr>))))))"

text \<open>The sizes \<^verbatim>\<open>PREPARE_REQ_SIZE\<close>, \<^verbatim>\<open>PREPARE_ACK_SIZE\<close>,
  \<^verbatim>\<open>ACCEPT_REQ_SIZE\<close> and \<^verbatim>\<open>ACCEPT_ACK_SIZE\<close>.\<close>

definition PREPARE_ACK_SIZE :: "prepare_ack \<Rightarrow> nat" where
  "PREPARE_ACK_SIZE r = length (pa_value r) + 24"
definition ACCEPT_REQ_SIZE :: "accept_req \<Rightarrow> nat" where
  "ACCEPT_REQ_SIZE r = length (ar_value r) + 16"
definition ACCEPT_ACK_SIZE :: "accept_ack \<Rightarrow> nat" where
  "ACCEPT_ACK_SIZE r = length (aa_value r) + 24"

lemma length_enc_structs [simp]:
  "length (enc_prepare_req q) = 8"
  "length (enc_prepare_ack a) = PREPARE_ACK_SIZE a"
  "length (enc_accept_req r) = ACCEPT_REQ_SIZE r"
  "length (enc_accept_ack k) = ACCEPT_ACK_SIZE k"
  by (simp_all add: enc_prepare_req_def enc_prepare_ack_def enc_accept_req_def enc_accept_ack_def
      PREPARE_ACK_SIZE_def ACCEPT_REQ_SIZE_def ACCEPT_ACK_SIZE_def)

subsection \<open>What is written is read back\<close>

lemma rd_prepare_req_enc [mem_simps]: "rd_prepare_req (enc_prepare_req r @ c) 0 = Inr r"
  by (simp add: rd_prepare_req_def enc_prepare_req_def mem_simps)

lemma rd_prepare_ack_enc [mem_simps]:
  "length (pa_value r) < 2 ^ 64 \<Longrightarrow> rd_prepare_ack (enc_prepare_ack r @ c) 0 = Inr r"
  by (simp add: rd_prepare_ack_def enc_prepare_ack_def mem_simps)

lemma rd_accept_req_enc [mem_simps]:
  "length (ar_value r) < 2 ^ 64 \<Longrightarrow> rd_accept_req (enc_accept_req r @ c) 0 = Inr r"
  by (simp add: rd_accept_req_def enc_accept_req_def mem_simps)

lemma rd_accept_ack_enc [mem_simps]:
  "length (aa_value r) < 2 ^ 64 \<Longrightarrow> rd_accept_ack (enc_accept_ack r @ c) 0 = Inr r"
  by (simp add: rd_accept_ack_def enc_accept_ack_def mem_simps)

lemma rd_struct_skip [mem_simps]:
  "length x \<le> off \<Longrightarrow> rd_prepare_req (x @ b) off = rd_prepare_req b (off - length x)"
  "length x \<le> off \<Longrightarrow> rd_prepare_ack (x @ b) off = rd_prepare_ack b (off - length x)"
  "length x \<le> off \<Longrightarrow> rd_accept_req (x @ b) off = rd_accept_req b (off - length x)"
  "length x \<le> off \<Longrightarrow> rd_accept_ack (x @ b) off = rd_accept_ack b (off - length x)"
  by (simp_all add: rd_prepare_req_def rd_prepare_ack_def rd_accept_req_def rd_accept_ack_def
      mem_simps)

end
