(* ===== verification/SendBuf.thy ===== *)
theory SendBuf
  imports Messages
begin

text \<open>
  The send buffer of \<^verbatim>\<open>paxos2/lib/udp_sendbuf.c\<close>: one UDP message under construction,
  to which entries are appended; when an entry does not fit, the message is sent and a new one is
  opened. The buffer is the block of \<open>MAX_UDP_MSG_SIZE\<close> bytes of the struct, written in
  place. What the code asks of the operating system and of the storage is a trace of
  \<open>io_event\<close>s: a datagram handed to \<^verbatim>\<open>sendto\<close>, the begin and end of a
  storage transaction, and a record written to the database. The content of a buffer that holds a batch is stated in the theory
  \<^verbatim>\<open>Transport\<close>.
\<close>

section \<open>State\<close>

datatype group = Learners | Acceptors | Proposers | SubmitNet | OracleNet | PingsNet

datatype io_event = Send group bytes | TxBegin | TxEnd | DbPut acceptor_record

record udp_send_buffer =
  sb_addr :: group
  sb_dirty :: bool
  sb_buffer :: bytes

definition udp_sendbuf_new :: "group \<Rightarrow> udp_send_buffer" where
  "udp_sendbuf_new g =
     \<lparr>sb_addr = g, sb_dirty = False, sb_buffer = replicate MAX_UDP_MSG_SIZE 0\<rparr>"

definition sb_data_size :: "udp_send_buffer \<Rightarrow> nat res" where
  "sb_data_size sb = rd64 (sb_buffer sb) 0"

definition sb_write :: "udp_send_buffer \<Rightarrow> nat \<Rightarrow> bytes \<Rightarrow> udp_send_buffer res" where
  "sb_write sb off bs = rbind (mwrite (sb_buffer sb) off bs) (\<lambda>b. Inr (sb\<lparr>sb_buffer := b\<rparr>))"

section \<open>Operations\<close>

text \<open>
  \<^verbatim>\<open>sendbuf_clear\<close>: writes the type, the size of an empty batch and the batch header. The
  batches of the acceptors start with the acceptor id and then the count, the others with the
  count; a \<^verbatim>\<open>repeat_req_batch\<close> has no sender.
\<close>

definition sendbuf_clear :: "udp_send_buffer \<Rightarrow> paxos_msg_code \<Rightarrow> u16 \<Rightarrow> udp_send_buffer res" where
  "sendbuf_clear sb type sender_id =
     rbind (sb_write (sb\<lparr>sb_dirty := False\<rparr>) 8 (enc32 (msg_code type))) (\<lambda>sb.
     rbind (sb_write sb 0 (enc64 0)) (\<lambda>sb.
     case type of
       prepare_reqs \<Rightarrow> rbind (sb_write sb 0 (enc64 sizeof_batch)) (\<lambda>sb.
         rbind (sb_write sb 12 (enc16 0)) (\<lambda>sb. sb_write sb 14 (enc16 sender_id)))
     | accept_reqs \<Rightarrow> rbind (sb_write sb 0 (enc64 sizeof_batch)) (\<lambda>sb.
         rbind (sb_write sb 12 (enc16 0)) (\<lambda>sb. sb_write sb 14 (enc16 sender_id)))
     | prepare_acks \<Rightarrow> rbind (sb_write sb 0 (enc64 sizeof_batch)) (\<lambda>sb.
         rbind (sb_write sb 14 (enc16 0)) (\<lambda>sb. sb_write sb 12 (enc16 sender_id)))
     | accept_acks \<Rightarrow> rbind (sb_write sb 0 (enc64 sizeof_batch)) (\<lambda>sb.
         rbind (sb_write sb 14 (enc16 0)) (\<lambda>sb. sb_write sb 12 (enc16 sender_id)))
     | repeat_reqs \<Rightarrow> rbind (sb_write sb 0 (enc64 sizeof_batch)) (\<lambda>sb. sb_write sb 12 (enc16 0))
     | submit \<Rightarrow> Inr sb
     | _ \<Rightarrow> Inr sb))"

text \<open>
  \<^verbatim>\<open>sendbuf_flush\<close> sends \<^verbatim>\<open>PAXOS_MSG_SIZE(m)\<close> bytes from the start of the
  buffer, if the dirty flag is set; it leaves the buffer as it is.
\<close>

definition sendbuf_flush :: "udp_send_buffer \<Rightarrow> io_event list res" where
  "sendbuf_flush sb =
     (if \<not> sb_dirty sb then Inr []
      else rbind (sb_data_size sb) (\<lambda>ds.
           rbind (mread (sb_buffer sb) 0 (ds + sizeof_paxos_msg)) (\<lambda>d.
             Inr [Send (sb_addr sb) d])))"

text \<open>
  The common shape of the functions that append an entry of the bytes \<open>ent\<close> to a batch.
  \<open>coff\<close> and \<open>ioff\<close> are the offsets in the data of the batch's count and of the id of
  its sender, \<open>pos\<close> where the entry goes, given the size of the data and the count;
  \<open>tx\<close> whether the flush of a full message closes the storage transaction and opens a new
  one. A new message has the type and the sender of the old one. \<open>batch_put\<close> writes the
  entry, the count and the size.
\<close>

definition batch_put ::
  "nat \<Rightarrow> (nat \<Rightarrow> nat \<Rightarrow> nat) \<Rightarrow> bytes \<Rightarrow> udp_send_buffer \<Rightarrow> udp_send_buffer res" where
  "batch_put coff pos ent sb =
     rbind (sb_data_size sb) (\<lambda>ds.
     rbind (rd16 (sb_buffer sb) (offsetof_data + coff)) (\<lambda>c.
     rbind (sb_write sb (offsetof_data + pos ds (unat c)) ent) (\<lambda>sb.
     rbind (sb_write sb (offsetof_data + coff) (enc16 (c + 1))) (\<lambda>sb.
     rbind (sb_write sb 0 (enc64 (ds + length ent))) (\<lambda>sb.
       Inr (sb\<lparr>sb_dirty := True\<rparr>))))))"

definition batch_append ::
  "paxos_msg_code \<Rightarrow> nat \<Rightarrow> nat option \<Rightarrow> bool \<Rightarrow> (nat \<Rightarrow> nat \<Rightarrow> nat) \<Rightarrow> bytes \<Rightarrow>
     udp_send_buffer \<Rightarrow> (udp_send_buffer \<times> io_event list) res" where
  "batch_append type coff ioff tx pos ent sb =
     rbind (rd32 (sb_buffer sb) 8) (\<lambda>ty. rassert (ty = msg_code type) (
     rbind (sb_data_size sb) (\<lambda>ds.
     if ds + sizeof_paxos_msg + length ent \<ge> MAX_UDP_MSG_SIZE
     then rbind (sendbuf_flush sb) (\<lambda>evs.
          rbind (case ioff of None \<Rightarrow> Inr (- 1)
                 | Some off \<Rightarrow> rd16 (sb_buffer sb) (offsetof_data + off)) (\<lambda>i.
          rbind (sendbuf_clear sb type i) (\<lambda>sb.
          rbind (batch_put coff pos ent sb) (\<lambda>sb.
            Inr (sb, (if tx then [TxEnd] else []) @ evs @ (if tx then [TxBegin] else []))))))
     else rbind (batch_put coff pos ent sb) (\<lambda>sb. Inr (sb, [])))))"

definition sendbuf_add_prepare_req ::
  "udp_send_buffer \<Rightarrow> iid_t \<Rightarrow> ballot_t \<Rightarrow> (udp_send_buffer \<times> io_event list) res" where
  "sendbuf_add_prepare_req sb iid ballot =
     batch_append prepare_reqs 0 (Some 2) False (\<lambda>ds c. sizeof_batch + 8 * c)
       (enc_prepare_req \<lparr>pr_iid = iid, pr_ballot = ballot\<rparr>) sb"

definition prepare_ack_of :: "acceptor_record \<Rightarrow> prepare_ack" where
  "prepare_ack_of rec = \<lparr>pa_iid = aa_iid rec, pa_ballot = aa_ballot rec,
     pa_value_ballot = aa_value_ballot rec, pa_value = aa_value rec\<rparr>"

definition sendbuf_add_prepare_ack ::
  "udp_send_buffer \<Rightarrow> acceptor_record \<Rightarrow> (udp_send_buffer \<times> io_event list) res" where
  "sendbuf_add_prepare_ack sb rec =
     batch_append prepare_acks 2 (Some 0) True (\<lambda>ds c. ds) (enc_prepare_ack (prepare_ack_of rec)) sb"

definition sendbuf_add_accept_req ::
  "udp_send_buffer \<Rightarrow> iid_t \<Rightarrow> ballot_t \<Rightarrow> bytes \<Rightarrow> (udp_send_buffer \<times> io_event list) res" where
  "sendbuf_add_accept_req sb iid ballot val =
     batch_append accept_reqs 0 (Some 2) False (\<lambda>ds c. ds)
       (enc_accept_req \<lparr>ar_iid = iid, ar_ballot = ballot, ar_value = val\<rparr>) sb"

definition sendbuf_add_accept_ack ::
  "udp_send_buffer \<Rightarrow> acceptor_record \<Rightarrow> (udp_send_buffer \<times> io_event list) res" where
  "sendbuf_add_accept_ack sb rec =
     batch_append accept_acks 2 (Some 0) True (\<lambda>ds c. ds) (enc_accept_ack rec) sb"

definition sendbuf_add_repeat_req ::
  "udp_send_buffer \<Rightarrow> iid_t \<Rightarrow> (udp_send_buffer \<times> io_event list) res" where
  "sendbuf_add_repeat_req sb iid =
     batch_append repeat_reqs 0 None False (\<lambda>ds c. sizeof_batch + 4 * c) (enc32 iid) sb"

definition sendbuf_add_submit_val :: "udp_send_buffer \<Rightarrow> bytes \<Rightarrow> udp_send_buffer res" where
  "sendbuf_add_submit_val sb val =
     rbind (rd32 (sb_buffer sb) 8) (\<lambda>ty. rassert (ty = msg_code submit) (
     rbind (sb_data_size sb) (\<lambda>ds.
     rbind (sb_write sb 0 (enc64 (ds + length val))) (\<lambda>sb.
     rbind (sb_write sb offsetof_data val) (\<lambda>sb. Inr (sb\<lparr>sb_dirty := True\<rparr>))))))"

definition sendbuf_send_ping ::
  "udp_send_buffer \<Rightarrow> u16 \<Rightarrow> nat \<Rightarrow> (udp_send_buffer \<times> io_event list) res" where
  "sendbuf_send_ping sb proposer_id sequence_number =
     rbind (sb_write (sb\<lparr>sb_dirty := True\<rparr>) 8 (enc32 (msg_code alive_ping))) (\<lambda>sb.
     rbind (sb_write sb 0 (enc64 16)) (\<lambda>sb.
     rbind (sb_write sb 12 (enc16 proposer_id)) (\<lambda>sb.
     rbind (sb_write sb 20 (enc64 sequence_number)) (\<lambda>sb.
     rbind (sendbuf_flush sb) (\<lambda>evs. Inr (sb, evs))))))"

definition sendbuf_send_leader_announce ::
  "udp_send_buffer \<Rightarrow> u16 \<Rightarrow> (udp_send_buffer \<times> io_event list) res" where
  "sendbuf_send_leader_announce sb leader_id =
     rbind (sb_write (sb\<lparr>sb_dirty := True\<rparr>) 8 (enc32 (msg_code leader_announce))) (\<lambda>sb.
     rbind (sb_write sb 0 (enc64 2)) (\<lambda>sb.
     rbind (sb_write sb 12 (enc16 leader_id)) (\<lambda>sb.
     rbind (sendbuf_flush sb) (\<lambda>evs. Inr (sb, evs)))))"

text \<open>\<^verbatim>\<open>pax_submit_nonblock\<close> of \<^verbatim>\<open>submit_handle.c\<close>: a client's value to the leader.\<close>

definition pax_submit_nonblock ::
  "udp_send_buffer \<Rightarrow> bytes \<Rightarrow> (udp_send_buffer \<times> io_event list) res" where
  "pax_submit_nonblock sb val =
     rbind (sendbuf_clear sb submit 0) (\<lambda>sb.
     rbind (sendbuf_add_submit_val sb val) (\<lambda>sb.
     rbind (sendbuf_flush sb) (\<lambda>evs. Inr (sb, evs))))"

text \<open>A loop that adds the entries of a list, and a whole batch: clear, add, flush.\<close>

fun add_all :: "(udp_send_buffer \<Rightarrow> 'e \<Rightarrow> (udp_send_buffer \<times> io_event list) res) \<Rightarrow>
    udp_send_buffer \<Rightarrow> 'e list \<Rightarrow> (udp_send_buffer \<times> io_event list) res" where
  "add_all add sb [] = Inr (sb, [])"
| "add_all add sb (x # xs) =
     rbind (add sb x) (\<lambda>(sb1, evs1). rbind (add_all add sb1 xs) (\<lambda>(sb2, evs2).
       Inr (sb2, evs1 @ evs2)))"

definition send_batch ::
  "paxos_msg_code \<Rightarrow> (udp_send_buffer \<Rightarrow> 'e \<Rightarrow> (udp_send_buffer \<times> io_event list) res) \<Rightarrow>
     udp_send_buffer \<Rightarrow> u16 \<Rightarrow> 'e list \<Rightarrow> (udp_send_buffer \<times> io_event list) res" where
  "send_batch type add sb sender_id xs =
     rbind (sendbuf_clear sb type sender_id) (\<lambda>sb.
     rbind (add_all add sb xs) (\<lambda>(sb, evs).
     rbind (sendbuf_flush sb) (\<lambda>evs'. Inr (sb, evs @ evs'))))"

fun datagrams :: "io_event list \<Rightarrow> bytes list" where
  "datagrams [] = []"
| "datagrams (Send g d # es) = d # datagrams es"
| "datagrams (_ # es) = datagrams es"

lemma datagrams_append [simp]: "datagrams (xs @ ys) = datagrams xs @ datagrams ys"
  by (induction xs rule: datagrams.induct) auto

end
