(* ===== verification/Receiver.thy ===== *)
theory Receiver
  imports SendBuf
begin

text \<open>
  The receiver of \<^verbatim>\<open>paxos2/lib/udp_receiver.c\<close>: a datagram is copied over the start of the
  receive buffer, whose other bytes are those of earlier messages, and checked by
  \<^verbatim>\<open>validate_paxos_msg\<close>. The receive buffer has \<open>MAX_UDP_MSG_SIZE\<close> bytes; a
  longer datagram is cut. The entries of a batch are read by walking its data.
\<close>

section \<open>Sizes computed by walking a batch\<close>

text \<open>
  \<open>walk n vs_off hdr b base off\<close>: the offset after \<open>n\<close> entries of the data at
  \<open>base\<close>, each a header of \<open>hdr\<close> bytes with the size of its value at
  \<open>vs_off\<close>; the sums are those of \<^verbatim>\<open>size_t\<close>.
\<close>

fun walk :: "nat \<Rightarrow> nat \<Rightarrow> nat \<Rightarrow> bytes \<Rightarrow> nat \<Rightarrow> nat \<Rightarrow> nat res" where
  "walk 0 vs_off hdr b base off = Inr off"
| "walk (Suc n) vs_off hdr b base off =
     rbind (rd64 b (base + off + vs_off)) (\<lambda>vs.
       walk n vs_off hdr b base ((off + (vs + hdr)) mod 2 ^ 64))"

text \<open>
  The loops run while \<^verbatim>\<open>i < count\<close> for \<^verbatim>\<open>short\<close> values: not at all when the
  count is negative. \<open>m\<close> is the offset of the message's data in the buffer.
\<close>

definition loop_count :: "u16 \<Rightarrow> nat" where
  "loop_count c = nat (sint c)"

definition prepare_ack_batch_size_calc :: "bytes \<Rightarrow> nat \<Rightarrow> nat res" where
  "prepare_ack_batch_size_calc b m =
     rbind (rd16 b (m + 2)) (\<lambda>c.
     rbind (walk (loop_count c) 16 24 b (m + sizeof_batch) 0) (\<lambda>off.
       Inr ((sizeof_batch + off) mod 2 ^ 64)))"

definition accept_req_batch_size_calc :: "bytes \<Rightarrow> nat \<Rightarrow> nat res" where
  "accept_req_batch_size_calc b m =
     rbind (rd16 b m) (\<lambda>c.
     rbind (walk (loop_count c) 8 16 b (m + sizeof_batch) 0) (\<lambda>off.
       Inr ((sizeof_batch + off) mod 2 ^ 64)))"

definition accept_ack_batch_size_calc :: "bytes \<Rightarrow> nat \<Rightarrow> nat res" where
  "accept_ack_batch_size_calc b m =
     rbind (rd16 b (m + 2)) (\<lambda>c.
     rbind (walk (loop_count c) 16 24 b (m + sizeof_batch) 0) (\<lambda>off.
       Inr ((sizeof_batch + off) mod 2 ^ 64)))"

text \<open>\<^verbatim>\<open>PREPARE_REQ_BATCH_SIZE\<close> and \<^verbatim>\<open>REPEAT_REQ_BATCH_SIZE\<close>, where the count is
  converted to \<^verbatim>\<open>size_t\<close>.\<close>

definition fixed_batch_size :: "nat \<Rightarrow> u16 \<Rightarrow> nat" where
  "fixed_batch_size n c = nat ((int sizeof_batch + sint c * int n) mod 2 ^ 64)"

section \<open>Validation\<close>

text \<open>
  \<^verbatim>\<open>validate_paxos_msg\<close> on the buffer of the receiver and the size received. The type selects
  the check of the sender's id and the computation of \<^verbatim>\<open>expected_size\<close>; every case leaves
  the switch before the comparison of that size with the size received, which stands after the
  \<^verbatim>\<open>default\<close> case, so the computed size is not used.
\<close>

definition validate_paxos_msg :: "bytes \<Rightarrow> nat \<Rightarrow> int res" where
  "validate_paxos_msg b msg_size =
     rbind (rd64 b 0) (\<lambda>data_size.
     if (data_size + sizeof_paxos_msg) mod 2 ^ 64 \<noteq> msg_size then Inr (- 1)
     else rbind (rd32 b 8) (\<lambda>ty.
       case decode_code ty of
         None \<Rightarrow> Inr (- 1)
       | Some prepare_reqs \<Rightarrow>
           rbind (rd16 b (offsetof_data + 2)) (\<lambda>i.
             if sint i < 0 \<or> sint i \<ge> int MAX_N_OF_PROPOSERS then Inr (- 1)
             else rbind (rd16 b offsetof_data) (\<lambda>c.
               let expected_size = sizeof_paxos_msg + fixed_batch_size 8 c in Inr 0))
       | Some prepare_acks \<Rightarrow>
           rbind (rd16 b offsetof_data) (\<lambda>i.
             if sint i < 0 \<or> sint i \<ge> int N_OF_ACCEPTORS then Inr (- 1)
             else rbind (prepare_ack_batch_size_calc b offsetof_data) (\<lambda>n.
               let expected_size = sizeof_paxos_msg + n in Inr 0))
       | Some accept_reqs \<Rightarrow>
           rbind (rd16 b (offsetof_data + 2)) (\<lambda>i.
             if sint i < 0 \<or> sint i \<ge> int MAX_N_OF_PROPOSERS then Inr (- 1)
             else rbind (accept_req_batch_size_calc b offsetof_data) (\<lambda>n.
               let expected_size = sizeof_paxos_msg + n in Inr 0))
       | Some accept_acks \<Rightarrow>
           rbind (rd16 b offsetof_data) (\<lambda>i.
             if sint i < 0 \<or> sint i \<ge> int N_OF_ACCEPTORS then Inr (- 1)
             else rbind (accept_ack_batch_size_calc b offsetof_data) (\<lambda>n.
               let expected_size = sizeof_paxos_msg + n in Inr 0))
       | Some repeat_reqs \<Rightarrow>
           rbind (rd16 b offsetof_data) (\<lambda>c.
             let expected_size = sizeof_paxos_msg + fixed_batch_size 4 c in Inr 0)
       | Some submit \<Rightarrow> let expected_size = sizeof_paxos_msg + data_size in Inr 0
       | Some alive_ping \<Rightarrow> let expected_size = sizeof_paxos_msg + 16 in Inr 0
       | Some leader_announce \<Rightarrow> let expected_size = sizeof_paxos_msg + 2 in Inr 0))"

text \<open>
  \<^verbatim>\<open>udp_read_next_message\<close>: \<open>None\<close> is an error of \<^verbatim>\<open>recvfrom\<close>. The result is the
  return value and the new content of the receive buffer.
\<close>

definition udp_read_next_message :: "bytes \<Rightarrow> bytes option \<Rightarrow> (int \<times> bytes) res" where
  "udp_read_next_message recv_buffer dgram =
     (case dgram of
        None \<Rightarrow> Inr (- 1, recv_buffer)
      | Some d \<Rightarrow>
          let n = min (length d) MAX_UDP_MSG_SIZE; b = take n d @ drop n recv_buffer
          in rbind (validate_paxos_msg b n) (\<lambda>v. Inr (v, b)))"

section \<open>Reading the entries of a batch\<close>

text \<open>
  The loops of the handlers: \<open>n\<close> entries from the offset \<open>off\<close>, each read by
  \<open>rd\<close>, the next one \<open>sz\<close> bytes further.
\<close>

fun read_entries :: "(bytes \<Rightarrow> nat \<Rightarrow> 'e res) \<Rightarrow> ('e \<Rightarrow> nat) \<Rightarrow> nat \<Rightarrow> bytes \<Rightarrow> nat \<Rightarrow> 'e list res" where
  "read_entries rd sz 0 b off = Inr []"
| "read_entries rd sz (Suc n) b off =
     rbind (rd b off) (\<lambda>x. rbind (read_entries rd sz n b (off + sz x)) (\<lambda>xs. Inr (x # xs)))"

definition read_prepare_reqs :: "bytes \<Rightarrow> prepare_req list res" where
  "read_prepare_reqs b = rbind (rd16 b offsetof_data) (\<lambda>c.
     read_entries rd_prepare_req (\<lambda>_. 8) (loop_count c) b (offsetof_data + sizeof_batch))"

definition read_prepare_acks :: "bytes \<Rightarrow> prepare_ack list res" where
  "read_prepare_acks b = rbind (rd16 b (offsetof_data + 2)) (\<lambda>c.
     read_entries rd_prepare_ack PREPARE_ACK_SIZE (loop_count c) b (offsetof_data + sizeof_batch))"

definition read_accept_reqs :: "bytes \<Rightarrow> accept_req list res" where
  "read_accept_reqs b = rbind (rd16 b offsetof_data) (\<lambda>c.
     read_entries rd_accept_req ACCEPT_REQ_SIZE (loop_count c) b (offsetof_data + sizeof_batch))"

definition read_accept_acks :: "bytes \<Rightarrow> accept_ack list res" where
  "read_accept_acks b = rbind (rd16 b (offsetof_data + 2)) (\<lambda>c.
     read_entries rd_accept_ack ACCEPT_ACK_SIZE (loop_count c) b (offsetof_data + sizeof_batch))"

definition read_repeat_reqs :: "bytes \<Rightarrow> iid_t list res" where
  "read_repeat_reqs b = rbind (rd16 b offsetof_data) (\<lambda>c.
     read_entries rd32 (\<lambda>_. 4) (loop_count c) b (offsetof_data + sizeof_batch))"

end
