(* ===== verification/Transport.thy ===== *)
theory Transport
  imports Receiver
begin

text \<open>
  What the two ends of a link promise together: the entries added to a send buffer arrive, in
  order, in the batches the receiver reads. The contract of a kind of batch is the locale
  \<open>batch_link\<close>; it is interpreted for the five kinds of libpaxos.
\<close>

section \<open>The content of a buffer that holds a batch\<close>

definition batch_header :: "nat \<Rightarrow> nat \<Rightarrow> u16 \<Rightarrow> bytes" where
  "batch_header coff n i =
     (if coff = 0 then enc16 (word_of_nat n) @ enc16 i else enc16 i @ enc16 (word_of_nat n))"

definition total :: "('e \<Rightarrow> bytes) \<Rightarrow> 'e list \<Rightarrow> nat" where
  "total enc xs = length (concat (map enc xs))"

definition batch_bytes ::
  "paxos_msg_code \<Rightarrow> nat \<Rightarrow> ('e \<Rightarrow> bytes) \<Rightarrow> u16 \<Rightarrow> 'e list \<Rightarrow> bytes" where
  "batch_bytes type coff enc i xs =
     enc64 (sizeof_batch + total enc xs) @ enc32 (msg_code type) @ batch_header coff (length xs) i
       @ concat (map enc xs)"

definition batch_holds ::
  "paxos_msg_code \<Rightarrow> nat \<Rightarrow> ('e \<Rightarrow> bytes) \<Rightarrow> u16 \<Rightarrow> 'e list \<Rightarrow> udp_send_buffer \<Rightarrow> bool" where
  "batch_holds type coff enc i xs sb \<longleftrightarrow>
     (\<exists>rest. sb_buffer sb = batch_bytes type coff enc i xs @ rest)
     \<and> length (sb_buffer sb) = MAX_UDP_MSG_SIZE \<and> sb_dirty sb = (xs \<noteq> [])"

text \<open>A datagram that carries a batch: its bytes and four bytes of what follows in the buffer.\<close>

definition carries ::
  "paxos_msg_code \<Rightarrow> nat \<Rightarrow> ('e \<Rightarrow> bytes) \<Rightarrow> (u16 \<Rightarrow> bool) \<Rightarrow> ('e \<Rightarrow> bool) \<Rightarrow> bytes \<Rightarrow> 'e list \<Rightarrow> bool" where
  "carries type coff enc idok valid d xs \<longleftrightarrow>
     (\<exists>i tail. idok i \<and> length tail = 4 \<and> list_all valid xs
        \<and> total enc xs + 20 \<le> MAX_UDP_MSG_SIZE \<and> d = batch_bytes type coff enc i xs @ tail)"

text \<open>
  The entries \<open>es\<close> added so far: those of the datagrams in the trace, then those the buffer
  still holds.
\<close>

definition sent_held ::
  "paxos_msg_code \<Rightarrow> nat \<Rightarrow> ('e \<Rightarrow> bytes) \<Rightarrow> (u16 \<Rightarrow> bool) \<Rightarrow> ('e \<Rightarrow> bool) \<Rightarrow>
     udp_send_buffer \<Rightarrow> io_event list \<Rightarrow> 'e list \<Rightarrow> bool" where
  "sent_held type coff enc idok valid sb evs es \<longleftrightarrow>
     (\<exists>i ys bss. idok i \<and> batch_holds type coff enc i ys sb \<and> list_all valid ys
        \<and> total enc ys + 20 \<le> MAX_UDP_MSG_SIZE
        \<and> list_all2 (carries type coff enc idok valid) (datagrams evs) bss \<and> concat bss @ ys = es)"

text \<open>A receiver that reads datagrams one after the other and drops the invalid ones.\<close>

fun receive_all :: "(bytes \<Rightarrow> 'e list res) \<Rightarrow> bytes \<Rightarrow> bytes list \<Rightarrow> 'e list res" where
  "receive_all rdall b [] = Inr []"
| "receive_all rdall b (d # ds) =
     rbind (udp_read_next_message b (Some d)) (\<lambda>(v, b').
       if v < 0 then receive_all rdall b' ds
       else rbind (rdall b') (\<lambda>xs. rbind (receive_all rdall b' ds) (\<lambda>ys. Inr (xs @ ys))))"

lemma total_simps [simp]:
  "total enc [] = 0" "total enc (xs @ [x]) = total enc xs + length (enc x)"
  "total enc (x # xs) = length (enc x) + total enc xs"
  by (simp_all add: total_def)

lemma length_batch_header [simp]: "length (batch_header coff n i) = 4"
  by (simp add: batch_header_def)

lemma length_batch_bytes [simp]: "length (batch_bytes type coff enc i xs) = 16 + total enc xs"
  by (simp add: batch_bytes_def total_def)

lemma rd_batch_header [mem_simps]:
  "coff = 0 \<or> coff = 2 \<Longrightarrow> rd16 (batch_header coff n i @ c) coff = Inr (word_of_nat n)"
  "coff = 0 \<Longrightarrow> rd16 (batch_header coff n i @ c) 2 = Inr i"
  "coff = 2 \<Longrightarrow> rd16 (batch_header coff n i @ c) 0 = Inr i"
  by (auto simp: batch_header_def mem_simps)

lemma wr_batch_header [mem_simps]:
  "coff = 0 \<or> coff = 2 \<Longrightarrow>
     mwrite (batch_header coff n i @ c) coff (enc16 (word_of_nat n + 1))
       = Inr (batch_header coff (Suc n) i @ c)"
  by (auto simp: batch_header_def mem_simps add.commute)

lemma sb_write_eq: "mwrite (sb_buffer sb) off bs = Inr b \<Longrightarrow> sb_write sb off bs = Inr (sb\<lparr>sb_buffer := b\<rparr>)"
  by (simp add: sb_write_def)

section \<open>The contract of a kind of batch\<close>

locale batch_link =
  fixes type :: paxos_msg_code and coff :: nat and ioff :: "nat option" and tx :: bool
    and pos :: "nat \<Rightarrow> nat \<Rightarrow> nat" and enc :: "'e \<Rightarrow> bytes"
    and rd :: "bytes \<Rightarrow> nat \<Rightarrow> 'e res" and sz :: "'e \<Rightarrow> nat"
    and valid :: "'e \<Rightarrow> bool" and idok :: "u16 \<Rightarrow> bool"
  assumes offsets: "coff = 0 \<and> (ioff = Some 2 \<or> ioff = None) \<or> coff = 2 \<and> ioff = Some 0"
    and clear: "length (sb_buffer sb) = MAX_UDP_MSG_SIZE \<Longrightarrow> ioff = None \<or> idok i \<Longrightarrow>
      \<exists>sb' i'. sendbuf_clear sb type i = Inr sb' \<and> sb_addr sb' = sb_addr sb \<and> idok i'
         \<and> batch_holds type coff enc i' [] sb'"
    and enc_min: "4 \<le> length (enc x)"
    and enc_max: "valid x \<Longrightarrow> length (enc x) + 20 \<le> MAX_UDP_MSG_SIZE"
    and pos_end: "pos (sizeof_batch + total enc xs) (length xs) = sizeof_batch + total enc xs"
    and rd_enc: "valid x \<Longrightarrow> rd (enc x @ c) 0 = Inr x"
    and rd_skip: "length y \<le> off \<Longrightarrow> rd (y @ b) off = rd b (off - length y)"
    and sz_enc: "sz x = length (enc x)"
    and validate: "idok i \<Longrightarrow> list_all valid xs \<Longrightarrow> total enc xs + 20 \<le> MAX_UDP_MSG_SIZE \<Longrightarrow>
      length xs < 2 ^ 15 \<Longrightarrow>
      validate_paxos_msg (batch_bytes type coff enc i xs @ rest) (total enc xs + 20) = Inr 0"
begin

lemma length_le_total: "4 * length xs \<le> total enc xs"
proof (induction xs)
  case (Cons x xs)
  then show ?case using enc_min [of x] by simp
qed simp

lemma read_entries_enc:
  "list_all valid xs \<Longrightarrow> length a = off \<Longrightarrow>
     read_entries rd sz (length xs) (a @ concat (map enc xs) @ c) off = Inr xs"
proof (induction xs arbitrary: a off)
  case Nil
  then show ?case by simp
next
  case (Cons x xs)
  have "rd (a @ concat (map enc (x # xs)) @ c) off = Inr x"
    using Cons.prems rd_skip [of a off] rd_enc [of x] by simp
  moreover have "read_entries rd sz (length xs) ((a @ enc x) @ concat (map enc xs) @ c) (off + sz x)
      = Inr xs"
    using Cons.prems by (intro Cons.IH) (simp_all add: sz_enc)
  ultimately show ?case by simp
qed

lemma batch_put_holds:
  assumes h: "batch_holds type coff enc i xs sb"
    and fit: "total enc xs + length (enc x) + 16 \<le> MAX_UDP_MSG_SIZE"
  shows "\<exists>sb'. batch_put coff pos (enc x) sb = Inr sb'
    \<and> sb_addr sb' = sb_addr sb \<and> batch_holds type coff enc i (xs @ [x]) sb'"
proof -
  obtain rest where buf: "sb_buffer sb = batch_bytes type coff enc i xs @ rest"
    and len: "length (sb_buffer sb) = MAX_UDP_MSG_SIZE"
    using h by (auto simp: batch_holds_def)
  let ?n = "length (enc x)"
  obtain old rest' where rest: "rest = old @ rest'" "length old = ?n"
  proof
    show "rest = take ?n rest @ drop ?n rest" by simp
    show "length (take ?n rest) = ?n" using buf len fit by (simp add: config_defs)
  qed
  have small: "sizeof_batch + total enc xs < 2 ^ 64" "length xs < 2 ^ 16"
    using fit length_le_total [of xs] by (simp_all add: config_defs layout_defs)
  have cnt: "unat (word_of_nat (length xs) :: u16) = length xs"
    using small(2) by (simp add: unat_of_nat)
  have coff: "coff = 0 \<or> coff = 2" using offsets by auto
  show ?thesis
    using fit buf len coff small
    by (auto simp: batch_put_def sb_data_size_def sb_write_def batch_bytes_def layout_defs
        mem_simps cnt rest config_defs batch_holds_def pos_end [unfolded layout_defs]
        total_def [symmetric] add.assoc)
qed

lemma flush_holds:
  assumes h: "batch_holds type coff enc i xs sb" "idok i" "list_all valid xs"
    and fit: "total enc xs + 20 \<le> MAX_UDP_MSG_SIZE"
  shows "xs = [] \<and> sendbuf_flush sb = Inr []
    \<or> (\<exists>d. sendbuf_flush sb = Inr [Send (sb_addr sb) d] \<and> carries type coff enc idok valid d xs)"
proof (cases "xs = []")
  case True
  then show ?thesis using h by (simp add: sendbuf_flush_def batch_holds_def)
next
  case False
  obtain rest where buf: "sb_buffer sb = batch_bytes type coff enc i xs @ rest"
    and len: "length (sb_buffer sb) = MAX_UDP_MSG_SIZE" and d: "sb_dirty sb"
    using h False by (auto simp: batch_holds_def)
  have ds: "sb_data_size sb = Inr (sizeof_batch + total enc xs)"
    using fit by (simp add: sb_data_size_def buf batch_bytes_def mem_simps config_defs layout_defs)
  have "mread (sb_buffer sb) 0 (sizeof_batch + total enc xs + sizeof_paxos_msg)
      = Inr (batch_bytes type coff enc i xs @ take 4 rest)"
    using len fit by (simp add: mread_def buf layout_defs config_defs)
  moreover have "length (take 4 rest) = 4" using buf len fit by (simp add: config_defs)
  ultimately show ?thesis using d ds h fit unfolding carries_def sendbuf_flush_def
    by auto
qed

lemma batch_append_holds:
  assumes h: "batch_holds type coff enc i xs sb" "idok i" "list_all valid xs" "valid x"
    and fit: "total enc xs + 20 \<le> MAX_UDP_MSG_SIZE"
  shows "\<exists>sb' evs i' ys bss. batch_append type coff ioff tx pos (enc x) sb = Inr (sb', evs)
    \<and> sb_addr sb' = sb_addr sb \<and> idok i'
    \<and> batch_holds type coff enc i' ys sb' \<and> list_all valid ys
    \<and> total enc ys + 20 \<le> MAX_UDP_MSG_SIZE
    \<and> list_all2 (carries type coff enc idok valid) (datagrams evs) bss \<and> concat bss @ ys = xs @ [x]"
proof -
  obtain rest where buf: "sb_buffer sb = batch_bytes type coff enc i xs @ rest"
    and len: "length (sb_buffer sb) = MAX_UDP_MSG_SIZE"
    using h by (auto simp: batch_holds_def)
  have hdr: "rd32 (sb_buffer sb) 8 = Inr (msg_code type)"
    "sb_data_size sb = Inr (sizeof_batch + total enc xs)"
    using fit by (simp_all add: sb_data_size_def buf batch_bytes_def mem_simps config_defs layout_defs)
  show ?thesis
  proof (cases "total enc xs + length (enc x) + 20 < MAX_UDP_MSG_SIZE")
    case True
    then obtain sb' where put: "batch_put coff pos (enc x) sb = Inr sb'" "sb_addr sb' = sb_addr sb"
        "batch_holds type coff enc i (xs @ [x]) sb'"
      using batch_put_holds [OF h(1), of x] by auto
    have "batch_append type coff ioff tx pos (enc x) sb = Inr (sb', [])"
      using True hdr put by (simp add: batch_append_def layout_defs)
    then show ?thesis using put h True
      by (intro exI [of _ sb'] exI [of _ "[]"] exI [of _ i] exI [of _ "xs @ [x]"]) simp
  next
    case False
    obtain d where fl: "sendbuf_flush sb = Inr d"
      and d: "\<exists>bss. list_all2 (carries type coff enc idok valid) (datagrams d) bss \<and> concat bss = xs"
      using flush_holds [OF h(1-3) fit]
      by (fastforce intro: exI [of _ "[]"] exI [of _ "[xs]"])
    have "\<exists>j. (case ioff of None \<Rightarrow> Inr (- 1)
        | Some off \<Rightarrow> rd16 (sb_buffer sb) (offsetof_data + off)) = Inr j \<and> (ioff = None \<or> idok j)"
      using offsets h(2) by (auto simp: buf batch_bytes_def mem_simps layout_defs)
    then obtain j where j: "(case ioff of None \<Rightarrow> Inr (- 1)
        | Some off \<Rightarrow> rd16 (sb_buffer sb) (offsetof_data + off)) = Inr j" "ioff = None \<or> idok j"
      by blast
    obtain sb1 i' where cl: "sendbuf_clear sb type j = Inr sb1" "sb_addr sb1 = sb_addr sb" "idok i'"
        "batch_holds type coff enc i' [] sb1"
      using clear [OF len j(2)] by blast
    obtain sb2 where put: "batch_put coff pos (enc x) sb1 = Inr sb2" "sb_addr sb2 = sb_addr sb1"
        "batch_holds type coff enc i' [x] sb2"
      using batch_put_holds [OF cl(4), of x] enc_max [OF h(4)] by auto
    have "batch_append type coff ioff tx pos (enc x) sb =
        Inr (sb2, (if tx then [TxEnd] else []) @ d @ (if tx then [TxBegin] else []))"
      using False hdr fl j cl put by (simp add: batch_append_def layout_defs)
    then show ?thesis using put cl d h(4) enc_max [OF h(4)]
      by (intro exI [of _ sb2] exI [of _ "(if tx then [TxEnd] else []) @ d @ (if tx then [TxBegin] else [])"]
          exI [of _ i'] exI [of _ "[x]"]) auto
  qed
qed

lemma clear_held:
  assumes "length (sb_buffer sb) = MAX_UDP_MSG_SIZE" "ioff = None \<or> idok i"
  shows "\<exists>sb'. sendbuf_clear sb type i = Inr sb' \<and> sent_held type coff enc idok valid sb' [] []"
  using clear [OF assms] unfolding sent_held_def by (fastforce simp: config_defs)

lemma held_length:
  "sent_held type coff enc idok valid sb evs es \<Longrightarrow> length (sb_buffer sb) = MAX_UDP_MSG_SIZE"
  by (auto simp: sent_held_def batch_holds_def)

lemma held_silent:
  "sent_held type coff enc idok valid sb evs es \<Longrightarrow> datagrams evs' = [] \<Longrightarrow>
     sent_held type coff enc idok valid sb (evs @ evs') es"
  by (simp add: sent_held_def)

lemma append_held:
  assumes "sent_held type coff enc idok valid sb evs es" "valid x"
  shows "\<exists>sb' evs'. batch_append type coff ioff tx pos (enc x) sb = Inr (sb', evs')
    \<and> sent_held type coff enc idok valid sb' (evs @ evs') (es @ [x])"
proof -
  obtain i ys bss where 1: "idok i" "batch_holds type coff enc i ys sb" "list_all valid ys"
      "total enc ys + 20 \<le> MAX_UDP_MSG_SIZE"
      "list_all2 (carries type coff enc idok valid) (datagrams evs) bss" "concat bss @ ys = es"
    using assms(1) unfolding sent_held_def by blast
  obtain sb' evs' i' ys' bss' where 2: "batch_append type coff ioff tx pos (enc x) sb = Inr (sb', evs')"
      "idok i'" "batch_holds type coff enc i' ys' sb'" "list_all valid ys'"
      "total enc ys' + 20 \<le> MAX_UDP_MSG_SIZE"
      "list_all2 (carries type coff enc idok valid) (datagrams evs') bss'"
      "concat bss' @ ys' = ys @ [x]"
    using batch_append_holds [OF 1(2,1,3) assms(2) 1(4)] by blast
  have "concat (bss @ bss') @ ys' = es @ [x]" using 1(6) 2(7) by auto
  moreover have "list_all2 (carries type coff enc idok valid) (datagrams (evs @ evs')) (bss @ bss')"
    using 1(5) 2(6) by (simp add: list_all2_appendI)
  ultimately show ?thesis using 2(1-5) unfolding sent_held_def by blast
qed

lemma flush_held:
  assumes "sent_held type coff enc idok valid sb evs es"
  shows "\<exists>evs' bss. sendbuf_flush sb = Inr evs'
    \<and> list_all2 (carries type coff enc idok valid) (datagrams (evs @ evs')) bss \<and> concat bss = es"
proof -
  obtain i ys bss where 1: "idok i" "batch_holds type coff enc i ys sb" "list_all valid ys"
      "total enc ys + 20 \<le> MAX_UDP_MSG_SIZE"
      "list_all2 (carries type coff enc idok valid) (datagrams evs) bss" "concat bss @ ys = es"
    using assms(1) unfolding sent_held_def by blast
  from flush_holds [OF 1(2,1,3,4)] show ?thesis
  proof
    assume "ys = [] \<and> sendbuf_flush sb = Inr []"
    then show ?thesis using 1(5,6) by auto
  next
    assume "\<exists>d. sendbuf_flush sb = Inr [Send (sb_addr sb) d]
      \<and> carries type coff enc idok valid d ys"
    then obtain d where d: "sendbuf_flush sb = Inr [Send (sb_addr sb) d]"
      "carries type coff enc idok valid d ys" by blast
    with 1(5,6) show ?thesis
      by (intro exI [of _ "[Send (sb_addr sb) d]"] exI [of _ "bss @ [ys]"])
        (simp add: list_all2_appendI)
  qed
qed

lemma add_all_held:
  assumes "sent_held type coff enc idok valid sb evs0 es0" "list_all valid es"
  shows "\<exists>sb' evs.
    add_all (\<lambda>sb x. batch_append type coff ioff tx pos (enc x) sb) sb es = Inr (sb', evs)
    \<and> sent_held type coff enc idok valid sb' (evs0 @ evs) (es0 @ es)"
  using assms
proof (induction es arbitrary: sb evs0 es0)
  case Nil
  then show ?case by simp
next
  case (Cons e es)
  obtain sb1 ev1 where 1: "batch_append type coff ioff tx pos (enc e) sb = Inr (sb1, ev1)"
      "sent_held type coff enc idok valid sb1 (evs0 @ ev1) (es0 @ [e])"
    using append_held [OF Cons.prems(1), of e] Cons.prems(2) by auto
  then show ?case using Cons.IH [OF 1(2)] Cons.prems(2) by fastforce
qed

lemma send_batch_carries:
  assumes "length (sb_buffer sb) = MAX_UDP_MSG_SIZE" "ioff = None \<or> idok i" "list_all valid es"
  shows "\<exists>sb' evs bss.
    send_batch type (\<lambda>sb x. batch_append type coff ioff tx pos (enc x) sb) sb i es = Inr (sb', evs)
    \<and> list_all2 (carries type coff enc idok valid) (datagrams evs) bss \<and> concat bss = es
    \<and> length (sb_buffer sb') = MAX_UDP_MSG_SIZE"
proof -
  obtain sb1 where cl: "sendbuf_clear sb type i = Inr sb1" "sent_held type coff enc idok valid sb1 [] []"
    using clear_held [OF assms(1,2)] by blast
  obtain sb2 ev where a: "add_all (\<lambda>sb x. batch_append type coff ioff tx pos (enc x) sb) sb1 es = Inr (sb2, ev)"
      "sent_held type coff enc idok valid sb2 ev es"
    using add_all_held [OF cl(2) assms(3)] by auto
  show ?thesis using flush_held [OF a(2)] held_length [OF a(2)] cl(1) a(1) by (auto simp: send_batch_def)
qed

lemma carries_length: "carries type coff enc idok valid d xs \<Longrightarrow> length d \<le> MAX_UDP_MSG_SIZE"
  by (auto simp: carries_def)

lemma receive_carries:
  assumes c: "carries type coff enc idok valid d xs" and old: "length old = MAX_UDP_MSG_SIZE"
  shows "\<exists>b. udp_read_next_message old (Some d) = Inr (0, b) \<and> length b = MAX_UDP_MSG_SIZE
    \<and> rbind (rd16 b (offsetof_data + coff)) (\<lambda>c.
        read_entries rd sz (loop_count c) b (offsetof_data + sizeof_batch)) = Inr xs"
proof -
  obtain i tail where d: "idok i" "length tail = 4" "list_all valid xs"
    "total enc xs + 20 \<le> MAX_UDP_MSG_SIZE" "d = batch_bytes type coff enc i xs @ tail"
    using c by (auto simp: carries_def)
  let ?b = "batch_bytes type coff enc i xs @ tail @ drop (length d) old"
  have len: "length d = total enc xs + 20" using d by simp
  have cnt: "length xs < 2 ^ 15" using length_le_total [of xs] d(4) by (simp add: config_defs)
  have lc: "loop_count (word_of_nat (length xs)) = length xs"
    using cnt by (simp add: loop_count_def signed_of_nat signed_take_bit_int_eq_self)
  have v: "validate_paxos_msg ?b (length d) = Inr 0"
    using validate [OF d(1,3,4) cnt] by (simp add: len)
  have "udp_read_next_message old (Some d) = Inr (0, ?b)"
    using v d(4,5) len by (simp add: udp_read_next_message_def Let_def min_def)
  moreover have "length ?b = MAX_UDP_MSG_SIZE" using d len old by simp
  moreover have "rd16 ?b (offsetof_data + coff) = Inr (word_of_nat (length xs))"
    using offsets by (auto simp: batch_bytes_def mem_simps layout_defs)
  moreover have "read_entries rd sz (length xs) ?b (offsetof_data + sizeof_batch) = Inr xs"
    using read_entries_enc [OF d(3), of "enc64 (sizeof_batch + total enc xs) @ enc32 (msg_code type)
        @ batch_header coff (length xs) i" 16 "tail @ drop (length d) old"]
    by (simp add: batch_bytes_def layout_defs)
  ultimately show ?thesis by (simp add: lc)
qed

lemma receive_type:
  assumes "carries type coff enc idok valid d xs" "length old = MAX_UDP_MSG_SIZE"
    "udp_read_next_message old (Some d) = Inr (v, b)"
  shows "rd32 b 8 = Inr (msg_code type)"
proof -
  obtain i tail where d: "total enc xs + 20 \<le> MAX_UDP_MSG_SIZE" "length tail = 4"
      "d = batch_bytes type coff enc i xs @ tail"
    using assms(1) by (auto simp: carries_def)
  have "b = d @ drop (length d) old"
    using assms(3) d by (auto simp: udp_read_next_message_def Let_def min_def res_eq_Inr)
  then show ?thesis by (simp add: d(3) batch_bytes_def mem_simps)
qed

lemma receive_all_carries:
  assumes "list_all2 (carries type coff enc idok valid) ds bss" "length old = MAX_UDP_MSG_SIZE"
  shows "receive_all (\<lambda>b. rbind (rd16 b (offsetof_data + coff)) (\<lambda>c.
      read_entries rd sz (loop_count c) b (offsetof_data + sizeof_batch))) old ds = Inr (concat bss)"
  using assms
proof (induction arbitrary: old rule: list_all2_induct)
  case Nil
  then show ?case by simp
next
  case (Cons d ds xs bss)
  obtain b where b: "udp_read_next_message old (Some d) = Inr (0, b)" "length b = MAX_UDP_MSG_SIZE"
    "rbind (rd16 b (offsetof_data + coff)) (\<lambda>c.
        read_entries rd sz (loop_count c) b (offsetof_data + sizeof_batch)) = Inr xs"
    using receive_carries [OF Cons.hyps(1) Cons.prems] by blast
  then show ?case using Cons.IH [OF b(2)] by simp
qed

theorem link_delivers:
  assumes "length (sb_buffer sb) = MAX_UDP_MSG_SIZE" "ioff = None \<or> idok i" "list_all valid es"
    and "length old = MAX_UDP_MSG_SIZE"
  shows "\<exists>sb' evs.
    send_batch type (\<lambda>sb x. batch_append type coff ioff tx pos (enc x) sb) sb i es = Inr (sb', evs)
    \<and> (\<forall>d \<in> set (datagrams evs). length d \<le> MAX_UDP_MSG_SIZE)
    \<and> receive_all (\<lambda>b. rbind (rd16 b (offsetof_data + coff)) (\<lambda>c.
        read_entries rd sz (loop_count c) b (offsetof_data + sizeof_batch))) old (datagrams evs) = Inr es"
proof -
  obtain sb' evs bss where s:
    "send_batch type (\<lambda>sb x. batch_append type coff ioff tx pos (enc x) sb) sb i es = Inr (sb', evs)"
    "list_all2 (carries type coff enc idok valid) (datagrams evs) bss" "concat bss = es"
    using send_batch_carries [OF assms(1-3)] by blast
  have "\<forall>d \<in> set (datagrams evs). length d \<le> MAX_UDP_MSG_SIZE"
    using s(2) by (metis carries_length in_set_conv_nth list_all2_conv_all_nth)
  with s receive_all_carries [OF s(2) assms(4)] show ?thesis by blast
qed

end

section \<open>The batches of libpaxos\<close>

definition acceptor_id_ok :: "u16 \<Rightarrow> bool" where
  "acceptor_id_ok i \<longleftrightarrow> 0 \<le> sint i \<and> sint i < int N_OF_ACCEPTORS"

definition proposer_id_ok :: "u16 \<Rightarrow> bool" where
  "proposer_id_ok i \<longleftrightarrow> 0 \<le> sint i \<and> sint i < int MAX_N_OF_PROPOSERS"

lemma walk_entries:
  assumes "\<And>x c. x \<in> set xs \<Longrightarrow> rd64 (enc x @ c) vs_off = Inr (length (enc x) - hdr)"
    and "\<And>x. hdr \<le> length (enc x)" and "off + total enc xs < 2 ^ 64" and "length a = base + off"
  shows "walk (length xs) vs_off hdr (a @ concat (map enc xs) @ c) base off = Inr (off + total enc xs)"
  using assms(1,3,4)
proof (induction xs arbitrary: a off)
  case Nil
  then show ?case by simp
next
  case (Cons x xs)
  have "rd64 (a @ concat (map enc (x # xs)) @ c) (base + off + vs_off) = Inr (length (enc x) - hdr)"
    using Cons.prems(3) Cons.prems(1) [of x] by (simp add: mem_simps)
  moreover have "walk (length xs) vs_off hdr ((a @ enc x) @ concat (map enc xs) @ c) base
      (off + length (enc x)) = Inr (off + length (enc x) + total enc xs)"
    by (rule Cons.IH) (use Cons.prems in auto)
  ultimately show ?case using Cons.prems(2) assms(2) [of x] by simp
qed

lemma buffer_parts:
  assumes "length b = MAX_UDP_MSG_SIZE"
  obtains p q r s t where "b = p @ q @ r @ s @ t" "length p = 8" "length q = 4" "length r = 2"
    "length s = 2"
proof
  have split: "drop n b = take k (drop n b) @ drop (n + k) b" for n k
    using append_take_drop_id [of k "drop n b"] by (simp add: add.commute)
  show "b = take 8 b @ take 4 (drop 8 b) @ take 2 (drop 12 b) @ take 2 (drop 14 b) @ drop 16 b"
    using split [of 0 8] split [of 8 4] split [of 12 2] split [of 14 2] by simp
qed (use assms in \<open>simp_all add: config_defs\<close>)

lemma clear_holds:
  assumes len: "length (sb_buffer sb) = MAX_UDP_MSG_SIZE"
    and k: "type \<in> {prepare_reqs, accept_reqs} \<and> coff = 0 \<or> type \<in> {prepare_acks, accept_acks} \<and> coff = 2"
  shows "\<exists>sb'. sendbuf_clear sb type i = Inr sb' \<and> sb_addr sb' = sb_addr sb
    \<and> batch_holds type coff enc i [] sb'"
proof -
  obtain p q r s t where b: "sb_buffer sb = p @ q @ r @ s @ t" "length p = 8" "length q = 4"
    "length r = 2" "length s = 2"
    using buffer_parts [OF len] by blast
  then show ?thesis using len k
    by (auto simp: sendbuf_clear_def sb_write_def batch_holds_def batch_bytes_def batch_header_def
        layout_defs mem_simps)
qed

lemma clear_repeat_holds:
  assumes len: "length (sb_buffer sb) = MAX_UDP_MSG_SIZE"
  shows "\<exists>sb' i'. sendbuf_clear sb repeat_reqs i = Inr sb' \<and> sb_addr sb' = sb_addr sb
    \<and> batch_holds repeat_reqs 0 enc i' [] sb'"
proof -
  obtain p q r s t where b: "sb_buffer sb = p @ q @ r @ s @ t" "length p = 8" "length q = 4"
    "length r = 2" "length s = 2"
    using buffer_parts [OF len] by blast
  obtain s0 s1 where s: "s = [s0, s1]" using b(5) by (auto simp: numeral_2_eq_2 length_Suc_conv)
  define w :: u16 where "w = word_of_nat (unat s0 + 256 * unat s1)"
  have "unat s0 < 256" "unat s1 < 256" using unsigned_less [of s0] unsigned_less [of s1] by simp_all
  then have "unat w = unat s0 + 256 * unat s1"
    unfolding w_def by (subst unat_of_nat) simp
  with \<open>unat s0 < 256\<close> \<open>unat s1 < 256\<close> have "enc16 w = s"
    by (simp add: enc16_def s numeral_2_eq_2)
  then show ?thesis using len b(1-5)
    by (intro exI [of _ "sb\<lparr>sb_dirty := False, sb_buffer := enc64 4 @ enc32 (msg_code repeat_reqs)
          @ enc16 0 @ s @ t\<rparr>"] exI [of _ w])
      (auto simp: sendbuf_clear_def sb_write_def batch_holds_def batch_bytes_def batch_header_def
        layout_defs mem_simps)
qed

lemmas enc_defs = enc_prepare_req_def enc_prepare_ack_def enc_accept_req_def enc_accept_ack_def

lemma rd64_value_size [mem_simps]:
  "length (pa_value p) < 2 ^ 64 \<Longrightarrow> rd64 (enc_prepare_ack p @ c) 16 = Inr (length (pa_value p))"
  "length (ar_value r) < 2 ^ 64 \<Longrightarrow> rd64 (enc_accept_req r @ c) 8 = Inr (length (ar_value r))"
  "length (aa_value k) < 2 ^ 64 \<Longrightarrow> rd64 (enc_accept_ack k @ c) 16 = Inr (length (aa_value k))"
  by (simp_all add: enc_defs mem_simps)

lemma loop_count_of_nat: "n < 2 ^ 15 \<Longrightarrow> loop_count (word_of_nat n) = n"
  by (simp add: loop_count_def signed_of_nat signed_take_bit_int_eq_self)

lemma total_fixed: "(\<And>x. length (enc x) = k) \<Longrightarrow> total enc xs = k * length xs"
  by (induction xs) auto

lemma batch_bytes_reads [mem_simps]:
  assumes "coff = 0 \<or> coff = 2" "total enc xs + 20 \<le> MAX_UDP_MSG_SIZE"
  shows "rd64 (batch_bytes type coff enc i xs @ rest) 0 = Inr (4 + total enc xs)"
    "rd32 (batch_bytes type coff enc i xs @ rest) 8 = Inr (msg_code type)"
    "rd16 (batch_bytes type coff enc i xs @ rest) (12 + coff) = Inr (word_of_nat (length xs))"
    "rd16 (batch_bytes type coff enc i xs @ rest) (14 - coff) = Inr i"
  using assms by (auto simp: batch_bytes_def mem_simps layout_defs config_defs)

lemma walk_batch:
  assumes "\<And>x c. x \<in> set xs \<Longrightarrow> rd64 (enc x @ c) vs_off = Inr (length (enc x) - hdr)"
    and "\<And>x. hdr \<le> length (enc x)" and "total enc xs + 20 \<le> MAX_UDP_MSG_SIZE"
  shows "walk (length xs) vs_off hdr (batch_bytes type coff enc i xs @ rest) 16 0 = Inr (total enc xs)"
  using walk_entries [of xs enc vs_off hdr 0 "enc64 (sizeof_batch + total enc xs)
      @ enc32 (msg_code type) @ batch_header coff (length xs) i" 16 rest] assms
  by (simp add: batch_bytes_def config_defs)

interpretation prepare_req_link: batch_link prepare_reqs 0 "Some 2" False
  "\<lambda>ds c. sizeof_batch + 8 * c" enc_prepare_req rd_prepare_req "\<lambda>_. 8" "\<lambda>_. True" proposer_id_ok
proof (unfold_locales, goal_cases)
  case (2 sb i)
  then show ?case using clear_holds [of sb prepare_reqs 0 i enc_prepare_req] by auto
next
  case (9 i xs rest)
  then show ?case
    using batch_bytes_reads [of 0 enc_prepare_req xs prepare_reqs i rest]
    by (simp add: validate_paxos_msg_def decode_code_def layout_defs config_defs proposer_id_ok_def)
qed (simp_all add: config_defs total_fixed mem_simps)

interpretation repeat_req_link: batch_link repeat_reqs 0 None False
  "\<lambda>ds c. sizeof_batch + 4 * c" enc32 rd32 "\<lambda>_. 4" "\<lambda>_. True" "\<lambda>_. True"
proof (unfold_locales, goal_cases)
  case (2 sb i)
  then show ?case using clear_repeat_holds [of sb i enc32] by auto
next
  case (9 i xs rest)
  then show ?case
    using batch_bytes_reads [of 0 enc32 xs repeat_reqs i rest]
    by (simp add: validate_paxos_msg_def decode_code_def layout_defs config_defs)
qed (simp_all add: config_defs total_fixed mem_simps)

interpretation prepare_ack_link: batch_link prepare_acks 2 "Some 0" True
  "\<lambda>ds c. ds" enc_prepare_ack rd_prepare_ack PREPARE_ACK_SIZE
  "\<lambda>r. length (pa_value r) + 44 \<le> MAX_UDP_MSG_SIZE" acceptor_id_ok
proof (unfold_locales, goal_cases)
  case (2 sb i)
  then show ?case using clear_holds [of sb prepare_acks 2 i enc_prepare_ack] by auto
next
  case (9 i xs rest)
  have "walk (length xs) 16 24 (batch_bytes prepare_acks 2 enc_prepare_ack i xs @ rest) 16 0
      = Inr (total enc_prepare_ack xs)"
    using 9 by (intro walk_batch)
      (auto simp: mem_simps PREPARE_ACK_SIZE_def list_all_iff config_defs)
  with 9 show ?case
    using batch_bytes_reads [of 2 enc_prepare_ack xs prepare_acks i rest]
    by (simp add: validate_paxos_msg_def decode_code_def prepare_ack_batch_size_calc_def layout_defs config_defs
        acceptor_id_ok_def loop_count_of_nat)
qed (simp_all add: config_defs mem_simps PREPARE_ACK_SIZE_def)

interpretation accept_req_link: batch_link accept_reqs 0 "Some 2" False
  "\<lambda>ds c. ds" enc_accept_req rd_accept_req ACCEPT_REQ_SIZE
  "\<lambda>r. length (ar_value r) + 36 \<le> MAX_UDP_MSG_SIZE" proposer_id_ok
proof (unfold_locales, goal_cases)
  case (2 sb i)
  then show ?case using clear_holds [of sb accept_reqs 0 i enc_accept_req] by auto
next
  case (9 i xs rest)
  have "walk (length xs) 8 16 (batch_bytes accept_reqs 0 enc_accept_req i xs @ rest) 16 0
      = Inr (total enc_accept_req xs)"
    using 9 by (intro walk_batch)
      (auto simp: mem_simps ACCEPT_REQ_SIZE_def list_all_iff config_defs)
  with 9 show ?case
    using batch_bytes_reads [of 0 enc_accept_req xs accept_reqs i rest]
    by (simp add: validate_paxos_msg_def decode_code_def accept_req_batch_size_calc_def layout_defs config_defs
        proposer_id_ok_def loop_count_of_nat)
qed (simp_all add: config_defs mem_simps ACCEPT_REQ_SIZE_def)

interpretation accept_ack_link: batch_link accept_acks 2 "Some 0" True
  "\<lambda>ds c. ds" enc_accept_ack rd_accept_ack ACCEPT_ACK_SIZE
  "\<lambda>r. length (aa_value r) + 44 \<le> MAX_UDP_MSG_SIZE" acceptor_id_ok
proof (unfold_locales, goal_cases)
  case (2 sb i)
  then show ?case using clear_holds [of sb accept_acks 2 i enc_accept_ack] by auto
next
  case (9 i xs rest)
  have "walk (length xs) 16 24 (batch_bytes accept_acks 2 enc_accept_ack i xs @ rest) 16 0
      = Inr (total enc_accept_ack xs)"
    using 9 by (intro walk_batch)
      (auto simp: mem_simps ACCEPT_ACK_SIZE_def list_all_iff config_defs)
  with 9 show ?case
    using batch_bytes_reads [of 2 enc_accept_ack xs accept_acks i rest]
    by (simp add: validate_paxos_msg_def decode_code_def accept_ack_batch_size_calc_def layout_defs config_defs
        acceptor_id_ok_def loop_count_of_nat)
qed (simp_all add: config_defs mem_simps ACCEPT_ACK_SIZE_def)

section \<open>Properties\<close>

lemma sendbuf_adds_eq:
  "sendbuf_add_accept_ack =
     (\<lambda>sb x. batch_append accept_acks 2 (Some 0) True (\<lambda>ds c. ds) (enc_accept_ack x) sb)"
  "(\<lambda>sb r. sendbuf_add_accept_req sb (ar_iid r) (ar_ballot r) (ar_value r)) =
     (\<lambda>sb x. batch_append accept_reqs 0 (Some 2) False (\<lambda>ds c. ds) (enc_accept_req x) sb)"
  "(\<lambda>sb r. sendbuf_add_prepare_req sb (pr_iid r) (pr_ballot r)) =
     (\<lambda>sb x. batch_append prepare_reqs 0 (Some 2) False (\<lambda>ds c. sizeof_batch + 8 * c)
        (enc_prepare_req x) sb)"
  "sendbuf_add_repeat_req =
     (\<lambda>sb x. batch_append repeat_reqs 0 None False (\<lambda>ds c. sizeof_batch + 4 * c) (enc32 x) sb)"
  by (simp_all add: fun_eq_iff sendbuf_add_accept_ack_def sendbuf_add_accept_req_def
      sendbuf_add_prepare_req_def sendbuf_add_repeat_req_def enc_accept_req_def enc_prepare_req_def)

lemma read_batches_eq:
  "read_accept_acks = (\<lambda>b. rbind (rd16 b (offsetof_data + 2)) (\<lambda>c.
     read_entries rd_accept_ack ACCEPT_ACK_SIZE (loop_count c) b (offsetof_data + sizeof_batch)))"
  "read_accept_reqs = (\<lambda>b. rbind (rd16 b (offsetof_data + 0)) (\<lambda>c.
     read_entries rd_accept_req ACCEPT_REQ_SIZE (loop_count c) b (offsetof_data + sizeof_batch)))"
  "read_prepare_reqs = (\<lambda>b. rbind (rd16 b (offsetof_data + 0)) (\<lambda>c.
     read_entries rd_prepare_req (\<lambda>_. 8) (loop_count c) b (offsetof_data + sizeof_batch)))"
  "read_repeat_reqs = (\<lambda>b. rbind (rd16 b (offsetof_data + 0)) (\<lambda>c.
     read_entries rd32 (\<lambda>_. 4) (loop_count c) b (offsetof_data + sizeof_batch)))"
  by (simp_all add: fun_eq_iff read_accept_acks_def read_accept_reqs_def read_prepare_reqs_def
      read_repeat_reqs_def)

text \<open>C21. The accept acknowledgements an acceptor adds to its send buffer, each with a value of at
  most 7456 bytes, are sent in datagrams of at most 7500 bytes; a learner that receives these
  datagrams accepts every one of them and reads the same acknowledgements in the same order.\<close>

theorem accept_acks_delivered:
  assumes "length (sb_buffer sb) = MAX_UDP_MSG_SIZE" "length old = MAX_UDP_MSG_SIZE"
    and "acceptor_id_ok i" and "list_all (\<lambda>r. length (aa_value r) \<le> 7456) rs"
  shows "\<exists>sb' evs. send_batch accept_acks sendbuf_add_accept_ack sb i rs = Inr (sb', evs)
    \<and> (\<forall>d \<in> set (datagrams evs). length d \<le> MAX_UDP_MSG_SIZE)
    \<and> receive_all read_accept_acks old (datagrams evs) = Inr rs"
  using accept_ack_link.link_delivers [of sb i rs old] assms
  unfolding sendbuf_adds_eq read_batches_eq by (auto simp: config_defs)

theorem accept_acks_delivered_witness:
  "\<exists>sb' evs. send_batch accept_acks sendbuf_add_accept_ack (udp_sendbuf_new Learners) 1
      [\<lparr>aa_iid = 1, aa_ballot = 10, aa_value_ballot = 10, aa_is_final = 0, aa_value = [7, 8]\<rparr>,
       \<lparr>aa_iid = 2, aa_ballot = 20, aa_value_ballot = 20, aa_is_final = 0, aa_value = [9]\<rparr>] = Inr (sb', evs)
    \<and> (\<forall>d \<in> set (datagrams evs). length d \<le> MAX_UDP_MSG_SIZE)
    \<and> receive_all read_accept_acks (replicate MAX_UDP_MSG_SIZE 0) (datagrams evs) = Inr
      [\<lparr>aa_iid = 1, aa_ballot = 10, aa_value_ballot = 10, aa_is_final = 0, aa_value = [7, 8]\<rparr>,
       \<lparr>aa_iid = 2, aa_ballot = 20, aa_value_ballot = 20, aa_is_final = 0, aa_value = [9]\<rparr>]"
  by (rule accept_acks_delivered) (simp_all add: udp_sendbuf_new_def acceptor_id_ok_def config_defs)

text \<open>The same for the accept requests of a proposer, with values of at most 7464 bytes.\<close>

theorem accept_reqs_delivered:
  assumes "length (sb_buffer sb) = MAX_UDP_MSG_SIZE" "length old = MAX_UDP_MSG_SIZE"
    and "proposer_id_ok i" and "list_all (\<lambda>r. length (ar_value r) \<le> 7464) rs"
  shows "\<exists>sb' evs. send_batch accept_reqs
      (\<lambda>sb r. sendbuf_add_accept_req sb (ar_iid r) (ar_ballot r) (ar_value r)) sb i rs = Inr (sb', evs)
    \<and> (\<forall>d \<in> set (datagrams evs). length d \<le> MAX_UDP_MSG_SIZE)
    \<and> receive_all read_accept_reqs old (datagrams evs) = Inr rs"
  using accept_req_link.link_delivers [of sb i rs old] assms
  unfolding sendbuf_adds_eq read_batches_eq by (auto simp: config_defs)

theorem accept_reqs_delivered_witness:
  "\<exists>sb' evs. send_batch accept_reqs
      (\<lambda>sb r. sendbuf_add_accept_req sb (ar_iid r) (ar_ballot r) (ar_value r))
      (udp_sendbuf_new Acceptors) 0 [\<lparr>ar_iid = 1, ar_ballot = 10, ar_value = [7, 8]\<rparr>] = Inr (sb', evs)
    \<and> (\<forall>d \<in> set (datagrams evs). length d \<le> MAX_UDP_MSG_SIZE)
    \<and> receive_all read_accept_reqs (replicate MAX_UDP_MSG_SIZE 0) (datagrams evs)
      = Inr [\<lparr>ar_iid = 1, ar_ballot = 10, ar_value = [7, 8]\<rparr>]"
  by (rule accept_reqs_delivered) (simp_all add: udp_sendbuf_new_def proposer_id_ok_def config_defs)

text \<open>The same for a batch of prepare requests and for a batch of repeat requests of any
  length.\<close>

theorem prepare_and_repeat_reqs_delivered:
  assumes "length (sb_buffer sb) = MAX_UDP_MSG_SIZE" "length old = MAX_UDP_MSG_SIZE"
    and "proposer_id_ok i"
  shows "(\<exists>sb' evs. send_batch prepare_reqs
      (\<lambda>sb r. sendbuf_add_prepare_req sb (pr_iid r) (pr_ballot r)) sb i rs = Inr (sb', evs)
    \<and> receive_all read_prepare_reqs old (datagrams evs) = Inr rs)
    \<and> (\<exists>sb' evs. send_batch repeat_reqs sendbuf_add_repeat_req sb j iids = Inr (sb', evs)
    \<and> receive_all read_repeat_reqs old (datagrams evs) = Inr iids)"
  using prepare_req_link.link_delivers [of sb i rs old]
    repeat_req_link.link_delivers [where sb = sb and i = j and es = iids and old = old] assms
  unfolding sendbuf_adds_eq read_batches_eq by (auto simp: list_all_iff)

theorem prepare_and_repeat_reqs_delivered_witness:
  "(\<exists>sb' evs. send_batch prepare_reqs
      (\<lambda>sb r. sendbuf_add_prepare_req sb (pr_iid r) (pr_ballot r)) (udp_sendbuf_new Acceptors) 3
      [\<lparr>pr_iid = 1, pr_ballot = 13\<rparr>, \<lparr>pr_iid = 2, pr_ballot = 13\<rparr>] = Inr (sb', evs)
    \<and> receive_all read_prepare_reqs (replicate MAX_UDP_MSG_SIZE 0) (datagrams evs)
      = Inr [\<lparr>pr_iid = 1, pr_ballot = 13\<rparr>, \<lparr>pr_iid = 2, pr_ballot = 13\<rparr>])
   \<and> (\<exists>sb' evs. send_batch repeat_reqs sendbuf_add_repeat_req (udp_sendbuf_new Acceptors) (- 1) [5, 6] = Inr (sb', evs)
    \<and> receive_all read_repeat_reqs (replicate MAX_UDP_MSG_SIZE 0) (datagrams evs) = Inr [5, 6])"
  using prepare_and_repeat_reqs_delivered [of "udp_sendbuf_new Acceptors" "replicate MAX_UDP_MSG_SIZE 0" 3]
  by (simp add: udp_sendbuf_new_def proposer_id_ok_def config_defs)

text \<open>A value of more than 7456 bytes, which the limit \<^verbatim>\<open>PAXOS_MAX_VALUE_SIZE\<close> (7460) still
  admits, cannot be acknowledged: the acknowledgement fits the buffer, but the number of bytes
  handed to \<^verbatim>\<open>sendto\<close>, which counts the message header with its padding, passes the end of
  the buffer.\<close>

theorem large_ack_overreads:
  assumes "length (sb_buffer sb) = MAX_UDP_MSG_SIZE"
    and "7456 < length (aa_value r)" "length (aa_value r) \<le> PAXOS_MAX_VALUE_SIZE"
  shows "send_batch accept_acks sendbuf_add_accept_ack sb i [r] = Inl OutOfBounds"
proof -
  obtain sb1 where c1: "sendbuf_clear sb accept_acks i = Inr sb1"
      "batch_holds accept_acks 2 enc_accept_ack i [] sb1"
    using clear_holds [OF assms(1), of accept_acks 2 i enc_accept_ack] by auto
  have len1: "length (sb_buffer sb1) = MAX_UDP_MSG_SIZE" "\<not> sb_dirty sb1"
    using c1(2) by (simp_all add: batch_holds_def)
  obtain rest where b1: "sb_buffer sb1 = batch_bytes accept_acks 2 enc_accept_ack i [] @ rest"
    using c1(2) by (auto simp: batch_holds_def)
  obtain sb2 where c2: "sendbuf_clear sb1 accept_acks i = Inr sb2"
      "batch_holds accept_acks 2 enc_accept_ack i [] sb2"
    using clear_holds [OF len1(1), of accept_acks 2 i enc_accept_ack] by auto
  obtain sb3 where c3: "batch_put 2 (\<lambda>ds c. ds) (enc_accept_ack r) sb2 = Inr sb3"
      "batch_holds accept_acks 2 enc_accept_ack i [r] sb3"
    using accept_ack_link.batch_put_holds [OF c2(2), of r] assms(3)
    by (auto simp: config_defs ACCEPT_ACK_SIZE_def)
  have "sendbuf_add_accept_ack sb1 r = Inr (sb3, [TxEnd, TxBegin])"
    using c2 c3 len1 assms(2)
    by (simp add: sendbuf_add_accept_ack_def batch_append_def b1 sb_data_size_def batch_bytes_def
        mem_simps layout_defs config_defs ACCEPT_ACK_SIZE_def sendbuf_flush_def)
  moreover have "sendbuf_flush sb3 = Inl OutOfBounds"
  proof -
    obtain rest3 where b3: "sb_buffer sb3 = batch_bytes accept_acks 2 enc_accept_ack i [r] @ rest3"
      and len3: "length (sb_buffer sb3) = MAX_UDP_MSG_SIZE" and d3: "sb_dirty sb3"
      using c3(2) by (auto simp: batch_holds_def)
    have "sb_data_size sb3 = Inr (28 + length (aa_value r))"
      using assms(3)
      by (simp add: sb_data_size_def b3 batch_bytes_def mem_simps layout_defs config_defs ACCEPT_ACK_SIZE_def)
    then show ?thesis
      using d3 len3 assms(2) by (simp add: sendbuf_flush_def mread_def layout_defs config_defs)
  qed
  ultimately show ?thesis using c1 by (simp add: send_batch_def)
qed

theorem large_ack_overreads_witness:
  "send_batch accept_acks sendbuf_add_accept_ack (udp_sendbuf_new Learners) 0
     [\<lparr>aa_iid = 1, aa_ballot = 10, aa_value_ballot = 10, aa_is_final = 0, aa_value = replicate 7460 1\<rparr>]
     = Inl OutOfBounds"
  by (rule large_ack_overreads) (simp_all add: udp_sendbuf_new_def config_defs)

text \<open>A message that validation accepts has the size it declares and a known type, and the
  sender of a batch of acknowledgements is one of the acceptors, so it can index their table.\<close>

theorem validate_sound:
  assumes "validate_paxos_msg b n = Inr 0"
  shows "\<exists>ds c. rd64 b 0 = Inr ds \<and> (ds + sizeof_paxos_msg) mod 2 ^ 64 = n
    \<and> rd32 b 8 = Inr (msg_code c)
    \<and> (c \<in> {prepare_acks, accept_acks} \<longrightarrow> (\<exists>i. rd16 b offsetof_data = Inr i \<and> acceptor_id_ok i))
    \<and> (c \<in> {prepare_reqs, accept_reqs} \<longrightarrow> (\<exists>i. rd16 b (offsetof_data + 2) = Inr i \<and> proposer_id_ok i))"
proof -
  obtain ds where ds: "rd64 b 0 = Inr ds" "(ds + sizeof_paxos_msg) mod 2 ^ 64 = n"
    using assms by (auto simp: validate_paxos_msg_def res_eq_Inr split: if_splits)
  obtain ty where ty: "rd32 b 8 = Inr ty"
    using assms ds by (auto simp: validate_paxos_msg_def res_eq_Inr split: if_splits)
  obtain c where c: "decode_code ty = Some c"
    using assms ds ty by (auto simp: validate_paxos_msg_def split: option.splits)
  then have "ty = msg_code c" by (auto simp: decode_code_def split: if_splits)
  moreover have "c \<in> {prepare_acks, accept_acks} \<longrightarrow> (\<exists>i. rd16 b offsetof_data = Inr i \<and> acceptor_id_ok i)"
    using assms ds ty c
    by (auto simp: validate_paxos_msg_def res_eq_Inr acceptor_id_ok_def split: if_splits)
  moreover have "c \<in> {prepare_reqs, accept_reqs} \<longrightarrow> (\<exists>i. rd16 b (offsetof_data + 2) = Inr i \<and> proposer_id_ok i)"
    using assms ds ty c
    by (auto simp: validate_paxos_msg_def res_eq_Inr proposer_id_ok_def split: if_splits)
  ultimately show ?thesis using ds ty by blast
qed

theorem validate_sound_witness:
  "\<exists>ds c. rd64 (enc64 4 @ enc32 2 @ enc16 1 @ enc16 0 @ []) 0 = Inr ds
    \<and> (ds + sizeof_paxos_msg) mod 2 ^ 64 = 20
    \<and> rd32 (enc64 4 @ enc32 2 @ enc16 1 @ enc16 0 @ []) 8 = Inr (msg_code c)
    \<and> (c \<in> {prepare_acks, accept_acks} \<longrightarrow>
        (\<exists>i. rd16 (enc64 4 @ enc32 2 @ enc16 1 @ enc16 0 @ []) offsetof_data = Inr i \<and> acceptor_id_ok i))
    \<and> (c \<in> {prepare_reqs, accept_reqs} \<longrightarrow>
        (\<exists>i. rd16 (enc64 4 @ enc32 2 @ enc16 1 @ enc16 0 @ []) (offsetof_data + 2) = Inr i \<and> proposer_id_ok i))"
proof (rule validate_sound)
  show "validate_paxos_msg (enc64 4 @ enc32 2 @ enc16 1 @ enc16 0 @ []) 20 = Inr 0"
    by (simp add: validate_paxos_msg_def mem_simps layout_defs config_defs decode_code_def
      prepare_ack_batch_size_calc_def loop_count_def del: append_Nil2)
qed

text \<open>The number of entries a batch of prepare requests claims is not compared with the size of
  the message: with any count at all, a message of the size of an empty batch is valid.\<close>

theorem validate_ignores_count:
  assumes "proposer_id_ok i"
  shows "validate_paxos_msg (enc64 4 @ enc32 (msg_code prepare_reqs) @ enc16 c @ enc16 i @ rest) 20 = Inr 0"
  using assms
  by (simp add: validate_paxos_msg_def mem_simps layout_defs config_defs decode_code_def proposer_id_ok_def)

theorem validate_ignores_count_witness:
  "validate_paxos_msg (enc64 4 @ enc32 (msg_code prepare_reqs) @ enc16 1000 @ enc16 0 @ []) 20 = Inr 0"
  by (rule validate_ignores_count) (simp add: proposer_id_ok_def config_defs)

end
