(* ===== verification/StableStorage.thy ===== *)
theory StableStorage
  imports SendBuf
begin

text \<open>
  The stable storage of the acceptors (\<^verbatim>\<open>paxos2/lib/acceptor_stable_storage.c\<close>). Berkeley DB
  is not part of the repository: its operations are a parameter of the model, the record
  \<open>bdb\<close> over a type of database states, and what the code relies on is the predicate
  \<open>bdb_ok\<close>. A record is the struct \<^verbatim>\<open>acceptor_record\<close> in the static
  \<^verbatim>\<open>record_buffer\<close>; a pointer to a record is \<^verbatim>\<open>NULL\<close> or that buffer. The
  compile-time setting \<^verbatim>\<open>DURABILITY_MODE\<close> is a field of the parameter, so the theorems hold
  for each of its values; the repository sets it to 0. A call for the database is also an event of
  the trace, so that the order of writes, commits and messages can be stated.
\<close>

section \<open>Berkeley DB\<close>

datatype db_reply = DB_OK acceptor_record | DB_NOTFOUND | DB_KEYEMPTY | DB_ERROR int

record 'db bdb =
  DURABILITY_MODE :: nat
  db_get :: "'db \<Rightarrow> iid_t \<Rightarrow> db_reply"
  db_put :: "'db \<Rightarrow> iid_t \<Rightarrow> acceptor_record \<Rightarrow> int \<times> 'db"
  db_txn_begin :: "'db \<Rightarrow> int \<times> 'db"
  db_txn_commit :: "'db \<Rightarrow> int \<times> 'db"
  db_sync :: "'db \<Rightarrow> int \<times> 'db"

text \<open>
  The documented behaviour of an environment and a database that have been opened (what the code does with
  handles whose opening failed is a part of \<open>StartupSpec\<close>), over the records
  \<open>view db\<close> the database holds: a read
  returns the record of the key, or one of the two codes for a missing record; a write succeeds and
  changes that key only; transactions succeed. The keys are record numbers (\<^verbatim>\<open>DB_RECNO\<close>),
  which start at 1.
\<close>

definition bdb_ok :: "'db bdb \<Rightarrow> ('db \<Rightarrow> iid_t \<rightharpoonup> acceptor_record) \<Rightarrow> bool" where
  "bdb_ok E view \<longleftrightarrow>
     (\<forall>db k. k \<noteq> 0 \<longrightarrow> (case view db k of
        Some r \<Rightarrow> db_get E db k = DB_OK r
      | None \<Rightarrow> db_get E db k = DB_NOTFOUND \<or> db_get E db k = DB_KEYEMPTY))
   \<and> (\<forall>db k r. k \<noteq> 0 \<longrightarrow> (\<exists>db'. db_put E db k r = (0, db') \<and> view db' = (view db)(k \<mapsto> r)))
   \<and> (\<forall>db. \<exists>db'. db_txn_begin E db = (0, db') \<and> view db' = view db)
   \<and> (\<forall>db. \<exists>db'. db_txn_commit E db = (0, db') \<and> view db' = view db)
   \<and> (\<forall>db. \<exists>db'. db_sync E db = (0, db') \<and> view db' = view db)"

section \<open>Operations\<close>

record 'db storage =
  ss_db :: 'db
  record_buffer :: acceptor_record

text \<open>The result of a database call that the code checks with an assertion.\<close>

definition db_checked :: "int \<times> 'db \<Rightarrow> 'db storage \<Rightarrow> 'db storage res" where
  "db_checked r st = (case r of (result, db) \<Rightarrow> rassert (result = 0) (Inr (st\<lparr>ss_db := db\<rparr>)))"

definition stablestorage_tx_begin :: "'db bdb \<Rightarrow> 'db storage \<Rightarrow> 'db storage res" where
  "stablestorage_tx_begin E st =
     (if DURABILITY_MODE E = 0 \<or> DURABILITY_MODE E = 20 then Inr st
      else db_checked (db_txn_begin E (ss_db st)) st)"

definition stablestorage_tx_end :: "'db bdb \<Rightarrow> 'db storage \<Rightarrow> 'db storage res" where
  "stablestorage_tx_end E st =
     (if DURABILITY_MODE E = 0 then Inr st
      else if DURABILITY_MODE E = 20 then db_checked (db_sync E (ss_db st)) st
      else db_checked (db_txn_commit E (ss_db st)) st)"

definition stablestorage_get_record ::
  "'db bdb \<Rightarrow> 'db storage \<Rightarrow> iid_t \<Rightarrow> (acceptor_record option \<times> 'db storage) res" where
  "stablestorage_get_record E st iid =
     (case db_get E (ss_db st) iid of
        DB_NOTFOUND \<Rightarrow> Inr (None, st)
      | DB_KEYEMPTY \<Rightarrow> Inr (None, st)
      | DB_ERROR _ \<Rightarrow> Inr (None, st)
      | DB_OK r \<Rightarrow> rassert (iid = aa_iid r) (Inr (Some r, st\<lparr>record_buffer := r\<rparr>)))"

text \<open>
  The record is built in \<^verbatim>\<open>record_buf\<close>, a block of \<open>MAX_UDP_MSG_SIZE\<close> bytes, and
  written with the given key.
\<close>

definition put_record ::
  "'db bdb \<Rightarrow> 'db storage \<Rightarrow> iid_t \<Rightarrow> acceptor_record \<Rightarrow>
     (acceptor_record \<times> 'db storage \<times> io_event list) res" where
  "put_record E st iid r =
     rguard (ACCEPT_ACK_SIZE r \<le> MAX_UDP_MSG_SIZE)
       (rbind (db_checked (db_put E (ss_db st) iid r) (st\<lparr>record_buffer := r\<rparr>)) (\<lambda>st.
          Inr (r, st, [DbPut r])))"

definition stablestorage_save_accept ::
  "'db bdb \<Rightarrow> 'db storage \<Rightarrow> accept_req \<Rightarrow> (acceptor_record \<times> 'db storage \<times> io_event list) res" where
  "stablestorage_save_accept E st ar =
     put_record E st (ar_iid ar)
       \<lparr>aa_iid = ar_iid ar, aa_ballot = ar_ballot ar, aa_value_ballot = ar_ballot ar,
         aa_is_final = 0, aa_value = ar_value ar\<rparr>"

definition stablestorage_save_prepare ::
  "'db bdb \<Rightarrow> 'db storage \<Rightarrow> prepare_req \<Rightarrow> acceptor_record option \<Rightarrow>
     (acceptor_record \<times> 'db storage \<times> io_event list) res" where
  "stablestorage_save_prepare E st pr rec =
     put_record E st (pr_iid pr)
       (case rec of
          None \<Rightarrow> \<lparr>aa_iid = pr_iid pr, aa_ballot = pr_ballot pr, aa_value_ballot = 0,
                   aa_is_final = 0, aa_value = []\<rparr>
        | Some r \<Rightarrow> r\<lparr>aa_ballot := pr_ballot pr\<rparr>)"

definition stablestorage_save_final_value ::
  "'db bdb \<Rightarrow> 'db storage \<Rightarrow> bytes \<Rightarrow> iid_t \<Rightarrow> ballot_t \<Rightarrow>
     (acceptor_record \<times> 'db storage \<times> io_event list) res" where
  "stablestorage_save_final_value E st value iid ballot =
     put_record E st iid
       \<lparr>aa_iid = iid, aa_ballot = ballot, aa_value_ballot = ballot, aa_is_final = 1,
         aa_value = value\<rparr>"

section \<open>Initialization\<close>

text \<open>
  \<^verbatim>\<open>stablestorage_init\<close>: the answers of the operating system and of the opening of the
  database are the fields of \<open>init_env\<close>; the result is the return value and what was done to
  the directory and the database, in order.
\<close>

record init_env =
  dir_exists :: bool
  db_exists :: bool
  mkdir_ok :: bool
  rm_ok :: bool
  tx_handle_ok :: bool
  init_db_ok :: bool

datatype db_file = Db_File_Path | Db_Filename

datatype init_action = Mkdir | RmDir | InitTxHandle string | InitDb db_file

definition durability_switch :: "nat \<Rightarrow> (init_action list \<times> db_file) option" where
  "durability_switch mode =
     (if mode = 0 then Some ([], Db_File_Path)
      else if mode = 10 then Some ([InitTxHandle ''DB_LOG_IN_MEMORY''], Db_Filename)
      else if mode = 11 then Some ([InitTxHandle ''DB_TXN_NOSYNC''], Db_Filename)
      else if mode = 12 then Some ([InitTxHandle ''DB_TXN_WRITE_NOSYNC''], Db_Filename)
      else if mode = 13 then Some ([InitTxHandle ''0''], Db_Filename)
      else if mode = 20 then Some ([], Db_File_Path)
      else None)"

definition stablestorage_init :: "nat \<Rightarrow> bool \<Rightarrow> init_env \<Rightarrow> int \<times> init_action list" where
  "stablestorage_init mode do_recovery e =
     (if do_recovery \<and> (\<not> dir_exists e \<or> \<not> db_exists e) then (- 1, [])
      else if \<not> dir_exists e \<and> \<not> mkdir_ok e then (- 1, [Mkdir])
      else
        let made = (if \<not> dir_exists e then [Mkdir] else []);
            again = (if \<not> do_recovery \<and> dir_exists e
                     then RmDir # (if rm_ok e then [Mkdir] else []) else [])
        in case durability_switch mode of
             None \<Rightarrow> (- 1, made @ again)
           | Some (acts, file) \<Rightarrow>
               (if init_db_ok e then 0 else - 1, made @ again @ acts @ [InitDb file]))"

text \<open>\<^verbatim>\<open>stablestorage_shutdown\<close>: the closing of the database and, in the transactional modes, of
  its environment.\<close>

definition stablestorage_shutdown :: "nat \<Rightarrow> bool \<Rightarrow> bool \<Rightarrow> int" where
  "stablestorage_shutdown mode db_close_ok env_close_ok =
     (let result = (if db_close_ok then 0 else - 1) in
      if mode = 0 \<or> mode = 20 then result
      else if mode = 10 \<or> mode = 11 \<or> mode = 12 \<or> mode = 13
      then (if env_close_ok then result else - 1)
      else - 1)"

section \<open>What the operations do to the records of the database\<close>

lemma tx_ok:
  assumes "bdb_ok E view"
  shows tx_begin_ok: "\<exists>st'. stablestorage_tx_begin E st = Inr st'
      \<and> view (ss_db st') = view (ss_db st) \<and> record_buffer st' = record_buffer st"
    and tx_end_ok: "\<exists>st'. stablestorage_tx_end E st = Inr st'
      \<and> view (ss_db st') = view (ss_db st) \<and> record_buffer st' = record_buffer st"
proof -
  have b: "\<exists>db'. db_txn_begin E (ss_db st) = (0, db') \<and> view db' = view (ss_db st)"
    "\<exists>db'. db_txn_commit E (ss_db st) = (0, db') \<and> view db' = view (ss_db st)"
    "\<exists>db'. db_sync E (ss_db st) = (0, db') \<and> view db' = view (ss_db st)"
    using assms unfolding bdb_ok_def by auto
  show "\<exists>st'. stablestorage_tx_begin E st = Inr st'
      \<and> view (ss_db st') = view (ss_db st) \<and> record_buffer st' = record_buffer st"
    using b by (auto simp: stablestorage_tx_begin_def db_checked_def)
  show "\<exists>st'. stablestorage_tx_end E st = Inr st'
      \<and> view (ss_db st') = view (ss_db st) \<and> record_buffer st' = record_buffer st"
    using b by (auto simp: stablestorage_tx_end_def db_checked_def)
qed

lemma bdb_get:
  assumes "bdb_ok E view" "k \<noteq> 0"
  shows "case view db k of Some r \<Rightarrow> db_get E db k = DB_OK r
    | None \<Rightarrow> db_get E db k = DB_NOTFOUND \<or> db_get E db k = DB_KEYEMPTY"
  using assms unfolding bdb_ok_def by blast

lemma get_record_ok:
  assumes "bdb_ok E view" "iid \<noteq> 0"
    and "\<And>r. view (ss_db st) iid = Some r \<Longrightarrow> aa_iid r = iid"
  shows "\<exists>st'. stablestorage_get_record E st iid = Inr (view (ss_db st) iid, st')
    \<and> ss_db st' = ss_db st"
proof (cases "view (ss_db st) iid")
  case None
  then have "db_get E (ss_db st) iid = DB_NOTFOUND \<or> db_get E (ss_db st) iid = DB_KEYEMPTY"
    using bdb_get [OF assms(1,2), of "ss_db st"] by simp
  then show ?thesis using None by (auto simp: stablestorage_get_record_def)
next
  case (Some r)
  then have "db_get E (ss_db st) iid = DB_OK r"
    using bdb_get [OF assms(1,2), of "ss_db st"] by simp
  then show ?thesis using Some assms(3) by (simp add: stablestorage_get_record_def)
qed

lemma put_record_ok:
  assumes "bdb_ok E view" "iid \<noteq> 0" "ACCEPT_ACK_SIZE r \<le> MAX_UDP_MSG_SIZE"
  shows "\<exists>st'. put_record E st iid r = Inr (r, st', [DbPut r])
    \<and> view (ss_db st') = (view (ss_db st))(iid \<mapsto> r)"
proof -
  obtain db' where "db_put E (ss_db st) iid r = (0, db')" "view db' = (view (ss_db st))(iid \<mapsto> r)"
    using assms(1,2) unfolding bdb_ok_def by blast
  then show ?thesis using assms(3) by (simp add: put_record_def db_checked_def)
qed

end
