(* ===== verification/Acceptor.thy ===== *)
theory Acceptor
  imports Transport StableStorage
begin

text \<open>
  The acceptor (\<^verbatim>\<open>paxos2/lib/acceptor.c\<close>): it answers batches of prepare, accept and repeat
  requests from its stable storage, inside transactions, and periodically repeats its latest accept.
  The static variables of the file are the record \<open>acceptor\<close>. The three handlers share the
  loop \<open>acc_batch\<close>; what they rely on is the contract \<open>acceptor_op\<close>, which extends
  \<open>batch_link\<close>. The properties refine the handlers to the pure functions
  \<open>spec_prepare\<close>, \<open>code_accept\<close> and \<open>spec_repeat\<close> on a map of records.
\<close>

section \<open>State\<close>

record 'db acceptor =
  this_acceptor_id :: u16
  to_proposers :: udp_send_buffer
  to_learners :: udp_send_buffer
  acc_recv_buffer :: bytes
  highest_accepted_iid :: iid_t
  acc_storage :: "'db storage"

text \<open>The transactions that the send buffer closes and opens when a message is full.\<close>

fun run_tx :: "'db bdb \<Rightarrow> io_event list \<Rightarrow> 'db storage \<Rightarrow> 'db storage res" where
  "run_tx E [] ss = Inr ss"
| "run_tx E (TxBegin # evs) ss = rbind (stablestorage_tx_begin E ss) (run_tx E evs)"
| "run_tx E (TxEnd # evs) ss = rbind (stablestorage_tx_end E ss) (run_tx E evs)"
| "run_tx E (_ # evs) ss = run_tx E evs ss"

section \<open>Applying a request to a record\<close>

definition acc_apply_accept ::
  "'db bdb \<Rightarrow> 'db acceptor \<Rightarrow> accept_req \<Rightarrow> acceptor_record option \<Rightarrow>
     (acceptor_record option \<times> 'db acceptor \<times> io_event list) res" where
  "acc_apply_accept E st ar rec =
     (if (case rec of None \<Rightarrow> False | Some r \<Rightarrow> aa_ballot r < ar_ballot ar)
      then Inr (None, st, [])
      else rbind (stablestorage_save_accept E (acc_storage st) ar) (\<lambda>(r, ss, evs).
        let st = st\<lparr>acc_storage := ss\<rparr>;
            st = (if ar_iid ar > highest_accepted_iid st
                  then st\<lparr>highest_accepted_iid := ar_iid ar\<rparr> else st)
        in Inr (Some r, st, evs)))"

definition acc_apply_prepare ::
  "'db bdb \<Rightarrow> 'db acceptor \<Rightarrow> prepare_req \<Rightarrow> acceptor_record option \<Rightarrow>
     (acceptor_record option \<times> 'db acceptor \<times> io_event list) res" where
  "acc_apply_prepare E st pr rec =
     (if (case rec of None \<Rightarrow> False | Some r \<Rightarrow> aa_ballot r \<ge> pr_ballot pr)
      then Inr (None, st, [])
      else if (case rec of None \<Rightarrow> False | Some r \<Rightarrow> aa_is_final r \<noteq> 0)
      then Inr (None, st, [])
      else rbind (stablestorage_save_prepare E (acc_storage st) pr rec) (\<lambda>(r, ss, evs).
        Inr (Some r, st\<lparr>acc_storage := ss\<rparr>, evs)))"

section \<open>The handlers\<close>

text \<open>
  The body of the loops: read the record of the instance and apply the request; the result is the
  record to acknowledge, if any.
\<close>

definition prepare_step ::
  "'db bdb \<Rightarrow> 'db acceptor \<Rightarrow> prepare_req \<Rightarrow>
     (acceptor_record option \<times> 'db acceptor \<times> io_event list) res" where
  "prepare_step E st pr =
     rbind (stablestorage_get_record E (acc_storage st) (pr_iid pr)) (\<lambda>(rec, ss).
       acc_apply_prepare E (st\<lparr>acc_storage := ss\<rparr>) pr rec)"

definition accept_step ::
  "'db bdb \<Rightarrow> 'db acceptor \<Rightarrow> accept_req \<Rightarrow>
     (acceptor_record option \<times> 'db acceptor \<times> io_event list) res" where
  "accept_step E st ar =
     rbind (stablestorage_get_record E (acc_storage st) (ar_iid ar)) (\<lambda>(rec, ss).
       acc_apply_accept E (st\<lparr>acc_storage := ss\<rparr>) ar rec)"

definition repeat_step ::
  "'db bdb \<Rightarrow> 'db acceptor \<Rightarrow> iid_t \<Rightarrow>
     (acceptor_record option \<times> 'db acceptor \<times> io_event list) res" where
  "repeat_step E st iid =
     rbind (stablestorage_get_record E (acc_storage st) iid) (\<lambda>(rec, ss).
       Inr (case rec of None \<Rightarrow> None | Some r \<Rightarrow> if length (aa_value r) > 0 then Some r else None,
            st\<lparr>acc_storage := ss\<rparr>, []))"

text \<open>The answer to one request: the record, if there is one, is added to the send buffer.\<close>

definition acc_reply ::
  "'db bdb \<Rightarrow> (udp_send_buffer \<Rightarrow> acceptor_record \<Rightarrow> (udp_send_buffer \<times> io_event list) res) \<Rightarrow>
     'db acceptor \<Rightarrow> udp_send_buffer \<Rightarrow> acceptor_record option \<Rightarrow>
     ('db acceptor \<times> udp_send_buffer \<times> io_event list) res" where
  "acc_reply E add st sb rec =
     (case rec of
        None \<Rightarrow> Inr (st, sb, [])
      | Some r \<Rightarrow> rbind (add sb r) (\<lambda>(sb, evs).
          rbind (run_tx E evs (acc_storage st)) (\<lambda>ss.
            Inr (st\<lparr>acc_storage := ss\<rparr>, sb, evs))))"

text \<open>The loop of a handler over the entries of the batch, and the handler around it.\<close>

fun acc_each ::
  "'db bdb \<Rightarrow> ('db acceptor \<Rightarrow> 'q \<Rightarrow> (acceptor_record option \<times> 'db acceptor \<times> io_event list) res) \<Rightarrow>
     (udp_send_buffer \<Rightarrow> acceptor_record \<Rightarrow> (udp_send_buffer \<times> io_event list) res) \<Rightarrow>
     'db acceptor \<Rightarrow> udp_send_buffer \<Rightarrow> 'q list \<Rightarrow>
     ('db acceptor \<times> udp_send_buffer \<times> io_event list) res" where
  "acc_each E step add st sb [] = Inr (st, sb, [])"
| "acc_each E step add st sb (q # qs) =
     rbind (step st q) (\<lambda>(rec, st, evs1).
     rbind (acc_reply E add st sb rec) (\<lambda>(st, sb, evs2).
     rbind (acc_each E step add st sb qs) (\<lambda>(st, sb, evs3).
       Inr (st, sb, evs1 @ evs2 @ evs3))))"

definition acc_batch ::
  "'db bdb \<Rightarrow> paxos_msg_code \<Rightarrow>
     ('db acceptor \<Rightarrow> 'q \<Rightarrow> (acceptor_record option \<times> 'db acceptor \<times> io_event list) res) \<Rightarrow>
     (udp_send_buffer \<Rightarrow> acceptor_record \<Rightarrow> (udp_send_buffer \<times> io_event list) res) \<Rightarrow>
     'db acceptor \<Rightarrow> udp_send_buffer \<Rightarrow> 'q list \<Rightarrow>
     ('db acceptor \<times> udp_send_buffer \<times> io_event list) res" where
  "acc_batch E type step add st sb qs =
     rbind (sendbuf_clear sb type (this_acceptor_id st)) (\<lambda>sb.
     rbind (stablestorage_tx_begin E (acc_storage st)) (\<lambda>ss.
     rbind (acc_each E step add (st\<lparr>acc_storage := ss\<rparr>) sb qs) (\<lambda>(st, sb, evs).
     rbind (stablestorage_tx_end E (acc_storage st)) (\<lambda>ss.
     rbind (sendbuf_flush sb) (\<lambda>evs'.
       Inr (st\<lparr>acc_storage := ss\<rparr>, sb, TxBegin # evs @ TxEnd # evs'))))))"

definition handle_prepare_req_batch ::
  "'db bdb \<Rightarrow> 'db acceptor \<Rightarrow> prepare_req list \<Rightarrow> ('db acceptor \<times> io_event list) res" where
  "handle_prepare_req_batch E st prs =
     rbind (acc_batch E prepare_acks (prepare_step E) sendbuf_add_prepare_ack st (to_proposers st) prs)
       (\<lambda>(st, sb, evs). Inr (st\<lparr>to_proposers := sb\<rparr>, evs))"

definition handle_accept_req_batch ::
  "'db bdb \<Rightarrow> 'db acceptor \<Rightarrow> accept_req list \<Rightarrow> ('db acceptor \<times> io_event list) res" where
  "handle_accept_req_batch E st ars =
     rbind (acc_batch E accept_acks (accept_step E) sendbuf_add_accept_ack st (to_learners st) ars)
       (\<lambda>(st, sb, evs). Inr (st\<lparr>to_learners := sb\<rparr>, evs))"

definition handle_repeat_req_batch ::
  "'db bdb \<Rightarrow> 'db acceptor \<Rightarrow> iid_t list \<Rightarrow> ('db acceptor \<times> io_event list) res" where
  "handle_repeat_req_batch E st iids =
     rbind (acc_batch E accept_acks (repeat_step E) sendbuf_add_accept_ack st (to_learners st) iids)
       (\<lambda>(st, sb, evs). Inr (st\<lparr>to_learners := sb\<rparr>, evs))"

text \<open>
  \<^verbatim>\<open>acc_retransmit_latest_accept\<close> passes the record it reads to
  \<^verbatim>\<open>sendbuf_add_accept_ack\<close> without a check for \<^verbatim>\<open>NULL\<close>.
\<close>

definition acc_retransmit_latest_accept ::
  "'db bdb \<Rightarrow> 'db acceptor \<Rightarrow> ('db acceptor \<times> io_event list) res" where
  "acc_retransmit_latest_accept E st =
     rbind (sendbuf_clear (to_learners st) accept_acks (this_acceptor_id st)) (\<lambda>sb.
     rbind (stablestorage_tx_begin E (acc_storage st)) (\<lambda>ss.
     rbind (stablestorage_get_record E ss (highest_accepted_iid st)) (\<lambda>(rec, ss).
     case rec of None \<Rightarrow> Inl NullPointer
     | Some r \<Rightarrow>
         rbind (sendbuf_add_accept_ack sb r) (\<lambda>(sb, evs).
         rbind (run_tx E evs ss) (\<lambda>ss.
         rbind (stablestorage_tx_end E ss) (\<lambda>ss.
         rbind (sendbuf_flush sb) (\<lambda>evs'.
           Inr (st\<lparr>to_learners := sb, acc_storage := ss\<rparr>, TxBegin # evs @ TxEnd # evs'))))))))"

definition acc_periodic_repeater ::
  "'db bdb \<Rightarrow> 'db acceptor \<Rightarrow> ('db acceptor \<times> io_event list) res" where
  "acc_periodic_repeater E st =
     (if highest_accepted_iid st > 0 then acc_retransmit_latest_accept E st else Inr (st, []))"

definition acc_handle_newmsg ::
  "'db bdb \<Rightarrow> 'db acceptor \<Rightarrow> bytes option \<Rightarrow> ('db acceptor \<times> io_event list) res" where
  "acc_handle_newmsg E st dgram =
     rbind (udp_read_next_message (acc_recv_buffer st) dgram) (\<lambda>(valid, b).
     let st = st\<lparr>acc_recv_buffer := b\<rparr> in
     if valid < 0 then Inr (st, [])
     else rbind (rd32 b 8) (\<lambda>ty.
       if ty = msg_code prepare_reqs
       then rbind (read_prepare_reqs b) (handle_prepare_req_batch E st)
       else if ty = msg_code accept_reqs
       then rbind (read_accept_reqs b) (handle_accept_req_batch E st)
       else if ty = msg_code repeat_reqs
       then rbind (read_repeat_reqs b) (handle_repeat_req_batch E st)
       else Inr (st, [])))"

text \<open>
  \<^verbatim>\<open>acc_deliver_callback\<close> when \<^verbatim>\<open>ACCEPTOR_UPDATE_ON_DELIVER\<close> is defined
  (\<open>upd\<close>); without it the callback only prints a warning.
\<close>

definition acc_deliver_callback ::
  "bool \<Rightarrow> 'db bdb \<Rightarrow> 'db acceptor \<Rightarrow> bytes \<Rightarrow> iid_t \<Rightarrow> ballot_t \<Rightarrow>
     ('db acceptor \<times> io_event list) res" where
  "acc_deliver_callback upd E st value iid ballot =
     (if \<not> upd then Inr (st, [])
      else rbind (stablestorage_tx_begin E (acc_storage st)) (\<lambda>ss.
           rbind (stablestorage_save_final_value E ss value iid ballot) (\<lambda>(r, ss, evs).
           rbind (stablestorage_tx_end E ss) (\<lambda>ss.
             Inr (st\<lparr>acc_storage := ss\<rparr>, TxBegin # evs @ [TxEnd])))))"

text \<open>
  \<^verbatim>\<open>acceptor_init\<close>: the check of the id, then the start of the sockets, the timers and the
  storage by \<^verbatim>\<open>init_acceptor\<close>, which fails when one of them does.
\<close>

definition acceptor_init :: "int \<Rightarrow> 'db storage \<Rightarrow> bool \<Rightarrow> bool \<Rightarrow> bool \<Rightarrow> 'db acceptor option" where
  "acceptor_init acceptor_id ss network_ok timers_ok storage_ok =
     (if N_OF_ACCEPTORS \<ge> 32 then None
      else if acceptor_id < 0 \<or> acceptor_id \<ge> int N_OF_ACCEPTORS then None
      else if \<not> network_ok \<or> \<not> timers_ok \<or> \<not> storage_ok then None
      else Some \<lparr>this_acceptor_id = word_of_int acceptor_id,
                 to_proposers = udp_sendbuf_new Proposers,
                 to_learners = udp_sendbuf_new Learners,
                 acc_recv_buffer = replicate MAX_UDP_MSG_SIZE 0,
                 highest_accepted_iid = 0, acc_storage = ss\<rparr>)"

end
