(* ===== verification/AcceptorSpec.thy ===== *)
theory AcceptorSpec
  imports Acceptor
begin

text \<open>
  What the acceptor promises: its handlers compute the pure functions \<open>spec_prepare\<close>,
  \<open>code_accept\<close> and \<open>spec_repeat\<close> on the map of the records in the database, send the
  records these give as acknowledgements, in order, and send nothing that is not committed. The
  contract of a handler is the locale \<open>acceptor_op\<close>, interpreted for the three handlers.
  \<open>code_accept\<close> has the ballot test of the code, which is the reverse of what its comments say;
  \<open>spec_accept\<close> is the acceptance of Paxos that they describe. The two agree exactly on the requests
  that find no record or one with their own ballot, which is what a proposer that is not overtaken sends.
\<close>

section \<open>Abstract acceptor\<close>

type_synonym records = "iid_t \<rightharpoonup> acceptor_record"

definition spec_prepare :: "records \<Rightarrow> prepare_req \<Rightarrow> acceptor_record option" where
  "spec_prepare m pr =
     (case m (pr_iid pr) of
        None \<Rightarrow> Some \<lparr>aa_iid = pr_iid pr, aa_ballot = pr_ballot pr, aa_value_ballot = 0,
                     aa_is_final = 0, aa_value = []\<rparr>
      | Some r \<Rightarrow> if aa_ballot r < pr_ballot pr \<and> aa_is_final r = 0
                  then Some (r\<lparr>aa_ballot := pr_ballot pr\<rparr>) else None)"

text \<open>What \<^verbatim>\<open>acc_apply_accept\<close> does, and what Paxos and the comments of the code ask for: a
  request is dropped if the acceptor promised a more recent ballot.\<close>

definition code_accept :: "records \<Rightarrow> accept_req \<Rightarrow> acceptor_record option" where
  "code_accept m ar =
     (if (\<exists>r. m (ar_iid ar) = Some r \<and> aa_ballot r < ar_ballot ar) then None
      else Some \<lparr>aa_iid = ar_iid ar, aa_ballot = ar_ballot ar, aa_value_ballot = ar_ballot ar,
                 aa_is_final = 0, aa_value = ar_value ar\<rparr>)"

definition spec_accept :: "records \<Rightarrow> accept_req \<Rightarrow> acceptor_record option" where
  "spec_accept m ar =
     (if (\<exists>r. m (ar_iid ar) = Some r \<and> ar_ballot ar < aa_ballot r) then None
      else Some \<lparr>aa_iid = ar_iid ar, aa_ballot = ar_ballot ar, aa_value_ballot = ar_ballot ar,
                 aa_is_final = 0, aa_value = ar_value ar\<rparr>)"

lemma code_accept_is_spec:
  "code_accept m ar = spec_accept m ar \<longleftrightarrow> (\<forall>r. m (ar_iid ar) = Some r \<longrightarrow> aa_ballot r = ar_ballot ar)"
  by (cases "m (ar_iid ar)") (auto simp: code_accept_def spec_accept_def)

definition spec_repeat :: "records \<Rightarrow> iid_t \<Rightarrow> acceptor_record option" where
  "spec_repeat m iid = (case m iid of None \<Rightarrow> None | Some r \<Rightarrow> if aa_value r = [] then None else Some r)"

definition store :: "records \<Rightarrow> acceptor_record option \<Rightarrow> records" where
  "store m rec = (case rec of None \<Rightarrow> m | Some r \<Rightarrow> m(aa_iid r \<mapsto> r))"

text \<open>A batch: the records after it and the records acknowledged, in order.\<close>

fun spec_batch :: "(records \<Rightarrow> 'q \<Rightarrow> acceptor_record option) \<Rightarrow> records \<Rightarrow> 'q list \<Rightarrow>
    records \<times> acceptor_record list" where
  "spec_batch spec m [] = (m, [])"
| "spec_batch spec m (q # qs) =
     (case spec_batch spec (store m (spec m q)) qs of
        (m', rs) \<Rightarrow> (m', (case spec m q of None \<Rightarrow> rs | Some r \<Rightarrow> r # rs)))"

text \<open>No request of a batch finds a record with another ballot than its own.\<close>

fun ballots_agree :: "records \<Rightarrow> accept_req list \<Rightarrow> bool" where
  "ballots_agree m [] \<longleftrightarrow> True"
| "ballots_agree m (ar # ars) \<longleftrightarrow>
     (case m (ar_iid ar) of None \<Rightarrow> True | Some r \<Rightarrow> aa_ballot r = ar_ballot ar) \<and> ballots_agree (store m (spec_accept m ar)) ars"

lemma batch_is_spec: "ballots_agree m ars \<Longrightarrow> spec_batch code_accept m ars = spec_batch spec_accept m ars"
proof (induction ars arbitrary: m)
  case (Cons ar ars)
  have "code_accept m ar = spec_accept m ar" using Cons.prems by (auto simp: code_accept_is_spec)
  then show ?case using Cons by (simp split: prod.splits option.splits)
qed simp

section \<open>Invariant\<close>

text \<open>A record is stored under its instance, its value was accepted in a ballot no higher than the
  one promised, and it fits a message.\<close>

definition rec_ok :: "iid_t \<Rightarrow> acceptor_record \<Rightarrow> bool" where
  "rec_ok k r \<longleftrightarrow> aa_iid r = k \<and> aa_value_ballot r \<le> aa_ballot r \<and> length (aa_value r) \<le> 7456"

definition recs_ok :: "records \<Rightarrow> bool" where
  "recs_ok m \<longleftrightarrow> (\<forall>k r. m k = Some r \<longrightarrow> rec_ok k r)"

definition view_of :: "('db \<Rightarrow> records) \<Rightarrow> 'db acceptor \<Rightarrow> records" where
  "view_of view st = view (ss_db (acc_storage st))"

definition acc_inv :: "('db \<Rightarrow> records) \<Rightarrow> 'db acceptor \<Rightarrow> bool" where
  "acc_inv view st \<longleftrightarrow>
     recs_ok (view_of view st) \<and> acceptor_id_ok (this_acceptor_id st)
     \<and> length (sb_buffer (to_proposers st)) = MAX_UDP_MSG_SIZE
     \<and> length (sb_buffer (to_learners st)) = MAX_UDP_MSG_SIZE
     \<and> length (acc_recv_buffer st) = MAX_UDP_MSG_SIZE
     \<and> (highest_accepted_iid st \<noteq> 0 \<longrightarrow> view_of view st (highest_accepted_iid st) \<noteq> None)"

definition step_ok :: "(records \<Rightarrow> 'q \<Rightarrow> acceptor_record option) \<Rightarrow> ('q \<Rightarrow> bool) \<Rightarrow> bool" where
  "step_ok spec eok \<longleftrightarrow> (\<forall>m q r. recs_ok m \<longrightarrow> eok q \<longrightarrow> spec m q = Some r \<longrightarrow> rec_ok (aa_iid r) r)"

lemma recs_ok_store: "recs_ok m \<Longrightarrow> (\<And>r. rec = Some r \<Longrightarrow> rec_ok (aa_iid r) r) \<Longrightarrow> recs_ok (store m rec)"
  by (auto simp: recs_ok_def store_def split: option.splits)

lemma recs_ok_single [simp]: "recs_ok [k \<mapsto> r] = rec_ok k r"
  by (auto simp: recs_ok_def)

lemma acc_inv_storage:
  "acc_inv view st \<Longrightarrow> view (ss_db ss) = view_of view st \<Longrightarrow> acc_inv view (st\<lparr>acc_storage := ss\<rparr>)"
  by (simp add: acc_inv_def view_of_def)

section \<open>Order of writes and messages\<close>

text \<open>
  The state of a trace: whether a write is not yet committed; \<open>None\<close> when a message was sent
  while there was one.
\<close>

fun sync_state :: "bool \<Rightarrow> io_event list \<Rightarrow> bool option" where
  "sync_state p [] = Some p"
| "sync_state p (TxBegin # evs) = sync_state p evs"
| "sync_state p (TxEnd # evs) = sync_state False evs"
| "sync_state p (DbPut r # evs) = sync_state True evs"
| "sync_state p (Send g d # evs) = (if p then None else sync_state False evs)"

lemma sync_state_append [simp]:
  "sync_state p (xs @ ys) = Option.bind (sync_state p xs) (\<lambda>q. sync_state q ys)"
  by (induction p xs rule: sync_state.induct) auto

definition never_unsynced :: "io_event list \<Rightarrow> bool" where
  "never_unsynced evs \<longleftrightarrow> (\<forall>p. sync_state p evs \<noteq> None)"

lemma never_unsynced_append [intro]:
  "never_unsynced xs \<Longrightarrow> never_unsynced ys \<Longrightarrow> never_unsynced (xs @ ys)"
  unfolding never_unsynced_def sync_state_append by (metis bind.bind_lunit option.exhaust)

lemma never_unsynced_simps [simp]:
  "never_unsynced []" "never_unsynced [DbPut r]" "never_unsynced (TxBegin # evs) = never_unsynced evs"
  by (auto simp: never_unsynced_def)

lemma flush_sync: "sendbuf_flush sb = Inr evs \<Longrightarrow> sync_state False evs = Some False"
  by (auto simp: sendbuf_flush_def res_eq_Inr split: if_splits)

lemma append_sync: "batch_append type coff ioff True pos ent sb = Inr (sb', evs) \<Longrightarrow> never_unsynced evs"
  by (auto simp: batch_append_def res_eq_Inr never_unsynced_def flush_sync split: if_splits)

lemma run_tx_ok:
  assumes "bdb_ok E view"
  shows "\<exists>ss'. run_tx E evs ss = Inr ss' \<and> view (ss_db ss') = view (ss_db ss)"
proof (induction evs arbitrary: ss)
  case (Cons e evs)
  then show ?case
    using tx_begin_ok [OF assms, of ss] tx_end_ok [OF assms, of ss] by (cases e) (auto, metis+)
qed simp

section \<open>The contract of a handler\<close>

text \<open>
  \<open>step\<close> is the body of the loop, \<open>spec\<close> what it computes, \<open>eok\<close> the
  requests it is for, \<open>entry\<close> the acknowledgement of a record.
\<close>

locale acceptor_op = batch_link type coff ioff True pos enc rd sz valid acceptor_id_ok
  for type coff ioff pos and enc :: "'e \<Rightarrow> bytes" and rd sz valid +
  fixes step :: "'db bdb \<Rightarrow> 'db acceptor \<Rightarrow> 'q \<Rightarrow>
      (acceptor_record option \<times> 'db acceptor \<times> io_event list) res"
    and spec :: "records \<Rightarrow> 'q \<Rightarrow> acceptor_record option"
    and eok :: "'q \<Rightarrow> bool"
    and entry :: "acceptor_record \<Rightarrow> 'e"
  assumes entry_valid: "length (aa_value r) \<le> 7456 \<Longrightarrow> valid (entry r)"
    and spec_ok: "recs_ok m \<Longrightarrow> eok q \<Longrightarrow> spec m q = Some r \<Longrightarrow> rec_ok (aa_iid r) r"
    and step: "bdb_ok E view \<Longrightarrow> acc_inv view st \<Longrightarrow> eok q \<Longrightarrow>
      \<exists>st' evs. step E st q = Inr (spec (view_of view st) q, st', evs)
        \<and> view_of view st' = store (view_of view st) (spec (view_of view st) q)
        \<and> acc_inv view st' \<and> datagrams evs = [] \<and> never_unsynced evs"
begin

lemma acc_reply_ok:
  assumes E: "bdb_ok E view" and inv: "acc_inv view st"
    and rec: "\<And>r. rec = Some r \<Longrightarrow> length (aa_value r) \<le> 7456"
    and h: "sent_held type coff enc acceptor_id_ok valid sb evs0 es0"
  shows "\<exists>st' sb' evs.
    acc_reply E (\<lambda>sb r. batch_append type coff ioff True pos (enc (entry r)) sb) st sb rec = Inr (st', sb', evs)
    \<and> acc_inv view st' \<and> view_of view st' = view_of view st \<and> never_unsynced evs
    \<and> sent_held type coff enc acceptor_id_ok valid sb' (evs0 @ evs)
        (es0 @ map entry (case rec of None \<Rightarrow> [] | Some r \<Rightarrow> [r]))"
proof (cases rec)
  case None
  then show ?thesis using inv h by (simp add: acc_reply_def)
next
  case (Some r)
  obtain sb' evs where a: "batch_append type coff ioff True pos (enc (entry r)) sb = Inr (sb', evs)"
      "sent_held type coff enc acceptor_id_ok valid sb' (evs0 @ evs) (es0 @ [entry r])"
    using append_held [OF h entry_valid [OF rec [OF Some]]] by blast
  obtain ss where ss: "run_tx E evs (acc_storage st) = Inr ss" "view (ss_db ss) = view_of view st"
    using run_tx_ok [OF E, of evs "acc_storage st"] by (auto simp: view_of_def)
  have "view_of view (st\<lparr>acc_storage := ss\<rparr>) = view_of view st"
    using ss(2) by (simp add: view_of_def)
  then show ?thesis
    using a ss acc_inv_storage [OF inv ss(2)] append_sync [OF a(1)] Some
    by (simp add: acc_reply_def)
qed

lemma acc_each_ok:
  assumes E: "bdb_ok E view" and inv: "acc_inv view st" and qs: "list_all eok qs"
    and h: "sent_held type coff enc acceptor_id_ok valid sb evs0 es0"
  shows "\<exists>st' sb' evs.
    acc_each E (step E) (\<lambda>sb r. batch_append type coff ioff True pos (enc (entry r)) sb) st sb qs
      = Inr (st', sb', evs)
    \<and> acc_inv view st' \<and> view_of view st' = fst (spec_batch spec (view_of view st) qs)
    \<and> never_unsynced evs
    \<and> sent_held type coff enc acceptor_id_ok valid sb' (evs0 @ evs)
        (es0 @ map entry (snd (spec_batch spec (view_of view st) qs)))"
  using inv qs h
proof (induction qs arbitrary: st sb evs0 es0)
  case Nil
  then show ?case by simp
next
  case (Cons q qs)
  let ?add = "\<lambda>sb r. batch_append type coff ioff True pos (enc (entry r)) sb"
  let ?r = "spec (view_of view st) q"
  have eok: "eok q" "list_all eok qs" using Cons.prems(2) by simp_all
  obtain st1 ev1 where s1: "step E st q = Inr (?r, st1, ev1)"
      "view_of view st1 = store (view_of view st) ?r" "acc_inv view st1"
      "datagrams ev1 = []" "never_unsynced ev1"
    using step [OF E Cons.prems(1) eok(1)] by blast
  have len: "\<And>r. ?r = Some r \<Longrightarrow> length (aa_value r) \<le> 7456"
    using spec_ok [OF _ eok(1)] Cons.prems(1) by (auto simp: acc_inv_def rec_ok_def)
  obtain st2 sb2 ev2 where s2: "acc_reply E ?add st1 sb ?r = Inr (st2, sb2, ev2)"
      "acc_inv view st2" "view_of view st2 = view_of view st1" "never_unsynced ev2"
      "sent_held type coff enc acceptor_id_ok valid sb2 ((evs0 @ ev1) @ ev2)
        (es0 @ map entry (case ?r of None \<Rightarrow> [] | Some r \<Rightarrow> [r]))"
    using acc_reply_ok [OF E s1(3) len held_silent [OF Cons.prems(3) s1(4)]] by blast
  obtain st3 sb3 ev3 where s3: "acc_each E (step E) ?add st2 sb2 qs = Inr (st3, sb3, ev3)"
      "acc_inv view st3" "view_of view st3 = fst (spec_batch spec (view_of view st2) qs)"
      "never_unsynced ev3"
      "sent_held type coff enc acceptor_id_ok valid sb3 (((evs0 @ ev1) @ ev2) @ ev3)
        ((es0 @ map entry (case ?r of None \<Rightarrow> [] | Some r \<Rightarrow> [r]))
          @ map entry (snd (spec_batch spec (view_of view st2) qs)))"
    using Cons.IH [OF s2(2) eok(2) s2(5)] by blast
  have "spec_batch spec (view_of view st) (q # qs) = (fst (spec_batch spec (view_of view st2) qs),
      (case ?r of None \<Rightarrow> [] | Some r \<Rightarrow> [r]) @ snd (spec_batch spec (view_of view st2) qs))"
    using s1(2) s2(3) by (auto split: prod.splits option.splits)
  then show ?case using s1 s2 s3
    by (intro exI [of _ st3] exI [of _ sb3] exI [of _ "ev1 @ ev2 @ ev3"]) auto
qed

lemma acc_batch_ok:
  assumes E: "bdb_ok E view" and inv: "acc_inv view st" and qs: "list_all eok qs"
    and sb: "length (sb_buffer sb) = MAX_UDP_MSG_SIZE"
  shows "\<exists>st' sb' evs bss.
    acc_batch E type (step E) (\<lambda>sb r. batch_append type coff ioff True pos (enc (entry r)) sb) st sb qs
      = Inr (st', sb', evs)
    \<and> acc_inv view st' \<and> view_of view st' = fst (spec_batch spec (view_of view st) qs)
    \<and> length (sb_buffer sb') = MAX_UDP_MSG_SIZE \<and> sync_state False evs = Some False
    \<and> list_all2 (carries type coff enc acceptor_id_ok valid) (datagrams evs) bss
    \<and> concat bss = map entry (snd (spec_batch spec (view_of view st) qs))"
proof -
  let ?add = "\<lambda>sb r. batch_append type coff ioff True pos (enc (entry r)) sb"
  obtain sb1 where c: "sendbuf_clear sb type (this_acceptor_id st) = Inr sb1"
      "sent_held type coff enc acceptor_id_ok valid sb1 [] []"
    using clear_held [OF sb, of "this_acceptor_id st"] inv by (auto simp: acc_inv_def)
  obtain ss where b: "stablestorage_tx_begin E (acc_storage st) = Inr ss"
      "view (ss_db ss) = view_of view st"
    using tx_begin_ok [OF E, of "acc_storage st"] by (auto simp: view_of_def)
  have v1: "view_of view (st\<lparr>acc_storage := ss\<rparr>) = view_of view st"
    using b(2) by (simp add: view_of_def)
  obtain st2 sb2 evs where e: "acc_each E (step E) ?add (st\<lparr>acc_storage := ss\<rparr>) sb1 qs = Inr (st2, sb2, evs)"
      "acc_inv view st2" "view_of view st2 = fst (spec_batch spec (view_of view st) qs)"
      "never_unsynced evs"
      "sent_held type coff enc acceptor_id_ok valid sb2 evs
        (map entry (snd (spec_batch spec (view_of view st) qs)))"
    using acc_each_ok [OF E acc_inv_storage [OF inv b(2)] qs c(2)] by (auto simp: v1)
  obtain ss' where t: "stablestorage_tx_end E (acc_storage st2) = Inr ss'"
      "view (ss_db ss') = view_of view st2"
    using tx_end_ok [OF E, of "acc_storage st2"] by (auto simp: view_of_def)
  have v2: "view_of view (st2\<lparr>acc_storage := ss'\<rparr>) = view_of view st2"
    using t(2) by (simp add: view_of_def)
  obtain evs' bss where f: "sendbuf_flush sb2 = Inr evs'"
      "list_all2 (carries type coff enc acceptor_id_ok valid) (datagrams (evs @ evs')) bss"
      "concat bss = map entry (snd (spec_batch spec (view_of view st) qs))"
    using flush_held [OF e(5)] by blast
  obtain p where "sync_state False evs = Some p" using e(4) by (auto simp: never_unsynced_def)
  then have "sync_state False (TxBegin # evs @ TxEnd # evs') = Some False"
    using flush_sync [OF f(1)] by simp
  moreover have "acc_batch E type (step E) ?add st sb qs
      = Inr (st2\<lparr>acc_storage := ss'\<rparr>, sb2, TxBegin # evs @ TxEnd # evs')"
    using c b e t f by (simp add: acc_batch_def)
  ultimately show ?thesis
    using acc_inv_storage [OF e(2) t(2)] v2 e(3) held_length [OF e(5)] f(2,3)
    by (intro exI [of _ "st2\<lparr>acc_storage := ss'\<rparr>"] exI [of _ sb2] exI [of _ "TxBegin # evs @ TxEnd # evs'"]
        exI [of _ bss]) simp
qed

end

section \<open>The three handlers meet the contract\<close>

lemma acc_inv_recs: "acc_inv view st \<Longrightarrow> view_of view st k = Some r \<Longrightarrow> rec_ok k r"
  by (simp add: acc_inv_def recs_ok_def)

lemma acc_get:
  assumes "bdb_ok E view" "acc_inv view st" "k \<noteq> 0"
  obtains ss where "stablestorage_get_record E (acc_storage st) k = Inr (view_of view st k, ss)"
    "acc_inv view (st\<lparr>acc_storage := ss\<rparr>)" "view_of view (st\<lparr>acc_storage := ss\<rparr>) = view_of view st"
proof -
  have "\<And>r. view_of view st k = Some r \<Longrightarrow> aa_iid r = k"
    using acc_inv_recs [OF assms(2)] by (simp add: rec_ok_def)
  then obtain ss where "stablestorage_get_record E (acc_storage st) k = Inr (view_of view st k, ss)"
      "ss_db ss = ss_db (acc_storage st)"
    using get_record_ok [OF assms(1,3), of "acc_storage st"] by (auto simp: view_of_def)
  then show thesis using that acc_inv_storage [OF assms(2)] by (simp add: view_of_def)
qed

lemma acc_inv_put:
  assumes "acc_inv view st" "view (ss_db ss) = (view_of view st)(k \<mapsto> r)" "rec_ok k r"
  shows "acc_inv view (st\<lparr>acc_storage := ss\<rparr>)"
    and "acc_inv view (st\<lparr>acc_storage := ss, highest_accepted_iid := k\<rparr>)"
  using assms by (auto simp: acc_inv_def view_of_def recs_ok_def)

lemma spec_prepare_ok:
  "recs_ok m \<Longrightarrow> spec_prepare m pr = Some r \<Longrightarrow> rec_ok (pr_iid pr) r"
  by (auto simp: spec_prepare_def recs_ok_def rec_ok_def split: option.splits if_splits)
    (metis order.trans order.strict_implies_order)+

lemma code_accept_ok:
  "length (ar_value ar) \<le> 7456 \<Longrightarrow> code_accept m ar = Some r \<Longrightarrow> rec_ok (ar_iid ar) r"
  by (auto simp: code_accept_def rec_ok_def split: if_splits)

lemma spec_repeat_ok: "recs_ok m \<Longrightarrow> spec_repeat m iid = Some r \<Longrightarrow> m iid = Some r \<and> rec_ok iid r"
  by (auto simp: spec_repeat_def recs_ok_def split: option.splits if_splits)

lemma rec_ok_fits: "rec_ok k r \<Longrightarrow> ACCEPT_ACK_SIZE r \<le> MAX_UDP_MSG_SIZE" "rec_ok k r \<Longrightarrow> aa_iid r = k"
  by (simp_all add: rec_ok_def ACCEPT_ACK_SIZE_def config_defs)

lemma prepare_step_ok:
  assumes E: "bdb_ok E view" and inv: "acc_inv view st" and k: "pr_iid pr \<noteq> 0"
  shows "\<exists>st' evs. prepare_step E st pr = Inr (spec_prepare (view_of view st) pr, st', evs)
    \<and> view_of view st' = store (view_of view st) (spec_prepare (view_of view st) pr)
    \<and> acc_inv view st' \<and> datagrams evs = [] \<and> never_unsynced evs"
proof -
  let ?m = "view_of view st"
  obtain ss where g: "stablestorage_get_record E (acc_storage st) (pr_iid pr) = Inr (?m (pr_iid pr), ss)"
      "acc_inv view (st\<lparr>acc_storage := ss\<rparr>)" "view_of view (st\<lparr>acc_storage := ss\<rparr>) = ?m"
    using acc_get [OF E inv k] by blast
  show ?thesis
  proof (cases "spec_prepare ?m pr")
    case None
    then have "prepare_step E st pr = Inr (None, st\<lparr>acc_storage := ss\<rparr>, [])"
      by (auto simp: prepare_step_def g(1) acc_apply_prepare_def spec_prepare_def split: option.splits if_splits)
    then show ?thesis using g None by (simp add: store_def)
  next
    case (Some r)
    have ok: "rec_ok (pr_iid pr) r" using spec_prepare_ok [OF _ Some] inv by (simp add: acc_inv_def)
    obtain ss' where p: "put_record E ss (pr_iid pr) r = Inr (r, ss', [DbPut r])"
        "view (ss_db ss') = ?m(pr_iid pr \<mapsto> r)"
      using put_record_ok [OF E k rec_ok_fits(1) [OF ok], of ss] g(3) by (auto simp: view_of_def)
    have "prepare_step E st pr = Inr (Some r, st\<lparr>acc_storage := ss'\<rparr>, [DbPut r])"
      using Some p(1)
      by (auto simp: prepare_step_def g(1) acc_apply_prepare_def spec_prepare_def
          stablestorage_save_prepare_def split: option.splits if_splits)
    then show ?thesis
      using Some p(2) acc_inv_put(1) [OF inv p(2) ok] rec_ok_fits(2) [OF ok]
      by (simp add: store_def view_of_def)
  qed
qed

lemma accept_step_ok:
  assumes E: "bdb_ok E view" and inv: "acc_inv view st" and k: "ar_iid ar \<noteq> 0"
    and len: "length (ar_value ar) \<le> 7456"
  shows "\<exists>st' evs. accept_step E st ar = Inr (code_accept (view_of view st) ar, st', evs)
    \<and> view_of view st' = store (view_of view st) (code_accept (view_of view st) ar)
    \<and> acc_inv view st' \<and> datagrams evs = [] \<and> never_unsynced evs"
proof -
  let ?m = "view_of view st"
  obtain ss where g: "stablestorage_get_record E (acc_storage st) (ar_iid ar) = Inr (?m (ar_iid ar), ss)"
      "acc_inv view (st\<lparr>acc_storage := ss\<rparr>)" "view_of view (st\<lparr>acc_storage := ss\<rparr>) = ?m"
    using acc_get [OF E inv k] by blast
  show ?thesis
  proof (cases "code_accept ?m ar")
    case None
    then have "accept_step E st ar = Inr (None, st\<lparr>acc_storage := ss\<rparr>, [])"
      by (auto simp: accept_step_def g(1) acc_apply_accept_def code_accept_def split: option.splits if_splits)
    then show ?thesis using g None by (simp add: store_def)
  next
    case (Some r)
    have ok: "rec_ok (ar_iid ar) r" using code_accept_ok [OF len Some] .
    obtain ss' where p: "put_record E ss (ar_iid ar) r = Inr (r, ss', [DbPut r])"
        "view (ss_db ss') = ?m(ar_iid ar \<mapsto> r)"
      using put_record_ok [OF E k rec_ok_fits(1) [OF ok], of ss] g(3) by (auto simp: view_of_def)
    have "accept_step E st ar = Inr (Some r, (if ar_iid ar > highest_accepted_iid st
        then st\<lparr>acc_storage := ss', highest_accepted_iid := ar_iid ar\<rparr>
        else st\<lparr>acc_storage := ss'\<rparr>), [DbPut r])"
      using Some p(1)
      by (auto simp: accept_step_def g(1) acc_apply_accept_def code_accept_def
          stablestorage_save_accept_def split: option.splits if_splits)
    then show ?thesis
      using Some p(2) acc_inv_put [OF inv p(2) ok] rec_ok_fits(2) [OF ok]
      by (simp add: store_def view_of_def)
  qed
qed

lemma repeat_step_ok:
  assumes E: "bdb_ok E view" and inv: "acc_inv view st" and k: "iid \<noteq> 0"
  shows "\<exists>st' evs. repeat_step E st iid = Inr (spec_repeat (view_of view st) iid, st', evs)
    \<and> view_of view st' = store (view_of view st) (spec_repeat (view_of view st) iid)
    \<and> acc_inv view st' \<and> datagrams evs = [] \<and> never_unsynced evs"
proof -
  let ?m = "view_of view st"
  obtain ss where g: "stablestorage_get_record E (acc_storage st) iid = Inr (?m iid, ss)"
      "acc_inv view (st\<lparr>acc_storage := ss\<rparr>)" "view_of view (st\<lparr>acc_storage := ss\<rparr>) = ?m"
    using acc_get [OF E inv k] by blast
  have "repeat_step E st iid = Inr (spec_repeat ?m iid, st\<lparr>acc_storage := ss\<rparr>, [])"
    by (auto simp: repeat_step_def g(1) spec_repeat_def split: option.splits)
  moreover have "store ?m (spec_repeat ?m iid) = ?m"
    using spec_repeat_ok [of ?m iid] inv
    by (cases "spec_repeat ?m iid") (auto simp: store_def acc_inv_def rec_ok_def)
  ultimately show ?thesis using g by simp
qed

interpretation prepare_op: acceptor_op prepare_acks 2 "Some 0" "\<lambda>ds c. ds" enc_prepare_ack
  rd_prepare_ack PREPARE_ACK_SIZE "\<lambda>r. length (pa_value r) + 44 \<le> MAX_UDP_MSG_SIZE"
  prepare_step spec_prepare "\<lambda>pr. pr_iid pr \<noteq> 0" prepare_ack_of
proof unfold_locales
  show "rec_ok (aa_iid r) r" if "recs_ok m" "pr_iid q \<noteq> 0" "spec_prepare m q = Some r" for m q r
    using spec_prepare_ok [OF that(1,3)] rec_ok_fits(2) by metis
qed (auto simp: config_defs prepare_ack_of_def intro: prepare_step_ok)

interpretation accept_op: acceptor_op accept_acks 2 "Some 0" "\<lambda>ds c. ds" enc_accept_ack
  rd_accept_ack ACCEPT_ACK_SIZE "\<lambda>r. length (aa_value r) + 44 \<le> MAX_UDP_MSG_SIZE"
  accept_step code_accept "\<lambda>ar. ar_iid ar \<noteq> 0 \<and> length (ar_value ar) \<le> 7456" "\<lambda>r. r"
proof unfold_locales
  show "rec_ok (aa_iid r) r" if "ar_iid q \<noteq> 0 \<and> length (ar_value q) \<le> 7456" "code_accept m q = Some r"
    for m q r
    using code_accept_ok [OF _ that(2)] that(1) rec_ok_fits(2) by metis
qed (auto simp: config_defs intro: accept_step_ok)

interpretation repeat_op: acceptor_op accept_acks 2 "Some 0" "\<lambda>ds c. ds" enc_accept_ack
  rd_accept_ack ACCEPT_ACK_SIZE "\<lambda>r. length (aa_value r) + 44 \<le> MAX_UDP_MSG_SIZE"
  repeat_step spec_repeat "\<lambda>iid. iid \<noteq> 0" "\<lambda>r. r"
proof unfold_locales
  show "rec_ok (aa_iid r) r" if "recs_ok m" "q \<noteq> 0" "spec_repeat m q = Some r" for m q r
    using spec_repeat_ok [OF that(1,3)] rec_ok_fits(2) by metis
qed (auto simp: config_defs intro: repeat_step_ok)

section \<open>A database in memory\<close>

text \<open>A database that is a map, to evaluate the model with; it behaves as documented.\<close>

definition map_bdb :: "nat \<Rightarrow> records bdb" where
  "map_bdb mode = \<lparr>DURABILITY_MODE = mode,
     db_get = (\<lambda>db k. case db k of None \<Rightarrow> DB_NOTFOUND | Some r \<Rightarrow> DB_OK r),
     db_put = (\<lambda>db k r. (0, db(k \<mapsto> r))),
     db_txn_begin = (\<lambda>db. (0, db)), db_txn_commit = (\<lambda>db. (0, db)), db_sync = (\<lambda>db. (0, db))\<rparr>"

definition empty_record :: acceptor_record where
  "empty_record = \<lparr>aa_iid = 0, aa_ballot = 0, aa_value_ballot = 0, aa_is_final = 0, aa_value = []\<rparr>"

definition acceptor_on :: "records \<Rightarrow> records acceptor" where
  "acceptor_on m = the (acceptor_init 0 \<lparr>ss_db = m, record_buffer = empty_record\<rparr> True True True)"

lemma map_bdb_ok: "bdb_ok (map_bdb mode) (\<lambda>db. db)"
  by (simp add: bdb_ok_def map_bdb_def split: option.splits)

lemma acceptor_init_inv:
  assumes "acceptor_init i ss n t s = Some st" "recs_ok (view (ss_db ss))"
  shows "acc_inv view st"
proof -
  have "i = 0 \<or> i = 1 \<or> i = 2"
    using assms(1) by (auto simp: acceptor_init_def config_defs split: if_splits)
  then have "acceptor_id_ok (word_of_int i)"
    by (auto simp: acceptor_id_ok_def config_defs)
  with assms show ?thesis
    by (auto simp: acceptor_init_def acc_inv_def view_of_def udp_sendbuf_new_def split: if_splits)
qed

lemma acceptor_on_inv: "recs_ok m \<Longrightarrow> acc_inv (\<lambda>db. db) (acceptor_on m)"
  by (rule acceptor_init_inv [of 0 "\<lparr>ss_db = m, record_buffer = empty_record\<rparr>" True True True])
    (simp_all add: acceptor_on_def acceptor_init_def config_defs)

lemma acceptor_on_view: "view_of (\<lambda>db. db) (acceptor_on m) = m"
  by (simp add: acceptor_on_def acceptor_init_def config_defs view_of_def)

section \<open>Properties\<close>

lemma add_ack_eq:
  "sendbuf_add_prepare_ack =
     (\<lambda>sb r. batch_append prepare_acks 2 (Some 0) True (\<lambda>ds c. ds) (enc_prepare_ack (prepare_ack_of r)) sb)"
  "sendbuf_add_accept_ack =
     (\<lambda>sb r. batch_append accept_acks 2 (Some 0) True (\<lambda>ds c. ds) (enc_accept_ack r) sb)"
  by (simp_all add: fun_eq_iff sendbuf_add_prepare_ack_def sendbuf_add_accept_ack_def)

lemma read_acks_eq:
  "read_prepare_acks = (\<lambda>b. rbind (rd16 b (offsetof_data + 2)) (\<lambda>c.
     read_entries rd_prepare_ack PREPARE_ACK_SIZE (loop_count c) b (offsetof_data + sizeof_batch)))"
  "read_accept_acks = (\<lambda>b. rbind (rd16 b (offsetof_data + 2)) (\<lambda>c.
     read_entries rd_accept_ack ACCEPT_ACK_SIZE (loop_count c) b (offsetof_data + sizeof_batch)))"
  by (simp_all add: fun_eq_iff read_prepare_acks_def read_accept_acks_def)

lemma acc_inv_buffers:
  "acc_inv view st \<Longrightarrow> length (sb_buffer sb) = MAX_UDP_MSG_SIZE \<Longrightarrow>
     acc_inv view (st\<lparr>to_proposers := sb\<rparr>) \<and> acc_inv view (st\<lparr>to_learners := sb\<rparr>)"
  by (simp add: acc_inv_def view_of_def)

lemma view_of_buffers [simp]:
  "view_of view (st\<lparr>to_proposers := sb\<rparr>) = view_of view st"
  "view_of view (st\<lparr>to_learners := sb\<rparr>) = view_of view st"
  "view_of view (st\<lparr>acc_recv_buffer := b\<rparr>) = view_of view st"
  by (simp_all add: view_of_def)

abbreviation accept_acks_carried :: "bytes list \<Rightarrow> acceptor_record list list \<Rightarrow> bool" where
  "accept_acks_carried \<equiv> list_all2 (carries accept_acks 2 enc_accept_ack acceptor_id_ok
     (\<lambda>r. length (aa_value r) + 44 \<le> MAX_UDP_MSG_SIZE))"

lemma accept_handler:
  assumes "bdb_ok E view" "acc_inv view st"
    and "list_all (\<lambda>ar. ar_iid ar \<noteq> 0 \<and> length (ar_value ar) \<le> 7456) ars"
  shows "\<exists>st' evs bss. handle_accept_req_batch E st ars = Inr (st', evs) \<and> acc_inv view st'
    \<and> view_of view st' = fst (spec_batch code_accept (view_of view st) ars)
    \<and> accept_acks_carried (datagrams evs) bss
    \<and> concat bss = snd (spec_batch code_accept (view_of view st) ars)"
proof -
  have "length (sb_buffer (to_learners st)) = MAX_UDP_MSG_SIZE" using assms(2) by (simp add: acc_inv_def)
  from accept_op.acc_batch_ok [OF assms this] show ?thesis
    unfolding handle_accept_req_batch_def add_ack_eq
    by (fastforce intro: acc_inv_buffers [THEN conjunct2])
qed

lemma accept_acks_read:
  "accept_acks_carried ds bss \<Longrightarrow> length old = MAX_UDP_MSG_SIZE \<Longrightarrow>
     receive_all read_accept_acks old ds = Inr (concat bss)"
  unfolding read_acks_eq by (rule accept_ack_link.receive_all_carries)

text \<open>C10. A batch of accept requests for instances other than 0, with values of at most 7456 bytes: the
  acceptor does not fail and keeps its invariant. It drops a request if its record has a lower ballot, and
  otherwise accepts it (\<open>code_accept\<close>); the learners read exactly the acknowledgements of the requests
  it accepted, in order. If no request finds a record with another ballot than its own, this is the acceptance
  of Paxos (\<open>spec_accept\<close>), which drops a request if the record has a higher ballot. Values of 7457
  to 7460 bytes, which \<^verbatim>\<open>libpaxos.h\<close> allows, are excluded: their acknowledgement reads past the
  send buffer (\<open>large_ack_overreads\<close>).\<close>

theorem accept_batch_refines:
  assumes "bdb_ok E view" "acc_inv view st" "length old = MAX_UDP_MSG_SIZE"
    and "list_all (\<lambda>ar. ar_iid ar \<noteq> 0 \<and> length (ar_value ar) \<le> 7456) ars"
  shows "\<exists>st' evs. handle_accept_req_batch E st ars = Inr (st', evs) \<and> acc_inv view st'
    \<and> view_of view st' = fst (spec_batch code_accept (view_of view st) ars)
    \<and> receive_all read_accept_acks old (datagrams evs)
        = Inr (snd (spec_batch code_accept (view_of view st) ars))
    \<and> (ballots_agree (view_of view st) ars \<longrightarrow>
        view_of view st' = fst (spec_batch spec_accept (view_of view st) ars)
        \<and> receive_all read_accept_acks old (datagrams evs)
            = Inr (snd (spec_batch spec_accept (view_of view st) ars)))"
  using accept_handler [OF assms(1,2,4)] accept_acks_read [OF _ assms(3)] batch_is_spec [of "view_of view st" ars] by fastforce

theorem accept_batch_refines_witness:
  "\<exists>st' evs. handle_accept_req_batch (map_bdb 13) (acceptor_on Map.empty)
      [\<lparr>ar_iid = 1, ar_ballot = 10, ar_value = [5]\<rparr>, \<lparr>ar_iid = 1, ar_ballot = 10, ar_value = [5]\<rparr>] = Inr (st', evs)
    \<and> acc_inv (\<lambda>db. db) st'
    \<and> view_of (\<lambda>db. db) st' = fst (spec_batch spec_accept Map.empty
        [\<lparr>ar_iid = 1, ar_ballot = 10, ar_value = [5]\<rparr>, \<lparr>ar_iid = 1, ar_ballot = 10, ar_value = [5]\<rparr>])
    \<and> receive_all read_accept_acks (replicate MAX_UDP_MSG_SIZE 0) (datagrams evs)
        = Inr (snd (spec_batch spec_accept Map.empty
            [\<lparr>ar_iid = 1, ar_ballot = 10, ar_value = [5]\<rparr>, \<lparr>ar_iid = 1, ar_ballot = 10, ar_value = [5]\<rparr>]))"
proof -
  let ?ars = "[\<lparr>ar_iid = 1, ar_ballot = 10, ar_value = [5]\<rparr>, \<lparr>ar_iid = 1, ar_ballot = 10, ar_value = [5]\<rparr>]"
  have "ballots_agree (view_of (\<lambda>db. db) (acceptor_on Map.empty)) ?ars"
    by (simp add: acceptor_on_view spec_accept_def store_def)
  then show ?thesis
    using accept_batch_refines [OF map_bdb_ok acceptor_on_inv, of Map.empty "replicate MAX_UDP_MSG_SIZE 0" ?ars 13]
    by (auto simp: recs_ok_def acceptor_on_view)
qed

lemma prepare_handler:
  assumes "bdb_ok E view" "acc_inv view st" "list_all (\<lambda>pr. pr_iid pr \<noteq> 0) prs"
  shows "\<exists>st' evs bss. handle_prepare_req_batch E st prs = Inr (st', evs) \<and> acc_inv view st'
    \<and> view_of view st' = fst (spec_batch spec_prepare (view_of view st) prs)
    \<and> list_all2 (carries prepare_acks 2 enc_prepare_ack acceptor_id_ok
        (\<lambda>r. length (pa_value r) + 44 \<le> MAX_UDP_MSG_SIZE)) (datagrams evs) bss
    \<and> concat bss = map prepare_ack_of (snd (spec_batch spec_prepare (view_of view st) prs))"
proof -
  have "length (sb_buffer (to_proposers st)) = MAX_UDP_MSG_SIZE" using assms(2) by (simp add: acc_inv_def)
  from prepare_op.acc_batch_ok [OF assms this] show ?thesis
    unfolding handle_prepare_req_batch_def add_ack_eq
    by (fastforce intro: acc_inv_buffers [THEN conjunct1])
qed

lemma prepare_acks_read:
  "list_all2 (carries prepare_acks 2 enc_prepare_ack acceptor_id_ok
     (\<lambda>r. length (pa_value r) + 44 \<le> MAX_UDP_MSG_SIZE)) ds bss \<Longrightarrow> length old = MAX_UDP_MSG_SIZE \<Longrightarrow>
     receive_all read_prepare_acks old ds = Inr (concat bss)"
  unfolding read_acks_eq by (rule prepare_ack_link.receive_all_carries)

text \<open>C11. A batch of prepare requests: the same for the promises, which the proposers read.\<close>

theorem prepare_batch_refines:
  assumes "bdb_ok E view" "acc_inv view st" "length old = MAX_UDP_MSG_SIZE"
    and "list_all (\<lambda>pr. pr_iid pr \<noteq> 0) prs"
  shows "\<exists>st' evs. handle_prepare_req_batch E st prs = Inr (st', evs) \<and> acc_inv view st'
    \<and> view_of view st' = fst (spec_batch spec_prepare (view_of view st) prs)
    \<and> receive_all read_prepare_acks old (datagrams evs)
        = Inr (map prepare_ack_of (snd (spec_batch spec_prepare (view_of view st) prs)))"
  using prepare_handler [OF assms(1,2,4)] prepare_acks_read [OF _ assms(3)] by fastforce

theorem prepare_batch_refines_witness:
  "\<exists>st' evs. handle_prepare_req_batch (map_bdb 0) (acceptor_on Map.empty)
      [\<lparr>pr_iid = 1, pr_ballot = 11\<rparr>, \<lparr>pr_iid = 1, pr_ballot = 10\<rparr>] = Inr (st', evs) \<and> acc_inv (\<lambda>db. db) st'
    \<and> view_of (\<lambda>db. db) st' = fst (spec_batch spec_prepare (view_of (\<lambda>db. db) (acceptor_on Map.empty))
        [\<lparr>pr_iid = 1, pr_ballot = 11\<rparr>, \<lparr>pr_iid = 1, pr_ballot = 10\<rparr>])
    \<and> receive_all read_prepare_acks (replicate MAX_UDP_MSG_SIZE 0) (datagrams evs)
        = Inr (map prepare_ack_of (snd (spec_batch spec_prepare (view_of (\<lambda>db. db) (acceptor_on Map.empty))
            [\<lparr>pr_iid = 1, pr_ballot = 11\<rparr>, \<lparr>pr_iid = 1, pr_ballot = 10\<rparr>])))"
  by (rule prepare_batch_refines [OF map_bdb_ok acceptor_on_inv]) (simp_all add: recs_ok_def)

lemma spec_batch_repeat:
  "recs_ok m \<Longrightarrow> spec_batch spec_repeat m iids = (m, List.map_filter (spec_repeat m) iids)"
proof (induction iids)
  case (Cons k ks)
  have "store m (spec_repeat m k) = m"
    using spec_repeat_ok [OF Cons.prems, of k]
    by (cases "spec_repeat m k") (auto simp: store_def rec_ok_def)
  then show ?case using Cons by (auto simp: List.map_filter_def split: option.splits)
qed (simp add: List.map_filter_def)

text \<open>A batch of repeat requests changes no record, and the learners read the records of the
  requested instances that hold a value, in order.\<close>

theorem repeat_batch_refines:
  assumes "bdb_ok E view" "acc_inv view st" "length old = MAX_UDP_MSG_SIZE"
    and "list_all (\<lambda>k. k \<noteq> 0) iids"
  shows "\<exists>st' evs. handle_repeat_req_batch E st iids = Inr (st', evs) \<and> acc_inv view st'
    \<and> view_of view st' = view_of view st
    \<and> receive_all read_accept_acks old (datagrams evs)
        = Inr (List.map_filter (spec_repeat (view_of view st)) iids)"
proof -
  have r: "recs_ok (view_of view st)" and l: "length (sb_buffer (to_learners st)) = MAX_UDP_MSG_SIZE"
    using assms(2) by (simp_all add: acc_inv_def)
  from repeat_op.acc_batch_ok [OF assms(1,2,4) l] show ?thesis
    using accept_ack_link.receive_all_carries [OF _ assms(3)]
    unfolding handle_repeat_req_batch_def add_ack_eq read_acks_eq spec_batch_repeat [OF r]
    by (fastforce intro: acc_inv_buffers [THEN conjunct2])
qed

theorem repeat_batch_refines_witness:
  "\<exists>st' evs. handle_repeat_req_batch (map_bdb 20) (acceptor_on
      [3 \<mapsto> \<lparr>aa_iid = 3, aa_ballot = 10, aa_value_ballot = 10, aa_is_final = 0, aa_value = [5]\<rparr>])
      [2, 3] = Inr (st', evs) \<and> acc_inv (\<lambda>db. db) st'
    \<and> view_of (\<lambda>db. db) st' = view_of (\<lambda>db. db) (acceptor_on
      [3 \<mapsto> \<lparr>aa_iid = 3, aa_ballot = 10, aa_value_ballot = 10, aa_is_final = 0, aa_value = [5]\<rparr>])
    \<and> receive_all read_accept_acks (replicate MAX_UDP_MSG_SIZE 0) (datagrams evs)
        = Inr (List.map_filter (spec_repeat (view_of (\<lambda>db. db) (acceptor_on
      [3 \<mapsto> \<lparr>aa_iid = 3, aa_ballot = 10, aa_value_ballot = 10, aa_is_final = 0, aa_value = [5]\<rparr>])))
      [2, 3])"
  by (rule repeat_batch_refines [OF map_bdb_ok acceptor_on_inv]) (simp_all add: recs_ok_def rec_ok_def)

lemma retransmit_ok:
  assumes "bdb_ok E view" "acc_inv view st" "highest_accepted_iid st \<noteq> 0"
    "view_of view st (highest_accepted_iid st) = Some r"
  shows "\<exists>st' evs bss. acc_retransmit_latest_accept E st = Inr (st', evs) \<and> acc_inv view st'
    \<and> view_of view st' = view_of view st
    \<and> list_all2 (carries accept_acks 2 enc_accept_ack acceptor_id_ok
        (\<lambda>r. length (aa_value r) + 44 \<le> MAX_UDP_MSG_SIZE)) (datagrams evs) bss \<and> concat bss = [r]"
proof -
  let ?held = "sent_held accept_acks 2 enc_accept_ack acceptor_id_ok
    (\<lambda>r. length (aa_value r) + 44 \<le> MAX_UDP_MSG_SIZE)"
  have "length (sb_buffer (to_learners st)) = MAX_UDP_MSG_SIZE" "acceptor_id_ok (this_acceptor_id st)"
    using assms(2) by (simp_all add: acc_inv_def)
  then obtain sb1 where c: "sendbuf_clear (to_learners st) accept_acks (this_acceptor_id st) = Inr sb1"
      "?held sb1 [] []"
    using accept_ack_link.clear_held by blast
  have v: "length (aa_value r) + 44 \<le> MAX_UDP_MSG_SIZE"
    using acc_inv_recs [OF assms(2,4)] by (simp add: rec_ok_def config_defs)
  obtain sb2 evs where a: "sendbuf_add_accept_ack sb1 r = Inr (sb2, evs)" "?held sb2 evs [r]"
    using accept_ack_link.append_held [OF c(2) v] by (auto simp: add_ack_eq)
  obtain evs' bss where f: "sendbuf_flush sb2 = Inr evs'"
      "list_all2 (carries accept_acks 2 enc_accept_ack acceptor_id_ok
        (\<lambda>r. length (aa_value r) + 44 \<le> MAX_UDP_MSG_SIZE)) (datagrams (evs @ evs')) bss" "concat bss = [r]"
    using accept_ack_link.flush_held [OF a(2)] by blast
  obtain ss where t1: "stablestorage_tx_begin E (acc_storage st) = Inr ss" "view (ss_db ss) = view_of view st"
    using tx_begin_ok [OF assms(1), of "acc_storage st"] by (auto simp: view_of_def)
  obtain ss' where g: "stablestorage_get_record E ss (highest_accepted_iid st) = Inr (Some r, ss')"
      "view (ss_db ss') = view_of view st"
    using acc_get [OF assms(1) acc_inv_storage [OF assms(2) t1(2)] assms(3)] t1(2) assms(4)
    by (auto simp: view_of_def)
  obtain ss2 where t2: "run_tx E evs ss' = Inr ss2" "view (ss_db ss2) = view_of view st"
    using run_tx_ok [OF assms(1), of evs ss'] g(2) by auto
  obtain ss3 where t3: "stablestorage_tx_end E ss2 = Inr ss3" "view (ss_db ss3) = view_of view st"
    using tx_end_ok [OF assms(1), of ss2] t2(2) by auto
  have "acc_inv view (st\<lparr>to_learners := sb2, acc_storage := ss3\<rparr>)"
    using assms(2) t3(2) accept_ack_link.held_length [OF a(2)] by (simp add: acc_inv_def view_of_def)
  moreover have "acc_retransmit_latest_accept E st
      = Inr (st\<lparr>to_learners := sb2, acc_storage := ss3\<rparr>, TxBegin # evs @ TxEnd # evs')"
    using c a f t1 g t2 t3 by (simp add: acc_retransmit_latest_accept_def)
  ultimately show ?thesis using f(2,3) t3(2) by (auto simp: view_of_def)
qed

text \<open>The periodic repeater never meets a missing record: it sends the record of the highest
  accepted instance and nothing else, or nothing when no value was accepted, and changes no record.\<close>

theorem periodic_repeater_sends_latest:
  assumes "bdb_ok E view" "acc_inv view st" "length old = MAX_UDP_MSG_SIZE"
  shows "\<exists>st' evs. acc_periodic_repeater E st = Inr (st', evs) \<and> acc_inv view st'
    \<and> view_of view st' = view_of view st
    \<and> receive_all read_accept_acks old (datagrams evs)
      = Inr (if highest_accepted_iid st = 0 then []
             else [the (view_of view st (highest_accepted_iid st))])"
proof (cases "highest_accepted_iid st = 0")
  case True
  then show ?thesis using assms(2) by (simp add: acc_periodic_repeater_def)
next
  case False
  then obtain r where r: "view_of view st (highest_accepted_iid st) = Some r"
    using assms(2) by (auto simp: acc_inv_def)
  from retransmit_ok [OF assms(1,2) False r] False r show ?thesis
    using accept_ack_link.receive_all_carries [OF _ assms(3)]
    unfolding acc_periodic_repeater_def read_acks_eq by (fastforce simp: word_neq_0_conv)
qed

definition repeating_acceptor :: "records acceptor" where
  "repeating_acceptor = (acceptor_on [3 \<mapsto> \<lparr>aa_iid = 3, aa_ballot = 10, aa_value_ballot = 10,
     aa_is_final = 0, aa_value = [5]\<rparr>])\<lparr>highest_accepted_iid := 3\<rparr>"

theorem periodic_repeater_sends_latest_witness:
  "\<exists>st' evs. acc_periodic_repeater (map_bdb 0) repeating_acceptor = Inr (st', evs)
    \<and> acc_inv (\<lambda>db. db) st' \<and> view_of (\<lambda>db. db) st' = view_of (\<lambda>db. db) repeating_acceptor
    \<and> receive_all read_accept_acks (replicate MAX_UDP_MSG_SIZE 0) (datagrams evs)
      = Inr (if highest_accepted_iid repeating_acceptor = 0 then []
             else [the (view_of (\<lambda>db. db) repeating_acceptor (highest_accepted_iid repeating_acceptor))])"
proof (rule periodic_repeater_sends_latest [OF map_bdb_ok])
  let ?m = "[3 \<mapsto> \<lparr>aa_iid = 3, aa_ballot = 10, aa_value_ballot = 10, aa_is_final = 0, aa_value = [5]\<rparr>]"
  have "acc_inv (\<lambda>db. db) (acceptor_on ?m)"
    by (rule acceptor_on_inv) (simp add: recs_ok_def rec_ok_def)
  moreover have "view_of (\<lambda>db. db) (acceptor_on ?m) = ?m" by (rule acceptor_on_view)
  ultimately show "acc_inv (\<lambda>db. db) repeating_acceptor"
    by (simp add: repeating_acceptor_def acc_inv_def view_of_def)
qed simp

lemma spec_batch_prepare_mono:
  "m k = Some r \<Longrightarrow> recs_ok m \<Longrightarrow> \<exists>r'. fst (spec_batch spec_prepare m prs) k = Some r'
     \<and> aa_ballot r \<le> aa_ballot r' \<and> r' = r\<lparr>aa_ballot := aa_ballot r'\<rparr>"
proof (induction prs arbitrary: m r)
  case (Cons pr prs)
  have st: "recs_ok (store m (spec_prepare m pr))"
    using Cons.prems(2) by (intro recs_ok_store) (auto dest: spec_prepare_ok simp: rec_ok_def)
  have "\<exists>r1. store m (spec_prepare m pr) k = Some r1 \<and> aa_ballot r \<le> aa_ballot r1
      \<and> r1 = r\<lparr>aa_ballot := aa_ballot r1\<rparr>"
    using Cons.prems
    by (auto simp: store_def spec_prepare_def recs_ok_def rec_ok_def split: option.splits)
  then obtain r1 where r1: "store m (spec_prepare m pr) k = Some r1" "aa_ballot r \<le> aa_ballot r1"
      "r1 = r\<lparr>aa_ballot := aa_ballot r1\<rparr>" by blast
  obtain r2 where r2: "fst (spec_batch spec_prepare (store m (spec_prepare m pr)) prs) k = Some r2"
      "aa_ballot r1 \<le> aa_ballot r2" "r2 = r1\<lparr>aa_ballot := aa_ballot r2\<rparr>"
    using Cons.IH [OF r1(1) st] by blast
  have "r2 = r\<lparr>aa_ballot := aa_ballot r2\<rparr>" using r1(3) r2(3) by (cases r, cases r1, cases r2) simp
  then show ?case using r1(2) r2(1,2) by (auto split: prod.splits intro: order.trans)
qed simp

text \<open>C20. Phase 1 keeps what it must keep: after a batch of prepare requests every record is still
  there, with a ballot no lower than before and the same accepted value and value ballot.\<close>

theorem prepare_keeps_promises_and_values:
  assumes "bdb_ok E view" "acc_inv view st" "list_all (\<lambda>pr. pr_iid pr \<noteq> 0) prs"
    and "view_of view st k = Some r"
  shows "\<exists>st' evs r'. handle_prepare_req_batch E st prs = Inr (st', evs) \<and> view_of view st' k = Some r'
    \<and> aa_ballot r \<le> aa_ballot r' \<and> r' = r\<lparr>aa_ballot := aa_ballot r'\<rparr>"
  using prepare_handler [OF assms(1,2,3)] spec_batch_prepare_mono [of "view_of view st" k r prs] assms(2,4)
  by (fastforce simp: acc_inv_def)

theorem prepare_keeps_promises_and_values_witness:
  "\<exists>st' evs r'. handle_prepare_req_batch (map_bdb 0)
      (acceptor_on [3 \<mapsto> \<lparr>aa_iid = 3, aa_ballot = 10, aa_value_ballot = 10, aa_is_final = 0, aa_value = [5]\<rparr>])
      [\<lparr>pr_iid = 3, pr_ballot = 21\<rparr>] = Inr (st', evs) \<and> view_of (\<lambda>db. db) st' 3 = Some r'
    \<and> aa_ballot \<lparr>aa_iid = 3, aa_ballot = 10, aa_value_ballot = 10, aa_is_final = 0, aa_value = [5]\<rparr> \<le> aa_ballot r'
    \<and> r' = \<lparr>aa_iid = 3, aa_ballot = 10, aa_value_ballot = 10, aa_is_final = 0, aa_value = [5]\<rparr>\<lparr>aa_ballot := aa_ballot r'\<rparr>"
  by (rule prepare_keeps_promises_and_values [OF map_bdb_ok acceptor_on_inv])
    (simp_all add: recs_ok_def rec_ok_def acceptor_on_view)

definition accepted_record :: "accept_req \<Rightarrow> acceptor_record" where
  "accepted_record ar = \<lparr>aa_iid = ar_iid ar, aa_ballot = ar_ballot ar, aa_value_ballot = ar_ballot ar,
     aa_is_final = 0, aa_value = ar_value ar\<rparr>"

text \<open>Phase 2 tests the ballot the wrong way round: with a record for the instance, a request
  with a higher ballot than the record's is ignored without an answer; one with a lower ballot is
  accepted, acknowledged to the learners, and replaces the promise by its own lower ballot.\<close>

theorem accept_guard_reversed:
  assumes "bdb_ok E view" "acc_inv view st" "view_of view st (ar_iid ar) = Some r"
    and "ar_iid ar \<noteq> 0" "length (ar_value ar) \<le> 7456" "length old = MAX_UDP_MSG_SIZE"
  shows "\<exists>st' evs. handle_accept_req_batch E st [ar] = Inr (st', evs)
    \<and> (aa_ballot r < ar_ballot ar \<longrightarrow> view_of view st' = view_of view st
        \<and> receive_all read_accept_acks old (datagrams evs) = Inr [])
    \<and> (ar_ballot ar < aa_ballot r \<longrightarrow>
        view_of view st' = (view_of view st)(ar_iid ar \<mapsto> accepted_record ar)
        \<and> receive_all read_accept_acks old (datagrams evs) = Inr [accepted_record ar])"
proof -
  let ?m = "view_of view st"
  have "list_all (\<lambda>ar. ar_iid ar \<noteq> 0 \<and> length (ar_value ar) \<le> 7456) [ar]" using assms by simp
  then obtain st' evs where b: "handle_accept_req_batch E st [ar] = Inr (st', evs)"
      "view_of view st' = fst (spec_batch code_accept ?m [ar])"
      "receive_all read_accept_acks old (datagrams evs) = Inr (snd (spec_batch code_accept ?m [ar]))"
    using accept_handler [OF assms(1,2), of "[ar]"] accept_acks_read [OF _ assms(6)] by metis
  have "spec_batch code_accept ?m [ar] = (if aa_ballot r < ar_ballot ar then (?m, [])
      else (?m(ar_iid ar \<mapsto> accepted_record ar), [accepted_record ar]))"
    using assms(3) by (simp add: code_accept_def store_def accepted_record_def)
  then show ?thesis using b by auto
qed

theorem accept_guard_reversed_witness:
  "\<exists>st' evs. handle_accept_req_batch (map_bdb 0)
      (acceptor_on [3 \<mapsto> \<lparr>aa_iid = 3, aa_ballot = 21, aa_value_ballot = 0, aa_is_final = 0, aa_value = []\<rparr>])
      [\<lparr>ar_iid = 3, ar_ballot = 10, ar_value = [9]\<rparr>] = Inr (st', evs)
    \<and> view_of (\<lambda>db. db) st' 3 = Some (accepted_record \<lparr>ar_iid = 3, ar_ballot = 10, ar_value = [9]\<rparr>)
    \<and> receive_all read_accept_acks (replicate MAX_UDP_MSG_SIZE 0) (datagrams evs)
      = Inr [accepted_record \<lparr>ar_iid = 3, ar_ballot = 10, ar_value = [9]\<rparr>]"
  using accept_guard_reversed [OF map_bdb_ok [of 0] acceptor_on_inv, of "[3 \<mapsto>
      \<lparr>aa_iid = 3, aa_ballot = 21, aa_value_ballot = 0, aa_is_final = 0, aa_value = []\<rparr>]"
      "\<lparr>ar_iid = 3, ar_ballot = 10, ar_value = [9]\<rparr>"
      "\<lparr>aa_iid = 3, aa_ballot = 21, aa_value_ballot = 0, aa_is_final = 0, aa_value = []\<rparr>"
      "replicate MAX_UDP_MSG_SIZE 0"]
  by (auto simp: rec_ok_def acceptor_on_view)

lemma apply_sync:
  "prepare_step E st pr = Inr (rec, st', evs) \<Longrightarrow> never_unsynced evs"
  "accept_step E st ar = Inr (rec, st', evs) \<Longrightarrow> never_unsynced evs"
  "repeat_step E st iid = Inr (rec, st', evs) \<Longrightarrow> never_unsynced evs"
  by (auto simp: prepare_step_def acc_apply_prepare_def stablestorage_save_prepare_def
      accept_step_def acc_apply_accept_def stablestorage_save_accept_def repeat_step_def
      put_record_def res_eq_Inr Let_def split: if_splits)

lemma acc_each_sync:
  assumes "\<And>st q rec st' evs. step st q = Inr (rec, st', evs) \<Longrightarrow> never_unsynced evs"
    and "\<And>sb r sb' evs. add sb r = Inr (sb', evs) \<Longrightarrow> never_unsynced evs"
  shows "acc_each E step add st sb qs = Inr (st', sb', evs) \<Longrightarrow> never_unsynced evs"
proof (induction qs arbitrary: st sb evs)
  case (Cons q qs)
  then obtain rec st1 ev1 st2 sb2 ev2 ev3 where *: "step st q = Inr (rec, st1, ev1)"
      "acc_reply E add st1 sb rec = Inr (st2, sb2, ev2)"
      "acc_each E step add st2 sb2 qs = Inr (st', sb', ev3)" "evs = ev1 @ ev2 @ ev3"
    by (fastforce simp: res_eq_Inr)
  have "never_unsynced ev2" using *(2) assms(2)
    by (auto simp: acc_reply_def res_eq_Inr split: option.splits)
  then show ?case using assms(1) [OF *(1)] Cons.IH [OF *(3)] *(4) by blast
qed simp

lemma acc_batch_sync:
  assumes "acc_batch E type step add st sb qs = Inr (st', sb', evs)"
    and "\<And>st q rec st' evs. step st q = Inr (rec, st', evs) \<Longrightarrow> never_unsynced evs"
    and "\<And>sb r sb' evs. add sb r = Inr (sb', evs) \<Longrightarrow> never_unsynced evs"
  shows "sync_state False evs = Some False"
proof -
  obtain sb1 ss st2 sb2 ev1 ev2 where *: "acc_each E step add (st\<lparr>acc_storage := ss\<rparr>) sb1 qs = Inr (st2, sb2, ev1)"
      "sendbuf_flush sb2 = Inr ev2" "evs = TxBegin # ev1 @ TxEnd # ev2"
    using assms(1) by (fastforce simp: acc_batch_def res_eq_Inr)
  have "never_unsynced ev1" by (rule acc_each_sync [OF _ _ *(1)]) (erule assms(2,3))+
  then obtain p where "sync_state False ev1 = Some p" by (auto simp: never_unsynced_def)
  then show ?thesis using *(3) flush_sync [OF *(2)] by simp
qed

lemma add_ack_sync:
  "sendbuf_add_prepare_ack sb r = Inr (sb', evs) \<Longrightarrow> never_unsynced evs"
  "sendbuf_add_accept_ack sb r = Inr (sb', evs) \<Longrightarrow> never_unsynced evs"
  by (simp_all add: add_ack_eq append_sync)

lemma newmsg_accept:
  assumes "carries accept_reqs 0 enc_accept_req proposer_id_ok
      (\<lambda>r. length (ar_value r) + 36 \<le> MAX_UDP_MSG_SIZE) d ars"
    and "length (acc_recv_buffer st) = MAX_UDP_MSG_SIZE"
  shows "\<exists>b. length b = MAX_UDP_MSG_SIZE \<and>
    acc_handle_newmsg E st (Some d) = handle_accept_req_batch E (st\<lparr>acc_recv_buffer := b\<rparr>) ars"
  using accept_req_link.receive_carries [OF assms] accept_req_link.receive_type [OF assms]
  by (fastforce simp: acc_handle_newmsg_def Let_def read_batches_eq)

lemma newmsg_prepare:
  assumes "carries prepare_reqs 0 enc_prepare_req proposer_id_ok (\<lambda>_. True) d prs"
    and "length (acc_recv_buffer st) = MAX_UDP_MSG_SIZE"
  shows "\<exists>b. length b = MAX_UDP_MSG_SIZE \<and>
    acc_handle_newmsg E st (Some d) = handle_prepare_req_batch E (st\<lparr>acc_recv_buffer := b\<rparr>) prs"
  using prepare_req_link.receive_carries [OF assms] prepare_req_link.receive_type [OF assms]
  by (fastforce simp: acc_handle_newmsg_def Let_def read_batches_eq)

text \<open>C19. Whatever message an acceptor handles, and whatever the database answers, no
  acknowledgement leaves the acceptor while a record it wrote is not yet committed.\<close>

theorem acks_after_commit:
  assumes "acc_handle_newmsg E st dgram = Inr (st', evs)"
  shows "sync_state False evs = Some False"
  using assms
  by (auto simp: acc_handle_newmsg_def handle_prepare_req_batch_def handle_accept_req_batch_def
      handle_repeat_req_batch_def res_eq_Inr Let_def split: if_splits
      intro: acc_batch_sync apply_sync add_ack_sync)

theorem acks_after_commit_witness:
  "\<exists>st' evs. acc_handle_newmsg (map_bdb 13) (acceptor_on Map.empty)
      (Some (batch_bytes prepare_reqs 0 enc_prepare_req 0 [\<lparr>pr_iid = 1, pr_ballot = 10\<rparr>] @ [0, 0, 0, 0]))
      = Inr (st', evs) \<and> sync_state False evs = Some False"
proof -
  let ?d = "batch_bytes prepare_reqs 0 enc_prepare_req 0 [\<lparr>pr_iid = 1, pr_ballot = 10\<rparr>] @ [0, 0, 0, 0]"
  have c: "carries prepare_reqs 0 enc_prepare_req proposer_id_ok (\<lambda>_. True) ?d [\<lparr>pr_iid = 1, pr_ballot = 10\<rparr>]"
    unfolding carries_def
    by (intro exI [of _ 0] exI [of _ "[0, 0, 0, 0]"]) (simp add: proposer_id_ok_def config_defs)
  have inv: "acc_inv (\<lambda>db. db) (acceptor_on Map.empty)" by (rule acceptor_on_inv) (simp add: recs_ok_def)
  obtain b where b: "acc_handle_newmsg (map_bdb 13) (acceptor_on Map.empty) (Some ?d)
      = handle_prepare_req_batch (map_bdb 13) ((acceptor_on Map.empty)\<lparr>acc_recv_buffer := b\<rparr>)
          [\<lparr>pr_iid = 1, pr_ballot = 10\<rparr>]" "length b = MAX_UDP_MSG_SIZE"
    using newmsg_prepare [OF c] inv by (auto simp: acc_inv_def)
  have inv': "acc_inv (\<lambda>db. db) ((acceptor_on Map.empty)\<lparr>acc_recv_buffer := b\<rparr>)"
    using inv b(2) by (simp add: acc_inv_def view_of_def)
  obtain st' evs where "acc_handle_newmsg (map_bdb 13) (acceptor_on Map.empty) (Some ?d) = Inr (st', evs)"
    using prepare_handler [OF map_bdb_ok inv', of "[\<lparr>pr_iid = 1, pr_ballot = 10\<rparr>]" 13] b(1) by auto
  with acks_after_commit [OF this] show ?thesis by blast
qed

section \<open>A phase 2 round\<close>

fun acc_handle_all :: "'db bdb \<Rightarrow> 'db acceptor \<Rightarrow> bytes list \<Rightarrow> ('db acceptor \<times> io_event list) res" where
  "acc_handle_all E st [] = Inr (st, [])"
| "acc_handle_all E st (d # ds) =
     rbind (acc_handle_newmsg E st (Some d)) (\<lambda>(st, evs).
     rbind (acc_handle_all E st ds) (\<lambda>(st, evs'). Inr (st, evs @ evs')))"

lemma spec_batch_append:
  "spec_batch spec m (xs @ ys) =
     (fst (spec_batch spec (fst (spec_batch spec m xs)) ys),
      snd (spec_batch spec m xs) @ snd (spec_batch spec (fst (spec_batch spec m xs)) ys))"
  by (induction xs arbitrary: m) (auto split: prod.splits option.splits)

lemma acc_handle_all_ok:
  assumes "bdb_ok E view" "acc_inv view st"
    and "list_all2 (carries accept_reqs 0 enc_accept_req proposer_id_ok
      (\<lambda>r. length (ar_value r) + 36 \<le> MAX_UDP_MSG_SIZE)) ds arss"
    and "list_all (\<lambda>ar. ar_iid ar \<noteq> 0 \<and> length (ar_value ar) \<le> 7456) (concat arss)"
  shows "\<exists>st' evs bss. acc_handle_all E st ds = Inr (st', evs) \<and> acc_inv view st'
    \<and> view_of view st' = fst (spec_batch code_accept (view_of view st) (concat arss))
    \<and> accept_acks_carried (datagrams evs) bss
    \<and> concat bss = snd (spec_batch code_accept (view_of view st) (concat arss))"
  using assms(3,2,4)
proof (induction arbitrary: st rule: list_all2_induct)
  case Nil
  then show ?case by (auto intro: exI [of _ "[]"])
next
  case (Cons d ds ars arss)
  have len: "length (acc_recv_buffer st) = MAX_UDP_MSG_SIZE" using Cons.prems(1) by (simp add: acc_inv_def)
  obtain b where b: "length b = MAX_UDP_MSG_SIZE"
      "acc_handle_newmsg E st (Some d) = handle_accept_req_batch E (st\<lparr>acc_recv_buffer := b\<rparr>) ars"
    using newmsg_accept [OF Cons.hyps(1) len] by blast
  have inv: "acc_inv view (st\<lparr>acc_recv_buffer := b\<rparr>)"
    using Cons.prems(1) b(1) by (simp add: acc_inv_def view_of_def)
  obtain st1 ev1 bss1 where 1: "acc_handle_newmsg E st (Some d) = Inr (st1, ev1)" "acc_inv view st1"
      "view_of view st1 = fst (spec_batch code_accept (view_of view st) ars)"
      "accept_acks_carried (datagrams ev1) bss1"
      "concat bss1 = snd (spec_batch code_accept (view_of view st) ars)"
    using accept_handler [OF assms(1) inv, of ars] Cons.prems(2) b(2) by auto
  obtain st2 ev2 bss2 where 2: "acc_handle_all E st1 ds = Inr (st2, ev2)" "acc_inv view st2"
      "view_of view st2 = fst (spec_batch code_accept (view_of view st1) (concat arss))"
      "accept_acks_carried (datagrams ev2) bss2"
      "concat bss2 = snd (spec_batch code_accept (view_of view st1) (concat arss))"
    using Cons.IH [OF 1(2)] Cons.prems(2) by auto
  have "accept_acks_carried (datagrams (ev1 @ ev2)) (bss1 @ bss2)"
    using 1(4) 2(4) by (simp add: list_all2_appendI)
  then show ?case using 1 2
    by (intro exI [of _ st2] exI [of _ "ev1 @ ev2"] exI [of _ "bss1 @ bss2"]) (simp add: spec_batch_append)
qed

text \<open>C12. A phase 2 round over the network: a proposer sends a list of accept requests, for instances other
  than 0 and with values of at most 7456 bytes (the limit of C10), an acceptor handles the datagrams one after
  the other, a learner reads what the acceptor sends. The learner gets the acknowledgements that the test of
  the code (\<open>code_accept\<close>) gives for the list, and the acceptor ends with its records. If no request
  finds a record with another ballot than its own, these are the ones of Paxos (\<open>spec_accept\<close>).\<close>

theorem accept_round:
  assumes "bdb_ok E view" "acc_inv view st" "length (sb_buffer sb) = MAX_UDP_MSG_SIZE"
    and "length old = MAX_UDP_MSG_SIZE" "proposer_id_ok i"
    and "list_all (\<lambda>ar. ar_iid ar \<noteq> 0 \<and> length (ar_value ar) \<le> 7456) ars"
  shows "\<exists>sb' evs st' evs'. send_batch accept_reqs
      (\<lambda>sb r. sendbuf_add_accept_req sb (ar_iid r) (ar_ballot r) (ar_value r)) sb i ars = Inr (sb', evs)
    \<and> acc_handle_all E st (datagrams evs) = Inr (st', evs') \<and> acc_inv view st'
    \<and> view_of view st' = fst (spec_batch code_accept (view_of view st) ars)
    \<and> receive_all read_accept_acks old (datagrams evs') = Inr (snd (spec_batch code_accept (view_of view st) ars))
    \<and> (ballots_agree (view_of view st) ars \<longrightarrow>
        view_of view st' = fst (spec_batch spec_accept (view_of view st) ars)
        \<and> receive_all read_accept_acks old (datagrams evs') = Inr (snd (spec_batch spec_accept (view_of view st) ars)))"
proof -
  have "list_all (\<lambda>r. length (ar_value r) + 36 \<le> MAX_UDP_MSG_SIZE) ars"
    using assms(6) by (auto simp: list_all_iff config_defs)
  then obtain sb' evs bss where s: "send_batch accept_reqs
      (\<lambda>sb r. sendbuf_add_accept_req sb (ar_iid r) (ar_ballot r) (ar_value r)) sb i ars = Inr (sb', evs)"
      "list_all2 (carries accept_reqs 0 enc_accept_req proposer_id_ok
        (\<lambda>r. length (ar_value r) + 36 \<le> MAX_UDP_MSG_SIZE)) (datagrams evs) bss" "concat bss = ars"
    using accept_req_link.send_batch_carries [OF assms(3), of i ars] assms(5)
    unfolding sendbuf_adds_eq by blast
  have "list_all (\<lambda>ar. ar_iid ar \<noteq> 0 \<and> length (ar_value ar) \<le> 7456) (concat bss)" using assms(6) s(3) by simp
  from acc_handle_all_ok [OF assms(1,2) s(2) this] obtain st' evs' bss' where
      "acc_handle_all E st (datagrams evs) = Inr (st', evs')" "acc_inv view st'"
      "view_of view st' = fst (spec_batch code_accept (view_of view st) ars)"
      "receive_all read_accept_acks old (datagrams evs') = Inr (snd (spec_batch code_accept (view_of view st) ars))"
    using accept_acks_read [OF _ assms(4)] s(3) by metis
  then show ?thesis using s(1) batch_is_spec [of "view_of view st" ars] by auto
qed

theorem accept_round_witness:
  "\<exists>sb' evs st' evs'. send_batch accept_reqs
      (\<lambda>sb r. sendbuf_add_accept_req sb (ar_iid r) (ar_ballot r) (ar_value r)) (udp_sendbuf_new Acceptors) 0
      [\<lparr>ar_iid = 1, ar_ballot = 10, ar_value = [5]\<rparr>] = Inr (sb', evs)
    \<and> acc_handle_all (map_bdb 0) (acceptor_on Map.empty) (datagrams evs) = Inr (st', evs') \<and> acc_inv (\<lambda>db. db) st'
    \<and> receive_all read_accept_acks (replicate MAX_UDP_MSG_SIZE 0) (datagrams evs')
        = Inr (snd (spec_batch spec_accept Map.empty [\<lparr>ar_iid = 1, ar_ballot = 10, ar_value = [5]\<rparr>]))"
proof -
  let ?ars = "[\<lparr>ar_iid = 1, ar_ballot = 10, ar_value = [5]\<rparr>]"
  have "ballots_agree (view_of (\<lambda>db. db) (acceptor_on Map.empty)) ?ars" by (simp add: acceptor_on_view)
  moreover have "length (sb_buffer (udp_sendbuf_new Acceptors)) = MAX_UDP_MSG_SIZE" by (simp add: udp_sendbuf_new_def)
  ultimately show ?thesis
    using accept_round [OF map_bdb_ok acceptor_on_inv, of Map.empty "udp_sendbuf_new Acceptors" "replicate MAX_UDP_MSG_SIZE 0" 0 ?ars 0]
    by (auto simp: recs_ok_def acceptor_on_view proposer_id_ok_def config_defs)
qed

end
