(* ===== verification/Learner.thy ===== *)
theory Learner
  imports Transport
begin

text \<open>
  The learner (\<^verbatim>\<open>paxos2/lib/learner.c\<close>): it collects the accept acknowledgements of the
  instances in a circular table of 2048 entries, closes an instance when a quorum of acceptors
  acknowledged the same ballot, and delivers the closed instances in order. The table is a function
  on the index \<^verbatim>\<open>iid & (LEARNER_ARRAY_SIZE-1)\<close>. A pointer to an acknowledgement is an
  option; \<^verbatim>\<open>final_value\<close> points to one of the stored acknowledgements, which are not
  changed while it is set, so it is a copy. The callback \<^verbatim>\<open>delfun\<close> is the list of its calls.
\<close>

section \<open>State\<close>

definition LEARNER_ARRAY_SIZE :: u32 where "LEARNER_ARRAY_SIZE = 2048"

record l_inst_info =
  li_iid :: iid_t
  li_last_update_ballot :: ballot_t
  li_acks :: "accept_ack option list"
  li_final_value :: "accept_ack option"

record learner =
  highest_iid_seen :: iid_t
  current_iid :: iid_t
  highest_iid_closed :: iid_t
  learner_state :: "u32 \<Rightarrow> l_inst_info"
  lea_to_acceptors :: udp_send_buffer
  lea_recv_buffer :: bytes

text \<open>A call of the delivery callback.\<close>

record delivery =
  del_value :: bytes
  del_iid :: iid_t
  del_ballot :: ballot_t
  del_proposer :: u16

definition IS_CLOSED :: "l_inst_info \<Rightarrow> bool" where
  "IS_CLOSED ii \<longleftrightarrow> li_final_value ii \<noteq> None"

definition lea_index :: "iid_t \<Rightarrow> u32" where
  "lea_index iid = iid AND (LEARNER_ARRAY_SIZE - 1)"

definition GET_LEA_INSTANCE :: "learner \<Rightarrow> iid_t \<Rightarrow> l_inst_info" where
  "GET_LEA_INSTANCE st iid = learner_state st (lea_index iid)"

definition set_instance :: "learner \<Rightarrow> iid_t \<Rightarrow> l_inst_info \<Rightarrow> learner" where
  "set_instance st iid ii = st\<lparr>learner_state := (learner_state st)(lea_index iid := ii)\<rparr>"

section \<open>Helpers\<close>

definition learner_is_closed :: "learner \<Rightarrow> iid_t \<Rightarrow> bool" where
  "learner_is_closed st iid \<longleftrightarrow>
     (let ii = GET_LEA_INSTANCE st iid in iid = li_iid ii \<and> IS_CLOSED ii)"

definition lea_clear_instance_info :: "l_inst_info \<Rightarrow> l_inst_info" where
  "lea_clear_instance_info ii =
     ii\<lparr>li_iid := 0, li_last_update_ballot := 0, li_final_value := None,
        li_acks := replicate N_OF_ACCEPTORS None\<rparr>"

definition lea_store_accept_ack :: "l_inst_info \<Rightarrow> u16 \<Rightarrow> accept_ack \<Rightarrow> l_inst_info res" where
  "lea_store_accept_ack ii acceptor_id aa =
     rguard (0 \<le> sint acceptor_id \<and> nat (sint acceptor_id) < length (li_acks ii))
       (Inr (ii\<lparr>li_acks := (li_acks ii)[nat (sint acceptor_id) := Some aa],
                li_last_update_ballot := aa_ballot aa\<rparr>))"

definition lea_update_state :: "l_inst_info \<Rightarrow> u16 \<Rightarrow> accept_ack \<Rightarrow> (bool \<times> l_inst_info) res" where
  "lea_update_state ii acceptor_id aa =
     (let ii = (if li_iid ii = 0
                then ii\<lparr>li_iid := aa_iid aa, li_last_update_ballot := aa_ballot aa\<rparr> else ii)
      in rassert (li_iid ii = aa_iid aa) (
         if IS_CLOSED ii then Inr (False, ii)
         else rguard (0 \<le> sint acceptor_id \<and> nat (sint acceptor_id) < length (li_acks ii)) (
           case li_acks ii ! nat (sint acceptor_id) of
             None \<Rightarrow> rbind (lea_store_accept_ack ii acceptor_id aa) (\<lambda>ii.
               Inr (True, ii\<lparr>li_last_update_ballot := aa_ballot aa\<rparr>))
           | Some prev_ack \<Rightarrow>
               if aa_ballot prev_ack \<ge> aa_ballot aa then Inr (False, ii)
               else rbind (lea_store_accept_ack ii acceptor_id aa) (\<lambda>ii.
                 Inr (True, ii\<lparr>li_last_update_ballot := aa_ballot aa\<rparr>)))))"

text \<open>
  The loop of \<^verbatim>\<open>lea_check_quorum\<close> over the stored acknowledgements from index \<open>i\<close>: the
  index of the last one counted and the count.
\<close>

fun count_acks :: "ballot_t \<Rightarrow> accept_ack option list \<Rightarrow> nat \<Rightarrow> nat option \<Rightarrow> nat \<Rightarrow> nat option \<times> nat" where
  "count_acks b [] i a_valid_index count = (a_valid_index, count)"
| "count_acks b (None # acks) i a_valid_index count = count_acks b acks (Suc i) a_valid_index count"
| "count_acks b (Some curr_ack # acks) i a_valid_index count =
     (if aa_ballot curr_ack = b
      then if aa_is_final curr_ack \<noteq> 0 then (Some i, Suc count + N_OF_ACCEPTORS)
           else count_acks b acks (Suc i) (Some i) (Suc count)
      else count_acks b acks (Suc i) a_valid_index count)"

text \<open>The result: whether the instance is closed, its entry, and \<^verbatim>\<open>highest_iid_closed\<close>.\<close>

definition lea_check_quorum :: "l_inst_info \<Rightarrow> iid_t \<Rightarrow> (bool \<times> l_inst_info \<times> iid_t) res" where
  "lea_check_quorum ii closed =
     (case count_acks (li_last_update_ballot ii) (li_acks ii) 0 None 0 of (a_valid_index, count) \<Rightarrow>
        if count \<ge> QUORUM
        then case a_valid_index of
               None \<Rightarrow> Inl OutOfBounds
             | Some i \<Rightarrow> Inr (True, ii\<lparr>li_final_value := li_acks ii ! i\<rparr>,
                              if li_iid ii > closed then li_iid ii else closed)
        else Inr (False, ii, closed))"

definition delivery_of :: "iid_t \<Rightarrow> accept_ack \<Rightarrow> delivery" where
  "delivery_of iid aa = \<lparr>del_value = aa_value aa, del_iid = iid, del_ballot = aa_ballot aa,
     del_proposer = ucast (aa_ballot aa mod word_of_nat MAX_N_OF_PROPOSERS)\<rparr>"

text \<open>
  \<^verbatim>\<open>lea_deliver_next_closed\<close>: each turn of the loop clears a closed entry of the table, so it
  ends after at most as many turns as there are closed entries.
\<close>

definition deliver_current :: "learner \<Rightarrow> learner" where
  "deliver_current st =
     set_instance (st\<lparr>current_iid := current_iid st + 1\<rparr>) (current_iid st)
       (lea_clear_instance_info (GET_LEA_INSTANCE st (current_iid st)))"

definition closed_slots :: "learner \<Rightarrow> u32 set" where
  "closed_slots st = {i. IS_CLOSED (learner_state st i)}"

lemma deliver_current_closed_slots:
  assumes "IS_CLOSED (GET_LEA_INSTANCE st (current_iid st))"
  shows "card (closed_slots (deliver_current st)) < card (closed_slots st)"
proof (rule psubset_card_mono)
  have "closed_slots (deliver_current st) = closed_slots st - {lea_index (current_iid st)}"
    by (auto simp: closed_slots_def deliver_current_def set_instance_def lea_clear_instance_info_def
        IS_CLOSED_def split: if_splits)
  then show "closed_slots (deliver_current st) \<subset> closed_slots st"
    using assms by (auto simp: closed_slots_def GET_LEA_INSTANCE_def)
qed simp

function lea_deliver_next_closed :: "learner \<Rightarrow> (learner \<times> delivery list) res" where
  "lea_deliver_next_closed st =
     (let ii = GET_LEA_INSTANCE st (current_iid st) in
      case li_final_value ii of
        None \<Rightarrow> Inr (st, [])
      | Some aa \<Rightarrow> rassert (li_iid ii = current_iid st) (
          rbind (lea_deliver_next_closed (deliver_current st)) (\<lambda>(st', ds).
            Inr (st', delivery_of (current_iid st) aa # ds))))"
  by pat_completeness auto

termination
  by (relation "measure (\<lambda>st. card (closed_slots st))")
    (auto simp: IS_CLOSED_def intro!: deliver_current_closed_slots)

declare lea_deliver_next_closed.simps [simp del]

text \<open>The loop over \<^verbatim>\<open>i = from; i < to; i++\<close> of unsigned instance numbers.\<close>

definition iid_range :: "iid_t \<Rightarrow> iid_t \<Rightarrow> iid_t list" where
  "iid_range from to = map word_of_nat [unat from ..< unat to]"

definition lea_send_repeat_request :: "learner \<Rightarrow> iid_t \<Rightarrow> iid_t \<Rightarrow> (learner \<times> io_event list) res" where
  "lea_send_repeat_request st from to =
     rbind (send_batch repeat_reqs sendbuf_add_repeat_req (lea_to_acceptors st) (- 1)
       (filter (\<lambda>i. \<not> IS_CLOSED (GET_LEA_INSTANCE st i)) (iid_range from to))) (\<lambda>(sb, evs).
       Inr (st\<lparr>lea_to_acceptors := sb\<rparr>, evs))"

definition lea_hole_check :: "learner \<Rightarrow> (learner \<times> io_event list) res" where
  "lea_hole_check st =
     (if highest_iid_seen st > current_iid st + LEARNER_ARRAY_SIZE
      then lea_send_repeat_request st (current_iid st) (highest_iid_seen st)
      else if highest_iid_closed st > current_iid st
      then lea_send_repeat_request st (current_iid st) (highest_iid_closed st)
      else Inr (st, []))"

section \<open>Event handlers\<close>

definition handle_accept_ack :: "learner \<Rightarrow> u16 \<Rightarrow> accept_ack \<Rightarrow> (learner \<times> delivery list) res" where
  "handle_accept_ack st acceptor_id aa =
     (let st = (if aa_iid aa > highest_iid_seen st then st\<lparr>highest_iid_seen := aa_iid aa\<rparr> else st) in
      if aa_iid aa < current_iid st then Inr (st, [])
      else if aa_iid aa \<ge> current_iid st + LEARNER_ARRAY_SIZE then Inr (st, [])
      else rbind (lea_update_state (GET_LEA_INSTANCE st (aa_iid aa)) acceptor_id aa) (\<lambda>(relevant, ii).
        let st = set_instance st (aa_iid aa) ii in
        if \<not> relevant then Inr (st, [])
        else rbind (lea_check_quorum ii (highest_iid_closed st)) (\<lambda>(closed, ii, hic).
          let st = (set_instance st (aa_iid aa) ii)\<lparr>highest_iid_closed := hic\<rparr> in
          if \<not> closed then Inr (st, [])
          else if aa_iid aa = current_iid st then lea_deliver_next_closed st
          else Inr (st, []))))"

fun handle_accept_acks :: "learner \<Rightarrow> u16 \<Rightarrow> accept_ack list \<Rightarrow> (learner \<times> delivery list) res" where
  "handle_accept_acks st acceptor_id [] = Inr (st, [])"
| "handle_accept_acks st acceptor_id (aa # aas) =
     rbind (handle_accept_ack st acceptor_id aa) (\<lambda>(st, ds).
     rbind (handle_accept_acks st acceptor_id aas) (\<lambda>(st, ds'). Inr (st, ds @ ds')))"

text \<open>\<^verbatim>\<open>handle_accept_ack_batch\<close> on the message in the receive buffer.\<close>

definition handle_accept_ack_batch :: "learner \<Rightarrow> (learner \<times> delivery list) res" where
  "handle_accept_ack_batch st =
     rbind (rd16 (lea_recv_buffer st) offsetof_data) (\<lambda>acceptor_id.
     rbind (read_accept_acks (lea_recv_buffer st)) (\<lambda>aas.
       handle_accept_acks st acceptor_id aas))"

definition lea_handle_newmsg :: "learner \<Rightarrow> bytes option \<Rightarrow> (learner \<times> delivery list) res" where
  "lea_handle_newmsg st dgram =
     rbind (udp_read_next_message (lea_recv_buffer st) dgram) (\<lambda>(valid, b).
     let st = st\<lparr>lea_recv_buffer := b\<rparr> in
     if valid < 0 then Inr (st, [])
     else rbind (rd32 b 8) (\<lambda>ty.
       if ty = msg_code accept_acks then handle_accept_ack_batch st else Inr (st, [])))"

section \<open>Initialization\<close>

definition empty_instance :: l_inst_info where
  "empty_instance = \<lparr>li_iid = 0, li_last_update_ballot = 0, li_acks = replicate N_OF_ACCEPTORS None,
     li_final_value = None\<rparr>"

text \<open>\<^verbatim>\<open>init_lea_structs\<close>: the check of the size of the table, then every entry is
  zeroed and cleared.\<close>

definition init_lea_structs :: "learner \<Rightarrow> int \<times> learner" where
  "init_lea_structs st =
     (if LEARNER_ARRAY_SIZE AND (LEARNER_ARRAY_SIZE - 1) \<noteq> 0 then (- 1, st)
      else (0, st\<lparr>learner_state := (\<lambda>_. lea_clear_instance_info empty_instance)\<rparr>))"

lemma init_lea_structs_ok:
  "init_lea_structs st = (0, st\<lparr>learner_state := (\<lambda>_. empty_instance)\<rparr>)"
  by (simp add: init_lea_structs_def LEARNER_ARRAY_SIZE_def lea_clear_instance_info_def empty_instance_def)

definition init_learner :: learner where
  "init_learner = \<lparr>highest_iid_seen = 1, current_iid = 1, highest_iid_closed = 0,
     learner_state = (\<lambda>_. empty_instance), lea_to_acceptors = udp_sendbuf_new Acceptors,
     lea_recv_buffer = replicate MAX_UDP_MSG_SIZE 0\<rparr>"

end
