(* ===== verification/LearnerSpec.thy ===== *)
theory LearnerSpec
  imports Learner
begin

text \<open>
  What the learner promises: from any sequence of acknowledgements it delivers the instances
  1, 2, 3, ... once each and in order, and every delivered value is that of an acknowledgement in a ballot
  which a quorum of acceptors acknowledged, or was declared final by one acceptor. The learner compares the
  ballots of the acknowledgements and not their values; where the acknowledgements of a ballot agree on the
  value, the quorum acknowledged the delivered value. \<open>H\<close> is the history of the
  acknowledgements received, with the index of their sender.
\<close>

section \<open>The circular table\<close>

lemma lea_index_unat: "unat (lea_index iid) = unat iid mod 2048"
  by (simp add: lea_index_def LEARNER_ARRAY_SIZE_def unat_and_2047)

lemma lea_index_eq: "lea_index v = lea_index w \<longleftrightarrow> unat v mod 2048 = unat w mod 2048"
  by (metis lea_index_unat word_unat_eq_iff)

lemma unat_word_mod_2048: "unat (word_of_nat i :: u32) mod 2048 = i mod 2048"
proof -
  have "unat (word_of_nat i :: u32) = i mod 2 ^ 32" by (simp add: unat_of_nat)
  moreover have "(i mod 2 ^ 32) mod 2048 = i mod (2048 :: nat)" by (rule mod_mod_cancel) simp
  ultimately show ?thesis by simp
qed

interpretation lea_tab: circular "\<lambda>i. lea_index (word_of_nat i)" 2048
  by unfold_locales (simp_all add: lea_index_eq unat_word_mod_2048)

section \<open>Invariant\<close>

type_synonym history = "(nat \<times> accept_ack) set"

definition supporters :: "history \<Rightarrow> iid_t \<Rightarrow> ballot_t \<Rightarrow> nat set" where
  "supporters H iid b = {j. j < N_OF_ACCEPTORS \<and> (\<exists>a. (j, a) \<in> H \<and> aa_iid a = iid \<and> aa_ballot a = b)}"

definition backed :: "history \<Rightarrow> iid_t \<Rightarrow> accept_ack \<Rightarrow> bool" where
  "backed H iid a \<longleftrightarrow> (\<exists>j. (j, a) \<in> H) \<and> aa_iid a = iid
     \<and> (aa_is_final a \<noteq> 0 \<or> card (supporters H iid (aa_ballot a)) \<ge> QUORUM)"

definition delivered_ok :: "history \<Rightarrow> delivery \<Rightarrow> bool" where
  "delivered_ok H d \<longleftrightarrow> (\<exists>a. backed H (del_iid d) a \<and> d = delivery_of (del_iid d) a)"

definition acks_ok :: "history \<Rightarrow> l_inst_info \<Rightarrow> bool" where
  "acks_ok H ii \<longleftrightarrow> length (li_acks ii) = N_OF_ACCEPTORS
     \<and> (\<forall>j a. j < N_OF_ACCEPTORS \<longrightarrow> li_acks ii ! j = Some a \<longrightarrow> aa_iid a = li_iid ii \<and> (j, a) \<in> H)"

definition in_window :: "iid_t \<Rightarrow> iid_t \<Rightarrow> bool" where
  "in_window cur iid \<longleftrightarrow> unat cur \<le> unat iid \<and> unat iid < unat cur + 2048 \<and> unat iid + 1 < 2 ^ 32"

definition slot_ok :: "history \<Rightarrow> iid_t \<Rightarrow> u32 \<Rightarrow> l_inst_info \<Rightarrow> bool" where
  "slot_ok H cur i ii \<longleftrightarrow>
     (if li_iid ii = 0 then li_acks ii = replicate N_OF_ACCEPTORS None \<and> li_final_value ii = None
      else lea_index (li_iid ii) = i \<and> in_window cur (li_iid ii) \<and> acks_ok H ii
        \<and> (\<forall>a. li_final_value ii = Some a \<longrightarrow> backed H (li_iid ii) a))"

definition slots_ok :: "history \<Rightarrow> learner \<Rightarrow> bool" where
  "slots_ok H st \<longleftrightarrow> (\<forall>i. slot_ok H (current_iid st) i (learner_state st i))"

definition lea_inv :: "history \<Rightarrow> learner \<Rightarrow> bool" where
  "lea_inv H st \<longleftrightarrow> slots_ok H st \<and> current_iid st \<noteq> 0
     \<and> \<not> IS_CLOSED (GET_LEA_INSTANCE st (current_iid st))
     \<and> length (sb_buffer (lea_to_acceptors st)) = MAX_UDP_MSG_SIZE
     \<and> length (lea_recv_buffer st) = MAX_UDP_MSG_SIZE"

lemma supporters_mono: "H \<subseteq> H' \<Longrightarrow> supporters H iid b \<subseteq> supporters H' iid b"
  by (auto simp: supporters_def)

lemma finite_supporters [simp]: "finite (supporters H iid b)"
  by (simp add: supporters_def)

lemma backed_mono: "H \<subseteq> H' \<Longrightarrow> backed H iid a \<Longrightarrow> backed H' iid a"
  unfolding backed_def by (meson card_mono finite_supporters le_trans subsetD supporters_mono)

lemma acks_ok_mono: "H \<subseteq> H' \<Longrightarrow> acks_ok H ii \<Longrightarrow> acks_ok H' ii"
  unfolding acks_ok_def by blast

lemma slot_ok_mono: "H \<subseteq> H' \<Longrightarrow> slot_ok H cur i ii \<Longrightarrow> slot_ok H' cur i ii"
  by (auto simp: slot_ok_def intro: acks_ok_mono backed_mono split: if_splits)

lemma lea_inv_mono: "H \<subseteq> H' \<Longrightarrow> lea_inv H st \<Longrightarrow> lea_inv H' st"
  by (auto simp: lea_inv_def slots_ok_def intro: slot_ok_mono)

lemma init_learner_inv: "lea_inv {} init_learner"
  by (simp add: lea_inv_def slots_ok_def slot_ok_def init_learner_def empty_instance_def
      IS_CLOSED_def GET_LEA_INSTANCE_def udp_sendbuf_new_def)

section \<open>Delivery\<close>

lemma window_slot:
  assumes "in_window cur v" "in_window cur w" "lea_index v = lea_index w"
  shows "v = w"
proof -
  have "unat v = unat w"
    using lea_tab.window_slot_inj [of "unat cur" "unat v" "unat w"] assms
    by (auto simp: in_window_def)
  then show ?thesis by (simp add: word_unat_eq_iff)
qed

lemma closed_current_iid:
  assumes "slots_ok H st" "li_final_value (GET_LEA_INSTANCE st (current_iid st)) = Some a"
  shows "li_iid (GET_LEA_INSTANCE st (current_iid st)) = current_iid st"
    and "in_window (current_iid st) (current_iid st)" and "backed H (current_iid st) a"
proof -
  let ?ii = "GET_LEA_INSTANCE st (current_iid st)" and ?c = "current_iid st"
  have ok: "slot_ok H ?c (lea_index ?c) ?ii"
    using assms(1) by (simp add: slots_ok_def GET_LEA_INSTANCE_def)
  then have s: "lea_index (li_iid ?ii) = lea_index ?c" "in_window ?c (li_iid ?ii)"
      "backed H (li_iid ?ii) a"
    using assms(2) by (auto simp: slot_ok_def split: if_splits)
  then have "in_window ?c ?c" by (auto simp: in_window_def)
  moreover show "li_iid ?ii = ?c" using window_slot [OF s(2) calculation s(1)] .
  ultimately show "in_window ?c ?c" "backed H ?c a" using s by simp_all
qed

lemma unat_inc: "unat (w :: u32) + 1 < 2 ^ 32 \<Longrightarrow> unat (w + 1) = unat w + 1"
  by (simp add: unat_word_ariths)

lemma deliver_current_slots:
  assumes "slots_ok H st" "IS_CLOSED (GET_LEA_INSTANCE st (current_iid st))"
  shows "slots_ok H (deliver_current st)" "unat (current_iid (deliver_current st)) = unat (current_iid st) + 1"
proof -
  obtain a where a: "li_final_value (GET_LEA_INSTANCE st (current_iid st)) = Some a"
    using assms(2) by (auto simp: IS_CLOSED_def)
  note c = closed_current_iid [OF assms(1) a]
  show u: "unat (current_iid (deliver_current st)) = unat (current_iid st) + 1"
    using c(2) by (simp add: deliver_current_def set_instance_def in_window_def unat_inc)
  show "slots_ok H (deliver_current st)"
    unfolding slots_ok_def
  proof
    fix i
    show "slot_ok H (current_iid (deliver_current st)) i (learner_state (deliver_current st) i)"
    proof (cases "i = lea_index (current_iid st)")
      case True
      then show ?thesis
        by (simp add: slot_ok_def deliver_current_def set_instance_def lea_clear_instance_info_def)
    next
      case False
      let ?ii = "learner_state st i"
      have ok: "slot_ok H (current_iid st) i ?ii" using assms(1) by (simp add: slots_ok_def)
      have same: "learner_state (deliver_current st) i = ?ii"
        using False by (simp add: deliver_current_def set_instance_def)
      have "in_window (current_iid (deliver_current st)) (li_iid ?ii)" if "li_iid ?ii \<noteq> 0"
      proof -
        have w: "in_window (current_iid st) (li_iid ?ii)" "lea_index (li_iid ?ii) = i"
          using ok that by (auto simp: slot_ok_def)
        then have "li_iid ?ii \<noteq> current_iid st" using False by auto
        then have "unat (li_iid ?ii) \<noteq> unat (current_iid st)" by (simp add: word_unat_eq_iff)
        with w(1) u show ?thesis by (auto simp: in_window_def)
      qed
      with ok same show ?thesis by (auto simp: slot_ok_def)
    qed
  qed
qed

lemma deliver_next_closed_ok:
  assumes "slots_ok H st"
  shows "\<exists>st' ds. lea_deliver_next_closed st = Inr (st', ds) \<and> slots_ok H st'
    \<and> \<not> IS_CLOSED (GET_LEA_INSTANCE st' (current_iid st'))
    \<and> unat (current_iid st') = unat (current_iid st) + length ds
    \<and> map (\<lambda>d. unat (del_iid d)) ds = [unat (current_iid st) ..< unat (current_iid st')]
    \<and> list_all (delivered_ok H) ds
    \<and> lea_to_acceptors st' = lea_to_acceptors st \<and> lea_recv_buffer st' = lea_recv_buffer st"
  using assms
proof (induction st rule: lea_deliver_next_closed.induct)
  case (1 st)
  let ?ii = "GET_LEA_INSTANCE st (current_iid st)"
  show ?case
  proof (cases "li_final_value ?ii")
    case None
    then show ?thesis using "1.prems" by (subst lea_deliver_next_closed.simps) (simp add: IS_CLOSED_def)
  next
    case (Some a)
    then have cl: "IS_CLOSED ?ii" by (simp add: IS_CLOSED_def)
    note c = closed_current_iid [OF "1.prems" Some] and d = deliver_current_slots [OF "1.prems" cl]
    obtain st' ds where r: "lea_deliver_next_closed (deliver_current st) = Inr (st', ds)"
        "slots_ok H st'" "\<not> IS_CLOSED (GET_LEA_INSTANCE st' (current_iid st'))"
        "unat (current_iid st') = unat (current_iid (deliver_current st)) + length ds"
        "map (\<lambda>d. unat (del_iid d)) ds = [unat (current_iid (deliver_current st)) ..< unat (current_iid st')]"
        "list_all (delivered_ok H) ds"
        "lea_to_acceptors st' = lea_to_acceptors (deliver_current st)"
        "lea_recv_buffer st' = lea_recv_buffer (deliver_current st)"
      using "1.IH" [OF refl Some c(1) d(1)] by blast
    have "lea_deliver_next_closed st = Inr (st', delivery_of (current_iid st) a # ds)"
      by (subst lea_deliver_next_closed.simps) (simp add: Some c(1) r(1))
    moreover have "delivered_ok H (delivery_of (current_iid st) a)"
      using c(3) by (auto simp: delivered_ok_def delivery_of_def)
    moreover have "[unat (current_iid st) ..< unat (current_iid st')]
        = unat (current_iid st) # [unat (current_iid st) + 1 ..< unat (current_iid st')]"
      using r(4) d(2) by (simp add: upt_rec)
    ultimately show ?thesis using r d(2)
      by (simp add: delivery_of_def deliver_current_def set_instance_def)
  qed
qed

section \<open>Closing an instance\<close>

definition picks :: "(accept_ack \<Rightarrow> bool) \<Rightarrow> accept_ack option list \<Rightarrow> nat \<Rightarrow> nat option \<Rightarrow> bool" where
  "picks P acks i av \<longleftrightarrow> (\<exists>k a. k < length acks \<and> av = Some (i + k) \<and> acks ! k = Some a \<and> P a)"

lemma picks_Cons: "picks P acks (Suc i) av \<Longrightarrow> picks P (x # acks) i av"
  unfolding picks_def by (metis Suc_less_eq add_Suc_right add_Suc length_Cons nth_Cons_Suc)

lemma picks_here: "P a \<Longrightarrow> picks P (Some a # acks) i (Some i)"
  unfolding picks_def by (intro exI [of _ 0]) simp

lemma count_acks_spec:
  assumes "count_acks b acks i av c = (av', c')"
  shows "picks (\<lambda>a. aa_ballot a = b \<and> aa_is_final a \<noteq> 0) acks i av'
    \<or> c' = c + length (filter (\<lambda>x. \<exists>a. x = Some a \<and> aa_ballot a = b) acks)
      \<and> (av' = av \<and> c' = c \<or> picks (\<lambda>a. aa_ballot a = b) acks i av')"
  using assms
  by (induction b acks i av c rule: count_acks.induct)
    (auto split: if_splits dest: picks_Cons intro: picks_here)

lemma check_quorum_ok:
  assumes "acks_ok H ii"
  shows "\<exists>closed ii' hic'. lea_check_quorum ii hic = Inr (closed, ii', hic')
    \<and> (\<not> closed \<longrightarrow> ii' = ii)
    \<and> (closed \<longrightarrow> (\<exists>a. ii' = ii\<lparr>li_final_value := Some a\<rparr> \<and> backed H (li_iid ii) a))"
proof -
  let ?b = "li_last_update_ballot ii"
  obtain av c where ca: "count_acks ?b (li_acks ii) 0 None 0 = (av, c)" by fastforce
  have len: "length (li_acks ii) = N_OF_ACCEPTORS" using assms by (simp add: acks_ok_def)
  have sup: "length (filter (\<lambda>x. \<exists>a. x = Some a \<and> aa_ballot a = ?b) (li_acks ii))
      \<le> card (supporters H (li_iid ii) ?b)"
    unfolding length_filter_conv_card using assms len
    by (intro card_mono) (auto simp: supporters_def acks_ok_def)
  show ?thesis
  proof (cases "c \<ge> QUORUM")
    case True
    then have "\<exists>k a. av = Some k \<and> li_acks ii ! k = Some a \<and> backed H (li_iid ii) a"
      using count_acks_spec [OF ca] sup assms len
      by (fastforce simp: picks_def backed_def acks_ok_def QUORUM_def)
    then obtain k a where k: "av = Some k" "li_acks ii ! k = Some a" "backed H (li_iid ii) a" by blast
    then show ?thesis using ca True
      by (intro exI [of _ True] exI [of _ "ii\<lparr>li_final_value := Some a\<rparr>"]) (auto simp: lea_check_quorum_def)
  next
    case False
    then show ?thesis using ca by (intro exI [of _ False]) (simp add: lea_check_quorum_def)
  qed
qed

lemma acks_ok_final [simp]: "acks_ok H (ii\<lparr>li_final_value := x\<rparr>) = acks_ok H ii"
  by (simp add: acks_ok_def)

lemma acks_ok_store:
  assumes "acks_ok H ii" "li_iid ii = aa_iid aa" "k < N_OF_ACCEPTORS"
  shows "acks_ok (insert (k, aa) H) (ii\<lparr>li_acks := (li_acks ii)[k := Some aa], li_last_update_ballot := b\<rparr>)"
proof -
  have len: "length (li_acks ii) = N_OF_ACCEPTORS" using assms(1) by (simp add: acks_ok_def)
  have "aa_iid a = li_iid ii \<and> (j, a) \<in> insert (k, aa) H"
    if "j < N_OF_ACCEPTORS" "(li_acks ii)[k := Some aa] ! j = Some a" for j a
  proof (cases "j = k")
    case True
    then have "a = aa" using that assms(3) len by simp
    then show ?thesis using True assms(2) by simp
  next
    case False
    then have "li_acks ii ! j = Some a" using that(2) by simp
    then show ?thesis using that(1) assms(1) unfolding acks_ok_def by blast
  qed
  then show ?thesis using len unfolding acks_ok_def by simp
qed

lemma store_accept_ack_ok:
  assumes "acks_ok H ii" "li_iid ii = aa_iid aa" "acceptor_id_ok i"
  shows "\<exists>ii'. lea_store_accept_ack ii i aa = Inr ii' \<and> li_iid ii' = aa_iid aa
    \<and> li_final_value ii' = li_final_value ii \<and> li_last_update_ballot ii' = aa_ballot aa
    \<and> acks_ok (insert (nat (sint i), aa) H) ii'"
proof -
  have n: "nat (sint i) < N_OF_ACCEPTORS" "0 \<le> sint i"
    using assms(3) by (auto simp: acceptor_id_ok_def)
  moreover have len: "length (li_acks ii) = N_OF_ACCEPTORS" using assms(1) by (simp add: acks_ok_def)
  ultimately have "lea_store_accept_ack ii i aa = Inr (ii\<lparr>li_acks := (li_acks ii)[nat (sint i) := Some aa],
      li_last_update_ballot := aa_ballot aa\<rparr>)"
    by (simp add: lea_store_accept_ack_def)
  moreover have "acks_ok (insert (nat (sint i), aa) H) (ii\<lparr>li_acks := (li_acks ii)[nat (sint i) := Some aa],
      li_last_update_ballot := aa_ballot aa\<rparr>)"
    by (rule acks_ok_store [OF assms(1,2) n(1)])
  ultimately show ?thesis using assms(2) by simp
qed

lemma update_state_ok:
  assumes ok: "slot_ok H cur (lea_index (aa_iid aa)) ii" and w: "in_window cur (aa_iid aa)" "cur \<noteq> 0"
    and id: "acceptor_id_ok i"
  shows "\<exists>rel ii'. lea_update_state ii i aa = Inr (rel, ii')
    \<and> slot_ok (insert (nat (sint i), aa) H) cur (lea_index (aa_iid aa)) ii'
    \<and> (IS_CLOSED ii' \<longleftrightarrow> IS_CLOSED ii)
    \<and> (rel \<longrightarrow> li_iid ii' = aa_iid aa \<and> acks_ok (insert (nat (sint i), aa) H) ii')"
proof -
  let ?H = "insert (nat (sint i), aa) H"
  define ii1 where "ii1 = (if li_iid ii = 0
    then ii\<lparr>li_iid := aa_iid aa, li_last_update_ballot := aa_ballot aa\<rparr> else ii)"
  have nz: "aa_iid aa \<noteq> 0" using w by (auto simp: in_window_def unat_eq_zero)
  have iid: "li_iid ii1 = aa_iid aa"
    using window_slot [OF _ w(1)] ok by (auto simp: ii1_def slot_ok_def split: if_splits)
  have acks: "acks_ok H ii1" and fin: "li_final_value ii1 = li_final_value ii"
    using ok by (auto simp: ii1_def slot_ok_def acks_ok_def split: if_splits)
  have ok1: "slot_ok H cur (lea_index (aa_iid aa)) ii1"
    using ok acks iid w nz by (auto simp: ii1_def slot_ok_def split: if_splits)
  have ok1': "slot_ok ?H cur (lea_index (aa_iid aa)) ii1" using slot_ok_mono [OF _ ok1] by blast
  have range: "0 \<le> sint i \<and> nat (sint i) < length (li_acks ii1)"
    using id acks by (auto simp: acceptor_id_ok_def acks_ok_def)
  obtain ii2 where st: "lea_store_accept_ack ii1 i aa = Inr ii2" "li_iid ii2 = aa_iid aa"
      "li_final_value ii2 = li_final_value ii" "li_last_update_ballot ii2 = aa_ballot aa" "acks_ok ?H ii2"
    using store_accept_ack_ok [OF acks iid id] fin by auto
  have ok2: "slot_ok ?H cur (lea_index (aa_iid aa)) ii2" if "\<not> IS_CLOSED ii"
    using st nz w that by (auto simp: slot_ok_def IS_CLOSED_def)
  have upd: "lea_update_state ii i aa = (if IS_CLOSED ii1 then Inr (False, ii1)
      else if \<exists>p. li_acks ii1 ! nat (sint i) = Some p \<and> aa_ballot p \<ge> aa_ballot aa then Inr (False, ii1)
      else Inr (True, ii2))"
    using iid range st(1,4)
    by (auto simp: lea_update_state_def ii1_def [symmetric] Let_def split: option.splits)
  show ?thesis
    using upd ok1' ok2 st fin by (cases "IS_CLOSED ii") (auto simp: IS_CLOSED_def)
qed

section \<open>Handling an acknowledgement\<close>

lemma window_guard:
  assumes "\<not> iid < cur" "\<not> cur + LEARNER_ARRAY_SIZE \<le> iid"
  shows "in_window cur iid"
proof -
  have u: "unat (cur + LEARNER_ARRAY_SIZE) = (unat cur + 2048) mod 2 ^ 32"
    by (simp add: unat_word_ariths LEARNER_ARRAY_SIZE_def)
  have a: "unat cur \<le> unat iid" "unat iid < unat (cur + LEARNER_ARRAY_SIZE)"
    using assms by (simp_all add: word_less_nat_alt word_le_nat_alt)
  have b: "unat cur < 2 ^ 32" using unsigned_less [of cur] by simp
  show ?thesis
  proof (cases "unat cur + 2048 < 2 ^ 32")
    case True
    then show ?thesis using a u by (simp add: in_window_def)
  next
    case False
    then have "(unat cur + 2048) mod 2 ^ 32 = unat cur + 2048 - 2 ^ 32"
      using b by (simp add: mod_if)
    then show ?thesis using a u b by simp
  qed
qed

definition progress :: "history \<Rightarrow> learner \<Rightarrow> learner \<Rightarrow> delivery list \<Rightarrow> bool" where
  "progress H st st' ds \<longleftrightarrow> unat (current_iid st') = unat (current_iid st) + length ds
     \<and> map (\<lambda>d. unat (del_iid d)) ds = [unat (current_iid st) ..< unat (current_iid st')]
     \<and> list_all (delivered_ok H) ds"

lemma progress_refl: "current_iid st' = current_iid st \<Longrightarrow> progress H st st' []"
  by (simp add: progress_def)

lemma delivered_ok_mono: "H \<subseteq> H' \<Longrightarrow> delivered_ok H d \<Longrightarrow> delivered_ok H' d"
  unfolding delivered_ok_def using backed_mono by blast

lemma progress_trans:
  assumes "progress H st st1 ds" "progress H' st1 st2 ds'" "H \<subseteq> H'"
  shows "progress H' st st2 (ds @ ds')"
proof -
  have "list_all (delivered_ok H') ds"
    using assms(1,3) by (auto simp: progress_def list_all_iff intro: delivered_ok_mono)
  with assms show ?thesis by (simp add: progress_def upt_add_eq_append [symmetric] flip: upt_add_eq_append)
qed

lemma slots_ok_set:
  assumes "slots_ok H st" "H \<subseteq> H'" "slot_ok H' (current_iid st) (lea_index iid) ii"
  shows "slots_ok H' (set_instance st iid ii)"
  using assms slot_ok_mono [OF assms(2)] by (auto simp: slots_ok_def set_instance_def)

lemma current_not_closed:
  assumes "slots_ok H st" "\<not> IS_CLOSED (GET_LEA_INSTANCE st (current_iid st))"
    "in_window (current_iid st) iid" "iid \<noteq> current_iid st \<or> \<not> IS_CLOSED ii"
    "in_window (current_iid st) (current_iid st)"
  shows "\<not> IS_CLOSED (GET_LEA_INSTANCE (set_instance st iid ii) (current_iid st))"
  using assms window_slot [OF assms(3,5)]
  by (auto simp: GET_LEA_INSTANCE_def set_instance_def)

lemma slots_ok_cong:
  "learner_state st' = learner_state st \<Longrightarrow> current_iid st' = current_iid st \<Longrightarrow> slots_ok H st' = slots_ok H st"
  by (simp add: slots_ok_def)

lemma lea_inv_seen: "lea_inv H st \<Longrightarrow> lea_inv H (st\<lparr>highest_iid_seen := x\<rparr>)"
  by (simp add: lea_inv_def slots_ok_def GET_LEA_INSTANCE_def)

lemma set_instance_simps [simp]:
  "current_iid (set_instance st iid ii) = current_iid st"
  "highest_iid_closed (set_instance st iid ii) = highest_iid_closed st"
  "lea_to_acceptors (set_instance st iid ii) = lea_to_acceptors st"
  "lea_recv_buffer (set_instance st iid ii) = lea_recv_buffer st"
  "set_instance (set_instance st iid ii) iid ii' = set_instance st iid ii'"
  by (simp_all add: set_instance_def)

text \<open>The part of the handler after the check of the window.\<close>

lemma update_and_deliver_ok:
  assumes inv: "lea_inv H st" and id: "acceptor_id_ok i" and w: "in_window (current_iid st) (aa_iid aa)"
    and H': "H' = insert (nat (sint i), aa) H"
  shows "\<exists>st' ds. rbind (lea_update_state (GET_LEA_INSTANCE st (aa_iid aa)) i aa) (\<lambda>(relevant, ii).
        let st = set_instance st (aa_iid aa) ii in
        if \<not> relevant then Inr (st, [])
        else rbind (lea_check_quorum ii (highest_iid_closed st)) (\<lambda>(closed, ii, hic).
          let st = (set_instance st (aa_iid aa) ii)\<lparr>highest_iid_closed := hic\<rparr> in
          if \<not> closed then Inr (st, [])
          else if aa_iid aa = current_iid st then lea_deliver_next_closed st
          else Inr (st, []))) = Inr (st', ds)
    \<and> lea_inv H' st' \<and> progress H' st st' ds"
proof -
  let ?k = "aa_iid aa" and ?c = "current_iid st"
  have base: "slots_ok H st" "?c \<noteq> 0" "\<not> IS_CLOSED (GET_LEA_INSTANCE st ?c)"
    "length (sb_buffer (lea_to_acceptors st)) = MAX_UDP_MSG_SIZE" "length (lea_recv_buffer st) = MAX_UDP_MSG_SIZE"
    using inv by (simp_all add: lea_inv_def)
  have cc: "in_window ?c ?c" and sub: "H \<subseteq> H'" using w H' by (auto simp: in_window_def)
  have nz: "?k \<noteq> 0" using w base(2) by (auto simp: in_window_def unat_eq_zero)
  have keep: "lea_inv H' ((set_instance st ?k ii)\<lparr>highest_iid_closed := x\<rparr>)
      \<and> lea_inv H' (set_instance st ?k ii)"
    if "slot_ok H' ?c (lea_index ?k) ii" "?k \<noteq> ?c \<or> \<not> IS_CLOSED ii" for ii x
    using base slots_ok_set [OF base(1) sub that(1)] current_not_closed [OF base(1,3) w that(2) cc]
    by (simp add: lea_inv_def slots_ok_def GET_LEA_INSTANCE_def)
  have slot: "slot_ok H ?c (lea_index ?k) (GET_LEA_INSTANCE st ?k)"
    using base(1) by (simp add: slots_ok_def GET_LEA_INSTANCE_def)
  obtain rel ii1 where u: "lea_update_state (GET_LEA_INSTANCE st ?k) i aa = Inr (rel, ii1)"
      "slot_ok H' ?c (lea_index ?k) ii1" "IS_CLOSED ii1 = IS_CLOSED (GET_LEA_INSTANCE st ?k)"
      "rel \<longrightarrow> li_iid ii1 = ?k \<and> acks_ok H' ii1"
    using update_state_ok [OF slot w base(2) id] unfolding H' by blast
  have nc: "?k \<noteq> ?c \<or> \<not> IS_CLOSED ii1" using u(3) base(3) by auto
  show ?thesis
  proof (cases rel)
    case False
    then show ?thesis using u(1) keep [OF u(2) nc] by (simp add: progress_refl)
  next
    case rel: True
    obtain closed ii2 hic where q: "lea_check_quorum ii1 (highest_iid_closed st) = Inr (closed, ii2, hic)"
        "\<not> closed \<longrightarrow> ii2 = ii1"
        "closed \<longrightarrow> (\<exists>a. ii2 = ii1\<lparr>li_final_value := Some a\<rparr> \<and> backed H' (li_iid ii1) a)"
      using check_quorum_ok u(4) rel by blast
    let ?st = "(set_instance st ?k ii2)\<lparr>highest_iid_closed := hic\<rparr>"
    have ok2: "slot_ok H' ?c (lea_index ?k) ii2"
      using u(2,4) q(2,3) rel nz by (cases closed) (auto simp: slot_ok_def)
    show ?thesis
    proof (cases "closed \<and> ?k = ?c")
      case True
      have "slots_ok H' ?st" using slots_ok_set [OF base(1) sub ok2] by (simp add: slots_ok_def)
      from deliver_next_closed_ok [OF this] obtain st' ds where d:
          "lea_deliver_next_closed ?st = Inr (st', ds)" "slots_ok H' st'"
          "\<not> IS_CLOSED (GET_LEA_INSTANCE st' (current_iid st'))"
          "unat (current_iid st') = unat ?c + length ds"
          "map (\<lambda>d. unat (del_iid d)) ds = [unat ?c ..< unat (current_iid st')]"
          "list_all (delivered_ok H') ds" "lea_to_acceptors st' = lea_to_acceptors st"
          "lea_recv_buffer st' = lea_recv_buffer st"
        by auto
      have "current_iid st' \<noteq> 0" using d(4) base(2) by (auto simp: unat_eq_zero)
      then have "lea_inv H' st' \<and> progress H' st st' ds" using d base by (simp add: lea_inv_def progress_def)
      then show ?thesis using u(1) q(1) rel d(1) True by simp
    next
      case False
      then have "?k \<noteq> ?c \<or> \<not> IS_CLOSED ii2" using nc q(2) by auto
      from keep [OF ok2 this, of hic] show ?thesis using u(1) q(1) rel False
        by (cases closed) (auto simp: progress_refl Let_def)
    qed
  qed
qed

lemma handle_accept_ack_ok:
  assumes inv: "lea_inv H st" and id: "acceptor_id_ok i"
  shows "\<exists>st' ds. handle_accept_ack st i aa = Inr (st', ds)
    \<and> lea_inv (insert (nat (sint i), aa) H) st' \<and> progress (insert (nat (sint i), aa) H) st st' ds"
proof -
  define st1 where "st1 = (if aa_iid aa > highest_iid_seen st then st\<lparr>highest_iid_seen := aa_iid aa\<rparr> else st)"
  have inv1: "lea_inv H st1" and c: "current_iid st1 = current_iid st"
    using inv by (simp_all add: st1_def lea_inv_seen)
  have inv1': "lea_inv (insert (nat (sint i), aa) H) st1" using lea_inv_mono [OF _ inv1] by blast
  show ?thesis
  proof (cases "aa_iid aa < current_iid st1 \<or> current_iid st1 + LEARNER_ARRAY_SIZE \<le> aa_iid aa")
    case True
    then have "handle_accept_ack st i aa = Inr (st1, [])"
      unfolding handle_accept_ack_def st1_def [symmetric] Let_def by auto
    then show ?thesis using inv1' c by (simp add: progress_refl)
  next
    case False
    then have w: "in_window (current_iid st1) (aa_iid aa)" using window_guard by blast
    show ?thesis
      using update_and_deliver_ok [OF inv1 id w refl] False c
      unfolding handle_accept_ack_def st1_def [symmetric] progress_def by (simp add: Let_def)
  qed
qed

section \<open>Runs\<close>

text \<open>A learner that receives acknowledgements from any acceptors in any order.\<close>

fun learn_all :: "learner \<Rightarrow> (u16 \<times> accept_ack) list \<Rightarrow> (learner \<times> delivery list) res" where
  "learn_all st [] = Inr (st, [])"
| "learn_all st ((i, aa) # xs) =
     rbind (handle_accept_ack st i aa) (\<lambda>(st, ds).
     rbind (learn_all st xs) (\<lambda>(st, ds'). Inr (st, ds @ ds')))"

definition history_of :: "(u16 \<times> accept_ack) list \<Rightarrow> history" where
  "history_of xs = (\<lambda>(i, aa). (nat (sint i), aa)) ` set xs"

lemma learn_all_ok:
  assumes "lea_inv H st" "list_all (\<lambda>(i, aa). acceptor_id_ok i) xs"
  shows "\<exists>st' ds. learn_all st xs = Inr (st', ds) \<and> lea_inv (H \<union> history_of xs) st'
    \<and> progress (H \<union> history_of xs) st st' ds"
  using assms
proof (induction st xs arbitrary: H rule: learn_all.induct)
  case (1 st)
  then show ?case by (simp add: history_of_def progress_refl)
next
  case (2 st i aa xs)
  let ?H1 = "insert (nat (sint i), aa) H"
  obtain st1 ds1 where 1: "handle_accept_ack st i aa = Inr (st1, ds1)" "lea_inv ?H1 st1" "progress ?H1 st st1 ds1"
    using handle_accept_ack_ok [OF "2.prems"(1), of i aa] "2.prems"(2) by auto
  obtain st2 ds2 where r: "learn_all st1 xs = Inr (st2, ds2)" "lea_inv (?H1 \<union> history_of xs) st2"
      "progress (?H1 \<union> history_of xs) st1 st2 ds2"
    using "2.IH" [OF 1(1) refl 1(2)] "2.prems"(2) by auto
  have "?H1 \<union> history_of xs = H \<union> history_of ((i, aa) # xs)" by (auto simp: history_of_def)
  then show ?case using 1(1) r progress_trans [OF 1(3) r(3)] by auto
qed

lemma handle_accept_acks_learn_all:
  "handle_accept_acks st i aas = learn_all st (map (\<lambda>aa. (i, aa)) aas)"
  by (induction st i aas rule: handle_accept_acks.induct) (auto simp: rbind_def split: sum.splits)

text \<open>C3. A learner delivers the instances 1, 2, 3, ... in order and without a gap or a repetition,
  whatever acknowledgements it receives from the acceptors, in whatever order and however often; it
  never fails, and the next instance it waits for is the one after the last delivered.\<close>

theorem learner_delivers_in_order:
  assumes "list_all (\<lambda>(i, aa). acceptor_id_ok i) xs"
  shows "\<exists>st ds. learn_all init_learner xs = Inr (st, ds)
    \<and> map (\<lambda>d. unat (del_iid d)) ds = [1 ..< 1 + length ds] \<and> unat (current_iid st) = 1 + length ds"
proof -
  have "unat (current_iid init_learner) = 1" by (simp add: init_learner_def)
  with learn_all_ok [OF init_learner_inv assms] show ?thesis by (auto simp: progress_def simp del: upt_Suc)
qed

definition ack :: "iid_t \<Rightarrow> ballot_t \<Rightarrow> bytes \<Rightarrow> accept_ack" where
  "ack iid b v = \<lparr>aa_iid = iid, aa_ballot = b, aa_value_ballot = b, aa_is_final = 0, aa_value = v\<rparr>"

theorem learner_delivers_in_order_witness:
  "\<exists>st ds. learn_all init_learner [(0, ack 2 10 [7]), (1, ack 2 10 [7]), (0, ack 1 10 [5]), (2, ack 1 10 [5])]
      = Inr (st, ds)
    \<and> map (\<lambda>d. unat (del_iid d)) ds = [1 ..< 1 + length ds] \<and> unat (current_iid st) = 1 + length ds"
  by (rule learner_delivers_in_order) (simp add: acceptor_id_ok_def config_defs)

text \<open>The acceptors that acknowledged a value in a ballot; and that in the acknowledgements received
  a ballot of an instance has one value.\<close>

definition value_supporters :: "history \<Rightarrow> iid_t \<Rightarrow> ballot_t \<Rightarrow> bytes \<Rightarrow> nat set" where
  "value_supporters H iid b v =
     {j. j < N_OF_ACCEPTORS \<and> (\<exists>a. (j, a) \<in> H \<and> aa_iid a = iid \<and> aa_ballot a = b \<and> aa_value a = v)}"

definition one_value_per_ballot :: "(u16 \<times> accept_ack) list \<Rightarrow> bool" where
  "one_value_per_ballot xs \<longleftrightarrow> (\<forall>x \<in> set xs. \<forall>y \<in> set xs.
     aa_iid (snd x) = aa_iid (snd y) \<and> aa_ballot (snd x) = aa_ballot (snd y) \<longrightarrow> aa_value (snd x) = aa_value (snd y))"

lemma supporters_of_value:
  assumes "one_value_per_ballot xs" "(i, aa) \<in> set xs"
  shows "supporters (history_of xs) (aa_iid aa) (aa_ballot aa)
    = value_supporters (history_of xs) (aa_iid aa) (aa_ballot aa) (aa_value aa)"
  using assms unfolding supporters_def value_supporters_def history_of_def one_value_per_ballot_def by fastforce

lemma delivered_from_ack:
  assumes "list_all (\<lambda>(i, aa). acceptor_id_ok i) xs" "learn_all init_learner xs = Inr (st, ds)" "d \<in> set ds"
  obtains i aa where "(i, aa) \<in> set xs" "aa_iid aa = del_iid d" "aa_value aa = del_value d" "aa_ballot aa = del_ballot d"
    "aa_is_final aa \<noteq> 0 \<or> QUORUM \<le> card (supporters (history_of xs) (del_iid d) (del_ballot d))"
proof -
  have "delivered_ok (history_of xs) d"
    using learn_all_ok [OF init_learner_inv assms(1)] assms(2,3) by (auto simp: progress_def list_all_iff)
  then obtain a where a: "backed (history_of xs) (del_iid d) a" "d = delivery_of (del_iid d) a"
    by (auto simp: delivered_ok_def)
  obtain j where "(j, a) \<in> history_of xs" using a(1) by (auto simp: backed_def)
  then obtain i where i: "(i, a) \<in> set xs" by (auto simp: history_of_def)
  have "aa_value a = del_value d" "aa_ballot a = del_ballot d"
    using a(2) by (metis delivery.select_convs(1) delivery_of_def, metis delivery.select_convs(3) delivery_of_def)
  then show ?thesis using that [OF i] a(1) by (auto simp: backed_def)
qed

text \<open>C4. Every delivered value is backed by the acknowledgements received: it is the value of an
  acknowledgement for its instance and ballot that its acceptor declared final, or at least a quorum of
  distinct acceptors acknowledged that ballot, whatever values their acknowledgements carry. If the
  acknowledgements of an instance in a ballot all carry one value, a quorum acknowledged the delivered value
  itself.\<close>

theorem learner_delivers_backed:
  assumes "list_all (\<lambda>(i, aa). acceptor_id_ok i) xs" "learn_all init_learner xs = Inr (st, ds)" "d \<in> set ds"
  shows "\<exists>i aa. (i, aa) \<in> set xs \<and> aa_iid aa = del_iid d \<and> aa_value aa = del_value d \<and> aa_ballot aa = del_ballot d
    \<and> (aa_is_final aa \<noteq> 0
       \<or> QUORUM \<le> card (supporters (history_of xs) (del_iid d) (del_ballot d))
         \<and> (one_value_per_ballot xs \<longrightarrow>
              QUORUM \<le> card (value_supporters (history_of xs) (del_iid d) (del_ballot d) (del_value d))))"
  using assms
proof (cases rule: delivered_from_ack)
  case (1 i aa)
  then show ?thesis using supporters_of_value [of xs i aa] by (intro exI [of _ i] exI [of _ aa]) auto
qed

definition quorum_acks :: "(u16 \<times> accept_ack) list" where
  "quorum_acks = [(0, ack 1 10 [5]), (2, ack 1 10 [5])]"

text \<open>The receive buffer does not matter here; evaluating it takes long.\<close>

lemma init_learner_buffer: "init_learner\<lparr>lea_recv_buffer := lea_recv_buffer init_learner\<rparr> = init_learner"
  by simp

lemma quorum_run:
  "case learn_all init_learner quorum_acks of Inl _ \<Rightarrow> False
    | Inr (st, ds) \<Rightarrow> ds = [\<lparr>del_value = [5], del_iid = 1, del_ballot = 10, del_proposer = 0\<rparr>]"
proof -
  have "case learn_all (init_learner\<lparr>lea_recv_buffer := m\<rparr>) quorum_acks of Inl _ \<Rightarrow> False
    | Inr (st, ds) \<Rightarrow> ds = [\<lparr>del_value = [5], del_iid = 1, del_ballot = 10, del_proposer = 0\<rparr>]" for m
    by code_simp
  then show ?thesis using init_learner_buffer by metis
qed

theorem learner_delivers_backed_witness:
  "\<exists>st ds. learn_all init_learner quorum_acks = Inr (st, ds) \<and> ds \<noteq> []
    \<and> (\<forall>d \<in> set ds. QUORUM \<le> card (value_supporters (history_of quorum_acks) (del_iid d) (del_ballot d) (del_value d)))"
proof -
  have ids: "list_all (\<lambda>(i, aa). acceptor_id_ok i) quorum_acks" and one: "one_value_per_ballot quorum_acks"
    and open_acks: "\<forall>(i, aa) \<in> set quorum_acks. aa_is_final aa = 0"
    by (simp_all add: quorum_acks_def acceptor_id_ok_def config_defs one_value_per_ballot_def ack_def)
  obtain st ds where r: "learn_all init_learner quorum_acks = Inr (st, ds)" "ds \<noteq> []"
    using quorum_run by (auto split: sum.splits)
  have "\<forall>d \<in> set ds. QUORUM \<le> card (value_supporters (history_of quorum_acks) (del_iid d) (del_ballot d) (del_value d))"
    using learner_delivers_backed [OF ids r(1)] one open_acks by fastforce
  then show ?thesis using r by blast
qed

text \<open>The comment on the check says that a quorum accepted the same value and ballot. Two acknowledgements of
  a ballot with different values make it close the instance, with the value of the acceptor that comes
  last.\<close>

lemma learner_ignores_values:
  "case learn_all init_learner [(0, ack 1 10 [5]), (2, ack 1 10 [6])] of Inl _ \<Rightarrow> False
    | Inr (st, ds) \<Rightarrow> ds = [\<lparr>del_value = [6], del_iid = 1, del_ballot = 10, del_proposer = 0\<rparr>]"
proof -
  have "case learn_all (init_learner\<lparr>lea_recv_buffer := m\<rparr>) [(0, ack 1 10 [5]), (2, ack 1 10 [6])] of Inl _ \<Rightarrow> False
    | Inr (st, ds) \<Rightarrow> ds = [\<lparr>del_value = [6], del_iid = 1, del_ballot = 10, del_proposer = 0\<rparr>]" for m
    by code_simp
  then show ?thesis using init_learner_buffer by metis
qed

section \<open>Duplicates\<close>

lemma update_state_again:
  assumes "lea_update_state ii i aa = Inr (rel, ii')" "aa_iid aa \<noteq> 0"
  shows "lea_update_state ii' i aa = Inr (False, ii')"
    and "lea_update_state (ii'\<lparr>li_final_value := Some a\<rparr>) i aa = Inr (False, ii'\<lparr>li_final_value := Some a\<rparr>)"
  using assms
  by (auto simp: lea_update_state_def lea_store_accept_ack_def Let_def res_eq_Inr IS_CLOSED_def
      split: if_splits option.splits)

lemma deliver_keeps_seen:
  "lea_deliver_next_closed st = Inr (st', ds) \<Longrightarrow> highest_iid_seen st' = highest_iid_seen st"
proof (induction st arbitrary: st' ds rule: lea_deliver_next_closed.induct)
  case (1 st)
  then show ?case
    by (subst (asm) lea_deliver_next_closed.simps)
      (auto simp: Let_def res_eq_Inr deliver_current_def set_instance_def split: option.splits)
qed

lemma get_set_instance [simp]:
  "GET_LEA_INSTANCE (set_instance st iid ii) iid = ii"
  "GET_LEA_INSTANCE (st\<lparr>highest_iid_closed := x\<rparr>) iid = GET_LEA_INSTANCE st iid"
  "highest_iid_seen (set_instance st iid ii) = highest_iid_seen st"
  by (simp_all add: GET_LEA_INSTANCE_def set_instance_def)

lemma set_instance_same: "GET_LEA_INSTANCE st iid = ii \<Longrightarrow> set_instance st iid ii = st"
  by (auto simp: GET_LEA_INSTANCE_def set_instance_def)

lemma handle_again:
  assumes "\<not> aa_iid aa > highest_iid_seen st"
    and "aa_iid aa < current_iid st \<or> current_iid st + LEARNER_ARRAY_SIZE \<le> aa_iid aa
      \<or> lea_update_state (GET_LEA_INSTANCE st (aa_iid aa)) i aa = Inr (False, GET_LEA_INSTANCE st (aa_iid aa))"
  shows "handle_accept_ack st i aa = Inr (st, [])"
  using assms by (auto simp: handle_accept_ack_def set_instance_same)

lemma deliver_closed_nonempty:
  assumes "IS_CLOSED (GET_LEA_INSTANCE st (current_iid st))" "lea_deliver_next_closed st = Inr (st', ds)"
  shows "ds \<noteq> []"
  using assms by (subst (asm) lea_deliver_next_closed.simps) (auto simp: Let_def res_eq_Inr IS_CLOSED_def)

text \<open>A repeated acknowledgement changes nothing: after an acknowledgement was handled, handling
  it again leaves the state as it is and delivers nothing.\<close>

theorem duplicate_ack_ignored:
  assumes "lea_inv H st" "acceptor_id_ok i" "handle_accept_ack st i aa = Inr (st', ds)"
  shows "handle_accept_ack st' i aa = Inr (st', [])"
proof -
  let ?k = "aa_iid aa"
  define st1 where "st1 = (if ?k > highest_iid_seen st then st\<lparr>highest_iid_seen := ?k\<rparr> else st)"
  have inv1: "lea_inv H st1" and c: "current_iid st1 = current_iid st" and seen: "\<not> ?k > highest_iid_seen st1"
    using assms(1) by (simp_all add: st1_def lea_inv_seen)
  show ?thesis
  proof (cases "?k < current_iid st1 \<or> current_iid st1 + LEARNER_ARRAY_SIZE \<le> ?k")
    case True
    then have "st' = st1"
      using assms(3) unfolding handle_accept_ack_def st1_def [symmetric] Let_def by (auto split: if_splits)
    then show ?thesis using handle_again seen True by blast
  next
    case False
    then have w: "in_window (current_iid st1) ?k" using window_guard by blast
    have slot: "slot_ok H (current_iid st1) (lea_index ?k) (GET_LEA_INSTANCE st1 ?k)" and c0: "current_iid st1 \<noteq> 0"
      using inv1 by (simp_all add: lea_inv_def slots_ok_def GET_LEA_INSTANCE_def)
    have nz: "?k \<noteq> 0" using w c0 by (auto simp: in_window_def unat_eq_zero)
    obtain rel ii1 where u: "lea_update_state (GET_LEA_INSTANCE st1 ?k) i aa = Inr (rel, ii1)"
        "rel \<longrightarrow> acks_ok (insert (nat (sint i), aa) H) ii1" "rel \<longrightarrow> li_iid ii1 = ?k"
      using update_state_ok [OF slot w c0 assms(2)] by blast
    note again = update_state_again [OF u(1) nz]
    have run: "handle_accept_ack st i aa = (if \<not> rel then Inr (set_instance st1 ?k ii1, [])
        else rbind (lea_check_quorum ii1 (highest_iid_closed st1)) (\<lambda>(closed, ii, hic).
          if \<not> closed then Inr ((set_instance st1 ?k ii)\<lparr>highest_iid_closed := hic\<rparr>, [])
          else if ?k = current_iid st1 then lea_deliver_next_closed ((set_instance st1 ?k ii)\<lparr>highest_iid_closed := hic\<rparr>)
          else Inr ((set_instance st1 ?k ii)\<lparr>highest_iid_closed := hic\<rparr>, [])))"
      using False u(1) unfolding handle_accept_ack_def st1_def [symmetric] by (simp add: Let_def case_prod_unfold cong: if_cong)
    show ?thesis
    proof (cases rel)
      case False
      then have "st' = set_instance st1 ?k ii1" using run assms(3) by simp
      then show ?thesis using seen again(1) by (intro handle_again) simp_all
    next
      case True
      obtain closed ii2 hic where q: "lea_check_quorum ii1 (highest_iid_closed st1) = Inr (closed, ii2, hic)"
          "\<not> closed \<longrightarrow> ii2 = ii1" "closed \<longrightarrow> (\<exists>a. ii2 = ii1\<lparr>li_final_value := Some a\<rparr>)"
        using check_quorum_ok u(2) True by blast
      let ?st2 = "(set_instance st1 ?k ii2)\<lparr>highest_iid_closed := hic\<rparr>"
      have again2: "lea_update_state ii2 i aa = Inr (False, ii2)" using again q(2,3) by (cases closed) auto
      show ?thesis
      proof (cases "closed \<and> ?k = current_iid st1")
        case True
        then have d: "lea_deliver_next_closed ?st2 = Inr (st', ds)" using run assms(3) \<open>rel\<close> q(1) by simp
        have "IS_CLOSED ii2" using q(3) True by (auto simp: IS_CLOSED_def)
        then have "ds \<noteq> []" using deliver_closed_nonempty [OF _ d] True by simp
        moreover have "unat (current_iid st') = unat (current_iid st) + length ds"
          using handle_accept_ack_ok [OF assms(1,2), of aa] assms(3) by (simp add: progress_def)
        ultimately have "?k < current_iid st'" using True c by (simp add: word_less_nat_alt)
        moreover have "highest_iid_seen st' = highest_iid_seen st1" using deliver_keeps_seen [OF d] by simp
        ultimately show ?thesis using handle_again seen by simp
      next
        case False
        then have "st' = ?st2" using run assms(3) \<open>rel\<close> q(1) by (auto split: if_splits)
        then show ?thesis using seen again2 by (intro handle_again) simp_all
      qed
    qed
  qed
qed

theorem duplicate_ack_ignored_witness:
  "\<exists>st' ds. handle_accept_ack init_learner 1 (ack 1 10 [5]) = Inr (st', ds)
    \<and> handle_accept_ack st' 1 (ack 1 10 [5]) = Inr (st', [])"
proof -
  have i: "acceptor_id_ok 1" by (simp add: acceptor_id_ok_def config_defs)
  obtain st' ds where r: "handle_accept_ack init_learner 1 (ack 1 10 [5]) = Inr (st', ds)"
    using handle_accept_ack_ok [OF init_learner_inv i] by blast
  from duplicate_ack_ignored [OF init_learner_inv i r] r show ?thesis by blast
qed

section \<open>Progress\<close>

lemma count_one_ack:
  assumes "i < 3" "aa_is_final a = 0"
  shows "snd (count_acks b ((replicate 3 None)[i := Some a]) 0 None 0) \<le> 1"
proof -
  have "i = 0 \<or> i = 1 \<or> i = 2" using assms(1) by auto
  then show ?thesis using assms(2) by (auto simp: numeral_3_eq_3 numeral_2_eq_2)
qed

lemma count_two_acks:
  assumes "i < 3" "j < 3" "i \<noteq> j" "aa_ballot a = b" "aa_is_final a = 0"
  shows "\<exists>k. count_acks b ((replicate 3 None)[i := Some a, j := Some a]) 0 None 0 = (Some k, 2)
    \<and> (replicate 3 None)[i := Some a, j := Some a] ! k = Some a"
proof -
  have "i = 0 \<or> i = 1 \<or> i = 2" "j = 0 \<or> j = 1 \<or> j = 2" using assms(1,2) by auto
  then show ?thesis using assms(3-5) by (auto simp: numeral_3_eq_3 numeral_2_eq_2)
qed

lemma acceptor_index: "acceptor_id_ok i \<Longrightarrow> 0 \<le> sint i \<and> nat (sint i) < 3"
  by (auto simp: acceptor_id_ok_def config_defs)

lemma empty_slot:
  assumes "lea_inv H st" "li_iid (GET_LEA_INSTANCE st k) = 0"
  shows "li_acks (GET_LEA_INSTANCE st k) = replicate 3 None" "li_final_value (GET_LEA_INSTANCE st k) = None"
  using assms
  by (auto simp: lea_inv_def slots_ok_def slot_ok_def GET_LEA_INSTANCE_def config_defs)

lemma first_ack:
  assumes inv: "lea_inv H st" and z: "li_iid (GET_LEA_INSTANCE st (current_iid st)) = 0"
    and w: "\<not> current_iid st + LEARNER_ARRAY_SIZE \<le> current_iid st"
    and i: "acceptor_id_ok i" and a: "aa_iid a = current_iid st" "aa_is_final a = 0"
  shows "\<exists>st1. handle_accept_ack st i a = Inr (st1, []) \<and> current_iid st1 = current_iid st
    \<and> li_iid (GET_LEA_INSTANCE st1 (current_iid st)) = current_iid st
    \<and> li_acks (GET_LEA_INSTANCE st1 (current_iid st)) = (replicate 3 None)[nat (sint i) := Some a]
    \<and> li_final_value (GET_LEA_INSTANCE st1 (current_iid st)) = None"
proof -
  let ?c = "current_iid st"
  define st0 where "st0 = (if aa_iid a > highest_iid_seen st then st\<lparr>highest_iid_seen := aa_iid a\<rparr> else st)"
  have st0: "current_iid st0 = ?c" "GET_LEA_INSTANCE st0 ?c = GET_LEA_INSTANCE st ?c"
    by (simp_all add: st0_def GET_LEA_INSTANCE_def)
  note e = empty_slot [OF inv z]
  have nz: "?c \<noteq> 0" using inv by (simp add: lea_inv_def)
  define ii where "ii = (GET_LEA_INSTANCE st ?c)\<lparr>li_iid := ?c, li_last_update_ballot := aa_ballot a,
    li_acks := (replicate 3 None)[nat (sint i) := Some a]\<rparr>"
  have u: "lea_update_state (GET_LEA_INSTANCE st ?c) i a = Inr (True, ii)"
    using acceptor_index [OF i] e z a nz
    by (simp add: lea_update_state_def lea_store_accept_ack_def Let_def IS_CLOSED_def ii_def)
  have q: "lea_check_quorum ii (highest_iid_closed st0) = Inr (False, ii, highest_iid_closed st0)"
    using count_one_ack [of "nat (sint i)" a "aa_ballot a"] acceptor_index [OF i] a(2)
    by (auto simp: lea_check_quorum_def ii_def config_defs split: prod.splits)
  have "handle_accept_ack st i a = Inr ((set_instance st0 ?c ii)\<lparr>highest_iid_closed := highest_iid_closed st0\<rparr>, [])"
    unfolding handle_accept_ack_def st0_def [symmetric] Let_def
    using u q w a(1) st0 by simp
  then show ?thesis using e st0 by (simp add: ii_def)
qed

text \<open>C5. A quorum is enough to make progress: when nothing is known of the next instance to deliver
  and two acceptors acknowledge a value for it in the same ballot, the learner delivers that value as
  the next one, with at most the instances closed before following it.\<close>

theorem quorum_delivers:
  assumes "lea_inv H st" "li_iid (GET_LEA_INSTANCE st (current_iid st)) = 0"
    and "\<not> current_iid st + LEARNER_ARRAY_SIZE \<le> current_iid st"
    and "acceptor_id_ok i" "acceptor_id_ok j" "i \<noteq> j"
    and "aa_iid a = current_iid st" "aa_is_final a = 0"
  shows "\<exists>st' ds. learn_all st [(i, a), (j, a)] = Inr (st', delivery_of (current_iid st) a # ds)"
proof -
  let ?c = "current_iid st"
  obtain st1 where 1: "handle_accept_ack st i a = Inr (st1, [])" "current_iid st1 = ?c"
      "li_iid (GET_LEA_INSTANCE st1 ?c) = ?c"
      "li_acks (GET_LEA_INSTANCE st1 ?c) = (replicate 3 None)[nat (sint i) := Some a]"
      "li_final_value (GET_LEA_INSTANCE st1 ?c) = None"
    using first_ack [OF assms(1-4,7,8)] by blast
  have inv1: "lea_inv (insert (nat (sint i), a) H) st1"
    using handle_accept_ack_ok [OF assms(1,4), of a] 1(1) by auto
  have nz: "?c \<noteq> 0" using assms(1) by (simp add: lea_inv_def)
  have ij: "nat (sint i) \<noteq> nat (sint j)"
    using acceptor_index [OF assms(4)] acceptor_index [OF assms(5)] assms(6)
    by (metis eq_nat_nat_iff signed_word_eqI)
  define st0 where "st0 = (if aa_iid a > highest_iid_seen st1 then st1\<lparr>highest_iid_seen := aa_iid a\<rparr> else st1)"
  have st0: "current_iid st0 = ?c" "GET_LEA_INSTANCE st0 ?c = GET_LEA_INSTANCE st1 ?c"
    using 1(2) by (simp_all add: st0_def GET_LEA_INSTANCE_def)
  define ii where "ii = (GET_LEA_INSTANCE st1 ?c)\<lparr>li_last_update_ballot := aa_ballot a,
    li_acks := (replicate 3 None)[nat (sint i) := Some a, nat (sint j) := Some a]\<rparr>"
  have u: "lea_update_state (GET_LEA_INSTANCE st1 ?c) j a = Inr (True, ii)"
    using acceptor_index [OF assms(5)] 1 ij assms(7) nz
    by (simp add: lea_update_state_def lea_store_accept_ack_def Let_def IS_CLOSED_def ii_def)
  obtain hic where q: "lea_check_quorum ii (highest_iid_closed st0) = Inr (True, ii\<lparr>li_final_value := Some a\<rparr>, hic)"
    using count_two_acks [of "nat (sint i)" "nat (sint j)" a "aa_ballot a"] ij assms(8)
      acceptor_index [OF assms(4)] acceptor_index [OF assms(5)]
    by (fastforce simp: lea_check_quorum_def ii_def config_defs)
  define st2 where "st2 = (set_instance st0 ?c (ii\<lparr>li_final_value := Some a\<rparr>))\<lparr>highest_iid_closed := hic\<rparr>"
  have h: "handle_accept_ack st1 j a = lea_deliver_next_closed st2"
    unfolding handle_accept_ack_def st0_def [symmetric] Let_def st2_def
    using u q assms(3,7) st0 by simp
  obtain st' ds where r: "lea_deliver_next_closed st2 = Inr (st', ds)"
    using handle_accept_ack_ok [OF inv1 assms(5), of a] h by auto
  have slot: "li_final_value (GET_LEA_INSTANCE st2 ?c) = Some a" "current_iid st2 = ?c"
    using st0 by (simp_all add: st2_def)
  obtain ds' where "ds = delivery_of ?c a # ds'"
    using r slot unfolding lea_deliver_next_closed.simps [of st2]
    by (auto simp: Let_def res_eq_Inr)
  then show ?thesis using 1(1) h r by simp
qed

theorem quorum_delivers_witness:
  "\<exists>st' ds. learn_all init_learner [(0, ack 1 10 [5]), (2, ack 1 10 [5])]
     = Inr (st', delivery_of (current_iid init_learner) (ack 1 10 [5]) # ds)"
  by (rule quorum_delivers [OF init_learner_inv])
    (simp_all add: init_learner_def GET_LEA_INSTANCE_def empty_instance_def LEARNER_ARRAY_SIZE_def
      acceptor_id_ok_def config_defs ack_def word_le_nat_alt)

section \<open>Repeat requests\<close>

text \<open>The range a hole check asks for.\<close>

definition hole_range :: "learner \<Rightarrow> iid_t list" where
  "hole_range st =
     (if unat (highest_iid_seen st) > (unat (current_iid st) + 2048) mod 2 ^ 32
      then iid_range (current_iid st) (highest_iid_seen st)
      else if highest_iid_closed st > current_iid st
      then iid_range (current_iid st) (highest_iid_closed st) else [])"

lemma send_repeat_request_ok:
  assumes "lea_inv H st" "length old = MAX_UDP_MSG_SIZE"
  shows "\<exists>st' evs. lea_send_repeat_request st from to = Inr (st', evs) \<and> lea_inv H st'
    \<and> receive_all read_repeat_reqs old (datagrams evs)
      = Inr (filter (\<lambda>i. \<not> IS_CLOSED (GET_LEA_INSTANCE st i)) (iid_range from to))"
proof -
  have len: "length (sb_buffer (lea_to_acceptors st)) = MAX_UDP_MSG_SIZE" using assms(1) by (simp add: lea_inv_def)
  let ?es = "filter (\<lambda>i. \<not> IS_CLOSED (GET_LEA_INSTANCE st i)) (iid_range from to)"
  obtain sb evs bss where b: "send_batch repeat_reqs sendbuf_add_repeat_req (lea_to_acceptors st) (- 1) ?es = Inr (sb, evs)"
      "list_all2 (carries repeat_reqs 0 enc32 (\<lambda>_. True) (\<lambda>_. True)) (datagrams evs) bss" "concat bss = ?es"
      "length (sb_buffer sb) = MAX_UDP_MSG_SIZE"
    using repeat_req_link.send_batch_carries [OF len, where i = "- 1" and es = ?es]
    unfolding sendbuf_adds_eq by (auto simp: list_all_iff)
  have "lea_inv H (st\<lparr>lea_to_acceptors := sb\<rparr>)"
    using assms(1) b(4) by (simp add: lea_inv_def slots_ok_def GET_LEA_INSTANCE_def)
  moreover have "receive_all read_repeat_reqs old (datagrams evs) = Inr ?es"
    using repeat_req_link.receive_all_carries [OF b(2) assms(2)] b(3) unfolding read_batches_eq by simp
  ultimately show ?thesis using b(1) by (simp add: lea_send_repeat_request_def)
qed

lemma less_window: "c + LEARNER_ARRAY_SIZE < w \<longleftrightarrow> (unat c + 2048) mod 2 ^ 32 < unat w" for w :: u32
  by (simp add: word_less_nat_alt unat_word_ariths LEARNER_ARRAY_SIZE_def)

text \<open>The hole check asks the acceptors for exactly those instances of its range that the
  learner has not closed, in order, and changes nothing else: the range is from the next instance to
  deliver up to the highest closed one, or up to the highest seen one when the learner lags behind by
  more than its table.\<close>

theorem hole_check_requests:
  assumes "lea_inv H st" "length old = MAX_UDP_MSG_SIZE"
  shows "\<exists>st' evs. lea_hole_check st = Inr (st', evs) \<and> lea_inv H st'
    \<and> receive_all read_repeat_reqs old (datagrams evs)
      = Inr (filter (\<lambda>i. \<not> IS_CLOSED (GET_LEA_INSTANCE st i)) (hole_range st))"
  using send_repeat_request_ok [OF assms] assms(1)
  by (auto simp: lea_hole_check_def hole_range_def less_window)

theorem hole_check_requests_witness:
  "\<exists>st' evs. lea_hole_check (init_learner\<lparr>highest_iid_closed := 4\<rparr>) = Inr (st', evs) \<and> lea_inv {} st'
    \<and> receive_all read_repeat_reqs (replicate MAX_UDP_MSG_SIZE 0) (datagrams evs)
      = Inr (filter (\<lambda>i. \<not> IS_CLOSED (GET_LEA_INSTANCE (init_learner\<lparr>highest_iid_closed := 4\<rparr>) i))
          (hole_range (init_learner\<lparr>highest_iid_closed := 4\<rparr>)))"
proof (rule hole_check_requests)
  show "lea_inv {} (init_learner\<lparr>highest_iid_closed := 4\<rparr>)"
    using init_learner_inv by (simp add: lea_inv_def slots_ok_def GET_LEA_INSTANCE_def)
qed simp

section \<open>Messages\<close>

lemma newmsg_acks:
  assumes "carries accept_acks 2 enc_accept_ack acceptor_id_ok
      (\<lambda>r. length (aa_value r) + 44 \<le> MAX_UDP_MSG_SIZE) d aas"
    and "length (lea_recv_buffer st) = MAX_UDP_MSG_SIZE"
  shows "\<exists>b i. length b = MAX_UDP_MSG_SIZE \<and> acceptor_id_ok i
    \<and> lea_handle_newmsg st (Some d) = handle_accept_acks (st\<lparr>lea_recv_buffer := b\<rparr>) i aas"
proof -
  obtain b where b: "udp_read_next_message (lea_recv_buffer st) (Some d) = Inr (0, b)"
      "length b = MAX_UDP_MSG_SIZE" "read_accept_acks b = Inr aas"
    using accept_ack_link.receive_carries [OF assms] unfolding read_batches_eq by blast
  have ty: "rd32 b 8 = Inr (msg_code accept_acks)"
    using accept_ack_link.receive_type [OF assms b(1)] .
  obtain i tail where c: "acceptor_id_ok i" "length tail = 4" "d = batch_bytes accept_acks 2 enc_accept_ack i aas @ tail"
      "total enc_accept_ack aas + 20 \<le> MAX_UDP_MSG_SIZE"
    using assms(1) by (auto simp: carries_def)
  have "b = d @ drop (length d) (lea_recv_buffer st)"
    using b(1) c by (auto simp: udp_read_next_message_def Let_def min_def res_eq_Inr)
  then have "rd16 b offsetof_data = Inr i"
    by (simp add: c(3) batch_bytes_def layout_defs mem_simps)
  then show ?thesis using b ty c(1)
    by (intro exI [of _ b] exI [of _ i]) (simp add: lea_handle_newmsg_def handle_accept_ack_batch_def)
qed

end
