(* ===== verification/Agreement.thy ===== *)
theory Agreement
  imports AcceptorSpec LearnerSpec
begin

text \<open>
  Acceptors and learners together: a run of two acceptors and two proposers, every step of which
  the code of Paxos prescribes, in which two learners deliver different values for one instance.
  The cause is the reversed ballot test of \<^verbatim>\<open>acc_apply_accept\<close>.
\<close>

section \<open>The run\<close>

definition started :: "int \<Rightarrow> records acceptor" where
  "started i = the (acceptor_init i \<lparr>ss_db = Map.empty, record_buffer = empty_record\<rparr> True True True)"

text \<open>
  An acceptor gets the prepare request of proposer 0 (ballot 10) for instance 1, then that of proposer
  1 (ballot 21), then the accept request of proposer 1, then that of proposer 0, each in a datagram of
  its own. The results are what the others read: the two lists of promises and the two lists of
  acknowledgements.
\<close>

definition split_vote :: "records bdb \<Rightarrow> int \<Rightarrow> bytes \<Rightarrow> bytes \<Rightarrow>
    (prepare_ack list \<times> prepare_ack list \<times> accept_ack list \<times> accept_ack list) res" where
  "split_vote E i v w =
     rbind (handle_prepare_req_batch E (started i) [\<lparr>pr_iid = 1, pr_ballot = 10\<rparr>]) (\<lambda>(st, ev1).
     rbind (handle_prepare_req_batch E st [\<lparr>pr_iid = 1, pr_ballot = 21\<rparr>]) (\<lambda>(st, ev2).
     rbind (handle_accept_req_batch E st [\<lparr>ar_iid = 1, ar_ballot = 21, ar_value = v\<rparr>]) (\<lambda>(st, ev3).
     rbind (handle_accept_req_batch E st [\<lparr>ar_iid = 1, ar_ballot = 10, ar_value = w\<rparr>]) (\<lambda>(st, ev4).
     let old = replicate MAX_UDP_MSG_SIZE 0 in
     rbind (receive_all read_prepare_acks old (datagrams ev1)) (\<lambda>p1.
     rbind (receive_all read_prepare_acks old (datagrams ev2)) (\<lambda>p2.
     rbind (receive_all read_accept_acks old (datagrams ev3)) (\<lambda>a1.
     rbind (receive_all read_accept_acks old (datagrams ev4)) (\<lambda>a2.
       Inr (p1, p2, a1, a2)))))))))"

lemma started_ok:
  assumes "i = 0 \<or> i = 1"
  shows "acc_inv (\<lambda>db. db) (started i)" "view_of (\<lambda>db. db) (started i) = Map.empty"
proof -
  have i: "acceptor_init i \<lparr>ss_db = Map.empty, record_buffer = empty_record\<rparr> True True True = Some (started i)"
    using assms by (auto simp: started_def acceptor_init_def config_defs)
  show "acc_inv (\<lambda>db. db) (started i)"
    by (rule acceptor_init_inv [OF i]) (simp add: recs_ok_def)
  show "view_of (\<lambda>db. db) (started i) = Map.empty"
    using assms by (auto simp: started_def acceptor_init_def config_defs view_of_def)
qed

text \<open>A handler applied to one request and what the others read of its answers.\<close>

lemma one_prepare:
  assumes "bdb_ok E view" "acc_inv view st" "pr_iid pr \<noteq> 0" "length old = MAX_UDP_MSG_SIZE"
  shows "\<exists>st' evs. handle_prepare_req_batch E st [pr] = Inr (st', evs) \<and> acc_inv view st'
    \<and> view_of view st' = store (view_of view st) (spec_prepare (view_of view st) pr)
    \<and> receive_all read_prepare_acks old (datagrams evs)
        = Inr (map prepare_ack_of (case spec_prepare (view_of view st) pr of None \<Rightarrow> [] | Some r \<Rightarrow> [r]))"
  using prepare_handler [OF assms(1,2), of "[pr]"] prepare_acks_read [OF _ assms(4)] assms(3)
  by (fastforce split: option.splits)

lemma one_accept:
  assumes "bdb_ok E view" "acc_inv view st" "ar_iid ar \<noteq> 0" "length (ar_value ar) \<le> 7456"
    and "length old = MAX_UDP_MSG_SIZE"
  shows "\<exists>st' evs. handle_accept_req_batch E st [ar] = Inr (st', evs) \<and> acc_inv view st'
    \<and> view_of view st' = store (view_of view st) (code_accept (view_of view st) ar)
    \<and> receive_all read_accept_acks old (datagrams evs)
        = Inr (case code_accept (view_of view st) ar of None \<Rightarrow> [] | Some r \<Rightarrow> [r])"
  using accept_handler [OF assms(1,2), of "[ar]"] accept_acks_read [OF _ assms(5)] assms(3,4)
  by (fastforce split: option.splits)

lemma split_vote_result:
  assumes "i = 0 \<or> i = 1" "length v \<le> 7456" "length w \<le> 7456"
  shows "split_vote (map_bdb mode) i v w
    = Inr ([\<lparr>pa_iid = 1, pa_ballot = 10, pa_value_ballot = 0, pa_value = []\<rparr>],
        [\<lparr>pa_iid = 1, pa_ballot = 21, pa_value_ballot = 0, pa_value = []\<rparr>], [ack 1 21 v], [ack 1 10 w])"
proof -
  let ?E = "map_bdb mode" and ?view = "\<lambda>db :: records. db"
  let ?old = "replicate MAX_UDP_MSG_SIZE (0 :: u8)"
  have old: "length ?old = MAX_UDP_MSG_SIZE" by simp
  note p = one_prepare [OF map_bdb_ok [of mode] _ _ old] and a = one_accept [OF map_bdb_ok [of mode] _ _ _ old]
  note sp = spec_prepare_def code_accept_def store_def prepare_ack_of_def ack_def
  obtain s1 e1 where 1: "handle_prepare_req_batch ?E (started i) [\<lparr>pr_iid = 1, pr_ballot = 10\<rparr>] = Inr (s1, e1)"
      "acc_inv ?view s1" "view_of ?view s1 = [1 \<mapsto> \<lparr>aa_iid = 1, aa_ballot = 10, aa_value_ballot = 0, aa_is_final = 0, aa_value = []\<rparr>]"
      "receive_all read_prepare_acks ?old (datagrams e1) = Inr [\<lparr>pa_iid = 1, pa_ballot = 10, pa_value_ballot = 0, pa_value = []\<rparr>]"
    using p [OF started_ok(1) [OF assms(1)], of "\<lparr>pr_iid = 1, pr_ballot = 10\<rparr>"] started_ok(2) [OF assms(1)]
    by (auto simp: sp)
  obtain s2 e2 where 2: "handle_prepare_req_batch ?E s1 [\<lparr>pr_iid = 1, pr_ballot = 21\<rparr>] = Inr (s2, e2)"
      "acc_inv ?view s2" "view_of ?view s2 = [1 \<mapsto> \<lparr>aa_iid = 1, aa_ballot = 21, aa_value_ballot = 0, aa_is_final = 0, aa_value = []\<rparr>]"
      "receive_all read_prepare_acks ?old (datagrams e2) = Inr [\<lparr>pa_iid = 1, pa_ballot = 21, pa_value_ballot = 0, pa_value = []\<rparr>]"
    using p [OF 1(2), of "\<lparr>pr_iid = 1, pr_ballot = 21\<rparr>"] 1(3) by (auto simp: sp)
  obtain s3 e3 where 3: "handle_accept_req_batch ?E s2 [\<lparr>ar_iid = 1, ar_ballot = 21, ar_value = v\<rparr>] = Inr (s3, e3)"
      "acc_inv ?view s3" "view_of ?view s3 = [1 \<mapsto> ack 1 21 v]"
      "receive_all read_accept_acks ?old (datagrams e3) = Inr [ack 1 21 v]"
    using a [OF 2(2), of "\<lparr>ar_iid = 1, ar_ballot = 21, ar_value = v\<rparr>"] 2(3) assms(2) by (auto simp: sp)
  obtain s4 e4 where 4: "handle_accept_req_batch ?E s3 [\<lparr>ar_iid = 1, ar_ballot = 10, ar_value = w\<rparr>] = Inr (s4, e4)"
      "receive_all read_accept_acks ?old (datagrams e4) = Inr [ack 1 10 w]"
    using a [OF 3(2), of "\<lparr>ar_iid = 1, ar_ballot = 10, ar_value = w\<rparr>"] 3(3) assms(3) by (auto simp: sp)
  show ?thesis using 1 2 3 4 by (simp add: split_vote_def)
qed

definition newer_acks :: "(u16 \<times> accept_ack) list" where
  "newer_acks = [(0, ack 1 21 [5]), (1, ack 1 21 [5])]"

definition older_acks :: "(u16 \<times> accept_ack) list" where
  "older_acks = [(0, ack 1 10 [6]), (1, ack 1 10 [6])]"

lemma newer_run:
  "case learn_all init_learner newer_acks of Inl _ \<Rightarrow> False
    | Inr (st, ds) \<Rightarrow> ds = [\<lparr>del_value = [5], del_iid = 1, del_ballot = 21, del_proposer = 1\<rparr>]"
proof -
  have "case learn_all (init_learner\<lparr>lea_recv_buffer := m\<rparr>) newer_acks of Inl _ \<Rightarrow> False
    | Inr (st, ds) \<Rightarrow> ds = [\<lparr>del_value = [5], del_iid = 1, del_ballot = 21, del_proposer = 1\<rparr>]" for m
    by code_simp
  then show ?thesis using init_learner_buffer by metis
qed

lemma older_run:
  "case learn_all init_learner older_acks of Inl _ \<Rightarrow> False
    | Inr (st, ds) \<Rightarrow> ds = [\<lparr>del_value = [6], del_iid = 1, del_ballot = 10, del_proposer = 0\<rparr>]"
proof -
  have "case learn_all (init_learner\<lparr>lea_recv_buffer := m\<rparr>) older_acks of Inl _ \<Rightarrow> False
    | Inr (st, ds) \<Rightarrow> ds = [\<lparr>del_value = [6], del_iid = 1, del_ballot = 10, del_proposer = 0\<rparr>]" for m
    by code_simp
  then show ?thesis using init_learner_buffer by metis
qed

definition delivered :: "(u16 \<times> accept_ack) list \<Rightarrow> delivery list option" where
  "delivered aas = (case learn_all init_learner aas of Inl _ \<Rightarrow> None | Inr (_, ds) \<Rightarrow> Some ds)"

text \<open>C2. Agreement does not hold: acceptors 0 and 1 both promise ballot 10 to proposer 0 and ballot 21 to
  proposer 1, both accept the value of proposer 1 in ballot 21, and then both accept the other value
  in the older ballot 10 that they promised to refuse. A learner that sees the first pair of
  acknowledgements delivers one value for instance 1, a learner that sees the second pair another.\<close>

theorem agreement_violated:
  "(\<forall>mode. split_vote (map_bdb mode) 0 [5] [6] = split_vote (map_bdb mode) 1 [5] [6])
    \<and> (\<exists>a b. split_vote (map_bdb 0) 0 [5] [6]
        = Inr ([\<lparr>pa_iid = 1, pa_ballot = 10, pa_value_ballot = 0, pa_value = []\<rparr>],
            [\<lparr>pa_iid = 1, pa_ballot = 21, pa_value_ballot = 0, pa_value = []\<rparr>], [a], [b])
      \<and> delivered [(0, a), (1, a)] = Some [\<lparr>del_value = [5], del_iid = 1, del_ballot = 21, del_proposer = 1\<rparr>]
      \<and> delivered [(0, b), (1, b)] = Some [\<lparr>del_value = [6], del_iid = 1, del_ballot = 10, del_proposer = 0\<rparr>])"
proof (intro conjI exI)
  show "delivered [(0, ack 1 21 [5]), (1, ack 1 21 [5])]
      = Some [\<lparr>del_value = [5], del_iid = 1, del_ballot = 21, del_proposer = 1\<rparr>]"
    using newer_run by (simp add: delivered_def newer_acks_def split: sum.splits prod.splits)
  show "delivered [(0, ack 1 10 [6]), (1, ack 1 10 [6])]
      = Some [\<lparr>del_value = [6], del_iid = 1, del_ballot = 10, del_proposer = 0\<rparr>]"
    using older_run by (simp add: delivered_def older_acks_def split: sum.splits prod.splits)
qed (simp_all add: split_vote_result)

end
