(* ===== verification/LearnerInit.thy ===== *)
theory LearnerInit
  imports Learner
begin

text \<open>
  The start of the learner thread (\<^verbatim>\<open>learner_init\<close>, \<^verbatim>\<open>init_learner_thread\<close>,
  \<^verbatim>\<open>init_lea_wait_ready\<close>, \<^verbatim>\<open>init_lea_success\<close> and \<^verbatim>\<open>init_lea_failure\<close> of
  \<^verbatim>\<open>paxos2/lib/learner.c\<close>) as a step relation of two threads: the caller creates the learner
  thread and waits on a condition variable; the learner thread initializes, sets the status under the
  lock and signals. A signal wakes the caller only when it is waiting; POSIX also allows a wait to end
  without a signal, which the parameter \<open>spurious\<close> enables.
\<close>

section \<open>The two threads\<close>

datatype status = LEARNER_ERROR | LEARNER_READY | LEARNER_STARTING

datatype thread_id = Caller | LearnerThread

datatype caller_pc =
    Create        \<comment> \<open>before \<^verbatim>\<open>pthread_create\<close>\<close>
  | Lock          \<comment> \<open>before \<^verbatim>\<open>pthread_mutex_lock\<close> in \<^verbatim>\<open>init_lea_wait_ready\<close>\<close>
  | CondWait      \<comment> \<open>at the head of the loop, before \<^verbatim>\<open>pthread_cond_wait\<close>\<close>
  | Waiting       \<comment> \<open>in \<^verbatim>\<open>pthread_cond_wait\<close>\<close>
  | Woken         \<comment> \<open>woken up, before the lock is taken again\<close>
  | Check         \<comment> \<open>reads the status\<close>
  | Returned int  \<comment> \<open>\<^verbatim>\<open>learner_init\<close> has returned\<close>

datatype learner_pc =
    NotCreated
  | Initializing
  | SetLock status   \<comment> \<open>before \<^verbatim>\<open>pthread_mutex_lock\<close> with the status to set\<close>
  | SetReady status
  | Signal
  | Unlock
  | Finished         \<comment> \<open>in the event loop, or ended after a failure\<close>

record init_state =
  learner_ready :: status
  ready_lock :: "thread_id option"
  caller :: caller_pc
  learner_thread :: learner_pc

definition init0 :: init_state where
  "init0 = \<lparr>learner_ready = LEARNER_STARTING, ready_lock = None, caller = Create, learner_thread = NotCreated\<rparr>"

text \<open>What \<^verbatim>\<open>learner_init\<close> returns for a status.\<close>

definition result_of :: "status \<Rightarrow> int" where
  "result_of s = (if s = LEARNER_ERROR then - 1 else 0)"

text \<open>
  \<^verbatim>\<open>init_learner_thread\<close> up to the status it sets: the callback is not null, libevent
  starts, the results of the start of the network, of the timers and of the custom function (none when
  it is null), and of the scheduling of the event that sets the status to ready.
\<close>

definition init_learner_thread :: "bool \<Rightarrow> bool \<Rightarrow> int \<Rightarrow> int \<Rightarrow> int option \<Rightarrow> int \<Rightarrow> status" where
  "init_learner_thread delfun_given libevent_ok init_lea_network init_lea_timers custom_init init_lea_signal_ready =
     (if \<not> delfun_given then LEARNER_ERROR
      else if \<not> libevent_ok then LEARNER_ERROR
      else if fst (init_lea_structs init_learner) \<noteq> 0 then LEARNER_ERROR
      else if init_lea_network \<noteq> 0 then LEARNER_ERROR
      else if init_lea_timers \<noteq> 0 then LEARNER_ERROR
      else if custom_init \<noteq> None \<and> custom_init \<noteq> Some 0 then LEARNER_ERROR
      else if init_lea_signal_ready \<noteq> 0 then LEARNER_ERROR
      else LEARNER_READY)"

lemma init_learner_thread_starting [simp]: "init_learner_thread d e n t c s \<noteq> LEARNER_STARTING"
  by (simp add: init_learner_thread_def)

lemma init_learner_thread_ready: "init_learner_thread True True 0 0 None 0 = LEARNER_READY"
  by (simp add: init_learner_thread_def init_lea_structs_ok)

inductive init_step :: "bool \<Rightarrow> init_state \<Rightarrow> init_state \<Rightarrow> bool" for spurious where
  create_fails: "caller s = Create \<Longrightarrow> init_step spurious s (s\<lparr>caller := Returned (- 1)\<rparr>)"
| create: "caller s = Create \<Longrightarrow>
    init_step spurious s (s\<lparr>caller := Lock, learner_thread := Initializing\<rparr>)"
| lock: "caller s = Lock \<Longrightarrow> ready_lock s = None \<Longrightarrow>
    init_step spurious s (s\<lparr>ready_lock := Some Caller, caller := CondWait\<rparr>)"
| cond_wait: "caller s = CondWait \<Longrightarrow>
    init_step spurious s (s\<lparr>ready_lock := None, caller := Waiting\<rparr>)"
| wake_up: "caller s = Waiting \<Longrightarrow> spurious \<Longrightarrow> init_step spurious s (s\<lparr>caller := Woken\<rparr>)"
| relock: "caller s = Woken \<Longrightarrow> ready_lock s = None \<Longrightarrow>
    init_step spurious s (s\<lparr>ready_lock := Some Caller, caller := Check\<rparr>)"
| check_starting: "caller s = Check \<Longrightarrow> learner_ready s = LEARNER_STARTING \<Longrightarrow>
    init_step spurious s (s\<lparr>caller := CondWait\<rparr>)"
| check_done: "caller s = Check \<Longrightarrow> learner_ready s \<noteq> LEARNER_STARTING \<Longrightarrow>
    init_step spurious s (s\<lparr>ready_lock := None, caller := Returned (result_of (learner_ready s))\<rparr>)"
| initialized: "learner_thread s = Initializing \<Longrightarrow> r = init_learner_thread d e n t c sr \<Longrightarrow>
    init_step spurious s (s\<lparr>learner_thread := SetLock r\<rparr>)"
| set_lock: "learner_thread s = SetLock r \<Longrightarrow> ready_lock s = None \<Longrightarrow>
    init_step spurious s (s\<lparr>ready_lock := Some LearnerThread, learner_thread := SetReady r\<rparr>)"
| set_ready: "learner_thread s = SetReady r \<Longrightarrow>
    init_step spurious s (s\<lparr>learner_ready := r, learner_thread := Signal\<rparr>)"
| signal_waiting: "learner_thread s = Signal \<Longrightarrow> caller s = Waiting \<Longrightarrow>
    init_step spurious s (s\<lparr>caller := Woken, learner_thread := Unlock\<rparr>)"
| signal_lost: "learner_thread s = Signal \<Longrightarrow> caller s \<noteq> Waiting \<Longrightarrow>
    init_step spurious s (s\<lparr>learner_thread := Unlock\<rparr>)"
| unlock: "learner_thread s = Unlock \<Longrightarrow>
    init_step spurious s (s\<lparr>ready_lock := None, learner_thread := Finished\<rparr>)"

inductive_cases init_stepE: "init_step spurious s s'"

abbreviation init_reach :: "bool \<Rightarrow> init_state \<Rightarrow> bool" where
  "init_reach spurious \<equiv> rtranclp (init_step spurious) init0"

section \<open>Invariant\<close>






lemma reach_step: "init_reach sp s \<Longrightarrow> init_step sp s s' \<Longrightarrow> init_reach sp s'"
  by (rule rtranclp.rtrancl_into_rtrancl)

lemma started: "init_reach sp (init0\<lparr>caller := Lock, learner_thread := Initializing\<rparr>)"
  using reach_step [OF rtranclp.rtrancl_refl create [of init0]] by (simp add: init0_def)

abbreviation init_st :: "status \<Rightarrow> thread_id option \<Rightarrow> caller_pc \<Rightarrow> learner_pc \<Rightarrow> init_state" where
  "init_st r l c t \<equiv> \<lparr>learner_ready = r, ready_lock = l, caller = c, learner_thread = t\<rparr>"



text \<open>C27. The caller does not look at the status before it waits, so the signal can be lost: when the
  learner thread finishes before the caller takes the lock, the status is ready, but the caller waits
  and no step of either thread is left.\<close>

theorem learner_init_lost_signal:
  "\<exists>s. init_reach False s \<and> learner_ready s = LEARNER_READY \<and> caller s = Waiting
     \<and> (\<forall>s'. \<not> init_step False s s')"
proof -
  have "init_reach False (init_st LEARNER_STARTING None Lock Initializing)"
    using started [of False] by (simp add: init0_def)
  then have "init_reach False (init_st LEARNER_STARTING None Lock (SetLock LEARNER_READY))"
    by (rule reach_step) (use initialized [of "init_st LEARNER_STARTING None Lock Initializing" _ True True 0 0 None 0, OF _ init_learner_thread_ready [symmetric]] in simp)
  then have "init_reach False (init_st LEARNER_STARTING (Some LearnerThread) Lock (SetReady LEARNER_READY))"
    by (rule reach_step) (use set_lock [of "init_st LEARNER_STARTING None Lock (SetLock LEARNER_READY)"] in simp)
  then have "init_reach False (init_st LEARNER_READY (Some LearnerThread) Lock Signal)"
    by (rule reach_step)
      (use set_ready [of "init_st LEARNER_STARTING (Some LearnerThread) Lock (SetReady LEARNER_READY)"] in simp)
  then have "init_reach False (init_st LEARNER_READY (Some LearnerThread) Lock Unlock)"
    by (rule reach_step) (use signal_lost [of "init_st LEARNER_READY (Some LearnerThread) Lock Signal"] in simp)
  then have "init_reach False (init_st LEARNER_READY None Lock Finished)"
    by (rule reach_step) (use unlock [of "init_st LEARNER_READY (Some LearnerThread) Lock Unlock"] in simp)
  then have "init_reach False (init_st LEARNER_READY (Some Caller) CondWait Finished)"
    by (rule reach_step) (use lock [of "init_st LEARNER_READY None Lock Finished"] in simp)
  then have "init_reach False (init_st LEARNER_READY None Waiting Finished)"
    by (rule reach_step) (use cond_wait [of "init_st LEARNER_READY (Some Caller) CondWait Finished"] in simp)
  moreover have "\<not> init_step False (init_st LEARNER_READY None Waiting Finished) s'" for s'
    by (rule notI, erule init_stepE) simp_all
  ultimately show ?thesis
    by (intro exI [of _ "init_st LEARNER_READY None Waiting Finished"]) simp
qed

end
