(* ===== verification/Fifo.thy ===== *)
theory Fifo
  imports Prelude
begin

text \<open>
  The contract of a bounded queue, which the leader's list of client values and the queue of
  \<^verbatim>\<open>ring_paxos\<close> both keep: \<open>rep s xs\<close> says that the state \<open>s\<close> holds the
  values \<open>xs\<close>, first to leave first. A queue that holds \<open>cap\<close> values drops the next one.
\<close>

locale fifo =
  fixes rep :: "'s \<Rightarrow> 'v list \<Rightarrow> bool" and enq :: "'v \<Rightarrow> 's \<Rightarrow> 's res"
    and deq :: "'s \<Rightarrow> ('v option \<times> 's) res" and cap :: nat
  assumes enq_room: "rep s xs \<Longrightarrow> length xs < cap \<Longrightarrow> \<exists>s'. enq v s = Inr s' \<and> rep s' (xs @ [v])"
    and enq_full: "rep s xs \<Longrightarrow> cap \<le> length xs \<Longrightarrow> \<exists>s'. enq v s = Inr s' \<and> rep s' xs"
    and deq_nil: "rep s [] \<Longrightarrow> \<exists>s'. deq s = Inr (None, s') \<and> rep s' []"
    and deq_cons: "rep s (x # xs) \<Longrightarrow> \<exists>s'. deq s = Inr (Some x, s') \<and> rep s' xs"
begin

fun enq_all :: "'v list \<Rightarrow> 's \<Rightarrow> 's res" where
  "enq_all [] s = Inr s"
| "enq_all (v # vs) s = rbind (enq v s) (enq_all vs)"

fun deq_all :: "nat \<Rightarrow> 's \<Rightarrow> ('v list \<times> 's) res" where
  "deq_all 0 s = Inr ([], s)"
| "deq_all (Suc n) s = rbind (deq s) (\<lambda>(v, s). case v of None \<Rightarrow> Inr ([], s)
     | Some x \<Rightarrow> rbind (deq_all n s) (\<lambda>(xs, s). Inr (x # xs, s)))"

lemma enq_all_rep:
  "rep s xs \<Longrightarrow> length xs \<le> cap \<Longrightarrow> \<exists>s'. enq_all vs s = Inr s' \<and> rep s' (take cap (xs @ vs))"
proof (induction vs arbitrary: s xs)
  case Nil
  then show ?case by simp
next
  case (Cons v vs)
  show ?case
  proof (cases "length xs < cap")
    case True
    then obtain s1 where s1: "enq v s = Inr s1" "rep s1 (xs @ [v])" using enq_room Cons.prems(1) by blast
    then show ?thesis using Cons.IH [OF s1(2)] True by simp
  next
    case False
    then obtain s1 where s1: "enq v s = Inr s1" "rep s1 xs" using enq_full Cons.prems(1) by fastforce
    then show ?thesis using Cons.IH [OF s1(2)] Cons.prems(2) False by simp
  qed
qed

lemma deq_all_rep: "rep s xs \<Longrightarrow> \<exists>s'. deq_all (length xs) s = Inr (xs, s') \<and> rep s' []"
proof (induction xs arbitrary: s)
  case Nil
  then show ?case by simp
next
  case (Cons x xs)
  then obtain s1 where s1: "deq s = Inr (Some x, s1)" "rep s1 xs" using deq_cons by blast
  then show ?case using Cons.IH [OF s1(2)] by auto
qed

lemma first_in_first_out:
  assumes "rep s []"
  shows "\<exists>s1 s2. enq_all vs s = Inr s1 \<and> deq_all (min cap (length vs)) s1 = Inr (take cap vs, s2) \<and> rep s2 []"
proof -
  obtain s1 where "enq_all vs s = Inr s1" "rep s1 (take cap vs)" using enq_all_rep [OF assms, of vs] by auto
  then show ?thesis using deq_all_rep [of s1 "take cap vs"] by (auto simp: min.commute)
qed

end

end
