(* ===== verification/ValuesHandler.thy ===== *)
theory ValuesHandler
  imports Receiver Fifo
begin

text \<open>
  The list of values waiting in the leader (\<^verbatim>\<open>paxos2/lib/proposer_values_handler.c\<close>): a singly
  linked list of wrappers with a head, a tail and a size. The wrappers live in an explicit memory, a
  map from addresses, because the operations share and relink them; an allocation takes an address
  that was never used. The list is protected by one lock in every operation, so an operation is one
  step. The operations keep the contract \<open>fifo\<close> of a bounded queue.
\<close>

section \<open>The list of wrappers\<close>

record vh_value_wrapper =
  vw_value :: bytes
  vw_next :: "nat option"

record vh_state =
  vh_list_size :: int
  vh_list_head :: "nat option"
  vh_list_tail :: "nat option"
  dropped_count :: nat
  vh_mem :: "nat \<rightharpoonup> vh_value_wrapper"
  vh_fresh :: nat

definition LEADER_MAX_QUEUE_LENGTH :: int where "LEADER_MAX_QUEUE_LENGTH = 50"

definition vh_wrap_value :: "bytes \<Rightarrow> vh_state \<Rightarrow> nat \<times> vh_state" where
  "vh_wrap_value value st =
     (vh_fresh st, st\<lparr>vh_mem := (vh_mem st)(vh_fresh st \<mapsto> \<lparr>vw_value = value, vw_next = None\<rparr>),
                       vh_fresh := Suc (vh_fresh st)\<rparr>)"

definition vh_value_compare :: "vh_value_wrapper \<Rightarrow> vh_value_wrapper \<Rightarrow> bool" where
  "vh_value_compare vw1 vw2 \<longleftrightarrow>
     (if length (vw_value vw1) \<noteq> length (vw_value vw2) then False else vw_value vw1 = vw_value vw2)"

definition set_next :: "vh_state \<Rightarrow> nat option \<Rightarrow> nat option \<Rightarrow> vh_state res" where
  "set_next st p q = (case p of None \<Rightarrow> Inl NullPointer
     | Some a \<Rightarrow> (case vh_mem st a of None \<Rightarrow> Inl NullPointer
         | Some vw \<Rightarrow> Inr (st\<lparr>vh_mem := (vh_mem st)(a \<mapsto> vw\<lparr>vw_next := q\<rparr>)\<rparr>)))"

definition get_wrapper :: "vh_state \<Rightarrow> nat option \<Rightarrow> vh_value_wrapper res" where
  "get_wrapper st p = (case p of None \<Rightarrow> Inl NullPointer
     | Some a \<Rightarrow> (case vh_mem st a of None \<Rightarrow> Inl NullPointer | Some vw \<Rightarrow> Inr vw))"

definition vh_init :: "vh_state \<Rightarrow> vh_state" where
  "vh_init st = st\<lparr>vh_list_size := 0, vh_list_head := None, vh_list_tail := None, dropped_count := 0\<rparr>"

definition vh_enqueue_value :: "bytes \<Rightarrow> vh_state \<Rightarrow> vh_state res" where
  "vh_enqueue_value value st =
     (if vh_list_size st > LEADER_MAX_QUEUE_LENGTH
      then Inr (st\<lparr>dropped_count := dropped_count st + 1\<rparr>)
      else case vh_wrap_value value st of (new_vw, st) \<Rightarrow>
        if vh_list_head st = None \<and> vh_list_tail st = None
        then Inr (st\<lparr>vh_list_head := Some new_vw, vh_list_tail := Some new_vw, vh_list_size := 1\<rparr>)
        else rbind (set_next st (vh_list_tail st) (Some new_vw)) (\<lambda>st.
          Inr (st\<lparr>vh_list_tail := Some new_vw, vh_list_size := vh_list_size st + 1\<rparr>)))"

definition vh_get_next_pending :: "vh_state \<Rightarrow> (nat option \<times> vh_state) res" where
  "vh_get_next_pending st =
     (if vh_list_head st = None \<and> vh_list_tail st = None then Inr (None, st)
      else
        let first_vw = vh_list_head st in
        rbind (get_wrapper st first_vw) (\<lambda>vw.
        let st = st\<lparr>vh_list_head := vw_next vw\<rparr>;
            st = (if vh_list_tail st = first_vw then st\<lparr>vh_list_tail := None\<rparr> else st)
        in Inr (first_vw, st\<lparr>vh_list_size := vh_list_size st - 1\<rparr>)))"

definition vh_push_back_value :: "nat \<Rightarrow> vh_state \<Rightarrow> vh_state res" where
  "vh_push_back_value vw st =
     rbind (set_next st (Some vw) (vh_list_head st)) (\<lambda>st.
     if vh_list_head st = None \<and> vh_list_tail st = None
     then Inr (st\<lparr>vh_list_head := Some vw, vh_list_tail := Some vw, vh_list_size := 1\<rparr>)
     else Inr (st\<lparr>vh_list_head := Some vw, vh_list_size := vh_list_size st + 1\<rparr>))"

definition vh_pending_list_size :: "vh_state \<Rightarrow> int" where
  "vh_pending_list_size st = vh_list_size st"

text \<open>\<^verbatim>\<open>vh_shutdown\<close>: the clients of the values still in the list are notified; at most
  \<open>n\<close> values are taken.\<close>

fun vh_drain :: "nat \<Rightarrow> vh_state \<Rightarrow> (nat list \<times> vh_state) res" where
  "vh_drain 0 st = Inr ([], st)"
| "vh_drain (Suc n) st =
     rbind (vh_get_next_pending st) (\<lambda>(vw, st). case vw of
       None \<Rightarrow> Inr ([], st)
     | Some a \<Rightarrow> rbind (vh_drain n (st\<lparr>vh_mem := (vh_mem st)(a := None)\<rparr>)) (\<lambda>(as, st). Inr (a # as, st)))"

text \<open>\<^verbatim>\<open>vh_handle_newmsg\<close>: a client's message; its data are the value.\<close>

definition vh_handle_newmsg :: "bytes \<Rightarrow> vh_state \<Rightarrow> bytes option \<Rightarrow> (bytes \<times> vh_state) res" where
  "vh_handle_newmsg recv_buffer st dgram =
     rbind (udp_read_next_message recv_buffer dgram) (\<lambda>(valid, b).
     if valid < 0 then Inr (b, st)
     else rbind (rd32 b 8) (\<lambda>ty.
       if ty = msg_code submit
       then rbind (rd64 b 0) (\<lambda>n. rbind (mread b offsetof_data n) (\<lambda>v.
            rbind (vh_enqueue_value v st) (\<lambda>st. Inr (b, st))))
       else Inr (b, st)))"

section \<open>The list is a queue\<close>

text \<open>The addresses linked from a pointer, and the invariant of the list with the addresses
  \<open>ps\<close>.\<close>

fun linked :: "(nat \<rightharpoonup> vh_value_wrapper) \<Rightarrow> nat option \<Rightarrow> nat list \<Rightarrow> bool" where
  "linked m p [] \<longleftrightarrow> p = None"
| "linked m p (a # as) \<longleftrightarrow> p = Some a \<and> (\<exists>vw. m a = Some vw \<and> linked m (vw_next vw) as)"

definition vh_inv :: "vh_state \<Rightarrow> nat list \<Rightarrow> bool" where
  "vh_inv st ps \<longleftrightarrow> linked (vh_mem st) (vh_list_head st) ps \<and> distinct ps
     \<and> vh_list_tail st = (if ps = [] then None else Some (last ps))
     \<and> vh_list_size st = int (length ps) \<and> (\<forall>a vw. vh_mem st a = Some vw \<longrightarrow> a < vh_fresh st)"

definition value_at :: "vh_state \<Rightarrow> nat \<Rightarrow> bytes" where
  "value_at st a = vw_value (the (vh_mem st a))"

definition vh_rep :: "vh_state \<Rightarrow> bytes list \<Rightarrow> bool" where
  "vh_rep st vs \<longleftrightarrow> (\<exists>ps. vh_inv st ps \<and> vs = map (value_at st) ps)"

lemma linked_dom: "linked m p as \<Longrightarrow> set as \<subseteq> dom m"
  by (induction as arbitrary: p) auto

lemma linked_frame: "a \<notin> set as \<Longrightarrow> linked (m(a := x)) p as = linked m p as"
  by (induction as arbitrary: p) auto

lemma linked_head: "linked m p as \<Longrightarrow> p = (if as = [] then None else Some (hd as))"
  by (cases as) auto

lemma linked_snoc:
  assumes "linked m p as" "as \<noteq> []" "distinct as" "b \<notin> set as" "m (last as) = Some vw"
    "m b = Some vwb" "vw_next vwb = None"
  shows "linked (m(last as \<mapsto> vw\<lparr>vw_next := Some b\<rparr>)) p (as @ [b])"
  using assms
proof (induction as arbitrary: p)
  case Nil
  then show ?case by simp
next
  case (Cons a as)
  show ?case
  proof (cases "as = []")
    case True
    then show ?thesis using Cons.prems by auto
  next
    case False
    then have "a \<noteq> last as" using Cons.prems(3) by (metis distinct.simps(2) last_in_set)
    then show ?thesis using Cons False by auto
  qed
qed

lemma map_value_at_cong:
  "(\<And>a. a \<in> set ps \<Longrightarrow> map_option vw_value (vh_mem st' a) = map_option vw_value (vh_mem st a)) \<Longrightarrow>
     set ps \<subseteq> dom (vh_mem st) \<Longrightarrow> map (value_at st') ps = map (value_at st) ps"
proof (induction ps)
  case (Cons a ps)
  have "value_at st' a = value_at st a"
    using Cons.prems(1) [of a] Cons.prems(2) by (auto simp: value_at_def)
  then show ?case using Cons by simp
qed simp

lemma enqueue_ok:
  assumes inv: "vh_inv st ps" and room: "length ps \<le> 50"
  shows "\<exists>st'. vh_enqueue_value v st = Inr st' \<and> vh_inv st' (ps @ [vh_fresh st])
    \<and> map (value_at st') (ps @ [vh_fresh st]) = map (value_at st) ps @ [v]"
proof -
  let ?n = "vh_fresh st" and ?m = "vh_mem st"
  have i: "linked ?m (vh_list_head st) ps" "distinct ps" "vh_list_size st = int (length ps)"
    "\<forall>a vw. ?m a = Some vw \<longrightarrow> a < ?n" "vh_list_tail st = (if ps = [] then None else Some (last ps))"
    using inv by (simp_all add: vh_inv_def)
  have fresh: "?n \<notin> set ps" "?n \<notin> dom ?m" using linked_dom [OF i(1)] i(4) by auto
  have sz: "\<not> vh_list_size st > LEADER_MAX_QUEUE_LENGTH"
    using i(3) room by (simp add: LEADER_MAX_QUEUE_LENGTH_def)
  show ?thesis
  proof (cases "ps = []")
    case True
    then show ?thesis using i sz
      by (auto simp: vh_enqueue_value_def vh_wrap_value_def vh_inv_def value_at_def less_SucI)
  next
    case False
    let ?m1 = "?m(?n \<mapsto> \<lparr>vw_value = v, vw_next = None\<rparr>)"
    have ne: "last ps \<noteq> ?n" using fresh(1) False by (metis last_in_set)
    obtain vw where vw: "?m (last ps) = Some vw"
      using linked_dom [OF i(1)] False by (meson domD last_in_set subsetD)
    define st' where "st' = st\<lparr>vh_mem := ?m1(last ps \<mapsto> vw\<lparr>vw_next := Some ?n\<rparr>), vh_fresh := Suc ?n,
      vh_list_tail := Some ?n, vh_list_size := vh_list_size st + 1\<rparr>"
    have "vh_enqueue_value v st = Inr st'"
      using i(5) False sz vw ne
      by (simp add: vh_enqueue_value_def vh_wrap_value_def set_next_def st'_def)
    moreover have "linked (vh_mem st') (vh_list_head st') (ps @ [?n])"
      using linked_snoc [of ?m1 "vh_list_head st" ps ?n vw "\<lparr>vw_value = v, vw_next = None\<rparr>"]
        i(1,2) False fresh vw ne by (simp add: st'_def linked_frame)
    then have "vh_inv st' (ps @ [?n])"
      using i fresh False vw by (auto simp: vh_inv_def st'_def less_SucI)
    moreover have "map (value_at st') ps = map (value_at st) ps"
      using fresh vw linked_dom [OF i(1)] by (intro map_value_at_cong) (auto simp: st'_def)
    moreover have "value_at st' ?n = v" using ne by (simp add: value_at_def st'_def)
    ultimately show ?thesis by auto
  qed
qed

lemma get_next_ok:
  assumes "vh_inv st (a # ps)"
  shows "\<exists>st'. vh_get_next_pending st = Inr (Some a, st') \<and> vh_inv st' ps \<and> vh_mem st' = vh_mem st"
proof -
  obtain vw where vw: "vh_mem st a = Some vw" "linked (vh_mem st) (vw_next vw) ps" "vh_list_head st = Some a"
    "a \<notin> set ps" "distinct ps" "vh_list_tail st = Some (last (a # ps))"
    "vh_list_size st = 1 + int (length ps)" "\<forall>a vw. vh_mem st a = Some vw \<longrightarrow> a < vh_fresh st"
    using assms by (auto simp: vh_inv_def)
  have "last (a # ps) = a \<longleftrightarrow> ps = []" using vw(4) by (cases ps rule: rev_cases) auto
  then show ?thesis using vw
    by (auto simp: vh_get_next_pending_def get_wrapper_def vh_inv_def Let_def)
qed

lemma push_back_ok:
  assumes inv: "vh_inv st ps" and a: "a \<notin> set ps" "vh_mem st a = Some vw"
  shows "\<exists>st'. vh_push_back_value a st = Inr st' \<and> vh_inv st' (a # ps)
    \<and> map (value_at st') (a # ps) = vw_value vw # map (value_at st) ps"
proof -
  have i: "linked (vh_mem st) (vh_list_head st) ps" "distinct ps" "vh_list_size st = int (length ps)"
    "\<forall>a vw. vh_mem st a = Some vw \<longrightarrow> a < vh_fresh st" "vh_list_tail st = (if ps = [] then None else Some (last ps))"
    using inv by (simp_all add: vh_inv_def)
  let ?m = "(vh_mem st)(a \<mapsto> vw\<lparr>vw_next := vh_list_head st\<rparr>)"
  have l: "linked ?m (Some a) (a # ps)" using i(1) a(1) by (simp add: linked_frame)
  define st' where "st' = st\<lparr>vh_mem := ?m, vh_list_head := Some a,
    vh_list_tail := Some (last (a # ps)), vh_list_size := vh_list_size st + 1\<rparr>"
  have "vh_push_back_value a st = Inr st'"
    using i a linked_head [OF i(1)]
    by (auto simp: vh_push_back_value_def set_next_def st'_def)
  moreover have "vh_inv st' (a # ps)" using i a l by (auto simp: vh_inv_def st'_def)
  moreover have "map (value_at st') ps = map (value_at st) ps"
    using a linked_dom [OF i(1)] by (intro map_value_at_cong) (auto simp: st'_def)
  ultimately show ?thesis by (auto simp: value_at_def st'_def)
qed

text \<open>The value of the next wrapper, which its caller owns from then on.\<close>

definition next_value :: "vh_state \<Rightarrow> (bytes option \<times> vh_state) res" where
  "next_value st = rbind (vh_get_next_pending st) (\<lambda>(p, st). Inr (map_option (value_at st) p, st))"

lemma vh_get_nil: "vh_inv st [] \<Longrightarrow> vh_get_next_pending st = Inr (None, st)"
  by (simp add: vh_inv_def vh_get_next_pending_def)

lemma value_at_mem: "vh_mem st' = vh_mem st \<Longrightarrow> value_at st' = value_at st"
  by (simp add: fun_eq_iff value_at_def)

interpretation pending: fifo vh_rep vh_enqueue_value next_value 51
proof unfold_locales
  fix s xs v
  assume r: "vh_rep s xs"
  then obtain ps where ps: "vh_inv s ps" "xs = map (value_at s) ps" by (auto simp: vh_rep_def)
  show "\<exists>s'. vh_enqueue_value v s = Inr s' \<and> vh_rep s' (xs @ [v])" if "length xs < 51"
    using enqueue_ok [OF ps(1), of v] ps(2) that by (fastforce simp: vh_rep_def)
  show "\<exists>s'. vh_enqueue_value v s = Inr s' \<and> vh_rep s' xs" if "51 \<le> length xs"
    using ps that
    by (auto simp: vh_enqueue_value_def vh_inv_def LEADER_MAX_QUEUE_LENGTH_def vh_rep_def value_at_def
        intro!: exI [of _ ps])
next
  fix s
  assume "vh_rep s []"
  then show "\<exists>s'. next_value s = Inr (None, s') \<and> vh_rep s' []"
    by (auto simp: vh_rep_def next_value_def vh_get_nil)
next
  fix s x xs
  assume "vh_rep s (x # xs)"
  then obtain a ps where ps: "vh_inv s (a # ps)" "x = value_at s a" "xs = map (value_at s) ps"
    by (auto simp: vh_rep_def map_eq_Cons_conv)
  obtain s' where g: "vh_get_next_pending s = Inr (Some a, s')" "vh_inv s' ps" "vh_mem s' = vh_mem s"
    using get_next_ok [OF ps(1)] by blast
  have "vh_rep s' xs" unfolding vh_rep_def using g(2) ps(3) value_at_mem [OF g(3)] by metis
  then show "\<exists>s'. next_value s = Inr (Some x, s') \<and> vh_rep s' xs"
    using g(1) ps(2) value_at_mem [OF g(3)] by (simp add: next_value_def)
qed

lemma vh_init_rep: "\<forall>a vw. vh_mem st a = Some vw \<longrightarrow> a < vh_fresh st \<Longrightarrow> vh_rep (vh_init st) []"
  by (simp add: vh_rep_def vh_inv_def vh_init_def)

definition vh_empty :: vh_state where
  "vh_empty = \<lparr>vh_list_size = 0, vh_list_head = None, vh_list_tail = None, dropped_count = 0,
     vh_mem = Map.empty, vh_fresh = 0\<rparr>"

lemma vh_empty_rep: "vh_rep vh_empty []"
  by (simp add: vh_rep_def vh_inv_def vh_empty_def)

lemma vh_rep_size: "vh_rep st xs \<Longrightarrow> vh_pending_list_size st = int (length xs)"
  by (auto simp: vh_rep_def vh_inv_def vh_pending_list_size_def)

text \<open>C24. The values of the clients leave the list of the leader in the order in which they entered
  it, each as it was submitted. The list takes 51 values, one more than
  \<^verbatim>\<open>LEADER_MAX_QUEUE_LENGTH\<close>; the values submitted to a full list are dropped.\<close>

theorem pending_values_fifo:
  assumes "vh_rep st []"
  shows "\<exists>st1 st2. pending.enq_all vs st = Inr st1 \<and> vh_pending_list_size st1 = int (min 51 (length vs))
    \<and> pending.deq_all (min 51 (length vs)) st1 = Inr (take 51 vs, st2) \<and> vh_rep st2 []"
proof -
  obtain st1 where e: "pending.enq_all vs st = Inr st1" "vh_rep st1 (take 51 vs)"
    using pending.enq_all_rep [OF assms, of vs] by auto
  then show ?thesis
    using pending.first_in_first_out [OF assms, of vs] vh_rep_size [OF e(2)] by (auto simp: min.commute)
qed

theorem pending_values_fifo_witness:
  "\<exists>st1 st2. pending.enq_all [[1, 2], [3]] vh_empty = Inr st1
    \<and> vh_pending_list_size st1 = int (min 51 (length [[1, 2], [3 :: u8]]))
    \<and> pending.deq_all (min 51 (length [[1, 2], [3 :: u8]])) st1 = Inr (take 51 [[1, 2], [3]], st2) \<and> vh_rep st2 []"
  by (rule pending_values_fifo [OF vh_empty_rep])

text \<open>A value pushed back is the next one to leave, also when the list was empty or full.\<close>

theorem pushed_back_value_is_next:
  assumes "vh_inv st ps" "a \<notin> set ps" "vh_mem st a = Some vw"
  shows "\<exists>st1 st2. vh_push_back_value a st = Inr st1 \<and> vh_get_next_pending st1 = Inr (Some a, st2)
    \<and> value_at st2 a = vw_value vw \<and> vh_inv st2 ps \<and> map (value_at st2) ps = map (value_at st) ps"
proof -
  obtain st1 where p: "vh_push_back_value a st = Inr st1" "vh_inv st1 (a # ps)"
      "map (value_at st1) (a # ps) = vw_value vw # map (value_at st) ps"
    using push_back_ok [OF assms] by (elim exE conjE) (rule that)
  obtain st2 where g: "vh_get_next_pending st1 = Inr (Some a, st2)" "vh_inv st2 ps" "vh_mem st2 = vh_mem st1"
    using get_next_ok [OF p(2)] by blast
  show ?thesis using p g value_at_mem [OF g(3)] by auto
qed

theorem pushed_back_value_is_next_witness:
  "\<exists>st1 st2. vh_push_back_value 0 (snd (vh_wrap_value [5] vh_empty)) = Inr st1
    \<and> vh_get_next_pending st1 = Inr (Some 0, st2)
    \<and> value_at st2 0 = vw_value \<lparr>vw_value = [5], vw_next = None\<rparr> \<and> vh_inv st2 []
    \<and> map (value_at st2) [] = map (value_at (snd (vh_wrap_value [5] vh_empty))) []"
  by (rule pushed_back_value_is_next) (simp_all add: vh_inv_def vh_wrap_value_def vh_empty_def)

lemma vh_inv_free: "vh_inv st ps \<Longrightarrow> a \<notin> set ps \<Longrightarrow> vh_inv (st\<lparr>vh_mem := (vh_mem st)(a := None)\<rparr>) ps"
  by (auto simp: vh_inv_def linked_frame)

text \<open>C25. The shutdown notifies the client of every value still in the list, once and in order, and
  ends: it takes no more turns than the list has values, and one to see the end.\<close>

theorem shutdown_notifies_all:
  assumes "vh_inv st ps" "length ps < n"
  shows "\<exists>st'. vh_drain n st = Inr (ps, st') \<and> vh_inv st' []"
  using assms
proof (induction n arbitrary: st ps)
  case (Suc n)
  show ?case
  proof (cases ps)
    case Nil
    then show ?thesis using Suc.prems(1) by (simp add: vh_get_nil)
  next
    case (Cons a qs)
    obtain st1 where g: "vh_get_next_pending st = Inr (Some a, st1)" "vh_inv st1 qs"
      using get_next_ok Suc.prems(1) Cons by blast
    have "a \<notin> set qs" using Suc.prems(1) Cons by (simp add: vh_inv_def)
    from Suc.IH [OF vh_inv_free [OF g(2) this]] obtain st' where
        "vh_drain n (st1\<lparr>vh_mem := (vh_mem st1)(a := None)\<rparr>) = Inr (qs, st')" "vh_inv st' []"
      using Suc.prems(2) Cons by auto
    then show ?thesis using g(1) Cons by simp
  qed
qed simp

theorem shutdown_notifies_all_witness:
  "\<exists>st'. vh_drain 3 \<lparr>vh_list_size = 2, vh_list_head = Some 4, vh_list_tail = Some 7, dropped_count = 0,
      vh_mem = [4 \<mapsto> \<lparr>vw_value = [1], vw_next = Some 7\<rparr>, 7 \<mapsto> \<lparr>vw_value = [2], vw_next = None\<rparr>], vh_fresh = 8\<rparr>
      = Inr ([4, 7], st') \<and> vh_inv st' []"
  by (rule shutdown_notifies_all) (simp_all add: vh_inv_def)

end
