(* ===== verification/Timeval.thy ===== *)
theory Timeval
  imports Main
begin

text \<open>
  The time stamps of both libraries, \<^verbatim>\<open>struct timeval\<close>, in their order: first the seconds,
  then the microseconds. The order is an instance of \<open>linorder\<close>, so that the library's facts
  on linear orders apply to deadlines.
\<close>

datatype timeval = Timeval (tv_sec: int) (tv_usec: int)

instantiation timeval :: linorder
begin

definition less_eq_timeval :: "timeval \<Rightarrow> timeval \<Rightarrow> bool" where
  "less_eq_timeval a b \<longleftrightarrow> tv_sec a < tv_sec b \<or> tv_sec a = tv_sec b \<and> tv_usec a \<le> tv_usec b"

definition less_timeval :: "timeval \<Rightarrow> timeval \<Rightarrow> bool" where
  "less_timeval a b \<longleftrightarrow> tv_sec a < tv_sec b \<or> tv_sec a = tv_sec b \<and> tv_usec a < tv_usec b"

instance
  by standard (auto simp: less_eq_timeval_def less_timeval_def timeval.expand)

end

definition usecs :: "timeval \<Rightarrow> int" where
  "usecs t = tv_sec t * 1000000 + tv_usec t"

definition normal_time :: "timeval \<Rightarrow> bool" where
  "normal_time t \<longleftrightarrow> 0 \<le> tv_usec t \<and> tv_usec t < 1000000"

lemma less_usecs:
  assumes "normal_time a" "normal_time b"
  shows "a < b \<longleftrightarrow> usecs a < usecs b"
  using assms by (auto simp: less_timeval_def usecs_def normal_time_def)

lemma mod_second:
  fixes s :: int
  assumes "0 \<le> s" "s < 2000000"
  shows "s mod 1000000 = (if s < 1000000 then s else s - 1000000)"
proof (cases "s < 1000000")
  case False
  have "s mod 1000000 = (s - 1000000) mod 1000000" by (rule minus_mod_self2 [symmetric])
  also have "\<dots> = s - 1000000" using False assms by (intro mod_pos_pos_trivial) simp_all
  finally show ?thesis using False by simp
qed (use assms in simp)

end
