(* ===== verification/Proposer.thy ===== *)
theory Proposer
  imports Learner Timeval
begin

text \<open>
  The proposer and its leader part (\<^verbatim>\<open>paxos2/lib/proposer.c\<close> and
  \<^verbatim>\<open>paxos2/lib/proposer_leader.c\<close>, which the former includes): phase 1 for a window of
  instances in advance, phase 2 for the values of the clients, timeouts, delivery and the change of
  the leader. The static variables are the record \<open>proposer\<close>; the list of waiting values is
  the queue that the theory \<^verbatim>\<open>ValuesHandler\<close> proves it to be. A wrapper of a value is the
  value itself. The time a handler reads is its argument \<open>now\<close>.
\<close>

section \<open>State\<close>

datatype i_status = i_empty | p1_pending | p1_ready | p2_pending | p2_completed

record p_inst_info =
  pi_iid :: iid_t
  pi_status :: i_status
  my_ballot :: ballot_t
  promises_bitvector :: u32
  promises_count :: u32
  p1_value :: "bytes option"
  p1_value_ballot :: ballot_t
  p2_value :: "bytes option"
  pi_timeout :: timeval

record proposer =
  pro_current_iid :: iid_t
  this_proposer_id :: u16
  current_leader_id :: u16
  alive_ping_seqno :: nat
  to_oracle :: udp_send_buffer
  pro_to_acceptors :: udp_send_buffer
  pro_recv_buffer :: bytes
  oracle_recv_buffer :: bytes
  proposer_state :: "u32 \<Rightarrow> p_inst_info"
  p1_pending_count :: u32
  p1_ready_count :: u32
  p1_highest_open :: iid_t
  p2_next_unused_iid :: iid_t
  p2_open_count :: u32
  pending_list :: "bytes list"
  ev_p1_timeout :: nat
  ev_p2_timeout :: nat
  ev_p2_waits_p1 :: nat

definition PROPOSER_ARRAY_SIZE :: u32 where "PROPOSER_ARRAY_SIZE = 2048"
definition PROPOSER_PREEXEC_WIN_SIZE :: u32 where "PROPOSER_PREEXEC_WIN_SIZE = 300"
definition PROPOSER_P2_CONCURRENCY :: u32 where "PROPOSER_P2_CONCURRENCY = 3"
definition P1_TIMEOUT_INTERVAL :: int where "P1_TIMEOUT_INTERVAL = 30000"
definition P2_TIMEOUT_INTERVAL :: int where "P2_TIMEOUT_INTERVAL = 35000"

lemmas pro_config_defs = PROPOSER_ARRAY_SIZE_def PROPOSER_PREEXEC_WIN_SIZE_def
  PROPOSER_P2_CONCURRENCY_def P1_TIMEOUT_INTERVAL_def P2_TIMEOUT_INTERVAL_def

definition pro_index :: "iid_t \<Rightarrow> u32" where
  "pro_index iid = iid AND (PROPOSER_ARRAY_SIZE - 1)"

definition GET_PRO_INSTANCE :: "proposer \<Rightarrow> iid_t \<Rightarrow> p_inst_info" where
  "GET_PRO_INSTANCE st iid = proposer_state st (pro_index iid)"

definition set_pro :: "proposer \<Rightarrow> iid_t \<Rightarrow> p_inst_info \<Rightarrow> proposer" where
  "set_pro st iid ii = st\<lparr>proposer_state := (proposer_state st)(pro_index iid := ii)\<rparr>"

definition LEADER_IS_ME :: "proposer \<Rightarrow> bool" where
  "LEADER_IS_ME st \<longleftrightarrow> this_proposer_id st = current_leader_id st"

definition FIRST_BALLOT :: "proposer \<Rightarrow> ballot_t" where
  "FIRST_BALLOT st = word_of_int (int MAX_N_OF_PROPOSERS + sint (this_proposer_id st))"

definition NEXT_BALLOT :: "ballot_t \<Rightarrow> ballot_t" where
  "NEXT_BALLOT b = b + word_of_nat MAX_N_OF_PROPOSERS"

text \<open>The loop \<^verbatim>\<open>i = from; i <= to; i++\<close> of unsigned numbers: with the highest number there is as
  its bound it would not end, which its callers exclude with a guard.\<close>

definition iid_range_incl :: "iid_t \<Rightarrow> iid_t \<Rightarrow> iid_t list" where
  "iid_range_incl from to = map word_of_nat [unat from ..< Suc (unat to)]"

text \<open>A loop over instances, and the frame of the functions that fill a batch.\<close>

fun for_each :: "('a \<Rightarrow> proposer \<Rightarrow> (proposer \<times> io_event list) res) \<Rightarrow> 'a list \<Rightarrow>
    proposer \<Rightarrow> (proposer \<times> io_event list) res" where
  "for_each f [] st = Inr (st, [])"
| "for_each f (x # xs) st =
     rbind (f x st) (\<lambda>(st, evs). rbind (for_each f xs st) (\<lambda>(st, evs'). Inr (st, evs @ evs')))"

definition in_batch :: "paxos_msg_code \<Rightarrow> (proposer \<Rightarrow> (proposer \<times> io_event list) res) \<Rightarrow>
    proposer \<Rightarrow> (proposer \<times> io_event list) res" where
  "in_batch type body st =
     rbind (sendbuf_clear (pro_to_acceptors st) type (this_proposer_id st)) (\<lambda>sb.
     rbind (body (st\<lparr>pro_to_acceptors := sb\<rparr>)) (\<lambda>(st, evs).
     rbind (sendbuf_flush (pro_to_acceptors st)) (\<lambda>evs'. Inr (st, evs @ evs'))))"

definition add_prepare_req :: "iid_t \<Rightarrow> ballot_t \<Rightarrow> proposer \<Rightarrow> (proposer \<times> io_event list) res" where
  "add_prepare_req iid b st =
     rbind (sendbuf_add_prepare_req (pro_to_acceptors st) iid b) (\<lambda>(sb, evs).
       Inr (st\<lparr>pro_to_acceptors := sb\<rparr>, evs))"

definition add_accept_req :: "iid_t \<Rightarrow> ballot_t \<Rightarrow> bytes \<Rightarrow> proposer \<Rightarrow> (proposer \<times> io_event list) res" where
  "add_accept_req iid b v st =
     rbind (sendbuf_add_accept_req (pro_to_acceptors st) iid b v) (\<lambda>(sb, evs).
       Inr (st\<lparr>pro_to_acceptors := sb\<rparr>, evs))"

section \<open>Timing\<close>

definition leader_set_expiration :: "timeval \<Rightarrow> int \<Rightarrow> timeval" where
  "leader_set_expiration now usec_interval =
     (let a_second = 1000000;
          sec = tv_sec now + usec_interval div a_second;
          usec_sum = tv_usec now + usec_interval mod a_second;
          sec = (if usec_sum > a_second then sec + 1 else sec)
      in Timeval sec (usec_sum mod a_second))"

definition leader_is_expired :: "timeval \<Rightarrow> timeval \<Rightarrow> bool" where
  "leader_is_expired deadline time_now \<longleftrightarrow>
     tv_sec deadline < tv_sec time_now
     \<or> tv_sec deadline = tv_sec time_now \<and> tv_usec deadline < tv_usec time_now"

section \<open>Instances\<close>

definition pro_clear_instance_info :: "p_inst_info \<Rightarrow> p_inst_info" where
  "pro_clear_instance_info ii =
     ii\<lparr>pi_iid := 0, pi_status := i_empty, my_ballot := 0, p1_value_ballot := 0,
        promises_bitvector := 0, promises_count := 0, p1_value := None, p2_value := None\<rparr>"

definition pro_save_prepare_ack :: "p_inst_info \<Rightarrow> prepare_ack \<Rightarrow> u16 \<Rightarrow> p_inst_info" where
  "pro_save_prepare_ack ii pa acceptor_id =
     (let bit = push_bit (nat (sint acceptor_id)) 1 in
      if promises_bitvector ii AND bit \<noteq> 0 then ii
      else
        let ii = ii\<lparr>promises_bitvector := promises_bitvector ii AND bit,
                    promises_count := promises_count ii + 1\<rparr>
        in if length (pa_value pa) = 0 then ii
           else if p1_value_ballot ii \<ge> pa_value_ballot pa then ii
           else if p1_value ii = Some (pa_value pa) then ii\<lparr>p1_value_ballot := pa_value_ballot pa\<rparr>
           else ii\<lparr>p1_value := Some (pa_value pa), p1_value_ballot := pa_value_ballot pa\<rparr>)"

definition handle_prepare_ack :: "proposer \<Rightarrow> prepare_ack \<Rightarrow> u16 \<Rightarrow> bool \<times> proposer" where
  "handle_prepare_ack st pa acceptor_id =
     (let ii = GET_PRO_INSTANCE st (pa_iid pa) in
      if pi_status ii \<noteq> p1_pending then (False, st)
      else if pa_ballot pa \<noteq> my_ballot ii then (False, st)
      else
        let ii = pro_save_prepare_ack ii pa acceptor_id;
            st = set_pro st (pa_iid pa) ii
        in if promises_count ii < word_of_nat QUORUM then (False, st)
           else (True, (set_pro st (pa_iid pa) (ii\<lparr>pi_status := p1_ready\<rparr>))
                   \<lparr>p1_pending_count := p1_pending_count st - 1,
                    p1_ready_count := p1_ready_count st + 1\<rparr>))"

section \<open>Phase 1 of the leader\<close>

definition p1_check_one :: "timeval \<Rightarrow> iid_t \<Rightarrow> proposer \<Rightarrow> (proposer \<times> io_event list) res" where
  "p1_check_one now iid st =
     (let ii = GET_PRO_INSTANCE st iid in
      rassert (pi_iid ii = iid) (
      if pi_status ii = p1_pending \<and> leader_is_expired (pi_timeout ii) now
      then
        let ii = ii\<lparr>promises_bitvector := 0, promises_count := 0, p1_value_ballot := 0, p1_value := None,
                    my_ballot := NEXT_BALLOT (my_ballot ii)\<rparr>
        in rbind (add_prepare_req (pi_iid ii) (my_ballot ii) st) (\<lambda>(st, evs).
           Inr ((set_pro st iid (ii\<lparr>pi_timeout := leader_set_expiration now P1_TIMEOUT_INTERVAL\<rparr>))
             \<lparr>ev_p1_timeout := ev_p1_timeout st + 1\<rparr>, evs))
      else Inr (st, [])))"

definition leader_check_p1_pending :: "timeval \<Rightarrow> proposer \<Rightarrow> (proposer \<times> io_event list) res" where
  "leader_check_p1_pending now st =
     rguard (p1_highest_open st \<noteq> - 1) (
     in_batch prepare_reqs
       (for_each (p1_check_one now) (iid_range_incl (pro_current_iid st) (p1_highest_open st))) st)"

definition p1_open_one :: "timeval \<Rightarrow> iid_t \<Rightarrow> proposer \<Rightarrow> (proposer \<times> io_event list) res" where
  "p1_open_one now i st =
     (let curr_iid = i + p1_highest_open st; ii = GET_PRO_INSTANCE st curr_iid in
      rassert (pi_status ii = i_empty) (
        let ii = ii\<lparr>pi_iid := curr_iid, pi_status := p1_pending, my_ballot := FIRST_BALLOT st\<rparr>
        in rbind (add_prepare_req (pi_iid ii) (my_ballot ii) st) (\<lambda>(st, evs).
           Inr (set_pro st curr_iid (ii\<lparr>pi_timeout := leader_set_expiration now P1_TIMEOUT_INTERVAL\<rparr>), evs))))"

definition leader_open_instances_p1 :: "timeval \<Rightarrow> proposer \<Rightarrow> (proposer \<times> io_event list) res" where
  "leader_open_instances_p1 now st =
     (let active_count = sint (p1_pending_count st + p1_ready_count st) in
      rassert (active_count \<ge> 0) (
      if active_count \<ge> 150 then Inr (st, [])
      else
        let to_open = PROPOSER_PREEXEC_WIN_SIZE - word_of_int active_count in
        rassert (to_open \<ge> 150) (
        rbind (in_batch prepare_reqs (for_each (p1_open_one now) (iid_range_incl 1 to_open)) st) (\<lambda>(st, evs).
          Inr (st\<lparr>p1_pending_count := p1_pending_count st + to_open,
                  p1_highest_open := p1_highest_open st + to_open\<rparr>, evs)))))"

definition leader_periodic_p1_check :: "timeval \<Rightarrow> proposer \<Rightarrow> (proposer \<times> io_event list) res" where
  "leader_periodic_p1_check now st =
     rbind (leader_check_p1_pending now st) (\<lambda>(st, evs).
     rbind (leader_open_instances_p1 now st) (\<lambda>(st, evs'). Inr (st, evs @ evs')))"

section \<open>Phase 2 of the leader\<close>

text \<open>
  \<^verbatim>\<open>leader_execute_p2\<close>: the second branch is taken whenever phase 1 found a value, so the code
  for the case of two values, in the last branch, is never reached; with no value at all it would
  dereference \<^verbatim>\<open>NULL\<close>.
\<close>

definition p2_choose :: "p_inst_info \<Rightarrow> bytes list \<Rightarrow> (p_inst_info \<times> bytes list) res" where
  "p2_choose ii pending =
     (if p1_value ii = None \<and> p2_value ii = None
      then (case pending of [] \<Rightarrow> Inl AssertFailed | v # vs \<Rightarrow> Inr (ii\<lparr>p2_value := Some v\<rparr>, vs))
      else if p1_value ii \<noteq> None
      then Inr (ii\<lparr>p2_value := p1_value ii, p1_value := None, p1_value_ballot := 0\<rparr>, pending)
      else if p2_value ii \<noteq> None then Inr (ii, pending)
      else Inl NullPointer)"

definition leader_execute_p2 :: "timeval \<Rightarrow> iid_t \<Rightarrow> proposer \<Rightarrow> (proposer \<times> io_event list) res" where
  "leader_execute_p2 now iid st =
     rbind (p2_choose (GET_PRO_INSTANCE st iid) (pending_list st)) (\<lambda>(ii, pending).
     let ii = ii\<lparr>pi_status := p2_pending\<rparr> in
     rbind (add_accept_req (pi_iid ii) (my_ballot ii) (the (p2_value ii)) (st\<lparr>pending_list := pending\<rparr>)) (\<lambda>(st, evs).
       Inr (set_pro st iid (ii\<lparr>pi_timeout := leader_set_expiration now P2_TIMEOUT_INTERVAL\<rparr>), evs)))"

text \<open>The loop of \<^verbatim>\<open>leader_open_instances_p2_expired\<close> with its count.\<close>

fun p2_expired_loop :: "timeval \<Rightarrow> iid_t list \<Rightarrow> u32 \<Rightarrow> proposer \<Rightarrow> (u32 \<times> proposer \<times> io_event list) res" where
  "p2_expired_loop now [] count st = Inr (count, st, [])"
| "p2_expired_loop now (iid # iids) count st =
     (let ii = GET_PRO_INSTANCE st iid in
      rassert (pi_iid ii = iid) (
      if pi_status ii = p1_ready
      then rassert (p2_value ii \<noteq> None \<or> p2_value ii \<noteq> None) (
           rbind (leader_execute_p2 now iid st) (\<lambda>(st, evs).
           rbind (p2_expired_loop now iids (count + 1) st) (\<lambda>(n, st, evs'). Inr (n, st, evs @ evs'))))
      else p2_expired_loop now iids count st))"

definition leader_open_instances_p2_expired :: "timeval \<Rightarrow> proposer \<Rightarrow> (proposer \<times> io_event list) res" where
  "leader_open_instances_p2_expired now st =
     rbind (sendbuf_clear (pro_to_acceptors st) accept_reqs (this_proposer_id st)) (\<lambda>sb.
     rbind (p2_expired_loop now (iid_range (pro_current_iid st) (p2_next_unused_iid st)) 0
       (st\<lparr>pro_to_acceptors := sb\<rparr>)) (\<lambda>(count, st, evs).
     rbind (sendbuf_flush (pro_to_acceptors st)) (\<lambda>evs'.
       Inr (st\<lparr>p1_ready_count := p1_ready_count st - count\<rparr>, evs @ evs'))))"

lemma p2_count_step:
  assumes "count + opened \<le> PROPOSER_P2_CONCURRENCY"
  shows "unat (count + 1 + opened) = Suc (unat (count + opened))"
proof -
  have "unat (count + opened) \<le> 3"
    using assms by (simp add: PROPOSER_P2_CONCURRENCY_def word_le_nat_alt)
  then have "unat (count + opened + 1) = Suc (unat (count + opened))"
    by (simp add: unat_word_ariths)
  then show ?thesis by (simp add: ac_simps)
qed

text \<open>
  The loop of \<^verbatim>\<open>leader_open_instances_p2_new\<close>; \<open>open_count\<close> does not change in it,
  and the count grows in each turn until the sum passes \<^verbatim>\<open>PROPOSER_P2_CONCURRENCY\<close>.
\<close>

function p2_new_loop :: "timeval \<Rightarrow> u32 \<Rightarrow> u32 \<Rightarrow> proposer \<Rightarrow> (u32 \<times> proposer \<times> io_event list) res" where
  "p2_new_loop now opened count st =
     (if \<not> count + opened \<le> PROPOSER_P2_CONCURRENCY then Inr (count, st, [])
      else
        let ii = GET_PRO_INSTANCE st (p2_next_unused_iid st) in
        rassert (p2_value ii = None) (
        if p1_value ii = None \<and> length (pending_list st) = 0 then Inr (count, st, [])
        else if pi_status ii \<noteq> p1_ready \<or> pi_iid ii \<noteq> p2_next_unused_iid st
        then Inr (count, st\<lparr>ev_p2_waits_p1 := ev_p2_waits_p1 st + 1\<rparr>, [])
        else rbind (leader_execute_p2 now (p2_next_unused_iid st) st) (\<lambda>(st, evs).
          rbind (p2_new_loop now opened (count + 1) (st\<lparr>p2_next_unused_iid := p2_next_unused_iid st + 1\<rparr>))
            (\<lambda>(n, st, evs'). Inr (n, st, evs @ evs')))))"
  by pat_completeness auto

termination
proof (relation "measure (\<lambda>(now, opened, count, st). 4 - unat (count + opened))", goal_cases)
  case (2 now opened count st)
  then have "unat (count + opened) \<le> 3" by (simp add: PROPOSER_P2_CONCURRENCY_def word_le_nat_alt)
  with 2 show ?case using p2_count_step [of count opened] by simp
qed simp

declare p2_new_loop.simps [simp del]

definition leader_open_instances_p2_new :: "timeval \<Rightarrow> proposer \<Rightarrow> (proposer \<times> io_event list) res" where
  "leader_open_instances_p2_new now st =
     (let treshold = (PROPOSER_P2_CONCURRENCY div 3) * 2 in
      if p2_open_count st > treshold then Inr (st, [])
      else
        rbind (sendbuf_clear (pro_to_acceptors st) accept_reqs (this_proposer_id st)) (\<lambda>sb.
        rbind (p2_new_loop now (p2_open_count st) 0 (st\<lparr>pro_to_acceptors := sb\<rparr>)) (\<lambda>(count, st, evs).
        rbind (sendbuf_flush (pro_to_acceptors st)) (\<lambda>evs'.
          Inr (st\<lparr>p1_ready_count := p1_ready_count st - count,
                  p2_open_count := p2_open_count st + count\<rparr>, evs @ evs')))))"

definition p2_check_one :: "learner \<Rightarrow> timeval \<Rightarrow> iid_t \<Rightarrow> proposer \<Rightarrow> (proposer \<times> io_event list) res" where
  "p2_check_one lea now i st =
     (let ii = GET_PRO_INSTANCE st i in
      if pi_status ii \<noteq> p2_pending then Inr (st, [])
      else if learner_is_closed lea i
      then Inr ((set_pro st i (ii\<lparr>pi_status := p2_completed\<rparr>))\<lparr>p2_open_count := p2_open_count st - 1\<rparr>, [])
      else if \<not> leader_is_expired (pi_timeout ii) now then Inr (st, [])
      else
        let ii = ii\<lparr>pi_status := p1_pending, my_ballot := NEXT_BALLOT (my_ballot ii)\<rparr>
        in rbind (add_prepare_req (pi_iid ii) (my_ballot ii) (st\<lparr>p1_pending_count := p1_pending_count st + 1\<rparr>)) (\<lambda>(st, evs).
           Inr ((set_pro st i (ii\<lparr>pi_timeout := leader_set_expiration now P1_TIMEOUT_INTERVAL\<rparr>))
             \<lparr>ev_p2_timeout := ev_p2_timeout st + 1\<rparr>, evs)))"

definition leader_periodic_p2_check :: "learner \<Rightarrow> timeval \<Rightarrow> proposer \<Rightarrow> (proposer \<times> io_event list) res" where
  "leader_periodic_p2_check lea now st =
     rbind (in_batch prepare_reqs
       (for_each (p2_check_one lea now) (iid_range (pro_current_iid st) (p2_next_unused_iid st))) st) (\<lambda>(st, evs).
     rbind (leader_open_instances_p2_new now st) (\<lambda>(st, evs'). Inr (st, evs @ evs')))"

section \<open>Delivery\<close>

definition opened_by_me :: "p_inst_info \<Rightarrow> bool" where
  "opened_by_me ii \<longleftrightarrow> pi_status ii = p1_pending \<and> p2_value ii \<noteq> None
     \<or> pi_status ii = p1_ready \<and> p2_value ii \<noteq> None \<or> pi_status ii = p2_pending"

definition leader_deliver :: "timeval \<Rightarrow> proposer \<Rightarrow> bytes \<Rightarrow> iid_t \<Rightarrow> (proposer \<times> io_event list) res" where
  "leader_deliver now st value iid =
     (let ii = GET_PRO_INSTANCE st iid in
      if pi_iid ii \<noteq> iid then Inr (st, [])
      else
        let st = (if pi_status ii = p1_pending then st\<lparr>p1_pending_count := p1_pending_count st - 1\<rparr> else st);
            st = (if p2_next_unused_iid st = iid then st\<lparr>p2_next_unused_iid := p2_next_unused_iid st + 1\<rparr> else st);
            st = (if opened_by_me ii then st\<lparr>p2_open_count := p2_open_count st - 1\<rparr> else st);
            my_val = (p2_value ii = Some value);
            st = (if my_val then st
                  else case p2_value ii of
                         Some v \<Rightarrow> st\<lparr>pending_list := v # pending_list st\<rparr>
                       | None \<Rightarrow> st);
            st = set_pro st iid (pro_clear_instance_info ii)
        in leader_open_instances_p2_new now st)"

definition pro_deliver_callback :: "timeval \<Rightarrow> proposer \<Rightarrow> delivery \<Rightarrow> (proposer \<times> io_event list) res" where
  "pro_deliver_callback now st d =
     rbind (if LEADER_IS_ME st then leader_deliver now st (del_value d) (del_iid d) else Inr (st, [])) (\<lambda>(st, evs).
       Inr (st\<lparr>pro_current_iid := del_iid d + 1\<rparr>, evs))"

section \<open>Event handlers\<close>

fun handle_prepare_acks :: "proposer \<Rightarrow> u16 \<Rightarrow> prepare_ack list \<Rightarrow> nat \<times> proposer" where
  "handle_prepare_acks st acceptor_id [] = (0, st)"
| "handle_prepare_acks st acceptor_id (pa # pas) =
     (case handle_prepare_ack st pa acceptor_id of (r, st) \<Rightarrow>
      case handle_prepare_acks st acceptor_id pas of (n, st) \<Rightarrow> ((if r then 1 else 0) + n, st))"

definition handle_prepare_ack_batch ::
  "timeval \<Rightarrow> proposer \<Rightarrow> u16 \<Rightarrow> prepare_ack list \<Rightarrow> (proposer \<times> io_event list) res" where
  "handle_prepare_ack_batch now st acceptor_id pas =
     (if \<not> LEADER_IS_ME st then Inr (st, [])
      else case handle_prepare_acks st acceptor_id pas of (ready, st) \<Rightarrow>
        if ready > 0
        then rbind (leader_open_instances_p2_expired now st) (\<lambda>(st, evs).
             rbind (leader_open_instances_p2_new now st) (\<lambda>(st, evs'). Inr (st, evs @ evs')))
        else Inr (st, []))"

definition pro_handle_newmsg :: "timeval \<Rightarrow> proposer \<Rightarrow> bytes option \<Rightarrow> (proposer \<times> io_event list) res" where
  "pro_handle_newmsg now st dgram =
     rbind (udp_read_next_message (pro_recv_buffer st) dgram) (\<lambda>(valid, b).
     let st = st\<lparr>pro_recv_buffer := b\<rparr> in
     if valid < 0 then Inr (st, [])
     else rbind (rd32 b 8) (\<lambda>ty.
       if ty = msg_code prepare_acks
       then rbind (rd16 b offsetof_data) (\<lambda>acceptor_id.
            rbind (read_prepare_acks b) (handle_prepare_ack_batch now st acceptor_id))
       else Inr (st, [])))"

section \<open>Change of the leader\<close>

definition leader_init :: "timeval \<Rightarrow> bool \<Rightarrow> proposer \<Rightarrow> (int \<times> proposer \<times> io_event list) res" where
  "leader_init now network_ok st =
     (let st = st\<lparr>ev_p1_timeout := 0, ev_p2_timeout := 0, ev_p2_waits_p1 := 0, pending_list := []\<rparr> in
      if \<not> network_ok then Inr (- 1, st, [])
      else
        let st = st\<lparr>p1_pending_count := 0, p1_ready_count := 0, p1_highest_open := pro_current_iid st - 1\<rparr>
        in rbind (leader_periodic_p1_check now st) (\<lambda>(st, evs).
           Inr (0, st\<lparr>p2_next_unused_iid := pro_current_iid st, p2_open_count := 0\<rparr>, evs)))"

definition shutdown_one :: "iid_t \<Rightarrow> proposer \<Rightarrow> proposer" where
  "shutdown_one i st =
     (let ii = GET_PRO_INSTANCE st i;
          st = (case p2_value ii of
                  Some v \<Rightarrow> if pi_status ii \<noteq> p2_completed then st\<lparr>pending_list := v # pending_list st\<rparr> else st
                | None \<Rightarrow> st)
      in set_pro st i (pro_clear_instance_info ii))"

text \<open>\<^verbatim>\<open>leader_shutdown\<close>: the result has the values whose clients are notified by
  \<^verbatim>\<open>vh_shutdown\<close>.\<close>

definition leader_shutdown :: "proposer \<Rightarrow> (proposer \<times> bytes list) res" where
  "leader_shutdown st =
     rguard (p1_highest_open st \<noteq> - 1) (
     let st = fold shutdown_one (iid_range_incl (pro_current_iid st) (p1_highest_open st)) st
     in Inr (st\<lparr>pending_list := []\<rparr>, pending_list st))"

definition pro_handle_oracle_msg ::
  "timeval \<Rightarrow> bool \<Rightarrow> proposer \<Rightarrow> bytes option \<Rightarrow> (proposer \<times> io_event list) res" where
  "pro_handle_oracle_msg now network_ok st dgram =
     rbind (udp_read_next_message (oracle_recv_buffer st) dgram) (\<lambda>(valid, b).
     let st = st\<lparr>oracle_recv_buffer := b\<rparr> in
     if valid < 0 then Inr (st, [])
     else rbind (rd32 b 8) (\<lambda>ty.
       if ty = msg_code leader_announce
       then rbind (rd16 b offsetof_data) (\<lambda>leader.
            rbind (if LEADER_IS_ME st \<and> leader \<noteq> this_proposer_id st
                   then rbind (leader_shutdown st) (\<lambda>(st, vs). Inr (st, []))
                   else if \<not> LEADER_IS_ME st \<and> leader = this_proposer_id st
                   then rbind (leader_init now network_ok st) (\<lambda>(r, st, evs). Inr (st, evs))
                   else Inr (st, [])) (\<lambda>(st, evs).
              Inr (st\<lparr>current_leader_id := leader\<rparr>, evs)))
       else Inr (st, [])))"

definition pro_ping_failure_detector :: "proposer \<Rightarrow> (proposer \<times> io_event list) res" where
  "pro_ping_failure_detector st =
     (let st = st\<lparr>alive_ping_seqno := (alive_ping_seqno st + 1) mod 2 ^ 64\<rparr> in
      rbind (sendbuf_send_ping (to_oracle st) (this_proposer_id st) (alive_ping_seqno st)) (\<lambda>(sb, evs).
        Inr (st\<lparr>to_oracle := sb\<rparr>, evs)))"

section \<open>Initialization\<close>

definition empty_info :: p_inst_info where
  "empty_info = \<lparr>pi_iid = 0, pi_status = i_empty, my_ballot = 0, promises_bitvector = 0,
     promises_count = 0, p1_value = None, p1_value_ballot = 0, p2_value = None, pi_timeout = Timeval 0 0\<rparr>"

definition fresh_proposer :: "u16 \<Rightarrow> proposer" where
  "fresh_proposer proposer_id =
     \<lparr>pro_current_iid = 1, this_proposer_id = proposer_id, current_leader_id = 0, alive_ping_seqno = 0,
      to_oracle = udp_sendbuf_new PingsNet, pro_to_acceptors = udp_sendbuf_new Acceptors,
      pro_recv_buffer = replicate MAX_UDP_MSG_SIZE 0, oracle_recv_buffer = replicate MAX_UDP_MSG_SIZE 0,
      proposer_state = (\<lambda>_. empty_info), p1_pending_count = 0, p1_ready_count = 0, p1_highest_open = 0,
      p2_next_unused_iid = 0, p2_open_count = 0, pending_list = [],
      ev_p1_timeout = 0, ev_p2_timeout = 0, ev_p2_waits_p1 = 0\<rparr>"

text \<open>\<^verbatim>\<open>init_pro_structs\<close>: the checks of the size of the table, then every entry is zeroed
  and cleared.\<close>

definition init_pro_structs :: "proposer \<Rightarrow> int \<times> proposer" where
  "init_pro_structs st =
     (if PROPOSER_ARRAY_SIZE AND (PROPOSER_ARRAY_SIZE - 1) \<noteq> 0 then (- 1, st)
      else if PROPOSER_ARRAY_SIZE \<le> PROPOSER_PREEXEC_WIN_SIZE then (- 1, st)
      else (0, st\<lparr>proposer_state := (\<lambda>_. pro_clear_instance_info empty_info)\<rparr>))"

text \<open>
  \<^verbatim>\<open>proposer_init\<close> with \<^verbatim>\<open>init_proposer\<close>, which the learner thread runs as its
  custom function: the sockets, the first ping, the table, the leadership of proposer 0, and the
  result of the application's own function (none when it is null). None stands for the result -1.
\<close>

definition proposer_init ::
  "int \<Rightarrow> timeval \<Rightarrow> bool \<Rightarrow> int option \<Rightarrow> (proposer \<times> io_event list) option res" where
  "proposer_init proposer_id now network_ok client_custom_init =
     (if proposer_id < 0 \<or> proposer_id \<ge> int MAX_N_OF_PROPOSERS then Inr None
      else if \<not> network_ok then Inr None
      else rbind (pro_ping_failure_detector (fresh_proposer (word_of_int proposer_id))) (\<lambda>(st, evs).
        case init_pro_structs st of (r, st) \<Rightarrow>
        if r \<noteq> 0 then Inr None
        else rbind (if LEADER_IS_ME st then leader_init now network_ok st else Inr (0, st, [])) (\<lambda>(r, st, evs').
          if r \<noteq> 0 then Inr None
          else if client_custom_init \<noteq> None \<and> client_custom_init \<noteq> Some 0 then Inr None
          else Inr (Some (st, evs @ evs')))))"

end
