(* ===== verification/ProposerSpec.thy ===== *)
theory ProposerSpec
  imports Proposer Transport
begin

text \<open>
  What the proposer promises: the ballots of two proposers are different, phase 1 keeps the value of
  the highest ballot among the promises, phase 2 sends it, deadlines, and the instances it opens;
  and the cases where it does not: promises counted twice, promises of an earlier ballot, a client's
  value lost.
\<close>

lemma unat_word_add_lt: "unat (a :: u32) + unat b < 2 ^ 32 \<Longrightarrow> unat (a + b) = unat a + unat b"
  by (simp add: unat_word_ariths)

section \<open>Ballots\<close>

lemma proposer_id_nat: "proposer_id_ok i \<Longrightarrow> sint i = int (nat (sint i)) \<and> nat (sint i) < 10"
  by (auto simp: proposer_id_ok_def config_defs)

lemma unat_FIRST_BALLOT:
  assumes "proposer_id_ok (this_proposer_id st)"
  shows "unat (FIRST_BALLOT st) = 10 + nat (sint (this_proposer_id st))"
proof -
  obtain n where n: "sint (this_proposer_id st) = int n" "n < 10" using proposer_id_nat [OF assms] by blast
  have "FIRST_BALLOT st = word_of_nat (10 + n)"
    unfolding FIRST_BALLOT_def n(1) by (simp add: config_defs)
  then show ?thesis using n by (simp add: unat_of_nat del: of_nat_add)
qed

lemma unat_NEXT_BALLOT:
  assumes "unat b + 10 < 2 ^ 32"
  shows "unat (NEXT_BALLOT b) = unat b + 10"
  using assms unat_word_add_lt [of b 10] by (simp add: NEXT_BALLOT_def config_defs)

lemma decimal_eq: "i < 10 \<Longrightarrow> j < 10 \<Longrightarrow> 10 + i + 10 * k = 10 + j + 10 * k' \<Longrightarrow> i = j" for i j k k' :: nat
  by presburger

lemma unat_nth_ballot:
  assumes "unat b + 10 * k < 2 ^ 32"
  shows "unat ((NEXT_BALLOT ^^ k) b) = unat b + 10 * k"
  using assms by (induction k) (simp_all add: unat_NEXT_BALLOT)

text \<open>C15. Two proposers never use the same ballot: whatever the number of times each of them raised
  its ballot, the ballots of different proposers differ, as long as they fit 32 bits.\<close>

theorem ballots_of_proposers_differ:
  assumes "proposer_id_ok (this_proposer_id st)" "proposer_id_ok (this_proposer_id st')"
    and "this_proposer_id st \<noteq> this_proposer_id st'"
    and "20 + 10 * k < 2 ^ 32" "20 + 10 * k' < 2 ^ 32"
  shows "(NEXT_BALLOT ^^ k) (FIRST_BALLOT st) \<noteq> (NEXT_BALLOT ^^ k') (FIRST_BALLOT st')"
proof
  let ?i = "nat (sint (this_proposer_id st))" and ?j = "nat (sint (this_proposer_id st'))"
  assume eq: "(NEXT_BALLOT ^^ k) (FIRST_BALLOT st) = (NEXT_BALLOT ^^ k') (FIRST_BALLOT st')"
  have b: "sint (this_proposer_id st) = int ?i" "?i < 10" "sint (this_proposer_id st') = int ?j" "?j < 10"
    using proposer_id_nat assms(1,2) by auto
  have "unat ((NEXT_BALLOT ^^ k) (FIRST_BALLOT st)) = 10 + ?i + 10 * k"
    using unat_FIRST_BALLOT [OF assms(1)] assms(4) b(2) by (subst unat_nth_ballot) simp_all
  moreover have "unat ((NEXT_BALLOT ^^ k') (FIRST_BALLOT st')) = 10 + ?j + 10 * k'"
    using unat_FIRST_BALLOT [OF assms(2)] assms(5) b(4) by (subst unat_nth_ballot) simp_all
  ultimately have "10 + ?i + 10 * k = 10 + ?j + 10 * k'" using eq by simp
  then have "?i = ?j" by (rule decimal_eq [OF b(2,4)])
  then have "sint (this_proposer_id st) = sint (this_proposer_id st')" using b(1,3) by simp
  then show False using assms(3) by (simp add: signed_word_eqI)
qed

theorem ballots_of_proposers_differ_witness:
  "(NEXT_BALLOT ^^ 2) (FIRST_BALLOT (fresh_proposer 3)) \<noteq> (NEXT_BALLOT ^^ 5) (FIRST_BALLOT (fresh_proposer 4))"
  by (rule ballots_of_proposers_differ) (simp_all add: fresh_proposer_def proposer_id_ok_def config_defs)

section \<open>Promises\<close>

fun save_promises :: "p_inst_info \<Rightarrow> (prepare_ack \<times> u16) list \<Rightarrow> p_inst_info" where
  "save_promises ii [] = ii"
| "save_promises ii ((pa, i) # ps) = save_promises (pro_save_prepare_ack ii pa i) ps"

lemma save_bitvector: "promises_bitvector ii = 0 \<Longrightarrow> promises_bitvector (pro_save_prepare_ack ii pa i) = 0"
  by (simp add: pro_save_prepare_ack_def Let_def)

text \<open>The value kept, over the promises seen so far.\<close>

definition keeps_highest :: "p_inst_info \<Rightarrow> prepare_ack set \<Rightarrow> bool" where
  "keeps_highest ii P \<longleftrightarrow>
     (\<forall>pa \<in> P. pa_value pa \<noteq> [] \<longrightarrow> pa_value_ballot pa \<le> p1_value_ballot ii)
     \<and> (p1_value_ballot ii = 0 \<and> p1_value ii = None
        \<or> (\<exists>pa \<in> P. pa_value pa \<noteq> [] \<and> p1_value ii = Some (pa_value pa) \<and> p1_value_ballot ii = pa_value_ballot pa))"

lemma save_keeps_highest:
  assumes "keeps_highest ii P" "promises_bitvector ii = 0"
  shows "keeps_highest (pro_save_prepare_ack ii pa i) (insert pa P)"
proof (cases "pa_value pa = [] \<or> pa_value_ballot pa \<le> p1_value_ballot ii")
  case True
  then show ?thesis using assms by (auto simp: keeps_highest_def pro_save_prepare_ack_def Let_def)
next
  case False
  then have "p1_value (pro_save_prepare_ack ii pa i) = Some (pa_value pa)"
      "p1_value_ballot (pro_save_prepare_ack ii pa i) = pa_value_ballot pa"
    using assms(2) by (auto simp: pro_save_prepare_ack_def Let_def)
  with False assms(1) show ?thesis unfolding keeps_highest_def
    by (auto intro: order.trans)
qed

lemma save_promises_highest:
  assumes "keeps_highest ii P" "promises_bitvector ii = 0"
  shows "keeps_highest (save_promises ii ps) (P \<union> fst ` set ps)"
  using assms
proof (induction ii ps arbitrary: P rule: save_promises.induct)
  case (2 ii pa i ps)
  from "2.IH" [OF save_keeps_highest [OF "2.prems"] save_bitvector [OF "2.prems"(2)]]
  show ?case by (simp add: insert_commute)
qed simp

text \<open>C13. Phase 1 keeps the right value: after any promises for an instance, in any order, the leader
  has the value of the promise with the highest value ballot among those that carry a value accepted
  in a ballot above 0, or no value when there is none.\<close>

theorem phase1_keeps_highest_value:
  assumes "p1_value ii = None" "p1_value_ballot ii = 0" "promises_bitvector ii = 0"
  shows "(\<forall>pa \<in> fst ` set ps. pa_value pa \<noteq> [] \<longrightarrow> pa_value_ballot pa \<le> p1_value_ballot (save_promises ii ps))
    \<and> (p1_value (save_promises ii ps) = None \<and> p1_value_ballot (save_promises ii ps) = 0
      \<or> (\<exists>pa \<in> fst ` set ps. pa_value pa \<noteq> [] \<and> p1_value (save_promises ii ps) = Some (pa_value pa)
          \<and> p1_value_ballot (save_promises ii ps) = pa_value_ballot pa))"
proof -
  have "keeps_highest ii {}" using assms by (simp add: keeps_highest_def)
  from save_promises_highest [OF this assms(3), of ps] show ?thesis by (auto simp: keeps_highest_def)
qed

definition promise :: "ballot_t \<Rightarrow> ballot_t \<Rightarrow> bytes \<Rightarrow> prepare_ack" where
  "promise b vb v = \<lparr>pa_iid = 1, pa_ballot = b, pa_value_ballot = vb, pa_value = v\<rparr>"

definition two_promises :: "(prepare_ack \<times> u16) list" where
  "two_promises = [(promise 31 10 [5], 0), (promise 31 20 [6], 1)]"

theorem phase1_keeps_highest_value_witness:
  "p1_value_ballot (save_promises empty_info two_promises) = 20
    \<and> p1_value (save_promises empty_info two_promises) = Some [6]"
proof -
  have "p1_value empty_info = None" "p1_value_ballot empty_info = 0" "promises_bitvector empty_info = 0"
    by (simp_all add: empty_info_def)
  from phase1_keeps_highest_value [OF this, of two_promises]
  show ?thesis by (auto simp: two_promises_def promise_def)
qed

lemma save_counts:
  "promises_bitvector ii = 0 \<Longrightarrow> promises_count (pro_save_prepare_ack ii pa i) = promises_count ii + 1"
  "my_ballot (pro_save_prepare_ack ii pa i) = my_ballot ii"
  "pi_status (pro_save_prepare_ack ii pa i) = pi_status ii"
  "pi_iid (pro_save_prepare_ack ii pa i) = pi_iid ii"
  by (simp_all add: pro_save_prepare_ack_def Let_def)

lemma get_set_pro [simp]: "GET_PRO_INSTANCE (set_pro st iid ii) iid = ii"
  by (simp add: GET_PRO_INSTANCE_def set_pro_def)

lemma get_pro_counts [simp]:
  "GET_PRO_INSTANCE (st\<lparr>p1_pending_count := a, p1_ready_count := b\<rparr>) iid = GET_PRO_INSTANCE st iid"
  by (simp add: GET_PRO_INSTANCE_def)

text \<open>One acceptor makes a quorum: the bit of an acceptor is never set in
  \<^verbatim>\<open>promises_bitvector\<close> (it is combined with \<^verbatim>\<open>&=\<close>), so the same promise received
  twice is counted twice and completes phase 1 of the instance.\<close>

theorem duplicate_promise_completes_phase1:
  assumes "pi_status (GET_PRO_INSTANCE st (pa_iid pa)) = p1_pending"
    and "my_ballot (GET_PRO_INSTANCE st (pa_iid pa)) = pa_ballot pa"
    and "promises_bitvector (GET_PRO_INSTANCE st (pa_iid pa)) = 0"
    and "promises_count (GET_PRO_INSTANCE st (pa_iid pa)) = 0"
  shows "fst (handle_prepare_acks st i [pa, pa]) = 1
    \<and> pi_status (GET_PRO_INSTANCE (snd (handle_prepare_acks st i [pa, pa])) (pa_iid pa)) = p1_ready"
proof -
  let ?ii = "GET_PRO_INSTANCE st (pa_iid pa)"
  let ?ii1 = "pro_save_prepare_ack ?ii pa i"
  have one: "handle_prepare_ack st pa i = (False, set_pro st (pa_iid pa) ?ii1)"
    using assms save_counts(1) [OF assms(3), of pa i]
    by (simp add: handle_prepare_ack_def Let_def config_defs)
  have b1: "promises_bitvector ?ii1 = 0" using save_bitvector [OF assms(3)] .
  have two: "promises_count (pro_save_prepare_ack ?ii1 pa i) = 2"
    using save_counts(1) [OF b1, of pa i] save_counts(1) [OF assms(3), of pa i] assms(4) by simp
  show ?thesis
    using assms two by (simp add: one handle_prepare_ack_def Let_def config_defs save_counts)
qed

theorem duplicate_promise_completes_phase1_witness:
  "fst (handle_prepare_acks (set_pro (fresh_proposer 0) 1 (empty_info\<lparr>pi_iid := 1, pi_status := p1_pending, my_ballot := 10\<rparr>))
      0 [promise 10 0 [], promise 10 0 []]) = 1
    \<and> pi_status (GET_PRO_INSTANCE (snd (handle_prepare_acks
        (set_pro (fresh_proposer 0) 1 (empty_info\<lparr>pi_iid := 1, pi_status := p1_pending, my_ballot := 10\<rparr>))
        0 [promise 10 0 [], promise 10 0 []])) (pa_iid (promise 10 0 []))) = p1_ready"
  by (rule duplicate_promise_completes_phase1) (simp_all add: promise_def empty_info_def)

section \<open>Deadlines\<close>

text \<open>A deadline is the given number of microseconds after the current time, except when the
  microseconds add up to exactly one second: then it is one second too early. An instance is expired
  exactly when its deadline, in microseconds, is before the current time.\<close>

theorem expiration_deadline:
  assumes "normal_time now" "0 \<le> interval" "normal_time t"
  shows "usecs (leader_set_expiration now interval) = usecs now + interval
      - (if tv_usec now + interval mod 1000000 = 1000000 then 1000000 else 0)
    \<and> normal_time (leader_set_expiration now interval)
    \<and> (leader_is_expired (leader_set_expiration now interval) t
        \<longleftrightarrow> usecs (leader_set_expiration now interval) < usecs t)"
proof -
  define q r where "q = interval div 1000000" and "r = interval mod 1000000"
  have i: "interval = q * 1000000 + r" by (simp add: q_def r_def)
  let ?d = "leader_set_expiration now interval" and ?s = "tv_usec now + r"
  have s: "0 \<le> ?s" "?s < 2000000"
    using assms(1) pos_mod_bound [of 1000000 interval] pos_mod_sign [of 1000000 interval]
    by (auto simp: normal_time_def r_def)
  have d: "?d = Timeval (if ?s > 1000000 then tv_sec now + q + 1 else tv_sec now + q) (?s mod 1000000)"
    by (simp add: leader_set_expiration_def Let_def q_def r_def)
  have n: "normal_time ?d" by (simp add: normal_time_def d)
  have "usecs ?d = usecs now + interval - (if ?s = 1000000 then 1000000 else 0)"
    unfolding d usecs_def timeval.sel mod_second [OF s] using i by auto
  moreover have "leader_is_expired ?d t \<longleftrightarrow> ?d < t"
    by (simp add: leader_is_expired_def less_timeval_def)
  ultimately show ?thesis using n less_usecs [OF n assms(3)] unfolding r_def by simp
qed

theorem expiration_deadline_witness:
  "usecs (leader_set_expiration (Timeval 7 970000) 30000) = usecs (Timeval 7 970000) + 30000
      - (if tv_usec (Timeval 7 970000) + 30000 mod 1000000 = 1000000 then 1000000 else 0)
    \<and> normal_time (leader_set_expiration (Timeval 7 970000) 30000)
    \<and> (leader_is_expired (leader_set_expiration (Timeval 7 970000) 30000) (Timeval 7 980000)
        \<longleftrightarrow> usecs (leader_set_expiration (Timeval 7 970000) 30000) < usecs (Timeval 7 980000))"
  by (rule expiration_deadline) (simp_all add: normal_time_def)

section \<open>Phase 2\<close>

abbreviation accept_held :: "udp_send_buffer \<Rightarrow> io_event list \<Rightarrow> accept_req list \<Rightarrow> bool" where
  "accept_held \<equiv> sent_held accept_reqs 0 enc_accept_req proposer_id_ok
     (\<lambda>r. length (ar_value r) + 36 \<le> MAX_UDP_MSG_SIZE)"

lemma add_accept_req_held:
  assumes "accept_held (pro_to_acceptors st) evs0 es" "length v \<le> 7464"
  shows "\<exists>sb evs. add_accept_req iid b v st = Inr (st\<lparr>pro_to_acceptors := sb\<rparr>, evs)
    \<and> accept_held sb (evs0 @ evs) (es @ [\<lparr>ar_iid = iid, ar_ballot = b, ar_value = v\<rparr>])"
proof -
  have "length (ar_value \<lparr>ar_iid = iid, ar_ballot = b, ar_value = v\<rparr>) + 36 \<le> MAX_UDP_MSG_SIZE"
    using assms(2) by (simp add: config_defs)
  from accept_req_link.append_held [OF assms(1) this] show ?thesis
    by (auto simp: add_accept_req_def sendbuf_add_accept_req_def)
qed

text \<open>The value phase 2 must use for an instance: the one phase 1 found, else the one assigned to the
  instance before, else the next value of the clients.\<close>

definition chosen_value :: "p_inst_info \<Rightarrow> bytes list \<Rightarrow> bytes option" where
  "chosen_value ii pending =
     (case p1_value ii of Some v \<Rightarrow> Some v
      | None \<Rightarrow> (case p2_value ii of Some v \<Rightarrow> Some v
          | None \<Rightarrow> (case pending of [] \<Rightarrow> None | v # vs \<Rightarrow> Some v)))"

lemma p2_choose_ok:
  assumes "chosen_value ii pending = Some v"
  shows "\<exists>ii'. p2_choose ii pending = Inr (ii', if p1_value ii = None \<and> p2_value ii = None then tl pending else pending)
    \<and> p2_value ii' = Some v \<and> pi_iid ii' = pi_iid ii \<and> my_ballot ii' = my_ballot ii"
  using assms by (auto simp: p2_choose_def chosen_value_def split: option.splits list.splits)

lemma get_pro_buffers [simp]:
  "GET_PRO_INSTANCE (st\<lparr>pending_list := x\<rparr>) iid = GET_PRO_INSTANCE st iid"
  "GET_PRO_INSTANCE (st\<lparr>pro_to_acceptors := sb\<rparr>) iid = GET_PRO_INSTANCE st iid"
  "pro_to_acceptors (set_pro st iid ii) = pro_to_acceptors st"
  "pending_list (set_pro st iid ii) = pending_list st"
  by (simp_all add: GET_PRO_INSTANCE_def set_pro_def)

text \<open>C14. Phase 2 of an instance adds to the open batch an accept request for the instance in its
  ballot with the value that phase 1 found, or else with the value already assigned to the instance,
  or else with the next value of the clients, which leaves the list.\<close>

theorem phase2_sends_chosen_value:
  assumes "chosen_value (GET_PRO_INSTANCE st iid) (pending_list st) = Some v" "length v \<le> 7464"
    and "accept_held (pro_to_acceptors st) evs0 es"
  shows "\<exists>st' evs. leader_execute_p2 now iid st = Inr (st', evs)
    \<and> accept_held (pro_to_acceptors st') (evs0 @ evs) (es @ [\<lparr>ar_iid = pi_iid (GET_PRO_INSTANCE st iid),
        ar_ballot = my_ballot (GET_PRO_INSTANCE st iid), ar_value = v\<rparr>])
    \<and> pi_status (GET_PRO_INSTANCE st' iid) = p2_pending \<and> p2_value (GET_PRO_INSTANCE st' iid) = Some v
    \<and> pending_list st' = (if p1_value (GET_PRO_INSTANCE st iid) = None \<and> p2_value (GET_PRO_INSTANCE st iid) = None
        then tl (pending_list st) else pending_list st)"
proof -
  let ?ii = "GET_PRO_INSTANCE st iid"
  define pend where "pend = (if p1_value ?ii = None \<and> p2_value ?ii = None then tl (pending_list st) else pending_list st)"
  obtain ii' where c: "p2_choose ?ii (pending_list st) = Inr (ii', pend)" "p2_value ii' = Some v"
      "pi_iid ii' = pi_iid ?ii" "my_ballot ii' = my_ballot ?ii"
    using p2_choose_ok [OF assms(1)] unfolding pend_def by blast
  have held: "accept_held (pro_to_acceptors (st\<lparr>pending_list := pend\<rparr>)) evs0 es" using assms(3) by simp
  obtain sb evs where a: "add_accept_req (pi_iid ?ii) (my_ballot ?ii) v (st\<lparr>pending_list := pend\<rparr>)
      = Inr (st\<lparr>pending_list := pend, pro_to_acceptors := sb\<rparr>, evs)"
      "accept_held sb (evs0 @ evs) (es @ [\<lparr>ar_iid = pi_iid ?ii, ar_ballot = my_ballot ?ii, ar_value = v\<rparr>])"
    using add_accept_req_held [OF held assms(2), of "pi_iid ?ii" "my_ballot ?ii"] by blast
  show ?thesis using c a unfolding pend_def [symmetric] by (simp add: leader_execute_p2_def Let_def)
qed

lemma new_accept_batch:
  "\<exists>sb. sendbuf_clear (udp_sendbuf_new Acceptors) accept_reqs 0 = Inr sb \<and> accept_held sb [] []"
  using accept_req_link.clear_held [of "udp_sendbuf_new Acceptors" 0]
  by (simp add: udp_sendbuf_new_def proposer_id_ok_def config_defs)

definition p2_example :: "udp_send_buffer \<Rightarrow> proposer" where
  "p2_example sb = (set_pro (fresh_proposer 0) 1 (empty_info\<lparr>pi_iid := 1, pi_status := p1_ready, my_ballot := 20,
     p1_value := Some [5], p1_value_ballot := 10, p2_value := Some [6]\<rparr>))\<lparr>pro_to_acceptors := sb, pending_list := [[7]]\<rparr>"

lemma p2_example_get: "GET_PRO_INSTANCE (p2_example sb) 1 = empty_info\<lparr>pi_iid := 1, pi_status := p1_ready,
    my_ballot := 20, p1_value := Some [5], p1_value_ballot := 10, p2_value := Some [6]\<rparr>"
  by (simp add: p2_example_def)

theorem phase2_sends_chosen_value_witness:
  "\<exists>sb. accept_held sb [] [] \<and> (\<exists>st' evs. leader_execute_p2 (Timeval 1 0) 1 (p2_example sb) = Inr (st', evs)
    \<and> accept_held (pro_to_acceptors st') evs [\<lparr>ar_iid = 1, ar_ballot = 20, ar_value = [5]\<rparr>])"
proof -
  obtain sb where sb: "accept_held sb [] []" using new_accept_batch by blast
  have "chosen_value (GET_PRO_INSTANCE (p2_example sb) 1) (pending_list (p2_example sb)) = Some [5]"
    by (simp add: p2_example_get chosen_value_def)
  from phase2_sends_chosen_value [OF this, of "[]" "[]" "Timeval 1 0"] sb show ?thesis
    by (auto simp: p2_example_get) (auto simp: p2_example_def)
qed

text \<open>When phase 1 finds a value for an instance to which the leader had already assigned another
  value of a client, the client's value is lost: it is neither assigned to the instance nor in the
  list of waiting values afterwards (the branch that would push it back cannot be reached).\<close>

theorem client_value_lost:
  assumes "p1_value (GET_PRO_INSTANCE st iid) = Some v" "p2_value (GET_PRO_INSTANCE st iid) = Some w"
    and "v \<noteq> w" "w \<notin> set (pending_list st)" "leader_execute_p2 now iid st = Inr (st', evs)"
  shows "w \<notin> set (pending_list st') \<and> p1_value (GET_PRO_INSTANCE st' iid) = None
    \<and> p2_value (GET_PRO_INSTANCE st' iid) = Some v"
  using assms
  by (auto simp: leader_execute_p2_def p2_choose_def add_accept_req_def res_eq_Inr Let_def split: prod.splits)

theorem client_value_lost_witness:
  "\<exists>st evs. [6] \<notin> set (pending_list st) \<and> p1_value (GET_PRO_INSTANCE st 1) = None
    \<and> p2_value (GET_PRO_INSTANCE st 1) = Some [5]
    \<and> (\<exists>sb. leader_execute_p2 (Timeval 1 0) 1 (p2_example sb) = Inr (st, evs))"
proof -
  obtain sb where sb: "accept_held sb [] []" using new_accept_batch by blast
  have to: "pro_to_acceptors (p2_example sb) = sb" by (simp add: p2_example_def)
  obtain sb' evs where "add_accept_req 1 20 [5] (p2_example sb) = Inr ((p2_example sb)\<lparr>pro_to_acceptors := sb'\<rparr>, evs)"
    using add_accept_req_held [of "p2_example sb" "[]" "[]" "[5]" 1 20] sb to by auto
  then obtain st where r: "leader_execute_p2 (Timeval 1 0) 1 (p2_example sb) = Inr (st, evs)"
    by (simp add: leader_execute_p2_def p2_choose_def p2_example_get add_accept_req_def Let_def rbind_def
        split: sum.splits)
  have "[6] \<notin> set (pending_list (p2_example sb))" by (simp add: p2_example_def)
  from client_value_lost [OF _ _ _ this r] r show ?thesis by (auto simp: p2_example_get)
qed

lemma execute_p2_keeps:
  "leader_execute_p2 now iid st = Inr (st', evs) \<Longrightarrow>
     p2_open_count st' = p2_open_count st \<and> p2_next_unused_iid st' = p2_next_unused_iid st"
  by (auto simp: leader_execute_p2_def add_accept_req_def set_pro_def res_eq_Inr Let_def split: prod.splits)

lemma p2_new_loop_count:
  "p2_new_loop now opened count st = Inr (n, st', evs) \<Longrightarrow> unat (count + opened) \<le> 4 \<Longrightarrow>
     unat (n + opened) \<le> 4 \<and> p2_open_count st' = p2_open_count st"
proof (induction now opened count st arbitrary: n st' evs rule: p2_new_loop.induct)
  case (1 now opened count st)
  note eq = p2_new_loop.simps [of now opened count st]
  show ?case
  proof (cases "count + opened \<le> PROPOSER_P2_CONCURRENCY")
    case False
    then show ?thesis using "1.prems" unfolding eq by simp
  next
    case True
    then have le: "unat (count + opened) \<le> 3" by (simp add: PROPOSER_P2_CONCURRENCY_def word_le_nat_alt)
    have step: "unat (count + 1 + opened) \<le> 4" using p2_count_step [OF True] le by simp
    let ?ii = "GET_PRO_INSTANCE st (p2_next_unused_iid st)"
    show ?thesis
    proof (cases "p1_value ?ii = None \<and> length (pending_list st) = 0
        \<or> pi_status ?ii \<noteq> p1_ready \<or> pi_iid ?ii \<noteq> p2_next_unused_iid st")
      case stop: True
      then show ?thesis using "1.prems" True unfolding eq
        by (auto simp: Let_def rassert_eq_Inr split: if_splits)
    next
      case False
      have pass: "p2_value ?ii = None"
        using "1.prems"(1) True unfolding eq by (simp add: Let_def rassert_eq_Inr)
      have "rbind (leader_execute_p2 now (p2_next_unused_iid st) st) (\<lambda>(st, evs).
          rbind (p2_new_loop now opened (count + 1) (st\<lparr>p2_next_unused_iid := p2_next_unused_iid st + 1\<rparr>))
            (\<lambda>(n, st, evs'). Inr (n, st, evs @ evs'))) = Inr (n, st', evs)"
        using "1.prems"(1) True False pass unfolding eq by (auto simp: Let_def)
      then obtain st1 ev1 ev2 where r: "leader_execute_p2 now (p2_next_unused_iid st) st = Inr (st1, ev1)"
          "p2_new_loop now opened (count + 1) (st1\<lparr>p2_next_unused_iid := p2_next_unused_iid st1 + 1\<rparr>) = Inr (n, st', ev2)"
        by (auto simp: res_eq_Inr)
      from "1.IH" [OF _ refl _ _ _ r(1) refl r(2) step] pass True False execute_p2_keeps [OF r(1)] show ?thesis by auto
    qed
  qed
qed

text \<open>Opening new phase 2 instances never brings their number above 4, which is one more than
  \<^verbatim>\<open>PROPOSER_P2_CONCURRENCY\<close>, and leaves it as it is when it was above 2.\<close>

theorem phase2_open_bound:
  assumes "leader_open_instances_p2_new now st = Inr (st', evs)"
  shows "(unat (p2_open_count st) \<le> 2 \<longrightarrow> unat (p2_open_count st') \<le> 4)
    \<and> (unat (p2_open_count st) > 2 \<longrightarrow> st' = st \<and> evs = [])"
proof (cases "p2_open_count st > 2")
  case True
  then have "unat (p2_open_count st) > 2" by (simp add: word_less_nat_alt)
  then show ?thesis using assms True
    by (simp add: leader_open_instances_p2_new_def PROPOSER_P2_CONCURRENCY_def Let_def)
next
  case False
  then have le: "unat (p2_open_count st) \<le> 2" by (simp add: word_less_nat_alt)
  obtain sb count st1 ev1 where r: "p2_new_loop now (p2_open_count st) 0 (st\<lparr>pro_to_acceptors := sb\<rparr>) = Inr (count, st1, ev1)"
      "st' = st1\<lparr>p1_ready_count := p1_ready_count st1 - count, p2_open_count := p2_open_count st1 + count\<rparr>"
    using assms False
    by (fastforce simp: leader_open_instances_p2_new_def PROPOSER_P2_CONCURRENCY_def Let_def res_eq_Inr)
  from p2_new_loop_count [OF r(1)] le r(2) show ?thesis by (auto simp: add.commute)
qed

theorem phase2_open_bound_witness:
  "\<exists>st' evs. leader_open_instances_p2_new (Timeval 1 0) (fresh_proposer 0) = Inr (st', evs)
    \<and> unat (p2_open_count st') \<le> 4"
proof -
  obtain sb where sb: "sendbuf_clear (udp_sendbuf_new Acceptors) accept_reqs 0 = Inr sb" "accept_held sb [] []"
    using new_accept_batch by blast
  obtain evs where f: "sendbuf_flush sb = Inr evs" using accept_req_link.flush_held [OF sb(2)] by blast
  have "p2_new_loop (Timeval 1 0) 0 0 ((fresh_proposer 0)\<lparr>pro_to_acceptors := sb\<rparr>)
      = Inr (0, (fresh_proposer 0)\<lparr>pro_to_acceptors := sb\<rparr>, [])"
    by (subst p2_new_loop.simps) (simp add: fresh_proposer_def GET_PRO_INSTANCE_def empty_info_def Let_def)
  then have r: "leader_open_instances_p2_new (Timeval 1 0) (fresh_proposer 0)
      = Inr ((fresh_proposer 0)\<lparr>pro_to_acceptors := sb\<rparr>, evs)"
    using sb f by (simp add: leader_open_instances_p2_new_def fresh_proposer_def Let_def)
  from phase2_open_bound [OF r] r show ?thesis by (auto simp: fresh_proposer_def)
qed

text \<open>A phase 2 that timed out restarts phase 1 in a new ballot without resetting the count of
  promises: the promises of the old ballot still count, and a single promise in the new ballot makes
  the instance ready for phase 2.\<close>

theorem stale_promises_count:
  assumes "p2_check_one lea now i st = Inr (st', evs)"
    and "pi_status (GET_PRO_INSTANCE st i) = p2_pending" "\<not> learner_is_closed lea i"
    and "leader_is_expired (pi_timeout (GET_PRO_INSTANCE st i)) now"
    and "promises_bitvector (GET_PRO_INSTANCE st i) = 0" "promises_count (GET_PRO_INSTANCE st i) = word_of_nat QUORUM"
    and "pa_iid pa = i" "pa_ballot pa = NEXT_BALLOT (my_ballot (GET_PRO_INSTANCE st i))"
  shows "my_ballot (GET_PRO_INSTANCE st' i) = NEXT_BALLOT (my_ballot (GET_PRO_INSTANCE st i))
    \<and> fst (handle_prepare_ack st' pa a)"
proof -
  let ?ii = "(GET_PRO_INSTANCE st i)\<lparr>pi_status := p1_pending, my_ballot := NEXT_BALLOT (my_ballot (GET_PRO_INSTANCE st i)),
    pi_timeout := leader_set_expiration now P1_TIMEOUT_INTERVAL\<rparr>"
  have ii: "GET_PRO_INSTANCE st' i = ?ii"
    using assms(1-4)
    by (auto simp: p2_check_one_def Let_def res_eq_Inr GET_PRO_INSTANCE_def set_pro_def split: prod.splits)
  have "promises_count (pro_save_prepare_ack ?ii pa a) = word_of_nat QUORUM + 1"
    using save_counts(1) [of ?ii pa a] assms(5,6) by simp
  then show ?thesis using ii assms(7,8)
    by (simp add: handle_prepare_ack_def Let_def config_defs)
qed

abbreviation prepare_held :: "udp_send_buffer \<Rightarrow> io_event list \<Rightarrow> prepare_req list \<Rightarrow> bool" where
  "prepare_held \<equiv> sent_held prepare_reqs 0 enc_prepare_req proposer_id_ok (\<lambda>_. True)"

lemma add_prepare_req_held:
  assumes "prepare_held (pro_to_acceptors st) evs0 es"
  shows "\<exists>sb evs. add_prepare_req iid b st = Inr (st\<lparr>pro_to_acceptors := sb\<rparr>, evs)
    \<and> prepare_held sb (evs0 @ evs) (es @ [\<lparr>pr_iid = iid, pr_ballot = b\<rparr>])"
  using prepare_req_link.append_held [OF assms, of "\<lparr>pr_iid = iid, pr_ballot = b\<rparr>"]
  by (auto simp: add_prepare_req_def sendbuf_add_prepare_req_def)

lemma p2_check_one_expired:
  assumes "pi_status (GET_PRO_INSTANCE st i) = p2_pending" "\<not> learner_is_closed lea i"
    and "leader_is_expired (pi_timeout (GET_PRO_INSTANCE st i)) now"
    and "prepare_held (pro_to_acceptors st) evs0 es"
  shows "\<exists>st' evs. p2_check_one lea now i st = Inr (st', evs)"
proof -
  let ?st = "st\<lparr>p1_pending_count := p1_pending_count st + 1\<rparr>"
  have "prepare_held (pro_to_acceptors ?st) evs0 es" using assms(4) by simp
  from add_prepare_req_held [OF this] obtain sb evs where
      "add_prepare_req (pi_iid (GET_PRO_INSTANCE st i)) (NEXT_BALLOT (my_ballot (GET_PRO_INSTANCE st i))) ?st
        = Inr (?st\<lparr>pro_to_acceptors := sb\<rparr>, evs)" by blast
  then show ?thesis using assms(1-3) by (simp add: p2_check_one_def Let_def)
qed

definition expired_example :: "udp_send_buffer \<Rightarrow> proposer" where
  "expired_example sb = (set_pro (fresh_proposer 0) 1 (empty_info\<lparr>pi_iid := 1, pi_status := p2_pending,
     my_ballot := 10, promises_count := 2, p2_value := Some [6]\<rparr>))\<lparr>pro_to_acceptors := sb\<rparr>"

theorem stale_promises_count_witness:
  "\<exists>sb st' evs. p2_check_one init_learner (Timeval 9 0) 1 (expired_example sb) = Inr (st', evs)
    \<and> my_ballot (GET_PRO_INSTANCE st' 1) = 20 \<and> fst (handle_prepare_ack st' (promise 20 0 []) 0)"
proof -
  obtain sb where sb: "prepare_held sb [] []"
    using prepare_req_link.clear_held [of "udp_sendbuf_new Acceptors" 0]
    by (auto simp: udp_sendbuf_new_def proposer_id_ok_def config_defs)
  have get: "GET_PRO_INSTANCE (expired_example sb) 1 = empty_info\<lparr>pi_iid := 1, pi_status := p2_pending,
     my_ballot := 10, promises_count := 2, p2_value := Some [6]\<rparr>"
    by (simp add: expired_example_def)
  have cl: "\<not> learner_is_closed init_learner 1"
    by (simp add: learner_is_closed_def init_learner_def GET_LEA_INSTANCE_def empty_instance_def)
  have ex: "leader_is_expired (pi_timeout (GET_PRO_INSTANCE (expired_example sb) 1)) (Timeval 9 0)"
    by (simp add: get empty_info_def leader_is_expired_def)
  have st: "pi_status (GET_PRO_INSTANCE (expired_example sb) 1) = p2_pending" by (simp add: get)
  have "prepare_held (pro_to_acceptors (expired_example sb)) [] []" using sb by (simp add: expired_example_def)
  then obtain st' evs where r: "p2_check_one init_learner (Timeval 9 0) 1 (expired_example sb) = Inr (st', evs)"
    using p2_check_one_expired [OF st cl ex] by blast
  have "my_ballot (GET_PRO_INSTANCE st' 1) = NEXT_BALLOT (my_ballot (GET_PRO_INSTANCE (expired_example sb) 1))
      \<and> fst (handle_prepare_ack st' (promise 20 0 []) 0)"
    by (rule stale_promises_count [OF r _ cl ex])
      (simp_all add: get empty_info_def promise_def NEXT_BALLOT_def config_defs)
  then show ?thesis using r by (auto simp: get NEXT_BALLOT_def config_defs)
qed

section \<open>Windows of instances\<close>

lemma pro_index_eq: "pro_index v = pro_index w \<longleftrightarrow> unat v mod 2048 = unat w mod 2048"
  by (simp add: pro_index_def PROPOSER_ARRAY_SIZE_def and_2047_eq_iff)

lemma unat_u32_mod_2048: "unat (word_of_nat i :: u32) mod 2048 = i mod 2048"
proof -
  have "unat (word_of_nat i :: u32) = i mod 2 ^ 32" by (simp add: unat_of_nat)
  moreover have "(i mod 2 ^ 32) mod 2048 = i mod (2048 :: nat)" by (rule mod_mod_cancel) simp
  ultimately show ?thesis by simp
qed

interpretation pro_tab: circular "\<lambda>i. pro_index (word_of_nat i)" 2048
  by unfold_locales (simp_all add: pro_index_eq unat_u32_mod_2048)

lemma pro_index_window:
  assumes "a \<le> i" "i < a + 2048" "a \<le> j" "j < a + 2048" "i \<noteq> j"
  shows "pro_index (word_of_nat i) \<noteq> pro_index (word_of_nat j)"
  using pro_tab.window_slot_inj [of a i j] assms by blast

lemma get_set_other: "pro_index i \<noteq> pro_index j \<Longrightarrow> GET_PRO_INSTANCE (set_pro st i ii) j = GET_PRO_INSTANCE st j"
  by (simp add: GET_PRO_INSTANCE_def set_pro_def)

subsection \<open>Stepping down\<close>

lemma mem_iid_range_incl: "i \<in> set (iid_range_incl a b) \<longleftrightarrow> a \<le> i \<and> i \<le> b"
proof
  assume "a \<le> i \<and> i \<le> b"
  then have "i = word_of_nat (unat i) \<and> unat a \<le> unat i \<and> unat i < Suc (unat b)" by (simp add: word_le_nat_alt)
  then show "i \<in> set (iid_range_incl a b)" unfolding iid_range_incl_def by (metis atLeastLessThan_iff image_eqI set_map set_upt)
next
  assume "i \<in> set (iid_range_incl a b)"
  then obtain n where "i = word_of_nat n" "unat a \<le> n" "n \<le> unat b" by (auto simp: iid_range_incl_def simp del: upt_Suc)
  moreover have "unat (word_of_nat n :: u32) = n" if "n \<le> unat b" for n
    using that unat_u32_less [of b] by (simp add: unsigned_of_nat take_bit_nat_eq_self)
  ultimately show "a \<le> i \<and> i \<le> b" by (simp add: word_le_nat_alt)
qed

lemma set_map_filter_Some: "set (List.map_filter f xs) = {v. \<exists>x \<in> set xs. f x = Some v}"
  by (auto simp: List.map_filter_def) force

definition unfinished :: "proposer \<Rightarrow> iid_t \<Rightarrow> bytes option" where
  "unfinished st i =
     (if pi_status (GET_PRO_INSTANCE st i) \<noteq> p2_completed then p2_value (GET_PRO_INSTANCE st i) else None)"

lemma shutdown_one_get:
  "GET_PRO_INSTANCE (shutdown_one i st) i = pro_clear_instance_info (GET_PRO_INSTANCE st i)"
  "pro_index i \<noteq> pro_index j \<Longrightarrow> GET_PRO_INSTANCE (shutdown_one i st) j = GET_PRO_INSTANCE st j"
  "pending_list (shutdown_one i st) = (case unfinished st i of None \<Rightarrow> [] | Some v \<Rightarrow> [v]) @ pending_list st"
  by (auto simp: shutdown_one_def Let_def unfinished_def get_set_other split: option.splits)

lemma shutdown_loop:
  assumes "m \<le> 2048"
  shows "pending_list (fold shutdown_one (map word_of_nat [a ..< a + m]) st)
      = rev (List.map_filter (unfinished st) (map word_of_nat [a ..< a + m])) @ pending_list st
    \<and> (\<forall>k. a \<le> k \<and> k < a + m \<longrightarrow> GET_PRO_INSTANCE (fold shutdown_one (map word_of_nat [a ..< a + m]) st) (word_of_nat k)
        = pro_clear_instance_info (GET_PRO_INSTANCE st (word_of_nat k)))
    \<and> (\<forall>k. a + m \<le> k \<and> k < a + 2048 \<longrightarrow> GET_PRO_INSTANCE (fold shutdown_one (map word_of_nat [a ..< a + m]) st) (word_of_nat k)
        = GET_PRO_INSTANCE st (word_of_nat k))"
  using assms
proof (induction m)
  case 0
  then show ?case by (auto simp: List.map_filter_def)
next
  case (Suc m)
  note of_nat_add [simp del]
  define st1 where "st1 = fold shutdown_one (map word_of_nat [a ..< a + m]) st"
  have m: "m \<le> 2048" "m < 2048" using Suc.prems by simp_all
  note IH = Suc.IH [OF m(1), folded st1_def]
  have step: "fold shutdown_one (map word_of_nat [a ..< a + Suc m]) st = shutdown_one (word_of_nat (a + m)) st1"
    by (simp add: st1_def)
  have same: "GET_PRO_INSTANCE st1 (word_of_nat (a + m)) = GET_PRO_INSTANCE st (word_of_nat (a + m))"
    using IH m(2) by auto
  have other: "GET_PRO_INSTANCE (shutdown_one (word_of_nat (a + m)) st1) (word_of_nat k) = GET_PRO_INSTANCE st1 (word_of_nat k)"
    if "a \<le> k" "k < a + 2048" "k \<noteq> a + m" for k
    using pro_index_window [of a "a + m" k] that m(2) by (intro shutdown_one_get(2)) auto
  have u: "unfinished st1 (word_of_nat (a + m)) = unfinished st (word_of_nat (a + m))"
    by (simp add: unfinished_def same)
  have p: "pending_list (shutdown_one (word_of_nat (a + m)) st1)
      = rev (List.map_filter (unfinished st) (map word_of_nat [a ..< a + Suc m])) @ pending_list st"
    using IH by (simp add: shutdown_one_get(3) u List.map_filter_def split: option.splits)
  show ?case unfolding step
  proof (intro conjI allI impI)
    fix k assume k: "a \<le> k \<and> k < a + Suc m"
    show "GET_PRO_INSTANCE (shutdown_one (word_of_nat (a + m)) st1) (word_of_nat k)
        = pro_clear_instance_info (GET_PRO_INSTANCE st (word_of_nat k))"
    proof (cases "k = a + m")
      case True
      then show ?thesis using same by (simp add: shutdown_one_get(1))
    next
      case False
      then show ?thesis using other [of k] IH k m by auto
    qed
  next
    fix k assume k: "a + Suc m \<le> k \<and> k < a + 2048"
    then show "GET_PRO_INSTANCE (shutdown_one (word_of_nat (a + m)) st1) (word_of_nat k) = GET_PRO_INSTANCE st (word_of_nat k)"
      using other [of k] IH by auto
  qed (rule p)
qed

text \<open>C23. A leader that steps down notifies the clients of the values it did not get through phase 2: those
  assigned to an open instance whose phase 2 is not completed, and those of the list, and no others. Every open
  instance is cleared and the list is empty. A value whose phase 2 is completed is cleared without a notice:
  its client is answered when the learner delivers the instance. (The highest open instance is not the highest
  number there is, and at most 2048 instances are open, the size of the table.)\<close>

theorem step_down_notifies_unfinished:
  assumes "unat (pro_current_iid st) \<le> Suc (unat (p1_highest_open st))"
    and "unat (p1_highest_open st) < unat (pro_current_iid st) + 2048" "p1_highest_open st \<noteq> - 1"
  shows "\<exists>st' vs. leader_shutdown st = Inr (st', vs)
    \<and> vs = rev (List.map_filter (unfinished st) (iid_range_incl (pro_current_iid st) (p1_highest_open st))) @ pending_list st
    \<and> set vs = set (pending_list st) \<union> {v. \<exists>i. pro_current_iid st \<le> i \<and> i \<le> p1_highest_open st
         \<and> pi_status (GET_PRO_INSTANCE st i) \<noteq> p2_completed \<and> p2_value (GET_PRO_INSTANCE st i) = Some v}
    \<and> pending_list st' = []
    \<and> (\<forall>i. pro_current_iid st \<le> i \<and> i \<le> p1_highest_open st \<longrightarrow>
        GET_PRO_INSTANCE st' i = pro_clear_instance_info (GET_PRO_INSTANCE st i))"
proof -
  let ?a = "unat (pro_current_iid st)" and ?b = "unat (p1_highest_open st)"
    and ?is = "iid_range_incl (pro_current_iid st) (p1_highest_open st)"
  let ?st = "fold shutdown_one ?is st"
  have r: "?is = map word_of_nat [?a ..< ?a + (Suc ?b - ?a)]"
    using assms(1) by (simp add: iid_range_incl_def)
  have "Suc ?b - ?a \<le> 2048" using assms(2) by simp
  note l = shutdown_loop [OF this, of ?a st, folded r]
  have run: "leader_shutdown st = Inr (?st\<lparr>pending_list := []\<rparr>, pending_list ?st)"
    using assms(3) by (simp add: leader_shutdown_def Let_def)
  have cleared: "GET_PRO_INSTANCE ?st i = pro_clear_instance_info (GET_PRO_INSTANCE st i)"
    if "pro_current_iid st \<le> i" "i \<le> p1_highest_open st" for i
  proof -
    have "?a \<le> unat i \<and> unat i < ?a + (Suc ?b - ?a)" using that assms(1) by (simp add: word_le_nat_alt)
    with l have "GET_PRO_INSTANCE ?st (word_of_nat (unat i)) = pro_clear_instance_info (GET_PRO_INSTANCE st (word_of_nat (unat i)))"
      by blast
    then show ?thesis by simp
  qed
  have vs: "pending_list ?st = rev (List.map_filter (unfinished st) ?is) @ pending_list st" using l by blast
  have "unfinished st i = Some v \<longleftrightarrow> pi_status (GET_PRO_INSTANCE st i) \<noteq> p2_completed \<and> p2_value (GET_PRO_INSTANCE st i) = Some v"
    for i v by (auto simp: unfinished_def)
  then have "set (pending_list ?st) = set (pending_list st) \<union> {v. \<exists>i. pro_current_iid st \<le> i \<and> i \<le> p1_highest_open st
      \<and> pi_status (GET_PRO_INSTANCE st i) \<noteq> p2_completed \<and> p2_value (GET_PRO_INSTANCE st i) = Some v}"
    unfolding vs by (auto simp: set_map_filter_Some mem_iid_range_incl)
  then show ?thesis using run vs cleared
    by (intro exI [of _ "?st\<lparr>pending_list := []\<rparr>"] exI [of _ "pending_list ?st"]) (simp add: GET_PRO_INSTANCE_def)
qed

theorem step_down_notifies_unfinished_witness:
  "\<exists>st'. leader_shutdown ((p2_example (udp_sendbuf_new Acceptors))\<lparr>p1_highest_open := 1\<rparr>) = Inr (st', [[6], [7]])
    \<and> pending_list st' = []"
proof -
  let ?st = "(p2_example (udp_sendbuf_new Acceptors))\<lparr>p1_highest_open := 1\<rparr>"
  have c: "pro_current_iid ?st = 1" "p1_highest_open ?st = 1" "pending_list ?st = [[7]]"
    by (simp_all add: p2_example_def fresh_proposer_def set_pro_def)
  have u: "unfinished ?st 1 = Some [6]"
    by (simp add: unfinished_def p2_example_def GET_PRO_INSTANCE_def set_pro_def)
  obtain st' vs where "leader_shutdown ?st = Inr (st', vs)" "pending_list st' = []"
      "vs = rev (List.map_filter (unfinished ?st) (iid_range_incl (pro_current_iid ?st) (p1_highest_open ?st))) @ pending_list ?st"
    using step_down_notifies_unfinished [of ?st] c by auto
  then show ?thesis by (simp add: c u iid_range_incl_def List.map_filter_def)
qed

subsection \<open>Opening a window\<close>

lemma for_each_append:
  "for_each f (xs @ ys) st = rbind (for_each f xs st) (\<lambda>(st, evs).
     rbind (for_each f ys st) (\<lambda>(st, evs'). Inr (st, evs @ evs')))"
  by (induction xs arbitrary: st) (auto simp: rbind_def split: sum.splits)

text \<open>The state after the first \<open>m\<close> turns of the loop that opens instances after \<open>h\<close>.\<close>

definition opened_upto :: "proposer \<Rightarrow> nat \<Rightarrow> nat \<Rightarrow> proposer \<Rightarrow> bool" where
  "opened_upto st h m st' \<longleftrightarrow>
     (\<forall>k. h < k \<and> k \<le> h + m \<longrightarrow> pi_iid (GET_PRO_INSTANCE st' (word_of_nat k)) = word_of_nat k
        \<and> pi_status (GET_PRO_INSTANCE st' (word_of_nat k)) = p1_pending
        \<and> my_ballot (GET_PRO_INSTANCE st' (word_of_nat k)) = FIRST_BALLOT st)
     \<and> (\<forall>k. h + m < k \<and> k \<le> h + 2048 \<longrightarrow> GET_PRO_INSTANCE st' (word_of_nat k) = GET_PRO_INSTANCE st (word_of_nat k))
     \<and> p1_highest_open st' = p1_highest_open st \<and> p1_pending_count st' = p1_pending_count st
     \<and> p1_ready_count st' = p1_ready_count st \<and> this_proposer_id st' = this_proposer_id st"

definition window_reqs :: "proposer \<Rightarrow> nat \<Rightarrow> nat \<Rightarrow> prepare_req list" where
  "window_reqs st h m = map (\<lambda>k. \<lparr>pr_iid = word_of_nat k, pr_ballot = FIRST_BALLOT st\<rparr>) [Suc h ..< Suc (h + m)]"

lemma opened_upto_step:
  assumes o: "opened_upto st h m st1" and m: "m < 2048"
    and ii: "ii = (GET_PRO_INSTANCE st1 (word_of_nat (h + Suc m)))\<lparr>pi_iid := word_of_nat (h + Suc m),
      pi_status := p1_pending, my_ballot := FIRST_BALLOT st, pi_timeout := t\<rparr>"
  shows "opened_upto st h (Suc m) (set_pro (st1\<lparr>pro_to_acceptors := sb\<rparr>) (word_of_nat (h + Suc m)) ii)"
proof -
  note of_nat_add [simp del] of_nat_Suc [simp del]
  let ?n = "h + Suc m" and ?st = "set_pro (st1\<lparr>pro_to_acceptors := sb\<rparr>) (word_of_nat (h + Suc m)) ii"
  have other: "GET_PRO_INSTANCE ?st (word_of_nat k) = GET_PRO_INSTANCE st1 (word_of_nat k)"
    if "h < k" "k \<le> h + 2048" "k \<noteq> ?n" for k
    using pro_index_window [of "Suc h" ?n k] that m get_set_other [of "word_of_nat ?n" "word_of_nat k"] by auto
  have "pi_iid (GET_PRO_INSTANCE ?st (word_of_nat k)) = word_of_nat k
        \<and> pi_status (GET_PRO_INSTANCE ?st (word_of_nat k)) = p1_pending
        \<and> my_ballot (GET_PRO_INSTANCE ?st (word_of_nat k)) = FIRST_BALLOT st"
    if "h < k \<and> k \<le> h + Suc m" for k
  proof (cases "k = ?n")
    case True
    then show ?thesis by (simp add: ii)
  next
    case False
    then show ?thesis using other [of k] o that m by (auto simp: opened_upto_def)
  qed
  moreover have "GET_PRO_INSTANCE ?st (word_of_nat k) = GET_PRO_INSTANCE st (word_of_nat k)"
    if "h + Suc m < k \<and> k \<le> h + 2048" for k
    using other [of k] o that by (auto simp: opened_upto_def)
  ultimately show ?thesis using o unfolding opened_upto_def by (simp add: set_pro_def)
qed

lemma open_loop:
  assumes held: "prepare_held (pro_to_acceptors st) [] []" and h: "h = unat (p1_highest_open st)"
    and m: "m \<le> 2048" and empt: "\<forall>k. h < k \<and> k \<le> h + m \<longrightarrow> pi_status (GET_PRO_INSTANCE st (word_of_nat k)) = i_empty"
  shows "\<exists>st' evs. for_each (p1_open_one now) (map word_of_nat [1 ..< Suc m]) st = Inr (st', evs)
    \<and> prepare_held (pro_to_acceptors st') evs (window_reqs st h m) \<and> opened_upto st h m st'"
  using m empt
proof (induction m)
  case 0
  then show ?case using held by (auto simp: opened_upto_def window_reqs_def)
next
  case (Suc m)
  note of_nat_add [simp del] of_nat_Suc [simp del]
  obtain st1 evs where 1: "for_each (p1_open_one now) (map word_of_nat [1 ..< Suc m]) st = Inr (st1, evs)"
      "prepare_held (pro_to_acceptors st1) evs (window_reqs st h m)" "opened_upto st h m st1"
    using Suc by auto
  let ?k = "word_of_nat (h + Suc m) :: iid_t"
  have "p1_highest_open st1 = word_of_nat h" using 1(3) h by (simp add: opened_upto_def)
  then have k: "word_of_nat (Suc m) + p1_highest_open st1 = ?k" by (metis add.commute of_nat_add)
  have e: "pi_status (GET_PRO_INSTANCE st1 ?k) = i_empty" and f: "FIRST_BALLOT st1 = FIRST_BALLOT st"
    using 1(3) Suc.prems by (auto simp: opened_upto_def FIRST_BALLOT_def)
  obtain sb ev where a: "add_prepare_req ?k (FIRST_BALLOT st) st1 = Inr (st1\<lparr>pro_to_acceptors := sb\<rparr>, ev)"
      "prepare_held sb (evs @ ev) (window_reqs st h m @ [\<lparr>pr_iid = ?k, pr_ballot = FIRST_BALLOT st\<rparr>])"
    using add_prepare_req_held [OF 1(2)] by blast
  let ?ii = "(GET_PRO_INSTANCE st1 ?k)\<lparr>pi_iid := ?k, pi_status := p1_pending, my_ballot := FIRST_BALLOT st,
    pi_timeout := leader_set_expiration now P1_TIMEOUT_INTERVAL\<rparr>"
  have "p1_open_one now (word_of_nat (Suc m)) st1 = Inr (set_pro (st1\<lparr>pro_to_acceptors := sb\<rparr>) ?k ?ii, ev)"
    using e a(1) by (simp add: p1_open_one_def k f Let_def)
  then have "for_each (p1_open_one now) (map word_of_nat [1 ..< Suc (Suc m)]) st
      = Inr (set_pro (st1\<lparr>pro_to_acceptors := sb\<rparr>) ?k ?ii, evs @ ev)"
    using 1(1) by (simp add: for_each_append)
  moreover have "window_reqs st h (Suc m) = window_reqs st h m @ [\<lparr>pr_iid = ?k, pr_ballot = FIRST_BALLOT st\<rparr>]"
    by (simp add: window_reqs_def)
  ultimately show ?case using a(2) opened_upto_step [OF 1(3), of ?ii] Suc.prems(1) by auto
qed

text \<open>C22. Opening a window of phase 1: when fewer than 150 instances are active, the leader opens the
  next instances after the highest open one until 300 are active; the acceptors read a prepare request
  in the leader's first ballot for each of them, in order, and each is then pending in that ballot. The
  entries of these instances in the circular table have to be empty.\<close>

theorem leader_opens_window:
  assumes act: "unat (p1_pending_count st) + unat (p1_ready_count st) = act" "act < 150"
    and h: "h = unat (p1_highest_open st)" "h + 300 < 2 ^ 32"
    and id: "proposer_id_ok (this_proposer_id st)"
    and buf: "length (sb_buffer (pro_to_acceptors st)) = MAX_UDP_MSG_SIZE" "length old = MAX_UDP_MSG_SIZE"
    and empt: "\<forall>k. h < k \<and> k \<le> h + (300 - act) \<longrightarrow> pi_status (GET_PRO_INSTANCE st (word_of_nat k)) = i_empty"
  shows "\<exists>st' evs. leader_open_instances_p1 now st = Inr (st', evs)
    \<and> receive_all read_prepare_reqs old (datagrams evs) = Inr (window_reqs st h (300 - act))
    \<and> unat (p1_pending_count st') + unat (p1_ready_count st') = 300
    \<and> unat (p1_highest_open st') = h + (300 - act)
    \<and> (\<forall>k. h < k \<and> k \<le> h + (300 - act) \<longrightarrow> pi_iid (GET_PRO_INSTANCE st' (word_of_nat k)) = word_of_nat k
        \<and> pi_status (GET_PRO_INSTANCE st' (word_of_nat k)) = p1_pending
        \<and> my_ballot (GET_PRO_INSTANCE st' (word_of_nat k)) = FIRST_BALLOT st)"
proof -
  let ?m = "300 - act"
  define w :: u32 where "w = word_of_nat ?m"
  have m: "unat w = ?m" using act(2) by (simp add: w_def unat_of_nat del: of_nat_diff)
  have sum: "p1_pending_count st + p1_ready_count st = word_of_nat act" using act(1) [symmetric] by simp
  have "sint (word_of_nat act :: u32) = int act"
    using act(2) by (simp add: signed_of_nat signed_take_bit_int_eq_self)
  then have s: "sint (p1_pending_count st + p1_ready_count st) = int act" by (simp add: sum)
  have eq: "PROPOSER_PREEXEC_WIN_SIZE - word_of_int (int act) = w"
    using act(2) by (simp add: w_def PROPOSER_PREEXEC_WIN_SIZE_def of_nat_diff)
  have big: "150 \<le> w" using act(2) m by (simp add: word_le_nat_alt)
  obtain sb where c: "sendbuf_clear (pro_to_acceptors st) prepare_reqs (this_proposer_id st) = Inr sb" "prepare_held sb [] []"
    using prepare_req_link.clear_held [OF buf(1)] id by blast
  have range: "iid_range_incl 1 w = map word_of_nat [1 ..< Suc ?m]" by (simp add: iid_range_incl_def m)
  define st0 where "st0 = st\<lparr>pro_to_acceptors := sb\<rparr>"
  have e0: "\<forall>k. h < k \<and> k \<le> h + ?m \<longrightarrow> pi_status (GET_PRO_INSTANCE st0 (word_of_nat k)) = i_empty"
    using empt by (simp add: st0_def)
  have held0: "prepare_held (pro_to_acceptors st0) [] []" and h0: "h = unat (p1_highest_open st0)"
    using c(2) h(1) by (simp_all add: st0_def)
  have le: "?m \<le> 2048" by simp
  have fb: "FIRST_BALLOT st0 = FIRST_BALLOT st" by (simp add: st0_def FIRST_BALLOT_def)
  obtain st1 evs where l: "for_each (p1_open_one now) (map word_of_nat [1 ..< Suc ?m]) st0 = Inr (st1, evs)"
      "prepare_held (pro_to_acceptors st1) evs (window_reqs st0 h ?m)" "opened_upto st0 h ?m st1"
    using open_loop [OF held0 h0 le e0] by blast
  obtain evs' bss where f: "sendbuf_flush (pro_to_acceptors st1) = Inr evs'"
      "list_all2 (carries prepare_reqs 0 enc_prepare_req proposer_id_ok (\<lambda>_. True)) (datagrams (evs @ evs')) bss"
      "concat bss = window_reqs st0 h ?m"
    using prepare_req_link.flush_held [OF l(2)] by blast
  define st' where "st' = st1\<lparr>p1_pending_count := p1_pending_count st1 + w, p1_highest_open := p1_highest_open st1 + w\<rparr>"
  have "leader_open_instances_p1 now st = Inr (st', evs @ evs')"
    using c(1) l(1) f(1) act(2) big
    unfolding leader_open_instances_p1_def Let_def s eq range in_batch_def st0_def st'_def by (simp del: upt_Suc)
  moreover have "receive_all read_prepare_reqs old (datagrams (evs @ evs')) = Inr (window_reqs st h ?m)"
    using prepare_req_link.receive_all_carries [OF f(2) buf(2)] f(3) fb
    unfolding read_batches_eq by (simp add: window_reqs_def)
  moreover have "p1_pending_count st1 = p1_pending_count st" "p1_ready_count st1 = p1_ready_count st"
      "p1_highest_open st1 = p1_highest_open st"
    using l(3) by (simp_all add: opened_upto_def st0_def)
  moreover have "unat (p1_pending_count st + w) = unat (p1_pending_count st) + ?m"
      "unat (p1_highest_open st + w) = h + ?m"
    using unat_word_add_lt [of "p1_pending_count st" w] unat_word_add_lt [of "p1_highest_open st" w] m act h by auto
  moreover have "GET_PRO_INSTANCE st' k = GET_PRO_INSTANCE st1 k" for k by (simp add: st'_def GET_PRO_INSTANCE_def)
  ultimately show ?thesis using l(3) act fb
    by (intro exI [of _ st'] exI [of _ "evs @ evs'"]) (auto simp: opened_upto_def st'_def)
qed

theorem leader_opens_window_witness:
  "\<exists>st' evs. leader_open_instances_p1 (Timeval 1 0) (fresh_proposer 0) = Inr (st', evs)
    \<and> receive_all read_prepare_reqs (replicate MAX_UDP_MSG_SIZE 0) (datagrams evs) = Inr (window_reqs (fresh_proposer 0) 0 (300 - 0))
    \<and> unat (p1_pending_count st') + unat (p1_ready_count st') = 300
    \<and> unat (p1_highest_open st') = 0 + (300 - 0)
    \<and> (\<forall>k. 0 < k \<and> k \<le> 0 + (300 - 0) \<longrightarrow> pi_iid (GET_PRO_INSTANCE st' (word_of_nat k)) = word_of_nat k
        \<and> pi_status (GET_PRO_INSTANCE st' (word_of_nat k)) = p1_pending
        \<and> my_ballot (GET_PRO_INSTANCE st' (word_of_nat k)) = FIRST_BALLOT (fresh_proposer 0))"
  by (rule leader_opens_window)
    (simp_all add: fresh_proposer_def GET_PRO_INSTANCE_def empty_info_def udp_sendbuf_new_def
      proposer_id_ok_def config_defs)

end
