(* ===== verification/Queue.thy ===== *)
theory Queue
  imports Fifo
begin

text \<open>
  The bounded queue of \<^verbatim>\<open>ring_paxos\<close> (\<^verbatim>\<open>lib/queue.c\<close>): a ring buffer with a read
  and a write index, a count and the sum of the sizes, all 32-bit, of elements that are a pointer and
  a size. \<^verbatim>\<open>make_copy\<close> does not show in the model: a copy has the content of the
  original. The operations refine a list (\<open>spec_op\<close>), and with elements of one size they keep
  the contract \<open>fifo\<close>.
\<close>

section \<open>The ring buffer\<close>

definition MAX_QUEUE_SIZE_BYTES :: u32 where
  "MAX_QUEUE_SIZE_BYTES = 1024 * 1024 * 1024"

record 'a queue_element =
  qe_data :: "'a option"
  qe_size :: u64

record 'a lpqueue =
  queue_count :: u32
  max_count :: u32
  queue_size :: u32
  read_index :: u32
  write_index :: u32
  queue_array :: "'a queue_element list"

text \<open>The array after \<^verbatim>\<open>calloc\<close> and after an element was freed.\<close>

definition null_element :: "'a queue_element" where
  "null_element = \<lparr>qe_data = None, qe_size = 0\<rparr>"

definition queue_init :: "u32 \<Rightarrow> 'a lpqueue option" where
  "queue_init queue_length =
     (if queue_length = 0 then None
      else Some \<lparr>queue_count = 0, max_count = queue_length, queue_size = 0, read_index = 0, write_index = 0,
                 queue_array = replicate (unat queue_length) null_element\<rparr>)"

definition queue_get_current_size :: "'a lpqueue \<Rightarrow> u32" where
  "queue_get_current_size q = queue_count q"

text \<open>An index moves one position forward or back around the array.\<close>

definition next_index :: "'a lpqueue \<Rightarrow> u32 \<Rightarrow> u32" where
  "next_index q i = (let i = i + 1 in if i = max_count q then 0 else i)"

definition prev_index :: "'a lpqueue \<Rightarrow> u32 \<Rightarrow> u32" where
  "prev_index q i = (if i = 0 then max_count q - 1 else i - 1)"

definition set_element :: "u32 \<Rightarrow> 'a queue_element \<Rightarrow> 'a lpqueue \<Rightarrow> 'a lpqueue res" where
  "set_element i e q = rguard (unat i < length (queue_array q))
     (Inr (q\<lparr>queue_array := (queue_array q)[unat i := e]\<rparr>))"

definition get_element :: "u32 \<Rightarrow> 'a lpqueue \<Rightarrow> 'a queue_element res" where
  "get_element i q = rguard (unat i < length (queue_array q)) (Inr (queue_array q ! unat i))"

definition queue_pop :: "'a lpqueue \<Rightarrow> (('a option \<times> u64) option \<times> 'a lpqueue) res" where
  "queue_pop q =
     (if queue_count q = 0 then Inr (None, q)
      else rbind (get_element (read_index q) q) (\<lambda>e.
        Inr (Some (qe_data e, qe_size e),
             q\<lparr>queue_count := queue_count q - 1, queue_size := queue_size q - ucast (qe_size e),
               read_index := next_index q (read_index q)\<rparr>)))"

definition queue_discard_last :: "'a lpqueue \<Rightarrow> (bool \<times> 'a lpqueue) res" where
  "queue_discard_last q =
     (if queue_count q = 0 then Inr (False, q)
      else
        let q = q\<lparr>write_index := prev_index q (write_index q)\<rparr> in
        rbind (get_element (write_index q) q) (\<lambda>e.
        let q = q\<lparr>queue_size := queue_size q - ucast (qe_size e), queue_count := queue_count q - 1\<rparr> in
        rbind (set_element (write_index q) null_element q) (\<lambda>q. Inr (True, q))))"

definition queue_prepend :: "'a \<Rightarrow> u64 \<Rightarrow> 'a lpqueue \<Rightarrow> (bool \<times> 'a lpqueue) res" where
  "queue_prepend cmd_value cmd_size q =
     rbind (if queue_count q = max_count q
            then rbind (queue_discard_last q) (\<lambda>(result, q). rassert result (Inr q))
            else Inr q) (\<lambda>q.
     let q = q\<lparr>read_index := prev_index q (read_index q)\<rparr>;
         q = q\<lparr>queue_size := queue_size q + ucast cmd_size, queue_count := queue_count q + 1\<rparr> in
     rbind (set_element (read_index q) \<lparr>qe_data = Some cmd_value, qe_size = cmd_size\<rparr> q) (\<lambda>q.
       Inr (True, q)))"

definition queue_append :: "'a \<Rightarrow> u64 \<Rightarrow> 'a lpqueue \<Rightarrow> (bool \<times> 'a lpqueue) res" where
  "queue_append cmd_value cmd_size q =
     (if queue_count q = max_count q then Inr (False, q)
      else if ucast (queue_size q) + cmd_size > ucast MAX_QUEUE_SIZE_BYTES then Inr (False, q)
      else rbind (set_element (write_index q) \<lparr>qe_data = Some cmd_value, qe_size = cmd_size\<rparr> q) (\<lambda>q.
        let q = q\<lparr>queue_count := queue_count q + 1, queue_size := queue_size q + ucast cmd_size\<rparr>
        in Inr (True, q\<lparr>write_index := next_index q (write_index q)\<rparr>)))"

section \<open>The list it represents\<close>

definition total_size :: "('a \<times> u64) list \<Rightarrow> u32" where
  "total_size xs = sum_list (map (\<lambda>x. ucast (snd x)) xs)"

definition q_at :: "nat \<Rightarrow> nat \<Rightarrow> 'a lpqueue \<Rightarrow> ('a \<times> u64) list \<Rightarrow> bool" where
  "q_at n r q xs \<longleftrightarrow>
     length (queue_array q) = n \<and> unat (max_count q) = n \<and> unat (read_index q) = r \<and> r < n
     \<and> length xs \<le> n \<and> unat (queue_count q) = length xs \<and> unat (write_index q) = (r + length xs) mod n
     \<and> queue_size q = total_size xs
     \<and> (\<forall>i < length xs. queue_array q ! ((r + i) mod n) = \<lparr>qe_data = Some (fst (xs ! i)), qe_size = snd (xs ! i)\<rparr>)"

definition q_rep :: "nat \<Rightarrow> 'a lpqueue \<Rightarrow> ('a \<times> u64) list \<Rightarrow> bool" where
  "q_rep n q xs \<longleftrightarrow> q_at n (unat (read_index q)) q xs"

lemma total_size_simps [simp]:
  "total_size [] = 0" "total_size (x # xs) = ucast (snd x) + total_size xs"
  "total_size (xs @ ys) = total_size xs + total_size ys"
  by (simp_all add: total_size_def)

text \<open>Positions around the ring.\<close>

lemma ring_eq_iff:
  fixes n :: nat
  assumes "i < n" "j < n"
  shows "(r + i) mod n = (r + j) mod n \<longleftrightarrow> i = j"
proof
  assume "(r + i) mod n = (r + j) mod n"
  then have "int (r + i) mod int n = int (r + j) mod int n" by (metis of_nat_mod)
  then have "(int r + int i - int r) mod int n = (int r + int j - int r) mod int n"
    by (metis mod_diff_left_eq of_nat_add)
  then show "i = j" using assms by simp
qed simp

lemma next_index_simps [simp]:
  "next_index (q\<lparr>queue_array := a\<rparr>) i = next_index q i"
  "next_index (q\<lparr>queue_count := c\<rparr>) i = next_index q i"
  "next_index (q\<lparr>queue_size := s\<rparr>) i = next_index q i"
  by (simp_all add: next_index_def)

lemma unat_next_index:
  assumes "unat i < n" "unat (max_count q) = n"
  shows "unat (next_index q i) = Suc (unat i) mod n"
proof -
  have s: "unat (i + 1) = Suc (unat i)" using assms unat_u32_less [of "max_count q"] by (simp add: unat_u32_Suc)
  then have "i + 1 = max_count q \<longleftrightarrow> Suc (unat i) = n" by (metis assms(2) unsigned_word_eqI)
  then show ?thesis using assms s by (auto simp: next_index_def Let_def)
qed

lemma unat_prev_index:
  assumes "unat i < n" "unat (max_count q) = n"
  shows "unat (prev_index q i) = (unat i + (n - 1)) mod n"
proof (cases "unat i")
  case 0
  then have "i = 0" by (simp add: unat_eq_0)
  moreover have "unat (max_count q - 1) = n - 1" using unat_u32_pred [of "max_count q" "n - 1"] assms by simp
  ultimately show ?thesis using assms by (simp add: prev_index_def)
next
  case (Suc k)
  have "unat i + (n - 1) = k + n" using Suc assms(1) by simp
  then show ?thesis using unat_u32_pred [OF Suc] assms(1) Suc by (simp add: prev_index_def)
qed

lemma queue_init_rep: "queue_init n = Some q \<Longrightarrow> q_rep (unat n) q []"
  by (auto simp: queue_init_def q_rep_def q_at_def unat_gt_0 split: if_splits)

lemma queue_pop_nil: "q_rep n q [] \<Longrightarrow> queue_pop q = Inr (None, q)"
  by (simp add: queue_pop_def q_rep_def q_at_def unat_eq_0)

lemma queue_pop_cons:
  assumes "q_rep n q (x # xs)"
  shows "\<exists>q'. queue_pop q = Inr (Some (Some (fst x), snd x), q') \<and> q_rep n q' xs"
proof -
  define r where "r = unat (read_index q)"
  have inv: "q_at n r q (x # xs)" using assms by (simp add: q_rep_def r_def)
  then have len: "length (queue_array q) = n" "unat (max_count q) = n" "unat (read_index q) = r" "r < n"
      and cnt: "Suc (length xs) \<le> n" "unat (queue_count q) = Suc (length xs)"
      and w: "unat (write_index q) = (r + Suc (length xs)) mod n" and sz: "queue_size q = ucast (snd x) + total_size xs"
      and el: "\<And>i. i < Suc (length xs) \<Longrightarrow> queue_array q ! ((r + i) mod n)
        = \<lparr>qe_data = Some (fst ((x # xs) ! i)), qe_size = snd ((x # xs) ! i)\<rparr>"
    by (simp_all add: q_at_def)
  note c = unat_u32_pred [OF cnt(2)]
  have f: "unat (next_index q (read_index q)) = Suc r mod n" using unat_next_index [OF _ len(2)] len(3,4) by simp
  have e: "queue_array q ! r = \<lparr>qe_data = Some (fst x), qe_size = snd x\<rparr>" using el [of 0] len(4) by simp
  let ?q = "q\<lparr>queue_count := queue_count q - 1, queue_size := queue_size q - ucast (snd x),
     read_index := next_index q (read_index q)\<rparr>"
  have "queue_pop q = Inr (Some (Some (fst x), snd x), ?q)"
    using c len e by (simp add: queue_pop_def get_element_def)
  moreover have "q_at n (Suc r mod n) ?q xs"
    unfolding q_at_def using len cnt w sz f c el [of "Suc _"]
    by (simp add: mod_add_left_eq)
  ultimately show ?thesis using f by (simp add: q_rep_def)
qed

lemma set_element_ok:
  "unat i < length (queue_array q) \<Longrightarrow>
     set_element i e q = Inr (q\<lparr>queue_array := (queue_array q)[unat i := e]\<rparr>)"
  by (simp add: set_element_def)

lemma queue_append_full: "q_rep n q xs \<Longrightarrow> length xs = n \<Longrightarrow> queue_append v s q = Inr (False, q)"
  by (simp add: queue_append_def q_rep_def q_at_def word_unat_eq_iff)

lemma queue_append_large:
  "q_rep n q xs \<Longrightarrow> ucast (total_size xs) + s > ucast MAX_QUEUE_SIZE_BYTES \<Longrightarrow> queue_append v s q = Inr (False, q)"
  by (simp add: queue_append_def q_rep_def q_at_def)

lemma queue_append_room:
  assumes "q_rep n q xs" "length xs < n"
    and "\<not> ucast (total_size xs) + s > ucast MAX_QUEUE_SIZE_BYTES"
  shows "\<exists>q'. queue_append v s q = Inr (True, q') \<and> q_rep n q' (xs @ [(v, s)])"
proof -
  define r where "r = unat (read_index q)"
  have inv: "q_at n r q xs" using assms by (simp add: q_rep_def r_def)
  then have len: "length (queue_array q) = n" "unat (max_count q) = n" "unat (read_index q) = r" "r < n"
      and cnt: "unat (queue_count q) = length xs"
      and w: "unat (write_index q) = (r + length xs) mod n" and sz: "queue_size q = total_size xs"
      and el: "\<And>i. i < length xs \<Longrightarrow> queue_array q ! ((r + i) mod n)
        = \<lparr>qe_data = Some (fst (xs ! i)), qe_size = snd (xs ! i)\<rparr>"
    by (simp_all add: q_at_def)
  have ne: "queue_count q \<noteq> max_count q" using cnt len(2) assms(2) by auto
  have wn: "(r + length xs) mod n < n" using len(4) by simp
  have f: "unat (next_index q (write_index q)) = (r + Suc (length xs)) mod n"
    using unat_next_index [OF _ len(2), of "write_index q"] w wn by (simp add: mod_Suc_eq)
  have c: "unat (queue_count q + 1) = Suc (length xs)"
    using cnt assms(2) unat_u32_less [of "max_count q"] len(2) by (simp add: unat_u32_Suc)
  let ?q = "q\<lparr>queue_array := (queue_array q)[(r + length xs) mod n := \<lparr>qe_data = Some v, qe_size = s\<rparr>],
     queue_count := queue_count q + 1, queue_size := queue_size q + ucast s, write_index := next_index q (write_index q)\<rparr>"
  have "queue_append v s q = Inr (True, ?q)"
    using ne w wn len sz assms(3) by (simp add: queue_append_def set_element_ok Let_def)
  moreover have "queue_array ?q ! ((r + i) mod n)
      = \<lparr>qe_data = Some (fst ((xs @ [(v, s)]) ! i)), qe_size = snd ((xs @ [(v, s)]) ! i)\<rparr>"
    if i: "i < Suc (length xs)" for i
  proof (cases "i = length xs")
    case True
    then show ?thesis using len(1) wn by simp
  next
    case False
    then have "i < length xs" using i by simp
    moreover from this have "(r + length xs) mod n \<noteq> (r + i) mod n"
      using ring_eq_iff [of i n "length xs" r] assms(2) by auto
    ultimately show ?thesis using el [of i] by (simp add: nth_append)
  qed
  ultimately show ?thesis using len sz f c assms(2) by (auto simp: q_rep_def q_at_def)
qed

lemma discard_last_ok:
  assumes "q_rep n q (xs @ [x])"
  shows "\<exists>q'. queue_discard_last q = Inr (True, q') \<and> q_rep n q' xs"
proof -
  define r where "r = unat (read_index q)"
  have inv: "q_at n r q (xs @ [x])" using assms by (simp add: q_rep_def r_def)
  then have len: "length (queue_array q) = n" "unat (max_count q) = n" "unat (read_index q) = r" "r < n"
      and cnt: "Suc (length xs) \<le> n" "unat (queue_count q) = Suc (length xs)"
      and w: "unat (write_index q) = (r + Suc (length xs)) mod n"
      and sz: "queue_size q = total_size xs + ucast (snd x)"
      and el: "\<And>i. i < Suc (length xs) \<Longrightarrow> queue_array q ! ((r + i) mod n)
        = \<lparr>qe_data = Some (fst ((xs @ [x]) ! i)), qe_size = snd ((xs @ [x]) ! i)\<rparr>"
    by (simp_all add: q_at_def)
  note c = unat_u32_pred [OF cnt(2)]
  have wn: "(r + length xs) mod n < n" using len(4) by simp
  have "unat (prev_index q (write_index q)) = ((r + Suc (length xs)) mod n + (n - 1)) mod n"
    using unat_prev_index [OF _ len(2), of "write_index q"] w len(4) by simp
  also have "\<dots> = (r + Suc (length xs) + (n - 1)) mod n" by (rule mod_add_left_eq)
  also have "r + Suc (length xs) + (n - 1) = r + length xs + n" using len(4) by simp
  finally have b: "unat (prev_index q (write_index q)) = (r + length xs) mod n" by simp
  have e: "queue_array q ! ((r + length xs) mod n) = \<lparr>qe_data = Some (fst x), qe_size = snd x\<rparr>"
    using el [of "length xs"] by simp
  let ?q = "q\<lparr>write_index := prev_index q (write_index q), queue_size := queue_size q - ucast (snd x),
     queue_count := queue_count q - 1, queue_array := (queue_array q)[(r + length xs) mod n := null_element]\<rparr>"
  have "queue_discard_last q = Inr (True, ?q)"
    using c b wn e len(1) by (simp add: queue_discard_last_def get_element_def set_element_def Let_def)
  moreover have "queue_array ?q ! ((r + i) mod n) = \<lparr>qe_data = Some (fst (xs ! i)), qe_size = snd (xs ! i)\<rparr>"
    if i: "i < length xs" for i
  proof -
    have "(r + length xs) mod n \<noteq> (r + i) mod n"
      using ring_eq_iff [of i n "length xs" r] cnt(1) i by auto
    then show ?thesis using el [of i] i by (simp add: nth_append)
  qed
  ultimately show ?thesis using len cnt(1) sz b c by (auto simp: q_rep_def q_at_def)
qed

lemma discard_last_nil: "q_rep n q [] \<Longrightarrow> queue_discard_last q = Inr (False, q)"
  by (simp add: queue_discard_last_def q_rep_def q_at_def unat_eq_0)

lemma queue_prepend_room:
  assumes "q_rep n q xs" "length xs < n"
  shows "\<exists>q'. queue_prepend v s q = Inr (True, q') \<and> q_rep n q' ((v, s) # xs)"
proof -
  define r where "r = unat (read_index q)"
  have inv: "q_at n r q xs" using assms by (simp add: q_rep_def r_def)
  then have len: "length (queue_array q) = n" "unat (max_count q) = n" "unat (read_index q) = r" "r < n"
      and cnt: "unat (queue_count q) = length xs"
      and w: "unat (write_index q) = (r + length xs) mod n" and sz: "queue_size q = total_size xs"
      and el: "\<And>i. i < length xs \<Longrightarrow> queue_array q ! ((r + i) mod n)
        = \<lparr>qe_data = Some (fst (xs ! i)), qe_size = snd (xs ! i)\<rparr>"
    by (simp_all add: q_at_def)
  have ne: "queue_count q \<noteq> max_count q" using cnt len(2) assms(2) by auto
  define r' where "r' = (r + (n - 1)) mod n"
  have b: "unat (prev_index q (read_index q)) = r'" using unat_prev_index [OF _ len(2)] len(3,4) by (simp add: r'_def)
  have rn: "r' < n" using len(4) by (simp add: r'_def)
  have c: "unat (queue_count q + 1) = Suc (length xs)"
    using cnt assms(2) unat_u32_less [of "max_count q"] len(2) by (simp add: unat_u32_Suc)
  have sh: "(r' + Suc i) mod n = (r + i) mod n" for i
  proof -
    have "(r' + Suc i) mod n = (r + (n - 1) + Suc i) mod n" unfolding r'_def by (rule mod_add_left_eq)
    also have "r + (n - 1) + Suc i = r + i + n" using len(4) by simp
    finally show ?thesis by simp
  qed
  let ?q = "q\<lparr>read_index := prev_index q (read_index q), queue_size := queue_size q + ucast s,
     queue_count := queue_count q + 1, queue_array := (queue_array q)[r' := \<lparr>qe_data = Some v, qe_size = s\<rparr>]\<rparr>"
  have "queue_prepend v s q = Inr (True, ?q)"
    using ne b rn len(1) by (simp add: queue_prepend_def set_element_ok Let_def)
  moreover have "queue_array ?q ! ((r' + i) mod n)
      = \<lparr>qe_data = Some (fst (((v, s) # xs) ! i)), qe_size = snd (((v, s) # xs) ! i)\<rparr>"
    if i: "i < Suc (length xs)" for i
  proof (cases i)
    case 0
    then show ?thesis using rn len(1) by simp
  next
    case (Suc j)
    have "(r + j) mod n \<noteq> r'"
      using assms(2) i Suc ring_eq_iff [of j n "n - 1" r] by (simp add: r'_def)
    then show ?thesis using i Suc sh [of j] el [of j] by simp
  qed
  moreover have "unat (write_index q) = (r' + length ((v, s) # xs)) mod n" using w sh [of "length xs"] by simp
  ultimately show ?thesis using len sz b rn c assms(2) by (auto simp: q_rep_def q_at_def)
qed

lemma queue_prepend_full:
  assumes "q_rep n q (xs @ [x])" "length (xs @ [x]) = n"
  shows "\<exists>q'. queue_prepend v s q = Inr (True, q') \<and> q_rep n q' ((v, s) # xs)"
proof -
  have eq: "queue_count q = max_count q" using assms by (simp add: q_rep_def q_at_def word_unat_eq_iff)
  obtain q1 where q1: "queue_discard_last q = Inr (True, q1)" "q_rep n q1 xs"
    using discard_last_ok [OF assms(1)] by blast
  have "queue_count q1 \<noteq> max_count q1" using q1(2) assms(2) by (auto simp: q_rep_def q_at_def)
  then have "queue_prepend v s q = queue_prepend v s q1" using eq q1 by (simp add: queue_prepend_def)
  then show ?thesis using queue_prepend_room [OF q1(2)] assms(2) by simp
qed

section \<open>Refinement of a list\<close>

datatype 'a q_op = Pop | Prepend 'a u64 | Append 'a u64 | DiscardLast

datatype 'a q_result = Popped "('a option \<times> u64) option" | Done bool

fun run_op :: "'a q_op \<Rightarrow> 'a lpqueue \<Rightarrow> ('a q_result \<times> 'a lpqueue) res" where
  "run_op Pop q = rbind (queue_pop q) (\<lambda>(r, q). Inr (Popped r, q))"
| "run_op (Prepend v s) q = rbind (queue_prepend v s q) (\<lambda>(r, q). Inr (Done r, q))"
| "run_op (Append v s) q = rbind (queue_append v s q) (\<lambda>(r, q). Inr (Done r, q))"
| "run_op DiscardLast q = rbind (queue_discard_last q) (\<lambda>(r, q). Inr (Done r, q))"

text \<open>The same operations on a list of at most \<open>n\<close> elements.\<close>

fun spec_op :: "nat \<Rightarrow> 'a q_op \<Rightarrow> ('a \<times> u64) list \<Rightarrow> 'a q_result \<times> ('a \<times> u64) list" where
  "spec_op n Pop [] = (Popped None, [])"
| "spec_op n Pop (x # xs) = (Popped (Some (Some (fst x), snd x)), xs)"
| "spec_op n (Prepend v s) xs = (Done True, (v, s) # (if length xs = n then butlast xs else xs))"
| "spec_op n (Append v s) xs =
     (if length xs = n \<or> ucast (total_size xs) + s > ucast MAX_QUEUE_SIZE_BYTES then (Done False, xs)
      else (Done True, xs @ [(v, s)]))"
| "spec_op n DiscardLast xs = (Done (xs \<noteq> []), butlast xs)"

fun run_ops :: "'a q_op list \<Rightarrow> 'a lpqueue \<Rightarrow> ('a q_result list \<times> 'a lpqueue) res" where
  "run_ops [] q = Inr ([], q)"
| "run_ops (oper # ops) q =
     rbind (run_op oper q) (\<lambda>(r, q). rbind (run_ops ops q) (\<lambda>(rs, q). Inr (r # rs, q)))"

fun spec_ops :: "nat \<Rightarrow> 'a q_op list \<Rightarrow> ('a \<times> u64) list \<Rightarrow> 'a q_result list \<times> ('a \<times> u64) list" where
  "spec_ops n [] xs = ([], xs)"
| "spec_ops n (oper # ops) xs =
     (case spec_op n oper xs of (r, xs) \<Rightarrow> case spec_ops n ops xs of (rs, xs) \<Rightarrow> (r # rs, xs))"

lemma q_rep_bounds: "q_rep n q xs \<Longrightarrow> length xs \<le> n \<and> 0 < n"
  by (auto simp: q_rep_def q_at_def)

lemma run_op_ok:
  assumes "q_rep n q xs"
  shows "\<exists>q'. run_op oper q = Inr (fst (spec_op n oper xs), q') \<and> q_rep n q' (snd (spec_op n oper xs))"
proof (cases oper)
  case Pop
  then show ?thesis using assms queue_pop_nil [of n q] queue_pop_cons [of n q] by (cases xs) fastforce+
next
  case (Prepend v s)
  show ?thesis
  proof (cases "length xs = n")
    case True
    then have "xs \<noteq> []" using q_rep_bounds [OF assms] by auto
    then obtain ys y where "xs = ys @ [y]" by (metis rev_exhaust)
    then show ?thesis using queue_prepend_full [of n q ys y v s] assms True Prepend by auto
  next
    case False
    then show ?thesis using queue_prepend_room [OF assms, of v s] q_rep_bounds [OF assms] Prepend by auto
  qed
next
  case (Append v s)
  then show ?thesis
    using queue_append_full [OF assms] queue_append_large [OF assms] queue_append_room [OF assms, of s v]
      q_rep_bounds [OF assms] assms by fastforce
next
  case DiscardLast
  show ?thesis
  proof (cases xs rule: rev_cases)
    case Nil
    then show ?thesis using discard_last_nil assms DiscardLast by fastforce
  next
    case (snoc ys y)
    then show ?thesis using discard_last_ok [of n q ys y] assms DiscardLast by auto
  qed
qed

lemma run_ops_ok:
  "q_rep n q xs \<Longrightarrow> \<exists>q'. run_ops ops q = Inr (fst (spec_ops n ops xs), q') \<and> q_rep n q' (snd (spec_ops n ops xs))"
proof (induction ops arbitrary: q xs)
  case (Cons oper ops)
  obtain q1 where q1: "run_op oper q = Inr (fst (spec_op n oper xs), q1)" "q_rep n q1 (snd (spec_op n oper xs))"
    using run_op_ok [OF Cons.prems] by blast
  from Cons.IH [OF q1(2)] q1(1) show ?case by (auto split: prod.splits)
qed simp

text \<open>C17. The ring buffer is a bounded double-ended list: whatever the sequence of operations on a new
  queue, every result is the one the list gives, and no operation faults. A full queue refuses an
  append, as does one whose elements would exceed one gigabyte together; a prepend always succeeds and
  drops the last element of a full queue.\<close>

theorem queue_refines_list:
  assumes "queue_init queue_length = Some q"
  shows "\<exists>q'. run_ops ops q = Inr (fst (spec_ops (unat queue_length) ops []), q')
    \<and> unat (queue_get_current_size q') = length (snd (spec_ops (unat queue_length) ops []))"
  using run_ops_ok [OF queue_init_rep [OF assms], of ops]
  by (auto simp: queue_get_current_size_def q_rep_def q_at_def)

theorem queue_refines_list_witness:
  "\<exists>q'. run_ops [Append 1 8, Append 2 8, Append 3 8, Prepend 4 8, Pop, Pop, Pop] (the (queue_init 2))
      = Inr (map Done [True, True, False, True]
          @ [Popped (Some (Some (4 :: nat), 8)), Popped (Some (Some 1, 8)), Popped None], q')
    \<and> unat (queue_get_current_size q') = 0"
proof -
  let ?ops = "[Append (1 :: nat) 8, Append 2 8, Append 3 8, Prepend 4 8, Pop, Pop, Pop]"
  have "queue_init 2 = Some (the (queue_init 2 :: nat lpqueue option))" by (simp add: queue_init_def)
  from queue_refines_list [OF this, of ?ops] show ?thesis
    by (simp add: MAX_QUEUE_SIZE_BYTES_def word_less_nat_alt unsigned_ucast_eq take_bit_eq_mod)
qed

section \<open>The queue keeps the contract of a bounded queue\<close>

text \<open>With elements of one size, of which a full queue holds no more than one gigabyte.\<close>

definition same_size :: "nat \<Rightarrow> u64 \<Rightarrow> 'a lpqueue \<Rightarrow> 'a list \<Rightarrow> bool" where
  "same_size n s q vs \<longleftrightarrow> q_rep n q (map (\<lambda>v. (v, s)) vs) \<and> n * unat s \<le> 1024 * 1024 * 1024"

lemma total_same_size:
  "length vs * unat s < 2 ^ 32 \<Longrightarrow> unat (total_size (map (\<lambda>v. (v, s)) vs)) = length vs * unat s"
proof (induction vs)
  case (Cons v vs)
  have s: "unat (ucast s :: u32) = unat s"
    using Cons.prems by (simp add: unsigned_ucast_eq take_bit_eq_mod)
  then show ?case using Cons by (simp add: unat_word_ariths)
qed simp

lemma same_size_room:
  assumes "same_size n s q vs" "length vs < n"
  shows "\<not> ucast (total_size (map (\<lambda>v. (v, s)) vs)) + s > ucast MAX_QUEUE_SIZE_BYTES"
proof -
  have "Suc (length vs) * unat s \<le> n * unat s" using assms(2) by (intro mult_le_mono1) simp
  then have le: "length vs * unat s + unat s \<le> 1024 * 1024 * 1024"
    using assms(1) by (simp add: same_size_def add.commute)
  then have "unat (total_size (map (\<lambda>v. (v, s)) vs)) = length vs * unat s" by (intro total_same_size) simp
  with le show ?thesis
    by (simp add: word_less_nat_alt unat_word_ariths unsigned_ucast_eq take_bit_eq_mod MAX_QUEUE_SIZE_BYTES_def)
qed

lemma same_size_append:
  "same_size n s q vs \<Longrightarrow> length vs < n \<Longrightarrow> \<exists>q'. queue_append v s q = Inr (True, q') \<and> same_size n s q' (vs @ [v])"
  using queue_append_room [of n q "map (\<lambda>v. (v, s)) vs" s v] same_size_room [of n s q vs]
  by (auto simp: same_size_def)

lemma same_size_pop:
  "same_size n s q (v # vs) \<Longrightarrow> \<exists>q'. queue_pop q = Inr (Some (Some v, s), q') \<and> same_size n s q' vs"
  using queue_pop_cons [of n q "(v, s)" "map (\<lambda>v. (v, s)) vs"] by (auto simp: same_size_def)

definition enqueue :: "u64 \<Rightarrow> 'a \<Rightarrow> 'a lpqueue \<Rightarrow> 'a lpqueue res" where
  "enqueue s v q = rbind (queue_append v s q) (\<lambda>(r, q). Inr q)"

definition dequeue :: "'a lpqueue \<Rightarrow> ('a option \<times> 'a lpqueue) res" where
  "dequeue q = rbind (queue_pop q) (\<lambda>(r, q). Inr (case r of None \<Rightarrow> None | Some (d, s) \<Rightarrow> d, q))"

interpretation lpq: fifo "same_size n s" "enqueue s" dequeue n
proof
  fix q :: "'a lpqueue" and xs and v
  assume r: "same_size n s q xs"
  show "length xs < n \<Longrightarrow> \<exists>q'. enqueue s v q = Inr q' \<and> same_size n s q' (xs @ [v])"
    using same_size_append [OF r, of v] by (auto simp: enqueue_def)
  show "n \<le> length xs \<Longrightarrow> \<exists>q'. enqueue s v q = Inr q' \<and> same_size n s q' xs"
    using r queue_append_full [of n q "map (\<lambda>v. (v, s)) xs" v s] q_rep_bounds [of n q "map (\<lambda>v. (v, s)) xs"]
    by (auto simp: enqueue_def same_size_def)
next
  fix q :: "'a lpqueue"
  assume "same_size n s q []"
  then show "\<exists>q'. dequeue q = Inr (None, q') \<and> same_size n s q' []"
    by (auto simp: dequeue_def same_size_def queue_pop_nil)
next
  fix q :: "'a lpqueue" and x and xs
  assume "same_size n s q (x # xs)"
  then show "\<exists>q'. dequeue q = Inr (Some x, q') \<and> same_size n s q' xs"
    using same_size_pop [of n s q x xs] by (auto simp: dequeue_def)
qed

lemma new_queue_same_size:
  "queue_init n = Some q \<Longrightarrow> unat n * unat s \<le> 1024 * 1024 * 1024 \<Longrightarrow> same_size (unat n) s q []"
  by (simp add: same_size_def queue_init_rep)

end
