(* ===== verification/MemoryPool.thy ===== *)
theory MemoryPool
  imports Queue
begin

text \<open>
  The memory pool of \<^verbatim>\<open>ring_paxos\<close> (\<^verbatim>\<open>lib/memory_pool.c\<close>): chunks of one size in
  one block; the free ones wait in a queue of the module \<open>Queue\<close>. An address is an integer; the
  address of the block, which \<^verbatim>\<open>calloc\<close> returns, is a parameter.
\<close>

section \<open>The pool\<close>

record memory_pool =
  tot_entries :: u64
  cur_entries :: u64
  entry_size :: u64
  chunks_queue :: "int lpqueue option"
  pool_begin :: int
  pool_end :: int

definition on_queue :: "(int lpqueue \<Rightarrow> ('r \<times> int lpqueue) res) \<Rightarrow> memory_pool \<Rightarrow> ('r \<times> memory_pool) res" where
  "on_queue f mp = (case chunks_queue mp of None \<Rightarrow> Inl NullPointer
     | Some q \<Rightarrow> rbind (f q) (\<lambda>(r, q). Inr (r, mp\<lparr>chunks_queue := Some q\<rparr>)))"

text \<open>The loop of \<^verbatim>\<open>mempool_new\<close>: the next \<open>n\<close> chunks are appended to the queue. The
  result has the address after the last one.\<close>

fun add_chunks :: "nat \<Rightarrow> int \<Rightarrow> memory_pool \<Rightarrow> (int \<times> memory_pool) res" where
  "add_chunks 0 next_chunk mp = Inr (next_chunk, mp)"
| "add_chunks (Suc n) next_chunk mp =
     rbind (on_queue (queue_append next_chunk (entry_size mp)) mp) (\<lambda>(success, mp).
       rassert success (add_chunks n (next_chunk + uint (entry_size mp)) mp))"

text \<open>The queue takes a 32-bit length; the counter of the loop has 32 bits too, so a pool of more
  than \<open>2 ^ 32 - 1\<close> entries would not end: it is outside the model (\<open>OutOfBounds\<close>).\<close>

definition mempool_new :: "int \<Rightarrow> u64 \<Rightarrow> u64 \<Rightarrow> memory_pool res" where
  "mempool_new block num_entries size_of_entry =
     rguard (unat num_entries < 2 ^ 32) (
     rbind (add_chunks (unat num_entries) block
       \<lparr>tot_entries = num_entries, cur_entries = num_entries, entry_size = size_of_entry,
        chunks_queue = queue_init (ucast num_entries), pool_begin = block, pool_end = 0\<rparr>)
       (\<lambda>(next_chunk, mp). Inr (mp\<lparr>pool_end := next_chunk - uint size_of_entry\<rparr>)))"

definition is_mempool_chunk :: "memory_pool \<Rightarrow> int \<Rightarrow> bool" where
  "is_mempool_chunk mp chunk \<longleftrightarrow> pool_begin mp \<le> chunk \<and> chunk \<le> pool_end mp"

definition is_mempool_exhaused :: "memory_pool \<Rightarrow> bool" where
  "is_mempool_exhaused mp \<longleftrightarrow> cur_entries mp = 0"

text \<open>The result of \<^verbatim>\<open>queue_pop\<close> is not tested; were the queue empty, the address and the
  size would be undefined, which is a fault of the model.\<close>

definition mempool_alloc :: "memory_pool \<Rightarrow> (int \<times> memory_pool) res" where
  "mempool_alloc mp =
     rassert (cur_entries mp > 0) (
     let mp = mp\<lparr>cur_entries := cur_entries mp - 1\<rparr> in
     rbind (on_queue queue_pop mp) (\<lambda>(r, mp). case r of
       Some (Some chunk_addr, chunk_size) \<Rightarrow>
         rassert (chunk_size = entry_size mp) (
         rassert (chunk_addr \<ge> pool_begin mp \<and> chunk_addr \<le> pool_end mp) (Inr (chunk_addr, mp)))
     | _ \<Rightarrow> Inl NullPointer))"

definition mempool_free :: "memory_pool \<Rightarrow> int \<Rightarrow> memory_pool res" where
  "mempool_free mp chunk =
     rassert (cur_entries mp < tot_entries mp) (
     rassert (chunk \<ge> pool_begin mp \<and> chunk \<le> pool_end mp) (
     let mp = mp\<lparr>cur_entries := cur_entries mp + 1\<rparr> in
     rbind (on_queue (queue_prepend chunk (entry_size mp)) mp) (\<lambda>(r, mp). Inr mp)))"

section \<open>Invariant\<close>

text \<open>The chunks of a pool, and the invariant with the chunks that are handed out.\<close>

definition chunks :: "memory_pool \<Rightarrow> int list" where
  "chunks mp = map (\<lambda>i. pool_begin mp + int i * uint (entry_size mp)) [0 ..< unat (tot_entries mp)]"

definition pool_inv :: "memory_pool \<Rightarrow> int set \<Rightarrow> bool" where
  "pool_inv mp used \<longleftrightarrow>
     (\<exists>q free. chunks_queue mp = Some q \<and> same_size (unat (tot_entries mp)) (entry_size mp) q free
       \<and> distinct free \<and> set free \<union> used = set (chunks mp) \<and> set free \<inter> used = {}
       \<and> unat (cur_entries mp) = length free
       \<and> pool_end mp = pool_begin mp + int (unat (tot_entries mp) - 1) * uint (entry_size mp)
       \<and> 0 < unat (tot_entries mp) \<and> unat (tot_entries mp) < 2 ^ 32 \<and> 0 < uint (entry_size mp))"

lemma distinct_chunks: "0 < uint (entry_size mp) \<Longrightarrow> distinct (chunks mp)"
  by (auto simp: chunks_def distinct_map inj_on_def)

lemma add_chunks_ok:
  assumes "uint (entry_size mp) = s" "chunks_queue mp = Some q"
    and "same_size n (entry_size mp) q (map (\<lambda>i. b + int i * s) [0 ..< m])" "m + k \<le> n"
  shows "\<exists>q'. add_chunks k (b + int m * s) mp = Inr (b + int (m + k) * s, mp\<lparr>chunks_queue := Some q'\<rparr>)
    \<and> same_size n (entry_size mp) q' (map (\<lambda>i. b + int i * s) [0 ..< m + k])"
  using assms
proof (induction k arbitrary: m q mp)
  case 0
  then show ?case by (intro exI [of _ q]) simp
next
  case (Suc k)
  obtain q1 where q1: "queue_append (b + int m * s) (entry_size mp) q = Inr (True, q1)"
      "same_size n (entry_size mp) q1 (map (\<lambda>i. b + int i * s) [0 ..< Suc m])"
    using same_size_append [OF Suc.prems(3), of "b + int m * s"] Suc.prems(4) by auto
  let ?mp = "mp\<lparr>chunks_queue := Some q1\<rparr>"
  have next_chunk: "b + int m * s + s = b + int (Suc m) * s" by (simp add: algebra_simps)
  have "add_chunks (Suc k) (b + int m * s) mp = add_chunks k (b + int m * s + s) ?mp"
    using q1(1) Suc.prems(1,2) by (simp add: on_queue_def)
  then have "add_chunks (Suc k) (b + int m * s) mp = add_chunks k (b + int (Suc m) * s) ?mp"
    unfolding next_chunk .
  with Suc.IH [of ?mp q1 "Suc m"] Suc.prems q1(2) show ?case by auto
qed

lemma mempool_new_ok:
  assumes "0 < unat n" "unat n < 2 ^ 32" "0 < uint s" "unat n * unat s \<le> 1024 * 1024 * 1024"
  shows "\<exists>mp. mempool_new block n s = Inr mp \<and> pool_inv mp {} \<and> tot_entries mp = n \<and> entry_size mp = s
    \<and> pool_begin mp = block"
proof -
  have u: "unat (ucast n :: u32) = unat n" using assms(2) by (simp add: unsigned_ucast_eq take_bit_eq_mod)
  then have "(ucast n :: u32) \<noteq> 0" using assms(1) by (auto simp: unat_eq_0 [symmetric])
  then obtain q where q: "queue_init (ucast n) = Some (q :: int lpqueue)" by (simp add: queue_init_def)
  let ?mp = "\<lparr>tot_entries = n, cur_entries = n, entry_size = s, chunks_queue = Some q, pool_begin = block, pool_end = 0\<rparr>"
  have "same_size (unat n) s q []" using new_queue_same_size [OF q] u assms(4) by simp
  then obtain q' where q': "add_chunks (unat n) block ?mp = Inr (block + int (unat n) * uint s, ?mp\<lparr>chunks_queue := Some q'\<rparr>)"
      "same_size (unat n) s q' (map (\<lambda>i. block + int i * uint s) [0 ..< unat n])"
    using add_chunks_ok [of ?mp "uint s" q "unat n" block 0 "unat n"] by auto
  let ?r = "?mp\<lparr>chunks_queue := Some q', pool_end := block + int (unat n) * uint s - uint s\<rparr>"
  have r: "mempool_new block n s = Inr ?r"
    using assms(2) q q'(1) by (simp add: mempool_new_def)
  have "chunks ?r = map (\<lambda>i. block + int i * uint s) [0 ..< unat n]" by (simp add: chunks_def)
  then have "pool_inv ?r {}"
    using assms q'(2) distinct_chunks [of ?r]
    unfolding pool_inv_def by (auto simp: of_nat_diff algebra_simps intro!: exI [of _ "chunks ?r"])
  with r show ?thesis by auto
qed

lemma chunk_in_block:
  assumes "pool_inv mp used" "c \<in> set (chunks mp)"
  shows "pool_begin mp \<le> c \<and> c \<le> pool_end mp"
proof -
  obtain i where i: "c = pool_begin mp + int i * uint (entry_size mp)" "i < unat (tot_entries mp)"
    using assms(2) unfolding chunks_def by force
  have "i \<le> unat (tot_entries mp) - 1" using i(2) by simp
  then have "int i \<le> int (unat (tot_entries mp) - 1)" by (simp only: of_nat_le_iff)
  then have "int i * uint (entry_size mp) \<le> int (unat (tot_entries mp) - 1) * uint (entry_size mp)"
    by (rule mult_right_mono) simp
  then show ?thesis using assms(1) i(1) by (auto simp: pool_inv_def)
qed

lemma pool_inv_card: "pool_inv mp used \<Longrightarrow> unat (cur_entries mp) + card used = unat (tot_entries mp) \<and> finite used"
proof -
  assume inv: "pool_inv mp used"
  then obtain free where f: "distinct free" "set free \<union> used = set (chunks mp)" "set free \<inter> used = {}"
      "unat (cur_entries mp) = length free" "0 < uint (entry_size mp)" by (auto simp: pool_inv_def)
  have fin: "finite used" using f(2) by (metis finite_Un finite_set)
  then have "card (set free) + card used = card (set (chunks mp))"
    using f(2,3) by (metis card_Un_disjoint finite_set)
  then show ?thesis
    using f fin distinct_card [OF distinct_chunks [OF f(5)]] by (simp add: distinct_card chunks_def)
qed

lemma alloc_ok:
  assumes "pool_inv mp used" "card used < unat (tot_entries mp)"
  shows "\<exists>c mp'. mempool_alloc mp = Inr (c, mp') \<and> c \<in> set (chunks mp) - used \<and> pool_inv mp' (insert c used)
    \<and> chunks mp' = chunks mp \<and> tot_entries mp' = tot_entries mp"
proof -
  obtain q free where f: "chunks_queue mp = Some q" "same_size (unat (tot_entries mp)) (entry_size mp) q free"
      "distinct free" "set free \<union> used = set (chunks mp)" "set free \<inter> used = {}" "unat (cur_entries mp) = length free"
    using assms(1) by (auto simp: pool_inv_def)
  have "0 < unat (cur_entries mp)" using pool_inv_card [OF assms(1)] assms(2) by auto
  then obtain c cs where cs: "free = c # cs" using f(6) by (cases free) auto
  obtain q' where q': "queue_pop q = Inr (Some (Some c, entry_size mp), q')"
      "same_size (unat (tot_entries mp)) (entry_size mp) q' cs"
    using same_size_pop [of "unat (tot_entries mp)" "entry_size mp" q c cs] f(2) cs by auto
  let ?mp = "mp\<lparr>cur_entries := cur_entries mp - 1, chunks_queue := Some q'\<rparr>"
  have c: "c \<in> set (chunks mp) - used" using f(4,5) cs by auto
  then have b: "pool_begin mp \<le> c" "c \<le> pool_end mp" using chunk_in_block [OF assms(1)] by auto
  have cur: "cur_entries mp \<noteq> 0" using \<open>0 < unat (cur_entries mp)\<close> by auto
  then have cur1: "unat (cur_entries mp - 1) = length cs" using f(6) cs by (simp add: unat_minus_one)
  have "mempool_alloc mp = Inr (c, ?mp)"
    using f(1) q'(1) b cur by (simp add: mempool_alloc_def on_queue_def word_neq_0_conv)
  moreover have "chunks ?mp = chunks mp" by (simp add: chunks_def)
  moreover have "pool_inv ?mp (insert c used)"
    using assms(1) f(3,4,5) q'(2) cur1 cs unfolding pool_inv_def \<open>chunks ?mp = chunks mp\<close> by auto
  ultimately show ?thesis using c by auto
qed

lemma free_ok:
  assumes "pool_inv mp used" "c \<in> used"
  shows "\<exists>mp'. mempool_free mp c = Inr mp' \<and> pool_inv mp' (used - {c})
    \<and> chunks mp' = chunks mp \<and> tot_entries mp' = tot_entries mp"
proof -
  obtain q free where f: "chunks_queue mp = Some q" "same_size (unat (tot_entries mp)) (entry_size mp) q free"
      "distinct free" "set free \<union> used = set (chunks mp)" "set free \<inter> used = {}" "unat (cur_entries mp) = length free"
    using assms(1) by (auto simp: pool_inv_def)
  note card = pool_inv_card [OF assms(1)]
  then have "0 < card used" using assms(2) by (metis card_gt_0_iff empty_iff)
  then have less: "unat (cur_entries mp) < unat (tot_entries mp)" using card by simp
  then obtain q' where q': "queue_prepend c (entry_size mp) q = Inr (True, q')"
      "same_size (unat (tot_entries mp)) (entry_size mp) q' (c # free)"
    using queue_prepend_room [of "unat (tot_entries mp)" q "map (\<lambda>v. (v, entry_size mp)) free" c "entry_size mp"] f(2,6)
    by (auto simp: same_size_def)
  let ?mp = "mp\<lparr>cur_entries := cur_entries mp + 1, chunks_queue := Some q'\<rparr>"
  have b: "pool_begin mp \<le> c" "c \<le> pool_end mp" using chunk_in_block [OF assms(1)] f(4) assms(2) by auto
  have cur: "unat (cur_entries mp + 1) = length (c # free)"
    using less f(6) unat_u64_Suc [of "cur_entries mp"] unat_u64_less [of "tot_entries mp"] by simp
  have "mempool_free mp c = Inr ?mp"
    using f(1) q'(1) b less by (simp add: mempool_free_def on_queue_def word_less_nat_alt)
  moreover have "chunks ?mp = chunks mp" by (simp add: chunks_def)
  moreover have "pool_inv ?mp (used - {c})"
  proof -
    have "distinct (c # free)" "set (c # free) \<union> (used - {c}) = set (chunks mp)" "set (c # free) \<inter> (used - {c}) = {}"
      using f(3,4,5) assms(2) by auto
    then show ?thesis
      using assms(1) q'(2) cur unfolding pool_inv_def \<open>chunks ?mp = chunks mp\<close>
      by (auto simp del: distinct.simps set_simps length_Cons intro!: exI [of _ "c # free"])
  qed
  ultimately show ?thesis by auto
qed

section \<open>No chunk has two owners\<close>

text \<open>A client asks for a chunk or gives back the \<open>k\<close>-th of those it holds.\<close>

datatype pool_op = Alloc | Free nat

fun pool_run :: "pool_op list \<Rightarrow> memory_pool \<Rightarrow> int list \<Rightarrow> (memory_pool \<times> int list) res" where
  "pool_run [] mp held = Inr (mp, held)"
| "pool_run (Alloc # ops) mp held =
     rbind (mempool_alloc mp) (\<lambda>(c, mp). pool_run ops mp (c # held))"
| "pool_run (Free k # ops) mp held =
     (if k < length held
      then rbind (mempool_free mp (held ! k)) (\<lambda>mp. pool_run ops mp (take k held @ drop (Suc k) held))
      else pool_run ops mp held)"

text \<open>A client of a pool of \<open>n\<close> chunks that holds \<open>k\<close> never asks for more than there are.\<close>

fun fits :: "nat \<Rightarrow> nat \<Rightarrow> pool_op list \<Rightarrow> bool" where
  "fits n k [] = True"
| "fits n k (Alloc # ops) = (k < n \<and> fits n (Suc k) ops)"
| "fits n k (Free j # ops) = fits n (if j < k then k - 1 else k) ops"

lemma remove_nth:
  assumes "k < length xs" "distinct xs"
  shows "distinct (take k xs @ drop (Suc k) xs) \<and> set (take k xs @ drop (Suc k) xs) = set xs - {xs ! k}
    \<and> length (take k xs @ drop (Suc k) xs) = length xs - 1"
proof -
  have "xs = take k xs @ xs ! k # drop (Suc k) xs" using assms(1) by (rule id_take_nth_drop)
  moreover from this have "distinct (take k xs @ xs ! k # drop (Suc k) xs)" using assms(2) by simp
  ultimately have "set xs = insert (xs ! k) (set (take k xs @ drop (Suc k) xs))"
    by (metis Un_insert_right list.simps(15) set_append)
  moreover have "xs ! k \<notin> set (take k xs @ drop (Suc k) xs)" "distinct (take k xs @ drop (Suc k) xs)"
    using \<open>distinct (take k xs @ xs ! k # drop (Suc k) xs)\<close> by auto
  ultimately show ?thesis using assms(1) by auto
qed

lemma pool_run_ok:
  "pool_inv mp (set held) \<Longrightarrow> distinct held \<Longrightarrow> set held \<subseteq> set (chunks mp) \<Longrightarrow> fits (unat (tot_entries mp)) (length held) ops \<Longrightarrow>
     \<exists>mp' held'. pool_run ops mp held = Inr (mp', held') \<and> pool_inv mp' (set held') \<and> distinct held'
       \<and> set held' \<subseteq> set (chunks mp) \<and> tot_entries mp' = tot_entries mp"
proof (induction ops arbitrary: mp held)
  case (Cons oper ops)
  show ?case
  proof (cases oper)
    case Alloc
    then have "card (set held) < unat (tot_entries mp)" using Cons.prems(2,4) by (simp add: distinct_card)
    then obtain c mp1 where 1: "mempool_alloc mp = Inr (c, mp1)" "c \<in> set (chunks mp) - set held"
        "pool_inv mp1 (insert c (set held))" "chunks mp1 = chunks mp" "tot_entries mp1 = tot_entries mp"
      using alloc_ok [OF Cons.prems(1)] by blast
    have "\<exists>mp' held'. pool_run ops mp1 (c # held) = Inr (mp', held') \<and> pool_inv mp' (set held') \<and> distinct held'
       \<and> set held' \<subseteq> set (chunks mp1) \<and> tot_entries mp' = tot_entries mp1"
      by (rule Cons.IH) (use 1 Cons.prems Alloc in auto)
    then show ?thesis using 1 Alloc by auto
  next
    case (Free k)
    show ?thesis
    proof (cases "k < length held")
      case True
      let ?rest = "take k held @ drop (Suc k) held"
      note rest = remove_nth [OF True Cons.prems(2)]
      obtain mp1 where 1: "mempool_free mp (held ! k) = Inr mp1" "pool_inv mp1 (set held - {held ! k})"
          "chunks mp1 = chunks mp" "tot_entries mp1 = tot_entries mp"
        using free_ok [OF Cons.prems(1) nth_mem [OF True]] by blast
      have "\<exists>mp' held'. pool_run ops mp1 ?rest = Inr (mp', held') \<and> pool_inv mp' (set held') \<and> distinct held'
         \<and> set held' \<subseteq> set (chunks mp1) \<and> tot_entries mp' = tot_entries mp1"
        by (rule Cons.IH) (use 1 rest Cons.prems Free True in auto)
      then show ?thesis using 1 Free True by auto
    next
      case False
      then show ?thesis using Cons Free by auto
    qed
  qed
qed auto

text \<open>C18. A client that never asks for more chunks than a new pool has gets every request served
  without a fault, whatever it gives back in between; the chunks it holds are different chunks of the
  pool, and the pool counts the others as free.\<close>

theorem mempool_chunks_unshared:
  assumes "0 < unat n" "unat n < 2 ^ 32" "0 < uint s" "unat n * unat s \<le> 1024 * 1024 * 1024"
    and "fits (unat n) 0 ops"
  shows "\<exists>mp mp' held. mempool_new block n s = Inr mp \<and> pool_run ops mp [] = Inr (mp', held)
    \<and> distinct held \<and> set held \<subseteq> set (chunks mp) \<and> unat (cur_entries mp') + length held = unat n"
proof -
  obtain mp where mp: "mempool_new block n s = Inr mp" "pool_inv mp {}" "tot_entries mp = n"
    using mempool_new_ok [OF assms(1-4)] by blast
  obtain mp' held where r: "pool_run ops mp [] = Inr (mp', held)" "pool_inv mp' (set held)" "distinct held"
      "set held \<subseteq> set (chunks mp)" "tot_entries mp' = tot_entries mp"
    using pool_run_ok [of mp "[]" ops] mp(2,3) assms(5) by auto
  have "unat (cur_entries mp') + length held = unat n"
    using pool_inv_card [OF r(2)] r(3,5) mp(3) by (simp add: distinct_card)
  then show ?thesis using mp(1) r by blast
qed

theorem mempool_chunks_unshared_witness:
  "\<exists>mp mp' held. mempool_new 4096 2 64 = Inr mp \<and> pool_run [Alloc, Alloc, Free 1, Alloc] mp [] = Inr (mp', held)
    \<and> distinct held \<and> set held \<subseteq> set (chunks mp) \<and> unat (cur_entries mp') + length held = unat (2 :: u64)"
  by (rule mempool_chunks_unshared) simp_all

end
