(* ===== verification/RingBallot.thy ===== *)
theory RingBallot
  imports Prelude
begin

text \<open>
  Ballots and command ids of \<^verbatim>\<open>ring_paxos\<close> (\<^verbatim>\<open>lib/util.c\<close>,
  \<^verbatim>\<open>include/lp_utils.h\<close>, \<^verbatim>\<open>include/paxos_config.h\<close>). A ballot has a
  16-bit sequence number above the 8-bit id of its acceptor and the 8-bit incarnation. Command ids are
  structs of three integers; the macros on them are definitions.
\<close>

type_synonym ring_ballot = u32
type_synonym ring_iid = u64

text \<open>The largest message: \<^verbatim>\<open>9000 - 16\<close> bytes of payload, less the header.\<close>

definition MAX_TCP_PAYLOAD :: nat where "MAX_TCP_PAYLOAD = 9000 - 16"

definition MAX_MESSAGE_SIZE :: nat where "MAX_MESSAGE_SIZE = MAX_TCP_PAYLOAD - 4"

section \<open>Command ids\<close>

record command_id =
  mcaster_id :: u8
  mcaster_incarnation :: u8
  cmd_seqnum :: u16

definition CMD_KEY_EQUALS :: "command_id \<Rightarrow> command_id \<Rightarrow> bool" where
  "CMD_KEY_EQUALS x y \<longleftrightarrow> mcaster_id x = mcaster_id y \<and> mcaster_incarnation x = mcaster_incarnation y
     \<and> cmd_seqnum x = cmd_seqnum y"

definition CMD_KEY_IS_NULL :: "command_id \<Rightarrow> bool" where
  "CMD_KEY_IS_NULL x \<longleftrightarrow> mcaster_id x = 0 \<and> mcaster_incarnation x = 0 \<and> cmd_seqnum x = 0"

definition clear_cmd_key :: "command_id \<Rightarrow> command_id" where
  "clear_cmd_key k = k\<lparr>mcaster_id := 0, mcaster_incarnation := 0, cmd_seqnum := 0\<rparr>"

lemma CMD_KEY_EQUALS_iff [simp]: "CMD_KEY_EQUALS x y \<longleftrightarrow> x = y"
  by (cases x, cases y) (auto simp: CMD_KEY_EQUALS_def)

lemma CMD_KEY_clear [simp]: "CMD_KEY_IS_NULL (clear_cmd_key k)"
  by (simp add: CMD_KEY_IS_NULL_def clear_cmd_key_def)

section \<open>Ballots\<close>

definition make_first_ballot :: "u8 \<Rightarrow> u32 \<Rightarrow> ring_ballot" where
  "make_first_ballot acc_id incarnation = push_bit 16 1 + push_bit 8 (ucast acc_id) + incarnation"

text \<open>\<^verbatim>\<open>new_seq\<close> is a 16-bit variable, so the increment wraps.\<close>

definition raise_ballot :: "ring_ballot \<Rightarrow> ring_ballot \<Rightarrow> ring_ballot" where
  "raise_ballot current_b ballot_to_beat =
     (let new_b = current_b AND 0xFFFF;
          new_seq = (ucast (drop_bit 16 ballot_to_beat AND 0xFFFF) :: u16);
          new_seq = new_seq + 1
      in new_b + push_bit 16 (ucast new_seq))"

definition increment_ballot :: "ring_ballot \<Rightarrow> ring_ballot" where
  "increment_ballot b =
     (let new_b = b AND 0xFFFF;
          new_seqnum = (ucast (drop_bit 16 b AND 0xFFFF) :: u16);
          new_seqnum = new_seqnum + 1
      in new_b + push_bit 16 (ucast new_seqnum))"

definition is_my_ballot :: "ring_ballot \<Rightarrow> u8 \<Rightarrow> u32 \<Rightarrow> bool" where
  "is_my_ballot b acc_id incarnation \<longleftrightarrow>
     (let identificator = (ucast (push_bit 8 (ucast acc_id :: u32) + incarnation) :: u16)
      in b AND 0xFFFF = ucast identificator)"

text \<open>Their arithmetic: the low half and the high half of a ballot.\<close>

definition seqnum :: "ring_ballot \<Rightarrow> nat" where
  "seqnum b = unat b div 65536"

definition owner :: "ring_ballot \<Rightarrow> nat" where
  "owner b = unat b mod 65536"

lemma mask_65535: "(0xFFFF :: u32) = mask 16"
  by (simp add: mask_eq_exp_minus_1)

lemma unat_and_65535: "unat (b AND 0xFFFF :: u32) = unat b mod 65536"
  using unat_and_mask [of b 16] by (simp add: mask_65535)

lemma unat_drop_16: "unat (drop_bit 16 b :: u32) = unat b div 65536"
  by (simp add: drop_bit_eq_div unat_div)

lemma seqnum_less: "seqnum b < 65536"
  using unat_u32_less [of b] by (simp add: seqnum_def less_mult_imp_div_less)

lemma unat_push_16: "unat (push_bit 16 (ucast (w :: u16)) :: u32) = 65536 * unat w"
  using unat_u16_less [of w] by (simp add: push_bit_eq_mult unat_word_ariths unat_ucast_u16)

lemma unat_push_8: "unat (push_bit 8 (ucast (w :: u8)) :: u32) = 256 * unat w"
  using unat_u8_less [of w] by (simp add: push_bit_eq_mult unat_word_ariths unat_ucast_u8)

lemma raise_ballot_unat:
  "unat (raise_ballot b c) = owner b + 65536 * (Suc (seqnum c) mod 65536)"
proof -
  let ?s = "(ucast (drop_bit 16 c AND 0xFFFF) :: u16) + 1"
  have "unat (ucast (drop_bit 16 c AND 0xFFFF :: u32) :: u16) = seqnum c"
    using seqnum_less [of c]
    by (simp add: unsigned_ucast_eq take_bit_eq_mod unat_and_65535 unat_drop_16 seqnum_def)
  then have s: "unat ?s = Suc (seqnum c) mod 65536" by (simp add: unat_word_ariths)
  have p: "unat (push_bit 16 (ucast ?s) :: u32) = 65536 * unat ?s"
    by (rule unat_push_16)
  have "owner b < 65536" by (simp add: owner_def)
  moreover have "unat ?s < 65536" using s by simp
  ultimately have "owner b + 65536 * unat ?s < 2 ^ 32" by simp
  then have "unat (raise_ballot b c) = owner b + 65536 * unat ?s"
    using p unat_and_65535 [of b] by (simp add: raise_ballot_def Let_def unat_word_ariths owner_def)
  then show ?thesis using s by simp
qed

lemma raise_ballot_halves:
  "owner (raise_ballot b c) = owner b" "seqnum (raise_ballot b c) = Suc (seqnum c) mod 65536"
  by (simp_all add: owner_def seqnum_def raise_ballot_unat)

lemma drop_16_seqnum: "drop_bit 16 c = 0xFFFF \<longleftrightarrow> seqnum c = 65535"
  by (simp add: word_unat_eq_iff unat_drop_16 seqnum_def)

lemma increment_is_raise: "increment_ballot b = raise_ballot b b"
  by (simp add: increment_ballot_def raise_ballot_def)

lemma ballot_less: "b < c \<longleftrightarrow> seqnum b < seqnum c \<or> seqnum b = seqnum c \<and> owner b < owner c"
proof -
  have "unat b = 65536 * seqnum b + owner b" "unat c = 65536 * seqnum c + owner c"
    by (simp_all add: seqnum_def owner_def)
  moreover have "owner b < 65536" "owner c < 65536" by (simp_all add: owner_def)
  ultimately show ?thesis unfolding word_less_nat_alt
    by (cases "seqnum b" "seqnum c" rule: linorder_cases) linarith+
qed

lemma is_my_ballot_owner:
  "is_my_ballot b acc_id incarnation \<longleftrightarrow> owner b = (256 * unat acc_id + unat incarnation) mod 65536"
proof -
  have p: "unat (push_bit 8 (ucast acc_id) :: u32) = 256 * unat acc_id" by (rule unat_push_8)
  let ?i = "ucast (push_bit 8 (ucast acc_id :: u32) + incarnation) :: u16"
  have "unat ?i = (256 * unat acc_id + unat incarnation) mod 2 ^ 32 mod 65536"
    using p by (simp add: unsigned_ucast_eq take_bit_eq_mod unat_word_ariths)
  then have i: "unat ?i = (256 * unat acc_id + unat incarnation) mod 65536" by (simp add: mod_mod_cancel)
  have "unat (ucast ?i :: u32) = unat ?i" by (rule unat_ucast_u16)
  then have "(b AND 0xFFFF = ucast ?i) \<longleftrightarrow> unat b mod 65536 = unat ?i"
    by (metis unat_and_65535 word_unat_eq_iff)
  then show ?thesis by (simp add: is_my_ballot_def Let_def owner_def i)
qed

lemma make_first_ballot_unat:
  assumes "unat incarnation < 256"
  shows "unat (make_first_ballot acc_id incarnation) = 65536 + 256 * unat acc_id + unat incarnation"
proof -
  have "unat (push_bit 8 (ucast acc_id) :: u32) = 256 * unat acc_id" by (rule unat_push_8)
  moreover have "unat acc_id < 256" by (rule unat_u8_less)
  ultimately show ?thesis using assms by (simp add: make_first_ballot_def unat_word_ariths)
qed

text \<open>C29. Ballots of \<^verbatim>\<open>ring_paxos\<close>: an acceptor recognises its first ballot and every ballot
  it raises, no acceptor recognises a ballot of another, a raised ballot is above the ballot to beat
  unless its 16-bit sequence number was the last one, and then it is below. A raised ballot can be
  lower than the acceptor's own current ballot.\<close>

theorem ring_ballots:
  assumes "unat i < 256" "unat j < 256"
  shows "is_my_ballot (make_first_ballot a i) a i
    \<and> is_my_ballot (raise_ballot b c) a i = is_my_ballot b a i
    \<and> is_my_ballot (increment_ballot b) a i = is_my_ballot b a i
    \<and> (is_my_ballot b a i \<longrightarrow> is_my_ballot b a' j \<longrightarrow> a = a' \<and> i = j)
    \<and> (c < raise_ballot b c \<longleftrightarrow> drop_bit 16 c \<noteq> 0xFFFF)
    \<and> (b < increment_ballot b \<longleftrightarrow> drop_bit 16 b \<noteq> 0xFFFF)
    \<and> (drop_bit 16 c < drop_bit 16 b \<longrightarrow> raise_ballot b c \<le> b)"
proof (intro conjI impI)
  have "256 * unat a + unat i < 65536" using assms(1) unat_u8_less [of a] by linarith
  then have "(65536 + (256 * unat a + unat i)) mod 65536 = (256 * unat a + unat i) mod 65536"
    by (metis mod_add_self1)
  then show "is_my_ballot (make_first_ballot a i) a i"
    using assms(1) by (simp add: is_my_ballot_owner owner_def make_first_ballot_unat add.assoc)
  show "is_my_ballot (raise_ballot b c) a i = is_my_ballot b a i"
    "is_my_ballot (increment_ballot b) a i = is_my_ballot b a i"
    by (simp_all add: is_my_ballot_owner raise_ballot_halves increment_is_raise)
  show "a = a'" "i = j" if "is_my_ballot b a i" "is_my_ballot b a' j"
  proof -
    have "256 * unat a + unat i = 256 * unat a' + unat j"
      using that assms unat_u8_less [of a] unat_u8_less [of a'] by (simp add: is_my_ballot_owner)
    moreover from this have "unat a = unat a'" using assms by linarith
    ultimately have "unat a = unat a'" "unat i = unat j" by simp_all
    then show "a = a'" "i = j" by (simp_all add: word_unat_eq_iff)
  qed
  have up: "c < raise_ballot b c \<longleftrightarrow> drop_bit 16 c \<noteq> 0xFFFF" for b c :: ring_ballot
    using seqnum_less [of c] by (auto simp: ballot_less raise_ballot_halves drop_16_seqnum)
  show "c < raise_ballot b c \<longleftrightarrow> drop_bit 16 c \<noteq> 0xFFFF" by (rule up)
  show "b < increment_ballot b \<longleftrightarrow> drop_bit 16 b \<noteq> 0xFFFF" unfolding increment_is_raise by (rule up)
  assume "drop_bit 16 c < drop_bit 16 b"
  then have "seqnum c < seqnum b" by (simp add: word_less_nat_alt unat_drop_16 seqnum_def)
  then show "raise_ballot b c \<le> b"
    using seqnum_less [of b] by (auto simp: not_less [symmetric] ballot_less raise_ballot_halves)
qed

theorem ring_ballots_witness:
  "is_my_ballot (make_first_ballot 3 7) 3 7
    \<and> is_my_ballot (raise_ballot 0x50307 0x20108) 3 7 = is_my_ballot 0x50307 3 7
    \<and> \<not> (0xFFFF0108 :: ring_ballot) < raise_ballot 0x50307 0xFFFF0108
    \<and> raise_ballot 0x50307 0x20108 \<le> 0x50307"
  using ring_ballots [of 7 7 3 "0x50307" "0x20108" 3] ring_ballots [of 7 7 3 "0x50307" "0xFFFF0108" 3]
  by (simp add: drop_bit_eq_div word_less_nat_alt unat_div)

end
