(* ===== verification/RingTimers.thy ===== *)
theory RingTimers
  imports Timeval
begin

text \<open>
  The timers of \<^verbatim>\<open>ring_paxos\<close> (\<^verbatim>\<open>lib/timers.c\<close>): deadlines on
  \<^verbatim>\<open>struct timeval\<close>. The periodic events are calls of libevent.
\<close>

definition timer_set_timeout :: "timeval \<Rightarrow> timeval \<Rightarrow> timeval" where
  "timer_set_timeout current_time interval =
     (let sec = tv_sec current_time + tv_sec interval;
          tot_usec = tv_usec current_time + tv_usec interval
      in if tot_usec \<ge> 1000000 then Timeval (sec + 1) (tot_usec mod 1000000) else Timeval sec tot_usec)"

definition timer_is_expired :: "timeval \<Rightarrow> timeval \<Rightarrow> bool" where
  "timer_is_expired deadline_time curr_time \<longleftrightarrow>
     tv_sec deadline_time < tv_sec curr_time
     \<or> tv_sec deadline_time = tv_sec curr_time \<and> tv_usec deadline_time < tv_usec curr_time"

lemma set_timeout_usecs:
  assumes "normal_time now" "normal_time interval"
  shows "usecs (timer_set_timeout now interval) = usecs now + usecs interval"
    and "normal_time (timer_set_timeout now interval)"
  using assms mod_second [of "tv_usec now + tv_usec interval"]
  by (auto simp: timer_set_timeout_def usecs_def normal_time_def Let_def)

lemma is_expired_less: "timer_is_expired d t \<longleftrightarrow> d < t"
  by (simp add: timer_is_expired_def less_timeval_def)

text \<open>A deadline is exactly the interval after the current time, and it is expired exactly when
  it lies before the time it is compared with.\<close>

theorem ring_deadline:
  assumes "normal_time now" "normal_time interval" "normal_time t"
  shows "timer_is_expired (timer_set_timeout now interval) t \<longleftrightarrow> usecs now + usecs interval < usecs t"
  using set_timeout_usecs [OF assms(1,2)] less_usecs [OF _ assms(3)] by (simp add: is_expired_less)

theorem ring_deadline_witness:
  "timer_is_expired (timer_set_timeout (Timeval 7 995000) (Timeval 0 10000)) (Timeval 8 5001)
    \<longleftrightarrow> usecs (Timeval 7 995000) + usecs (Timeval 0 10000) < usecs (Timeval 8 5001)"
  by (rule ring_deadline) (simp_all add: normal_time_def)

end
