(* ===== verification/DeliveryQueue.thy ===== *)
theory DeliveryQueue
  imports RingBallot RingTimers
begin

text \<open>
  The delivery queue of the learners of \<^verbatim>\<open>ring_paxos\<close>
  (\<^verbatim>\<open>lib/delivery_queue.c\<close>). A learner hears of an instance in two messages, in any order: a
  command map with the key and the value of a command, and an acceptance with the key that was chosen.
  A circular table keeps what is known of the instances after the last delivered one; an instance is
  delivered when both are known and agree. The tables are functions on the index
  \<^verbatim>\<open>inst_number % queue_size\<close>; the callbacks are the lists of their calls.
\<close>

section \<open>State\<close>

record cmd_slot =
  slot_size :: nat
  slot_data :: bytes

record dq_entry =
  inst_number :: ring_iid
  cmd_key :: command_id
  has_mapping :: bool
  has_final_value :: bool
  cmdmap_request_timeout :: timeval
  finval_request_timeout :: timeval

record delivery_queue =
  dq_size :: u64
  queue_table :: "u64 \<Rightarrow> dq_entry"
  cmd_slot_table :: "u64 \<Rightarrow> cmd_slot"
  highest_delivered :: ring_iid
  highest_seen_closed :: ring_iid
  highest_seen_cmdmap :: ring_iid
  request_timeout :: timeval
  has_post_check :: bool
  dq_initialized :: bool
  late_start :: bool

datatype dq_request = MissingCmdmap ring_iid | MissingAcceptance ring_iid | PostCheck

section \<open>Entries\<close>

definition dq_clear_entry :: "dq_entry \<Rightarrow> dq_entry" where
  "dq_clear_entry e = e\<lparr>inst_number := 0, cmd_key := clear_cmd_key (cmd_key e), has_mapping := False,
     has_final_value := False, cmdmap_request_timeout := Timeval 0 0, finval_request_timeout := Timeval 0 0\<rparr>"

definition dq_delayed_start :: "delivery_queue \<Rightarrow> delivery_queue" where
  "dq_delayed_start dq = dq\<lparr>late_start := True\<rparr>"

definition put_entry :: "ring_iid \<Rightarrow> dq_entry \<Rightarrow> delivery_queue \<Rightarrow> delivery_queue" where
  "put_entry i e dq = dq\<lparr>queue_table := (queue_table dq)(i mod dq_size dq := e)\<rparr>"

text \<open>\<^verbatim>\<open>dq_get_entry\<close> also writes the number of the instance into the entry. A table of size 0
  would be a division by zero.\<close>

definition dq_get_entry :: "delivery_queue \<Rightarrow> ring_iid \<Rightarrow> (dq_entry \<times> delivery_queue) res" where
  "dq_get_entry dq i =
     rassert (dq_initialized dq) (
     rassert (i > 0) (
     rassert (i \<le> highest_delivered dq + dq_size dq) (
     rguard (dq_size dq \<noteq> 0) (
     let e = queue_table dq (i mod dq_size dq) in
     rassert (inst_number e = i \<or> inst_number e = 0) (
     let e = e\<lparr>inst_number := i\<rparr> in Inr (e, put_entry i e dq))))))"

definition dq_get_slot :: "delivery_queue \<Rightarrow> dq_entry \<Rightarrow> cmd_slot" where
  "dq_get_slot dq e = cmd_slot_table dq (inst_number e mod dq_size dq)"

text \<open>\<^verbatim>\<open>cs->size = cmd_size; memcpy(cs->data, cmd_value, cmd_size)\<close>: the data of a slot have
  \<^verbatim>\<open>MAX_MESSAGE_SIZE\<close> bytes.\<close>

definition save_value :: "delivery_queue \<Rightarrow> dq_entry \<Rightarrow> bytes \<Rightarrow> delivery_queue res" where
  "save_value dq e v =
     rbind (mwrite (slot_data (dq_get_slot dq e)) 0 v) (\<lambda>d.
       Inr (dq\<lparr>cmd_slot_table := (cmd_slot_table dq)(inst_number e mod dq_size dq := \<lparr>slot_size = length v, slot_data = d\<rparr>)\<rparr>))"

section \<open>Delivery\<close>

text \<open>
  \<^verbatim>\<open>dq_deliver_loop\<close>: each turn clears a deliverable entry, so the loop ends after at most as
  many turns as there are deliverable entries. The result has the delivered values in order.
\<close>

definition deliverable :: "delivery_queue \<Rightarrow> u64 set" where
  "deliverable dq = {i. has_mapping (queue_table dq i) \<and> has_final_value (queue_table dq i)}"

lemma deliverable_get_entry: "dq_get_entry dq i = Inr (e, dq') \<Longrightarrow> deliverable dq' = deliverable dq
    \<and> dq_size dq' = dq_size dq \<and> queue_table dq' (i mod dq_size dq) = e"
  by (auto simp: dq_get_entry_def res_eq_Inr Let_def put_entry_def deliverable_def split: if_splits)

lemma deliverable_cleared:
  assumes "dq_get_entry dq i = Inr (e, dq')" "has_mapping e \<and> has_final_value e"
  shows "card (deliverable (put_entry i (dq_clear_entry e) dq')) < card (deliverable dq)"
proof (rule psubset_card_mono)
  note g = deliverable_get_entry [OF assms(1)]
  have "i mod dq_size dq' \<in> deliverable dq'"
    using conjunct2 [OF g] assms(2) by (simp add: deliverable_def)
  moreover have "deliverable (put_entry i (dq_clear_entry e) dq') = deliverable dq' - {i mod dq_size dq'}"
    by (auto simp: deliverable_def put_entry_def dq_clear_entry_def split: if_splits)
  ultimately show "deliverable (put_entry i (dq_clear_entry e) dq') \<subset> deliverable dq" using g by auto
qed simp

lemma deliverable_hd [simp]: "deliverable (dq\<lparr>highest_delivered := x\<rparr>) = deliverable dq"
  by (simp add: deliverable_def)

function dq_deliver_loop :: "delivery_queue \<Rightarrow> (delivery_queue \<times> bytes list) res" where
  "dq_deliver_loop dq =
     rassert (dq_initialized dq) (
     rbind (dq_get_entry dq (highest_delivered dq + 1)) (\<lambda>r.
     if has_mapping (fst r) \<and> has_final_value (fst r)
     then rbind (mread (slot_data (dq_get_slot (snd r) (fst r))) 0 (slot_size (dq_get_slot (snd r) (fst r)))) (\<lambda>v.
          rbind (dq_deliver_loop ((put_entry (highest_delivered dq + 1) (dq_clear_entry (fst r)) (snd r))
              \<lparr>highest_delivered := highest_delivered dq + 1\<rparr>)) (\<lambda>(dq, vs).
            Inr (dq, v # vs)))
     else Inr (snd r, [])))"
  by pat_completeness auto

termination
  by (relation "measure (\<lambda>dq. card (deliverable dq))") (auto intro!: deliverable_cleared)

declare dq_deliver_loop.simps [simp del]

section \<open>Messages\<close>

text \<open>The common start of the two handlers: the delayed start, then an instance outside the window is
  ignored.\<close>

definition apply_late_start :: "delivery_queue \<Rightarrow> ring_iid \<Rightarrow> delivery_queue" where
  "apply_late_start dq i = (if late_start dq then dq\<lparr>highest_delivered := i - 1, late_start := False\<rparr> else dq)"

definition delivery_queue_handle_command_map ::
  "delivery_queue \<Rightarrow> ring_iid \<Rightarrow> command_id \<Rightarrow> bytes \<Rightarrow> (delivery_queue \<times> bytes list) res" where
  "delivery_queue_handle_command_map dq i key v =
     rassert (dq_initialized dq) (
     let dq = apply_late_start dq i in
     if i \<ge> highest_delivered dq + dq_size dq then Inr (dq, [])
     else if i \<le> highest_delivered dq then Inr (dq, [])
     else
       let dq = (if i > highest_seen_cmdmap dq then dq\<lparr>highest_seen_cmdmap := i\<rparr> else dq) in
       rbind (dq_get_entry dq i) (\<lambda>(e, dq).
       rassert (inst_number e = i) (
       if has_final_value e \<and> has_mapping e then Inr (dq, [])
       else if has_mapping e
       then if CMD_KEY_EQUALS key (cmd_key e)
            then rassert (slot_size (dq_get_slot dq e) = length v) (
                 rbind (mread (slot_data (dq_get_slot dq e)) 0 (length v)) (\<lambda>w.
                 rassert (v = w) (Inr (dq, []))))
            else rbind (save_value dq e v) (\<lambda>dq. Inr (put_entry i (e\<lparr>cmd_key := key\<rparr>) dq, []))
       else if has_final_value e
       then if CMD_KEY_EQUALS key (cmd_key e)
            then rbind (save_value dq e v) (\<lambda>dq. dq_deliver_loop (put_entry i (e\<lparr>has_mapping := True\<rparr>) dq))
            else Inr (dq, [])
       else rbind (save_value dq e v) (\<lambda>dq.
            Inr (put_entry i (e\<lparr>cmd_key := key, has_mapping := True\<rparr>) dq, [])))))"

definition delivery_queue_handle_acceptance ::
  "delivery_queue \<Rightarrow> ring_iid \<Rightarrow> command_id \<Rightarrow> (delivery_queue \<times> bytes list) res" where
  "delivery_queue_handle_acceptance dq i key =
     rassert (dq_initialized dq) (
     let dq = apply_late_start dq i;
         dq = (if i > highest_seen_closed dq then dq\<lparr>highest_seen_closed := i\<rparr> else dq) in
     if i \<ge> highest_delivered dq + dq_size dq then Inr (dq, [])
     else if i \<le> highest_delivered dq then Inr (dq, [])
     else
       rbind (dq_get_entry dq i) (\<lambda>(e, dq).
       let same_key = CMD_KEY_EQUALS (cmd_key e) key in
       if has_final_value e \<and> has_mapping e then rassert same_key (Inr (dq, []))
       else if has_mapping e
       then if same_key
            then dq_deliver_loop (put_entry i (e\<lparr>has_final_value := True\<rparr>) dq)
            else Inr (put_entry i (e\<lparr>has_mapping := False, cmd_key := key\<rparr>) dq, [])
       else if has_final_value e then rassert (CMD_KEY_EQUALS (cmd_key e) key) (Inr (dq, []))
       else Inr (put_entry i (e\<lparr>cmd_key := key, has_final_value := True\<rparr>) dq, [])))"

section \<open>The periodic check\<close>

text \<open>One turn of the loop of \<^verbatim>\<open>dq_periodic_check\<close>; None ends the loop.\<close>

definition check_entry :: "timeval \<Rightarrow> ring_iid \<Rightarrow> delivery_queue \<Rightarrow> (delivery_queue \<times> dq_request list) option res" where
  "check_entry now i dq =
     (if i \<ge> highest_delivered dq + dq_size dq then Inr None
      else rbind (dq_get_entry dq i) (\<lambda>(e, dq).
        rassert (inst_number e = i) (
        if has_mapping e \<and> has_final_value e then Inr (Some (dq, []))
        else
          let (e, r1) =
            (if \<not> has_mapping e \<and> (tv_sec (cmdmap_request_timeout e) = 0 \<and> tv_usec (cmdmap_request_timeout e) = 0
                \<or> timer_is_expired (cmdmap_request_timeout e) now)
             then (e\<lparr>cmdmap_request_timeout := timer_set_timeout now (request_timeout dq)\<rparr>, [MissingCmdmap i])
             else (e, []));
            (e, r2) =
            (if i < highest_seen_closed dq \<and> (tv_sec (finval_request_timeout e) \<noteq> 0 \<and> tv_usec (finval_request_timeout e) \<noteq> 0
                \<or> timer_is_expired (finval_request_timeout e) now)
             then (e\<lparr>finval_request_timeout := timer_set_timeout now (request_timeout dq)\<rparr>, [MissingAcceptance i])
             else (e, []))
          in Inr (Some (put_entry i e dq, r1 @ r2)))))"

fun check_entries :: "timeval \<Rightarrow> ring_iid list \<Rightarrow> delivery_queue \<Rightarrow> (delivery_queue \<times> dq_request list) res" where
  "check_entries now [] dq = Inr (dq, [])"
| "check_entries now (i # is) dq =
     rbind (check_entry now i dq) (\<lambda>r. case r of
       None \<Rightarrow> Inr (dq, [])
     | Some (dq, rs) \<Rightarrow> rbind (check_entries now is dq) (\<lambda>(dq, rs'). Inr (dq, rs @ rs')))"

definition dq_periodic_check :: "timeval \<Rightarrow> delivery_queue \<Rightarrow> (delivery_queue \<times> dq_request list) res" where
  "dq_periodic_check now dq =
     rassert (dq_initialized dq) (
     let upper_limit = (if highest_seen_closed dq > highest_seen_cmdmap dq then highest_seen_closed dq
                        else highest_seen_cmdmap dq) in
     rbind (check_entries now (map word_of_nat [unat (highest_delivered dq + 1) ..< Suc (unat upper_limit)]) dq)
       (\<lambda>(dq, rs). Inr (dq, rs @ (if has_post_check dq then [PostCheck] else []))))"

section \<open>Initialization\<close>

definition zero_entry :: dq_entry where
  "zero_entry = \<lparr>inst_number = 0, cmd_key = \<lparr>mcaster_id = 0, mcaster_incarnation = 0, cmd_seqnum = 0\<rparr>,
     has_mapping = False, has_final_value = False, cmdmap_request_timeout = Timeval 0 0,
     finval_request_timeout = Timeval 0 0\<rparr>"

definition delivery_queue_init :: "u64 \<Rightarrow> bool \<Rightarrow> delivery_queue" where
  "delivery_queue_init working_set_size pc_cb =
     \<lparr>dq_size = working_set_size, queue_table = (\<lambda>_. dq_clear_entry zero_entry),
      cmd_slot_table = (\<lambda>_. \<lparr>slot_size = 0, slot_data = replicate MAX_MESSAGE_SIZE 0\<rparr>),
      highest_delivered = 0, highest_seen_closed = 0, highest_seen_cmdmap = 0,
      request_timeout = Timeval 0 10000, has_post_check = pc_cb, dq_initialized = True, late_start = False\<rparr>"

end
