(* ===== verification/DeliveryQueueSpec.thy ===== *)
theory DeliveryQueueSpec
  imports DeliveryQueue
begin

text \<open>
  What the delivery queue promises: with messages that agree on the chosen key of an instance and on
  the value of a key, it never fails an assertion and delivers the instances in order, each with the
  value that was mapped to its chosen key; and the case where it forgets a chosen key.
\<close>

section \<open>Invariant\<close>

text \<open>The command maps \<open>M\<close> and the acceptances \<open>A\<close> that were sent.\<close>

type_synonym cmdmaps = "(ring_iid \<times> command_id \<times> bytes) set"
type_synonym acceptances = "(ring_iid \<times> command_id) set"

definition consistent :: "cmdmaps \<Rightarrow> acceptances \<Rightarrow> bool" where
  "consistent M A \<longleftrightarrow>
     (\<forall>i k k'. (i, k) \<in> A \<longrightarrow> (i, k') \<in> A \<longrightarrow> k = k') \<and> (\<forall>i k v v'. (i, k, v) \<in> M \<longrightarrow> (i, k, v') \<in> M \<longrightarrow> v = v')
     \<and> (\<forall>i k v. (i, k, v) \<in> M \<longrightarrow> 0 < unat i \<and> unat i < 2 ^ 62 \<and> length v \<le> MAX_MESSAGE_SIZE)"

lemma consistentD:
  assumes "consistent M A"
  shows "(i, k) \<in> A \<Longrightarrow> (i, k') \<in> A \<Longrightarrow> k = k'" "(i, k, v) \<in> M \<Longrightarrow> (i, k, v') \<in> M \<Longrightarrow> v = v'"
    "(i, k, v) \<in> M \<Longrightarrow> 0 < unat i \<and> unat i < 2 ^ 62 \<and> length v \<le> MAX_MESSAGE_SIZE"
  using assms unfolding consistent_def by blast+

definition stored :: "cmd_slot \<Rightarrow> bytes \<Rightarrow> bool" where
  "stored cs v \<longleftrightarrow> slot_size cs = length v \<and> take (length v) (slot_data cs) = v"

definition knows :: "cmdmaps \<Rightarrow> acceptances \<Rightarrow> dq_entry \<Rightarrow> cmd_slot \<Rightarrow> bool" where
  "knows M A e cs \<longleftrightarrow> (has_final_value e \<longrightarrow> (inst_number e, cmd_key e) \<in> A)
     \<and> (has_mapping e \<longrightarrow> (\<exists>v. (inst_number e, cmd_key e, v) \<in> M \<and> stored cs v))"

definition entry_ok :: "cmdmaps \<Rightarrow> acceptances \<Rightarrow> nat \<Rightarrow> nat \<Rightarrow> nat \<Rightarrow> dq_entry \<Rightarrow> cmd_slot \<Rightarrow> bool" where
  "entry_ok M A n h idx e cs \<longleftrightarrow> length (slot_data cs) = MAX_MESSAGE_SIZE \<and> knows M A e cs
     \<and> (if inst_number e = 0 then \<not> has_mapping e \<and> \<not> has_final_value e
        else h < unat (inst_number e) \<and> unat (inst_number e) \<le> h + n \<and> unat (inst_number e) mod n = idx)"

definition dq_inv :: "cmdmaps \<Rightarrow> acceptances \<Rightarrow> delivery_queue \<Rightarrow> bool" where
  "dq_inv M A dq \<longleftrightarrow> dq_initialized dq \<and> \<not> late_start dq \<and> 0 < unat (dq_size dq) \<and> unat (dq_size dq) < 2 ^ 62
     \<and> unat (highest_delivered dq) < 2 ^ 62
     \<and> (\<forall>idx. unat idx < unat (dq_size dq) \<longrightarrow> entry_ok M A (unat (dq_size dq)) (unat (highest_delivered dq)) (unat idx)
          (queue_table dq idx) (cmd_slot_table dq idx))"

lemma dq_inv_seen [simp]:
  "dq_inv M A (dq\<lparr>highest_seen_closed := x\<rparr>) = dq_inv M A dq"
  "dq_inv M A (dq\<lparr>highest_seen_cmdmap := x\<rparr>) = dq_inv M A dq"
  by (simp_all add: dq_inv_def)

definition in_dq_window :: "delivery_queue \<Rightarrow> ring_iid \<Rightarrow> bool" where
  "in_dq_window dq i \<longleftrightarrow> unat (highest_delivered dq) < unat i
     \<and> unat i \<le> unat (highest_delivered dq) + unat (dq_size dq)"

lemma unat_index: "unat (i mod m) = unat i mod unat m" for i m :: u64
  by (simp add: unat_mod)

lemma unat_window_end:
  "dq_inv M A dq \<Longrightarrow> unat (highest_delivered dq + dq_size dq) = unat (highest_delivered dq) + unat (dq_size dq)"
  by (auto simp: dq_inv_def unat_word_ariths)

lemma window_entry:
  assumes "dq_inv M A dq" "in_dq_window dq i"
  shows "inst_number (queue_table dq (i mod dq_size dq)) = i \<or> inst_number (queue_table dq (i mod dq_size dq)) = 0"
proof (rule disjCI)
  let ?e = "queue_table dq (i mod dq_size dq)" and ?n = "unat (dq_size dq)" and ?h = "unat (highest_delivered dq)"
  assume ne: "inst_number ?e \<noteq> 0"
  have n: "0 < ?n" using assms(1) by (simp add: dq_inv_def)
  then have "unat (i mod dq_size dq) < ?n" by (simp add: unat_index)
  then have "entry_ok M A ?n ?h (unat i mod ?n) ?e (cmd_slot_table dq (i mod dq_size dq))"
    using assms(1) unfolding dq_inv_def by (metis unat_index)
  then have "?h < unat (inst_number ?e)" "unat (inst_number ?e) \<le> ?h + ?n" "unat (inst_number ?e) mod ?n = unat i mod ?n"
    using ne by (auto simp: entry_ok_def)
  then have "unat (inst_number ?e) = unat i"
    using circular.window_slot_inj [OF circular_mod [OF n], of "Suc ?h" "unat (inst_number ?e)" "unat i"] assms(2)
    by (simp add: in_dq_window_def)
  then show "inst_number ?e = i" by (simp add: word_unat_eq_iff)
qed

lemma index_entry:
  assumes "dq_inv M A dq"
  shows "entry_ok M A (unat (dq_size dq)) (unat (highest_delivered dq)) (unat i mod unat (dq_size dq))
    (queue_table dq (i mod dq_size dq)) (cmd_slot_table dq (i mod dq_size dq))"
proof -
  have "unat (i mod dq_size dq) < unat (dq_size dq)" using assms by (simp add: unat_index dq_inv_def)
  then show ?thesis using assms unfolding dq_inv_def by (metis unat_index)
qed

text \<open>An update of the entry and the slot of an instance of the window.\<close>

definition put_both :: "ring_iid \<Rightarrow> dq_entry \<Rightarrow> cmd_slot \<Rightarrow> delivery_queue \<Rightarrow> delivery_queue" where
  "put_both i e cs dq = dq\<lparr>queue_table := (queue_table dq)(i mod dq_size dq := e),
     cmd_slot_table := (cmd_slot_table dq)(i mod dq_size dq := cs)\<rparr>"

lemma put_entry_both: "put_entry i e dq = put_both i e (cmd_slot_table dq (i mod dq_size dq)) dq"
  by (simp add: put_entry_def put_both_def)

lemma put_both_again [simp]: "put_both i e cs (put_both i e' cs' dq) = put_both i e cs dq"
  by (simp add: put_both_def)

lemma put_both_simps [simp]:
  "dq_size (put_both i e cs dq) = dq_size dq" "highest_delivered (put_both i e cs dq) = highest_delivered dq"
  "highest_seen_closed (put_both i e cs dq) = highest_seen_closed dq"
  "queue_table (put_both i e cs dq) (i mod dq_size dq) = e"
  "cmd_slot_table (put_both i e cs dq) (i mod dq_size dq) = cs"
  "dq_initialized (put_both i e cs dq) = dq_initialized dq"
  by (simp_all add: put_both_def)

lemma put_both_ok:
  assumes "dq_inv M A dq" "in_dq_window dq i" "inst_number e = i" "knows M A e cs"
    and "length (slot_data cs) = MAX_MESSAGE_SIZE"
  shows "dq_inv M A (put_both i e cs dq)"
proof -
  have "i \<noteq> 0" using assms(2) by (auto simp: in_dq_window_def)
  then have "entry_ok M A (unat (dq_size dq)) (unat (highest_delivered dq)) (unat i mod unat (dq_size dq)) e cs"
    using assms by (simp add: entry_ok_def in_dq_window_def)
  then show ?thesis using assms(1) by (auto simp: dq_inv_def put_both_def unat_index)
qed

lemma get_entry_ok:
  assumes "dq_inv M A dq" "in_dq_window dq i"
  shows "\<exists>e cs. dq_get_entry dq i = Inr (e, put_both i e cs dq) \<and> inst_number e = i \<and> knows M A e cs
    \<and> length (slot_data cs) = MAX_MESSAGE_SIZE \<and> dq_inv M A (put_both i e cs dq)
    \<and> dq_get_slot (put_both i e cs dq) e = cs"
proof -
  let ?e = "(queue_table dq (i mod dq_size dq))\<lparr>inst_number := i\<rparr>" and ?cs = "cmd_slot_table dq (i mod dq_size dq)"
  note old = window_entry [OF assms] and ok = index_entry [OF assms(1), of i]
  have k: "knows M A ?e ?cs" "length (slot_data ?cs) = MAX_MESSAGE_SIZE"
    using old ok by (auto simp: entry_ok_def knows_def)
  have "i > 0" "i \<le> highest_delivered dq + dq_size dq"
    using assms(2) unat_window_end [OF assms(1)] by (auto simp: in_dq_window_def word_less_nat_alt word_le_nat_alt)
  moreover have "dq_initialized dq" "dq_size dq \<noteq> 0" using assms(1) by (auto simp: dq_inv_def)
  ultimately have "dq_get_entry dq i = Inr (?e, put_both i ?e ?cs dq)"
    using old by (auto simp: dq_get_entry_def Let_def put_entry_both)
  moreover have "dq_inv M A (put_both i ?e ?cs dq)" using put_both_ok [OF assms _ k] by simp
  ultimately show ?thesis using k
    by (intro exI [of _ ?e] exI [of _ ?cs]) (simp add: dq_get_slot_def)
qed

lemma mwrite_start:
  assumes "length v \<le> length d"
  shows "\<exists>d'. mwrite d 0 v = Inr d' \<and> length d' = length d \<and> take (length v) d' = v"
  using assms by (simp add: mwrite_def)

lemma save_value_ok:
  assumes "inst_number e = i" "dq_get_slot (put_both i e cs dq) e = cs" "length (slot_data cs) = MAX_MESSAGE_SIZE"
    and "length v \<le> MAX_MESSAGE_SIZE"
  shows "\<exists>cs'. save_value (put_both i e cs dq) e v = Inr (put_both i e cs' dq) \<and> stored cs' v
    \<and> length (slot_data cs') = MAX_MESSAGE_SIZE"
proof -
  obtain d where d: "mwrite (slot_data cs) 0 v = Inr d" "length d = MAX_MESSAGE_SIZE" "take (length v) d = v"
    using mwrite_start [of v "slot_data cs"] assms(3,4) by auto
  then show ?thesis using assms(1,2)
    by (intro exI [of _ "\<lparr>slot_size = length v, slot_data = d\<rparr>"]) (simp add: save_value_def stored_def put_both_def)
qed

section \<open>Delivery\<close>

definition dq_backed :: "cmdmaps \<Rightarrow> acceptances \<Rightarrow> ring_iid \<Rightarrow> bytes \<Rightarrow> bool" where
  "dq_backed M A i v \<longleftrightarrow> (\<exists>k. (i, k) \<in> A \<and> (i, k, v) \<in> M)"

definition nth_backed :: "cmdmaps \<Rightarrow> acceptances \<Rightarrow> nat \<Rightarrow> bytes \<Rightarrow> bool" where
  "nth_backed M A n v \<longleftrightarrow> dq_backed M A (word_of_nat n) v"

definition dq_progress :: "cmdmaps \<Rightarrow> acceptances \<Rightarrow> delivery_queue \<Rightarrow> delivery_queue \<Rightarrow> bytes list \<Rightarrow> bool" where
  "dq_progress M A dq dq' vs \<longleftrightarrow>
     unat (highest_delivered dq') = unat (highest_delivered dq) + length vs
     \<and> (\<forall>j < length vs. nth_backed M A (unat (highest_delivered dq) + Suc j) (vs ! j))"

lemma dq_progress_refl: "highest_delivered dq' = highest_delivered dq \<Longrightarrow> dq_progress M A dq dq' []"
  by (simp add: dq_progress_def)

lemma dq_progress_cong:
  "highest_delivered dq1 = highest_delivered dq \<Longrightarrow> dq_progress M A dq1 dq' vs = dq_progress M A dq dq' vs"
  by (simp add: dq_progress_def)

lemma dq_progress_trans:
  assumes "dq_progress M A dq dq1 vs" "dq_progress M A dq1 dq2 ws"
  shows "dq_progress M A dq dq2 (vs @ ws)"
proof -
  have "nth_backed M A (unat (highest_delivered dq) + Suc j) ((vs @ ws) ! j)" if "j < length (vs @ ws)" for j
  proof (cases "j < length vs")
    case True
    then show ?thesis using assms(1) by (simp add: dq_progress_def nth_append)
  next
    case False
    define k where "k = j - length vs"
    have k: "j = length vs + k" "k < length ws" using that False by (simp_all add: k_def)
    have "nth_backed M A (unat (highest_delivered dq1) + Suc k) (ws ! k)"
      using assms(2) k(2) by (simp add: dq_progress_def)
    moreover have "unat (highest_delivered dq1) + Suc k = unat (highest_delivered dq) + Suc j"
      using assms(1) k(1) by (simp add: dq_progress_def)
    ultimately show ?thesis using k(1) by (simp add: nth_append add.assoc)
  qed
  then show ?thesis using assms by (simp add: dq_progress_def)
qed

lemma deliver_one:
  assumes "dq_inv M A dq" "in_dq_window dq (highest_delivered dq + 1)" "unat (highest_delivered dq + 1) = Suc (unat (highest_delivered dq))"
    and "Suc (unat (highest_delivered dq)) < 2 ^ 62" "length (slot_data cs) = MAX_MESSAGE_SIZE"
  shows "dq_inv M A ((put_both (highest_delivered dq + 1) (dq_clear_entry e) cs dq)\<lparr>highest_delivered := highest_delivered dq + 1\<rparr>)"
proof -
  let ?h = "highest_delivered dq" and ?n = "unat (dq_size dq)"
  let ?dq = "(put_both (?h + 1) (dq_clear_entry e) cs dq)\<lparr>highest_delivered := ?h + 1\<rparr>"
  have "entry_ok M A ?n (Suc (unat ?h)) (unat idx) (queue_table ?dq idx) (cmd_slot_table ?dq idx)" if "unat idx < ?n" for idx
  proof (cases "idx = (?h + 1) mod dq_size dq")
    case True
    then show ?thesis using assms(5) by (simp add: put_both_def entry_ok_def knows_def dq_clear_entry_def)
  next
    case False
    then have same: "queue_table ?dq idx = queue_table dq idx" "cmd_slot_table ?dq idx = cmd_slot_table dq idx"
      by (simp_all add: put_both_def)
    have ok: "entry_ok M A ?n (unat ?h) (unat idx) (queue_table dq idx) (cmd_slot_table dq idx)"
      using assms(1) that by (simp add: dq_inv_def)
    have "unat (inst_number (queue_table dq idx)) \<noteq> Suc (unat ?h)" if "inst_number (queue_table dq idx) \<noteq> 0"
    proof
      assume "unat (inst_number (queue_table dq idx)) = Suc (unat ?h)"
      then have "unat idx = unat ((?h + 1) mod dq_size dq)" using ok that assms(3) by (simp add: entry_ok_def unat_index)
      then show False using False by (simp add: word_unat_eq_iff)
    qed
    then show ?thesis using ok unfolding same by (auto simp: entry_ok_def)
  qed
  then show ?thesis using assms by (simp add: dq_inv_def put_both_def)
qed

lemma deliver_loop_ok:
  "consistent M A \<Longrightarrow> dq_inv M A dq \<Longrightarrow>
     \<exists>dq' vs. dq_deliver_loop dq = Inr (dq', vs) \<and> dq_inv M A dq' \<and> dq_progress M A dq dq' vs"
proof (induction dq rule: dq_deliver_loop.induct)
  case (1 dq)
  let ?h = "highest_delivered dq"
  have h: "unat ?h < 2 ^ 62" "0 < unat (dq_size dq)" "dq_initialized dq" using "1.prems"(2) by (auto simp: dq_inv_def)
  then have h1: "unat (?h + 1) = Suc (unat ?h)" by (intro unat_u64_Suc) simp
  then have w: "in_dq_window dq (?h + 1)" using h by (simp add: in_dq_window_def)
  obtain e cs where e: "dq_get_entry dq (?h + 1) = Inr (e, put_both (?h + 1) e cs dq)" "inst_number e = ?h + 1"
      "knows M A e cs" "length (slot_data cs) = MAX_MESSAGE_SIZE" "dq_inv M A (put_both (?h + 1) e cs dq)"
      "dq_get_slot (put_both (?h + 1) e cs dq) e = cs"
    using get_entry_ok [OF "1.prems"(2) w] by blast
  show ?case
  proof (cases "has_mapping e \<and> has_final_value e")
    case False
    then show ?thesis using e h(3) by (subst dq_deliver_loop.simps) (auto simp: dq_progress_refl)
  next
    case True
    then obtain v where v: "(?h + 1, cmd_key e, v) \<in> M" "stored cs v" "(?h + 1, cmd_key e) \<in> A"
      using e(2,3) by (auto simp: knows_def)
    have bound: "Suc (unat ?h) < 2 ^ 62" "length v \<le> MAX_MESSAGE_SIZE"
      using consistentD(3) [OF "1.prems"(1) v(1)] h1 by simp_all
    have rd: "mread (slot_data cs) 0 (slot_size cs) = Inr v"
      using v(2) e(4) bound(2) by (simp add: mread_def stored_def)
    let ?dq = "(put_entry (?h + 1) (dq_clear_entry e) (put_both (?h + 1) e cs dq))\<lparr>highest_delivered := ?h + 1\<rparr>"
    have d: "?dq = (put_both (?h + 1) (dq_clear_entry e) cs dq)\<lparr>highest_delivered := ?h + 1\<rparr>"
      by (simp add: put_entry_both)
    have inv: "dq_inv M A ?dq" unfolding d by (rule deliver_one [OF "1.prems"(2) w h1 bound(1) e(4)])
    obtain dq' vs where r: "dq_deliver_loop ?dq = Inr (dq', vs)" "dq_inv M A dq'" "dq_progress M A ?dq dq' vs"
      using "1.IH" [OF h(3) e(1), unfolded fst_conv snd_conv e(6), OF True rd "1.prems"(1) inv] by blast
    have "(word_of_nat (Suc (unat ?h)) :: u64) = ?h + 1" by simp
    then have "nth_backed M A (Suc (unat ?h)) v" unfolding nth_backed_def dq_backed_def using v(1,3) by metis
    then have "dq_progress M A dq ?dq [v]" using h1 by (simp add: dq_progress_def)
    then have "dq_progress M A dq dq' ([v] @ vs)" by (rule dq_progress_trans) (rule r(3))
    moreover have "dq_deliver_loop dq = Inr (dq', v # vs)"
      using e(1,6) True rd r(1) h(3) by (subst dq_deliver_loop.simps) simp
    ultimately show ?thesis using r(2) by auto
  qed
qed

section \<open>Messages and checks\<close>

abbreviation outcome :: "cmdmaps \<Rightarrow> acceptances \<Rightarrow> delivery_queue \<Rightarrow> (delivery_queue \<times> bytes list) res \<Rightarrow> bool" where
  "outcome M A dq r \<equiv> \<exists>dq' vs. r = Inr (dq', vs) \<and> dq_inv M A dq' \<and> dq_progress M A dq dq' vs"

lemma outcome_silent: "dq_inv M A dq' \<Longrightarrow> highest_delivered dq' = highest_delivered dq \<Longrightarrow> outcome M A dq (Inr (dq', []))"
  by (auto simp: dq_progress_refl)

lemma outcome_loop:
  "consistent M A \<Longrightarrow> dq_inv M A dq' \<Longrightarrow> highest_delivered dq' = highest_delivered dq \<Longrightarrow>
     outcome M A dq (dq_deliver_loop dq')"
  using deliver_loop_ok [of M A dq'] dq_progress_cong [of dq' dq] by auto

lemma window_cases:
  assumes "dq_inv M A dq"
  shows "(i \<ge> highest_delivered dq + dq_size dq) \<or> (i \<le> highest_delivered dq) \<or> in_dq_window dq i"
  using unat_window_end [OF assms] by (auto simp: in_dq_window_def word_le_nat_alt)

lemma apply_late_start_off [simp]: "dq_inv M A dq \<Longrightarrow> apply_late_start dq i = dq"
  by (simp add: apply_late_start_def dq_inv_def)

lemma in_dq_window_seen [simp]:
  "in_dq_window (dq\<lparr>highest_seen_closed := x\<rparr>) i = in_dq_window dq i"
  "in_dq_window (dq\<lparr>highest_seen_cmdmap := x\<rparr>) i = in_dq_window dq i"
  by (simp_all add: in_dq_window_def)

text \<open>A handler on the entry of its instance, in the state where \<^verbatim>\<open>dq_get_entry\<close> returned it.\<close>

lemma command_map_in_window:
  assumes "consistent M A" "dq_inv M A dq" "in_dq_window dq i" "(i, key, v) \<in> M"
    and f: "f = (\<lambda>(e, dq).
       rassert (inst_number e = i) (
       if has_final_value e \<and> has_mapping e then Inr (dq, [])
       else if has_mapping e
       then if CMD_KEY_EQUALS key (cmd_key e)
            then rassert (slot_size (dq_get_slot dq e) = length v) (
                 rbind (mread (slot_data (dq_get_slot dq e)) 0 (length v)) (\<lambda>w.
                 rassert (v = w) (Inr (dq, []))))
            else rbind (save_value dq e v) (\<lambda>dq. Inr (put_entry i (e\<lparr>cmd_key := key\<rparr>) dq, []))
       else if has_final_value e
       then if CMD_KEY_EQUALS key (cmd_key e)
            then rbind (save_value dq e v) (\<lambda>dq. dq_deliver_loop (put_entry i (e\<lparr>has_mapping := True\<rparr>) dq))
            else Inr (dq, [])
       else rbind (save_value dq e v) (\<lambda>dq.
            Inr (put_entry i (e\<lparr>cmd_key := key, has_mapping := True\<rparr>) dq, []))))"
  shows "outcome M A dq (rbind (dq_get_entry dq i) f)"
proof -
  note bound = consistentD(3) [OF assms(1,4)]
  obtain e cs where e: "dq_get_entry dq i = Inr (e, put_both i e cs dq)" "inst_number e = i" "knows M A e cs"
      "length (slot_data cs) = MAX_MESSAGE_SIZE" "dq_inv M A (put_both i e cs dq)" "dq_get_slot (put_both i e cs dq) e = cs"
    using get_entry_ok [OF assms(2,3)] by blast
  obtain cs' where save: "save_value (put_both i e cs dq) e v = Inr (put_both i e cs' dq)" "stored cs' v"
      "length (slot_data cs') = MAX_MESSAGE_SIZE"
    using save_value_ok [OF e(2,6,4), of v] bound by blast
  have put: "dq_inv M A (put_both i e' cs' dq)"
    if "inst_number e' = i" "cmd_key e' = key" "has_final_value e' \<Longrightarrow> (i, key) \<in> A" for e'
    by (rule put_both_ok [OF assms(2,3)]) (use that save assms(4) in \<open>auto simp: knows_def\<close>)
  have same: "slot_size cs = length v \<and> mread (slot_data cs) 0 (length v) = Inr v"
    if "has_mapping e" "key = cmd_key e"
    using e(2,3,4) that consistentD(2) [OF assms(1,4)] bound
    by (auto simp: knows_def stored_def mread_def)
  consider (all) "has_final_value e" "has_mapping e" | (equal) "has_mapping e" "\<not> has_final_value e" "key = cmd_key e"
    | (differs) "has_mapping e" "\<not> has_final_value e" "key \<noteq> cmd_key e"
    | (chosen) "has_final_value e" "\<not> has_mapping e" "key = cmd_key e"
    | (other) "has_final_value e" "\<not> has_mapping e" "key \<noteq> cmd_key e"
    | (new) "\<not> has_final_value e" "\<not> has_mapping e" by blast
  then show ?thesis
  proof cases
    case all
    then show ?thesis using e f by (auto simp: dq_progress_refl)
  next
    case equal
    then show ?thesis using e f same by (auto simp: dq_progress_refl)
  next
    case differs
    then show ?thesis using e f save put [of "e\<lparr>cmd_key := key\<rparr>"] by (auto simp: put_entry_both dq_progress_refl)
  next
    case chosen
    have inv: "dq_inv M A (put_both i (e\<lparr>has_mapping := True\<rparr>) cs' dq)"
      using put [of "e\<lparr>has_mapping := True\<rparr>"] e(2,3) chosen by (auto simp: knows_def)
    have "rbind (dq_get_entry dq i) f = dq_deliver_loop (put_both i (e\<lparr>has_mapping := True\<rparr>) cs' dq)"
      using e f save chosen by (simp add: put_entry_both)
    then show ?thesis using outcome_loop [OF assms(1) inv, of dq] by simp
  next
    case other
    then show ?thesis using e f by (auto simp: dq_progress_refl)
  next
    case new
    then show ?thesis using e f save put [of "e\<lparr>cmd_key := key, has_mapping := True\<rparr>"]
      by (auto simp: put_entry_both dq_progress_refl)
  qed
qed

lemma command_map_ok:
  assumes "consistent M A" "dq_inv M A dq" "(i, key, v) \<in> M"
  shows "outcome M A dq (delivery_queue_handle_command_map dq i key v)"
proof -
  define dq0 where "dq0 = (if i > highest_seen_cmdmap dq then dq\<lparr>highest_seen_cmdmap := i\<rparr> else dq)"
  have 0: "dq_inv M A dq0" "highest_delivered dq0 = highest_delivered dq" "in_dq_window dq0 i = in_dq_window dq i"
    using assms(2) by (simp_all add: dq0_def)
  have init: "dq_initialized dq" using assms(2) by (simp add: dq_inv_def)
  consider (old) "i \<ge> highest_delivered dq + dq_size dq \<or> i \<le> highest_delivered dq"
    | (inside) "\<not> i \<ge> highest_delivered dq + dq_size dq" "\<not> i \<le> highest_delivered dq" "in_dq_window dq i"
    using window_cases [OF assms(2)] by blast
  then show ?thesis
  proof cases
    case old
    then have "delivery_queue_handle_command_map dq i key v = Inr (dq, [])"
      using init apply_late_start_off [OF assms(2)] by (auto simp: delivery_queue_handle_command_map_def Let_def)
    then show ?thesis using outcome_silent [OF assms(2) refl] by simp
  next
    case inside
    note w = command_map_in_window [OF assms(1) 0(1) _ assms(3) refl, unfolded 0(3), OF inside(3)]
    show ?thesis
      unfolding delivery_queue_handle_command_map_def Let_def apply_late_start_off [OF assms(2)] dq0_def [symmetric]
      using w init inside(1,2) dq_progress_cong [OF 0(2)] by simp
  qed
qed

lemma acceptance_in_window:
  assumes "consistent M A" "dq_inv M A dq" "in_dq_window dq i" "(i, key) \<in> A"
    and f: "f = (\<lambda>(e, dq).
       let same_key = CMD_KEY_EQUALS (cmd_key e) key in
       if has_final_value e \<and> has_mapping e then rassert same_key (Inr (dq, []))
       else if has_mapping e
       then if same_key
            then dq_deliver_loop (put_entry i (e\<lparr>has_final_value := True\<rparr>) dq)
            else Inr (put_entry i (e\<lparr>has_mapping := False, cmd_key := key\<rparr>) dq, [])
       else if has_final_value e then rassert (CMD_KEY_EQUALS (cmd_key e) key) (Inr (dq, []))
       else Inr (put_entry i (e\<lparr>cmd_key := key, has_final_value := True\<rparr>) dq, []))"
  shows "outcome M A dq (rbind (dq_get_entry dq i) f)"
proof -
  obtain e cs where e: "dq_get_entry dq i = Inr (e, put_both i e cs dq)" "inst_number e = i" "knows M A e cs"
      "length (slot_data cs) = MAX_MESSAGE_SIZE" "dq_inv M A (put_both i e cs dq)"
    using get_entry_ok [OF assms(2,3)] by blast
  have key: "cmd_key e = key" if "has_final_value e"
    using e(2,3) that consistentD(1) [OF assms(1) _ assms(4)] by (auto simp: knows_def)
  have put: "dq_inv M A (put_both i e' cs dq)" if "inst_number e' = i" "knows M A e' cs" for e'
    by (rule put_both_ok [OF assms(2,3) that e(4)])
  consider (final) "has_final_value e" | (equal) "has_mapping e" "\<not> has_final_value e" "cmd_key e = key"
    | (differs) "has_mapping e" "\<not> has_final_value e" "cmd_key e \<noteq> key"
    | (new) "\<not> has_final_value e" "\<not> has_mapping e" by blast
  then show ?thesis
  proof cases
    case final
    then show ?thesis using e f key by (auto simp: dq_progress_refl)
  next
    case equal
    have inv: "dq_inv M A (put_both i (e\<lparr>has_final_value := True\<rparr>) cs dq)"
      by (rule put) (use e equal assms(4) in \<open>auto simp: knows_def\<close>)
    have "rbind (dq_get_entry dq i) f = dq_deliver_loop (put_both i (e\<lparr>has_final_value := True\<rparr>) cs dq)"
      using e f equal by (simp add: put_entry_both)
    then show ?thesis using outcome_loop [OF assms(1) inv, of dq] by simp
  next
    case differs
    have "dq_inv M A (put_both i (e\<lparr>has_mapping := False, cmd_key := key\<rparr>) cs dq)"
      by (rule put) (use e differs in \<open>auto simp: knows_def\<close>)
    then show ?thesis using e f differs by (auto simp: put_entry_both dq_progress_refl)
  next
    case new
    have "dq_inv M A (put_both i (e\<lparr>cmd_key := key, has_final_value := True\<rparr>) cs dq)"
      by (rule put) (use e new assms(4) in \<open>auto simp: knows_def\<close>)
    then show ?thesis using e f new by (auto simp: put_entry_both dq_progress_refl)
  qed
qed

lemma acceptance_ok:
  assumes "consistent M A" "dq_inv M A dq" "(i, key) \<in> A"
  shows "outcome M A dq (delivery_queue_handle_acceptance dq i key)"
proof -
  define dq0 where "dq0 = (if i > highest_seen_closed dq then dq\<lparr>highest_seen_closed := i\<rparr> else dq)"
  have 0: "dq_inv M A dq0" "highest_delivered dq0 = highest_delivered dq" "dq_size dq0 = dq_size dq"
    using assms(2) by (simp_all add: dq0_def)
  have init: "dq_initialized dq" using assms(2) by (simp add: dq_inv_def)
  have "outcome M A dq0 (delivery_queue_handle_acceptance dq i key)"
  proof (cases "i \<ge> highest_delivered dq + dq_size dq \<or> i \<le> highest_delivered dq")
    case True
    have "delivery_queue_handle_acceptance dq i key = Inr (dq0, [])"
      unfolding delivery_queue_handle_acceptance_def Let_def apply_late_start_off [OF assms(2)] dq0_def [symmetric]
      using True init 0 by auto
    then show ?thesis using outcome_silent [OF 0(1) refl] by simp
  next
    case False
    then have "in_dq_window dq0 i" using window_cases [OF 0(1), of i] 0 by simp
    from acceptance_in_window [OF assms(1) 0(1) this assms(3) refl] show ?thesis
      unfolding delivery_queue_handle_acceptance_def Let_def apply_late_start_off [OF assms(2)] dq0_def [symmetric]
      using False init 0 by simp
  qed
  then show ?thesis using dq_progress_cong [OF 0(2)] by simp
qed

lemma check_entry_ok:
  assumes "dq_inv M A dq" "unat (highest_delivered dq) < unat i"
  shows "\<exists>r. check_entry now i dq = Inr r
    \<and> (\<forall>dq' rs. r = Some (dq', rs) \<longrightarrow> dq_inv M A dq' \<and> highest_delivered dq' = highest_delivered dq)"
proof (cases "i \<ge> highest_delivered dq + dq_size dq")
  case True
  then show ?thesis by (simp add: check_entry_def)
next
  case False
  then have w: "in_dq_window dq i" using window_cases [OF assms(1), of i] assms(2) by (auto simp: word_le_nat_alt)
  obtain e cs where e: "dq_get_entry dq i = Inr (e, put_both i e cs dq)" "inst_number e = i" "knows M A e cs"
      "length (slot_data cs) = MAX_MESSAGE_SIZE" "dq_inv M A (put_both i e cs dq)"
    using get_entry_ok [OF assms(1) w] by blast
  have put: "dq_inv M A (put_both i (e\<lparr>cmdmap_request_timeout := a, finval_request_timeout := b\<rparr>) cs dq)" for a b
    by (rule put_both_ok [OF assms(1) w]) (use e in \<open>auto simp: knows_def\<close>)
  have put1: "dq_inv M A (put_both i (e\<lparr>cmdmap_request_timeout := a\<rparr>) cs dq)" for a
    by (rule put_both_ok [OF assms(1) w]) (use e in \<open>auto simp: knows_def\<close>)
  have put2: "dq_inv M A (put_both i (e\<lparr>finval_request_timeout := b\<rparr>) cs dq)" for b
    by (rule put_both_ok [OF assms(1) w]) (use e in \<open>auto simp: knows_def\<close>)
  show ?thesis using False e put put1 put2 by (simp add: check_entry_def put_entry_both Let_def)
qed

lemma check_entries_ok:
  "dq_inv M A dq \<Longrightarrow> list_all (\<lambda>i. unat (highest_delivered dq) < unat i) is \<Longrightarrow>
     \<exists>dq' rs. check_entries now is dq = Inr (dq', rs) \<and> dq_inv M A dq' \<and> highest_delivered dq' = highest_delivered dq"
proof (induction "is" arbitrary: dq)
  case (Cons i "is")
  obtain r where r: "check_entry now i dq = Inr r"
      "\<forall>dq' rs. r = Some (dq', rs) \<longrightarrow> dq_inv M A dq' \<and> highest_delivered dq' = highest_delivered dq"
    using check_entry_ok [OF Cons.prems(1), of i now] Cons.prems(2) by auto
  show ?case
  proof (cases r)
    case None
    then show ?thesis using r(1) Cons.prems(1) by simp
  next
    case (Some p)
    obtain dq1 rs1 where p: "p = (dq1, rs1)" by (cases p)
    have 1: "dq_inv M A dq1" "highest_delivered dq1 = highest_delivered dq" using r(2) Some p by auto
    then show ?thesis using Cons.IH [OF 1(1)] Cons.prems(2) r(1) Some p by auto
  qed
qed simp

lemma periodic_check_ok:
  assumes "dq_inv M A dq"
  shows "\<exists>dq' rs. dq_periodic_check now dq = Inr (dq', rs) \<and> dq_inv M A dq' \<and> highest_delivered dq' = highest_delivered dq"
proof -
  have "unat (highest_delivered dq + 1) = Suc (unat (highest_delivered dq))"
    using assms by (intro unat_u64_Suc) (auto simp: dq_inv_def)
  then have "list_all (\<lambda>i. unat (highest_delivered dq) < unat i)
      (map word_of_nat [unat (highest_delivered dq + 1) ..< Suc (unat u)] :: u64 list)" for u :: u64
    using unat_u64_less [of u] by (auto simp: list_all_iff unat_of_nat)
  note entries = check_entries_ok [OF assms this]
  define u where "u = (if highest_seen_closed dq > highest_seen_cmdmap dq then highest_seen_closed dq else highest_seen_cmdmap dq)"
  obtain dq' rs where "check_entries now (map word_of_nat [unat (highest_delivered dq + 1) ..< Suc (unat u)]) dq = Inr (dq', rs)"
      "dq_inv M A dq'" "highest_delivered dq' = highest_delivered dq"
    using entries by blast
  moreover have "dq_initialized dq" using assms by (simp add: dq_inv_def)
  ultimately show ?thesis by (simp add: dq_periodic_check_def Let_def flip: u_def)
qed

section \<open>Properties\<close>

datatype dq_event = Cmdmap ring_iid command_id bytes | Acceptance ring_iid command_id | Check timeval

fun dq_step :: "dq_event \<Rightarrow> delivery_queue \<Rightarrow> (delivery_queue \<times> bytes list) res" where
  "dq_step (Cmdmap i k v) dq = delivery_queue_handle_command_map dq i k v"
| "dq_step (Acceptance i k) dq = delivery_queue_handle_acceptance dq i k"
| "dq_step (Check now) dq = rbind (dq_periodic_check now dq) (\<lambda>(dq, rs). Inr (dq, []))"

fun dq_run :: "dq_event list \<Rightarrow> delivery_queue \<Rightarrow> (delivery_queue \<times> bytes list) res" where
  "dq_run [] dq = Inr (dq, [])"
| "dq_run (ev # evs) dq = rbind (dq_step ev dq) (\<lambda>(dq, vs). rbind (dq_run evs dq) (\<lambda>(dq, ws). Inr (dq, vs @ ws)))"

definition cmdmaps_of :: "dq_event list \<Rightarrow> cmdmaps" where
  "cmdmaps_of evs = {(i, k, v). Cmdmap i k v \<in> set evs}"

definition acceptances_of :: "dq_event list \<Rightarrow> acceptances" where
  "acceptances_of evs = {(i, k). Acceptance i k \<in> set evs}"

lemma dq_run_ok:
  "consistent M A \<Longrightarrow> dq_inv M A dq \<Longrightarrow> cmdmaps_of evs \<subseteq> M \<Longrightarrow> acceptances_of evs \<subseteq> A \<Longrightarrow>
     outcome M A dq (dq_run evs dq)"
proof (induction evs arbitrary: dq)
  case (Cons ev evs)
  have "outcome M A dq (dq_step ev dq)"
  proof (cases ev)
    case (Cmdmap i k v)
    then have "(i, k, v) \<in> M" using Cons.prems(3) by (auto simp: cmdmaps_of_def)
    with command_map_ok [OF Cons.prems(1,2) this] Cmdmap show ?thesis by simp
  next
    case (Acceptance i k)
    then have "(i, k) \<in> A" using Cons.prems(4) by (auto simp: acceptances_of_def)
    with acceptance_ok [OF Cons.prems(1,2) this] Acceptance show ?thesis by simp
  next
    case (Check now)
    with periodic_check_ok [OF Cons.prems(2), of now] show ?thesis by (auto simp: dq_progress_refl)
  qed
  then obtain dq1 vs where 1: "dq_step ev dq = Inr (dq1, vs)" "dq_inv M A dq1" "dq_progress M A dq dq1 vs" by blast
  have "cmdmaps_of evs \<subseteq> M" "acceptances_of evs \<subseteq> A"
    using Cons.prems(3,4) by (auto simp: cmdmaps_of_def acceptances_of_def)
  then obtain dq2 ws where 2: "dq_run evs dq1 = Inr (dq2, ws)" "dq_inv M A dq2" "dq_progress M A dq1 dq2 ws"
    using Cons.IH [OF Cons.prems(1) 1(2)] by blast
  have "dq_progress M A dq dq2 (vs @ ws)" using dq_progress_trans 1(3) 2(3) by blast
  then show ?case using 1(1) 2(1,2) by simp
qed (simp add: dq_progress_refl)

lemma init_inv:
  assumes "0 < unat n" "unat n < 2 ^ 62" "unat start < 2 ^ 62"
  shows "dq_inv M A ((delivery_queue_init n pc)\<lparr>highest_delivered := start\<rparr>)"
  using assms
  by (simp add: dq_inv_def delivery_queue_init_def entry_ok_def knows_def dq_clear_entry_def zero_entry_def)

lemma delivers_in_order:
  assumes "consistent (cmdmaps_of evs) (acceptances_of evs)" "0 < unat n" "unat n < 2 ^ 62" "unat start < 2 ^ 62"
  shows "\<exists>dq vs. dq_run evs ((delivery_queue_init n pc)\<lparr>highest_delivered := start\<rparr>) = Inr (dq, vs)
    \<and> unat (highest_delivered dq) = unat start + length vs
    \<and> (\<forall>j < length vs. \<exists>k. Acceptance (word_of_nat (unat start + Suc j)) k \<in> set evs
        \<and> Cmdmap (word_of_nat (unat start + Suc j)) k (vs ! j) \<in> set evs)"
proof -
  let ?M = "cmdmaps_of evs" and ?A = "acceptances_of evs" and ?dq = "(delivery_queue_init n pc)\<lparr>highest_delivered := start\<rparr>"
  obtain dq vs where r: "dq_run evs ?dq = Inr (dq, vs)" "dq_progress ?M ?A ?dq dq vs"
    using dq_run_ok [OF assms(1) init_inv [OF assms(2-4)] subset_refl subset_refl] by blast
  have "\<exists>k. Acceptance (word_of_nat (unat start + Suc j)) k \<in> set evs \<and> Cmdmap (word_of_nat (unat start + Suc j)) k (vs ! j) \<in> set evs"
    if "j < length vs" for j
    using r(2) that unfolding dq_progress_def nth_backed_def dq_backed_def cmdmaps_of_def acceptances_of_def
    by (simp del: of_nat_add of_nat_Suc)
  then show ?thesis using r by (auto simp: dq_progress_def simp del: of_nat_add of_nat_Suc)
qed

text \<open>C16. The delivery queue delivers in order and only what was chosen: after any sequence of messages
  and checks, with messages that agree on the chosen key of each instance and on the value of each key,
  no assertion has failed, and the \<open>j\<close>-th value delivered is a value mapped to a key for which an
  acceptance of the \<open>j\<close>-th instance after the start was received.\<close>

theorem delivery_queue_in_order:
  assumes "consistent (cmdmaps_of evs) (acceptances_of evs)" "0 < unat n" "unat n < 2 ^ 62" "unat start < 2 ^ 62"
  shows "\<exists>dq vs. dq_run evs ((delivery_queue_init n pc)\<lparr>highest_delivered := start\<rparr>) = Inr (dq, vs)
    \<and> unat (highest_delivered dq) = unat start + length vs
    \<and> (\<forall>j < length vs. \<exists>k. Acceptance (word_of_nat (unat start + Suc j)) k \<in> set evs
        \<and> Cmdmap (word_of_nat (unat start + Suc j)) k (vs ! j) \<in> set evs)"
  by (rule delivers_in_order [OF assms])

definition key :: "u16 \<Rightarrow> command_id" where
  "key n = \<lparr>mcaster_id = 1, mcaster_incarnation = 1, cmd_seqnum = n\<rparr>"

definition dq_example :: "dq_event list" where
  "dq_example = [Cmdmap 2 (key 8) [2], Acceptance 1 (key 7), Acceptance 2 (key 8), Cmdmap 1 (key 7) [1, 1]]"

theorem delivery_queue_in_order_witness:
  "\<exists>dq vs. dq_run dq_example ((delivery_queue_init 16 False)\<lparr>highest_delivered := 0\<rparr>) = Inr (dq, vs)
    \<and> unat (highest_delivered dq) = unat (0 :: ring_iid) + length vs
    \<and> (\<forall>j < length vs. \<exists>k. Acceptance (word_of_nat (unat (0 :: ring_iid) + Suc j)) k \<in> set dq_example
        \<and> Cmdmap (word_of_nat (unat (0 :: ring_iid) + Suc j)) k (vs ! j) \<in> set dq_example)"
  by (rule delivery_queue_in_order)
    (auto simp: consistent_def dq_example_def cmdmaps_of_def acceptances_of_def key_def MAX_MESSAGE_SIZE_def MAX_TCP_PAYLOAD_def)

text \<open>The first instance of a queue: the entry the handlers see and leave.\<close>

abbreviation first_of :: "u64 \<Rightarrow> bool \<Rightarrow> dq_entry \<Rightarrow> cmd_slot \<Rightarrow> ring_iid \<Rightarrow> ring_iid \<Rightarrow> delivery_queue" where
  "first_of n pc e cs closed cmdmap \<equiv> put_both 1 e cs ((delivery_queue_init n pc)
     \<lparr>highest_seen_closed := closed, highest_seen_cmdmap := cmdmap\<rparr>)"

abbreviation first_entry :: "command_id \<Rightarrow> bool \<Rightarrow> bool \<Rightarrow> dq_entry" where
  "first_entry k mapped final \<equiv> \<lparr>inst_number = 1, cmd_key = k, has_mapping = mapped, has_final_value = final,
     cmdmap_request_timeout = Timeval 0 0, finval_request_timeout = Timeval 0 0\<rparr>"

lemma dq_init_simps [simp]:
  "dq_initialized (delivery_queue_init n pc)" "\<not> late_start (delivery_queue_init n pc)"
  "dq_size (delivery_queue_init n pc) = n" "highest_delivered (delivery_queue_init n pc) = 0"
  "highest_seen_closed (delivery_queue_init n pc) = 0" "highest_seen_cmdmap (delivery_queue_init n pc) = 0"
  "queue_table (delivery_queue_init n pc) idx = dq_clear_entry zero_entry"
  "has_post_check (delivery_queue_init n pc) = pc"
  by (simp_all add: delivery_queue_init_def)

lemma put_both_other [simp]:
  "late_start (put_both i e cs dq) = late_start dq" "highest_seen_cmdmap (put_both i e cs dq) = highest_seen_cmdmap dq"
  "request_timeout (put_both i e cs dq) = request_timeout dq" "has_post_check (put_both i e cs dq) = has_post_check dq"
  by (simp_all add: put_both_def)

lemma one_index:
  "1 < unat n \<Longrightarrow> (1 :: u64) mod n = 1 \<and> n \<noteq> 0 \<and> n \<noteq> 1 \<and> 1 \<le> n \<and> \<not> n \<le> 1"
  by (auto simp: word_le_nat_alt word_unat_eq_iff unat_mod)

lemma first_tables:
  assumes "1 < unat n"
  shows "queue_table (first_of n pc e cs a b) 1 = e" "cmd_slot_table (first_of n pc e cs a b) 1 = cs"
  using one_index [OF assms] by (simp_all add: put_both_def)

lemma first_seen:
  "(first_of n pc e cs a b)\<lparr>highest_seen_closed := x\<rparr> = first_of n pc e cs x b"
  "(first_of n pc e cs a b)\<lparr>highest_seen_cmdmap := x\<rparr> = first_of n pc e cs a x"
  by (simp_all add: put_both_def)

lemma get_first:
  assumes "1 < unat n" "inst_number e = 1"
  shows "dq_get_entry (first_of n pc e cs a b) 1 = Inr (e, first_of n pc e cs a b)"
  using one_index [OF assms(1)] first_tables [OF assms(1)] assms(2)
  by (cases e) (simp add: dq_get_entry_def Let_def put_entry_both)

lemma get_first_new:
  assumes "1 < unat n"
  shows "dq_get_entry ((delivery_queue_init n pc)\<lparr>highest_seen_closed := a, highest_seen_cmdmap := b\<rparr>) 1
      = Inr (first_entry (cmd_key (dq_clear_entry zero_entry)) False False,
             first_of n pc (first_entry (cmd_key (dq_clear_entry zero_entry)) False False)
               \<lparr>slot_size = 0, slot_data = replicate MAX_MESSAGE_SIZE 0\<rparr> a b)"
  using one_index [OF assms]
  by (simp add: dq_get_entry_def Let_def put_entry_def put_both_def dq_clear_entry_def zero_entry_def clear_cmd_key_def
      delivery_queue_init_def fun_eq_iff)

lemma save_first:
  assumes "1 < unat n" "length (slot_data cs) = MAX_MESSAGE_SIZE" "length v \<le> MAX_MESSAGE_SIZE" "inst_number e = 1"
  shows "\<exists>cs'. save_value (first_of n pc e cs a b) e v = Inr (first_of n pc e cs' a b) \<and> stored cs' v
    \<and> length (slot_data cs') = MAX_MESSAGE_SIZE"
proof (rule save_value_ok [OF assms(4) _ assms(2,3)])
  show "dq_get_slot (first_of n pc e cs a b) e = cs"
    using assms(4) one_index [OF assms(1)] by (simp add: dq_get_slot_def put_both_def)
qed

lemma put_first: "1 < unat n \<Longrightarrow> put_entry 1 e' (first_of n pc e cs a b) = first_of n pc e' cs a b"
  using one_index [of n] by (simp add: put_entry_def put_both_def)

lemma chosen_alone_delivered:
  assumes "length v \<le> MAX_MESSAGE_SIZE" "1 < unat n" "unat n < 2 ^ 62"
  shows "\<exists>dq. dq_run [Acceptance 1 k, Cmdmap 1 k v] (delivery_queue_init n pc) = Inr (dq, [v])"
proof -
  let ?D = "delivery_queue_init n pc" and ?evs = "[Acceptance 1 k, Cmdmap 1 k v]"
  let ?cs = "\<lparr>slot_size = 0, slot_data = replicate MAX_MESSAGE_SIZE 0\<rparr>"
  note n = one_index [OF assms(2)]
  note simps = delivery_queue_handle_command_map_def delivery_queue_handle_acceptance_def apply_late_start_def
    Let_def put_first [OF assms(2)] first_seen
  have g: "dq_get_entry (?D\<lparr>highest_seen_closed := 1\<rparr>) 1 = Inr (first_entry (cmd_key (dq_clear_entry zero_entry)) False False,
      first_of n pc (first_entry (cmd_key (dq_clear_entry zero_entry)) False False) ?cs 1 0)"
    using get_first_new [OF assms(2), where pc = pc and a = 1 and b = 0] by (simp add: delivery_queue_init_def)
  have 1: "delivery_queue_handle_acceptance ?D 1 k = Inr (first_of n pc (first_entry k False True) ?cs 1 0, [])"
    using n g by (simp add: simps)
  obtain cs where s: "save_value (first_of n pc (first_entry k False True) ?cs 1 1) (first_entry k False True) v
      = Inr (first_of n pc (first_entry k False True) cs 1 1)" "stored cs v" "length (slot_data cs) = MAX_MESSAGE_SIZE"
    using save_first [OF assms(2) _ assms(1), where cs = ?cs and e = "first_entry k False True" and pc = pc and a = 1 and b = 1] by auto
  let ?dq = "first_of n pc (first_entry k True True) cs 1 1"
  have 2: "delivery_queue_handle_command_map (first_of n pc (first_entry k False True) ?cs 1 0) 1 k v = dq_deliver_loop ?dq"
    using n s(1) get_first [OF assms(2), where e = "first_entry k False True" and pc = pc and cs = ?cs and a = 1 and b = 1]
    by (simp add: simps)
  have rd: "mread (slot_data cs) 0 (slot_size cs) = Inr v"
    using s(2,3) assms(1) by (simp add: stored_def mread_def)
  have c: "consistent {(1, k, v)} {(1, k)}" using assms(1) by (simp add: consistent_def)
  have ev: "cmdmaps_of ?evs \<subseteq> {(1, k, v)}" "acceptances_of ?evs \<subseteq> {(1, k)}"
    by (auto simp: cmdmaps_of_def acceptances_of_def)
  have inv: "dq_inv {(1, k, v)} {(1, k)} ?D"
    using init_inv [of n 0 "{(1, k, v)}" "{(1, k)}" pc] assms(2,3) by (simp add: delivery_queue_init_def)
  obtain dq vs where r: "dq_run ?evs ?D = Inr (dq, vs)" "dq_progress {(1, k, v)} {(1, k)} ?D dq vs"
    using dq_run_ok [OF c inv ev] by blast
  then have "dq_deliver_loop ?dq = Inr (dq, vs)" using 1 2 by (auto simp: res_eq_Inr)
  then obtain ws where ws: "vs = v # ws"
    using n rd get_first [OF assms(2), where e = "first_entry k True True" and pc = pc and cs = cs and a = 1 and b = 1]
      first_tables [OF assms(2)]
    by (subst (asm) dq_deliver_loop.simps) (auto simp: res_eq_Inr dq_get_slot_def)
  have "ws = []"
  proof (rule ccontr)
    assume "ws \<noteq> []"
    then have "nth_backed {(1, k, v)} {(1, k)} (Suc 1) (vs ! 1)"
      using r(2) ws by (auto simp: dq_progress_def dest!: spec [of _ "1"])
    then show False by (simp add: nth_backed_def dq_backed_def)
  qed
  then show ?thesis using r(1) ws by simp
qed

text \<open>Forgetting a chosen key: an entry of which nothing is known takes a mapping, and the acceptance of
  another key drops the mapping without recording that the key is final.\<close>

lemma dq_inv_mono:
  assumes "dq_inv M A dq" "M \<subseteq> M'" "A \<subseteq> A'"
  shows "dq_inv M' A' dq"
proof -
  have "entry_ok M' A' n h idx e cs" if "entry_ok M A n h idx e cs" for n h idx e cs
    using that assms(2,3) by (auto simp: entry_ok_def knows_def)
  then show ?thesis using assms(1) unfolding dq_inv_def by blast
qed

abbreviation entry_of :: "ring_iid \<Rightarrow> delivery_queue \<Rightarrow> dq_entry" where
  "entry_of i dq \<equiv> queue_table dq (i mod dq_size dq)"

lemma get_entry_eq: "dq_get_entry dq i = Inr (e, dq') \<Longrightarrow> e = (entry_of i dq)\<lparr>inst_number := i\<rparr>"
  by (auto simp: dq_get_entry_def res_eq_Inr Let_def)

lemma unknown_entry:
  assumes "dq_inv M A dq" "in_dq_window dq i" "\<forall>k v. (i, k, v) \<notin> M" "\<forall>k. (i, k) \<notin> A"
  shows "\<not> has_mapping (entry_of i dq) \<and> \<not> has_final_value (entry_of i dq)"
  using window_entry [OF assms(1,2)] index_entry [OF assms(1), of i] assms(3,4)
  by (auto simp: entry_ok_def knows_def split: if_splits)

lemma first_mapping:
  assumes inv: "dq_inv M A dq" and w: "in_dq_window dq i" "i < highest_delivered dq + dq_size dq"
    and e0: "\<not> has_mapping (entry_of i dq)" "\<not> has_final_value (entry_of i dq)" and v: "length v \<le> MAX_MESSAGE_SIZE"
  shows "\<exists>dq'. delivery_queue_handle_command_map dq i k v = Inr (dq', []) \<and> highest_delivered dq' = highest_delivered dq
    \<and> dq_size dq' = dq_size dq \<and> has_mapping (entry_of i dq') \<and> \<not> has_final_value (entry_of i dq') \<and> cmd_key (entry_of i dq') = k"
proof -
  define dq0 where "dq0 = (if i > highest_seen_cmdmap dq then dq\<lparr>highest_seen_cmdmap := i\<rparr> else dq)"
  have 0: "dq_inv M A dq0" "in_dq_window dq0 i" "highest_delivered dq0 = highest_delivered dq" "dq_size dq0 = dq_size dq"
      "entry_of i dq0 = entry_of i dq"
    using inv w by (simp_all add: dq0_def)
  obtain e cs where e: "dq_get_entry dq0 i = Inr (e, put_both i e cs dq0)" "inst_number e = i"
      "length (slot_data cs) = MAX_MESSAGE_SIZE" "dq_get_slot (put_both i e cs dq0) e = cs"
    using get_entry_ok [OF 0(1,2)] by blast
  have flags: "\<not> has_mapping e \<and> \<not> has_final_value e" using get_entry_eq [OF e(1)] e0 0(5) by simp
  obtain cs' where s: "save_value (put_both i e cs dq0) e v = Inr (put_both i e cs' dq0)"
    using save_value_ok [OF e(2,4,3) v] by blast
  have le: "dq_initialized dq" "\<not> i \<ge> highest_delivered dq + dq_size dq" "\<not> i \<le> highest_delivered dq"
    using w inv by (auto simp: dq_inv_def in_dq_window_def word_le_nat_alt word_less_nat_alt not_le)
  let ?dq = "put_both i (e\<lparr>cmd_key := k, has_mapping := True\<rparr>) cs' dq0"
  have "delivery_queue_handle_command_map dq i k v = Inr (?dq, [])"
    unfolding delivery_queue_handle_command_map_def Let_def apply_late_start_off [OF inv] dq0_def [symmetric]
    using e(1,2) flags s le by (simp add: put_entry_both)
  moreover have "entry_of i ?dq = e\<lparr>cmd_key := k, has_mapping := True\<rparr>" by simp
  ultimately show ?thesis using flags 0(3,4) by (intro exI [of _ ?dq]) (simp del: put_both_simps(4) add: put_both_simps(1,2))
qed

lemma mapping_dropped:
  assumes inv: "dq_inv M A dq" and w: "in_dq_window dq i" "i < highest_delivered dq + dq_size dq"
    and e0: "has_mapping (entry_of i dq)" "\<not> has_final_value (entry_of i dq)" "cmd_key (entry_of i dq) \<noteq> k"
  shows "\<exists>dq'. delivery_queue_handle_acceptance dq i k = Inr (dq', []) \<and> dq_inv M A dq'
    \<and> highest_delivered dq' = highest_delivered dq"
proof -
  define dq0 where "dq0 = (if i > highest_seen_closed dq then dq\<lparr>highest_seen_closed := i\<rparr> else dq)"
  have 0: "dq_inv M A dq0" "in_dq_window dq0 i" "highest_delivered dq0 = highest_delivered dq" "dq_size dq0 = dq_size dq"
      "entry_of i dq0 = entry_of i dq"
    using inv w by (simp_all add: dq0_def)
  obtain e cs where e: "dq_get_entry dq0 i = Inr (e, put_both i e cs dq0)" "inst_number e = i" "knows M A e cs"
      "length (slot_data cs) = MAX_MESSAGE_SIZE"
    using get_entry_ok [OF 0(1,2)] by blast
  have flags: "has_mapping e" "\<not> has_final_value e" "cmd_key e \<noteq> k" using get_entry_eq [OF e(1)] e0 0(5) by simp_all
  have le: "dq_initialized dq" "\<not> i \<ge> highest_delivered dq + dq_size dq" "\<not> i \<le> highest_delivered dq"
    using w inv by (auto simp: dq_inv_def in_dq_window_def word_le_nat_alt word_less_nat_alt not_le)
  let ?dq = "put_both i (e\<lparr>has_mapping := False, cmd_key := k\<rparr>) cs dq0"
  have "delivery_queue_handle_acceptance dq i k = Inr (?dq, [])"
    unfolding delivery_queue_handle_acceptance_def Let_def apply_late_start_off [OF inv] dq0_def [symmetric]
    using e(1) flags le put_both_simps(5) [of i e cs dq0] by (simp add: put_entry_both 0(3) flip: 0(4))
  moreover have "dq_inv M A ?dq" by (rule put_both_ok [OF 0(1,2)]) (use e(2-4) flags in \<open>simp_all add: knows_def\<close>)
  ultimately show ?thesis using 0(3) by (intro exI [of _ ?dq]) simp
qed

lemma not_past_unaccepted:
  assumes "dq_progress M A dq dq' vs" "unat (highest_delivered dq) < unat i" "\<And>k. (i, k) \<notin> A"
  shows "unat (highest_delivered dq') < unat i"
proof (rule ccontr)
  assume ge: "\<not> unat (highest_delivered dq') < unat i"
  define j where "j = unat i - Suc (unat (highest_delivered dq))"
  have j: "unat (highest_delivered dq) + Suc j = unat i" "j < length vs"
    using ge assms(1,2) by (auto simp: j_def dq_progress_def)
  have "nth_backed M A (unat (highest_delivered dq) + Suc j) (vs ! j)" using assms(1) j(2) by (simp add: dq_progress_def)
  then have "nth_backed M A (unat i) (vs ! j)" unfolding j(1) .
  then show False using assms(3) by (auto simp: nth_backed_def dq_backed_def)
qed

lemma dq_run_append:
  "dq_run (xs @ ys) dq = rbind (dq_run xs dq) (\<lambda>(dq, vs). rbind (dq_run ys dq) (\<lambda>(dq, ws). Inr (dq, vs @ ws)))"
proof (induction xs arbitrary: dq)
  case Nil
  then show ?case by (cases "dq_run ys dq") auto
next
  case (Cons x xs)
  show ?case
  proof (cases "dq_step x dq")
    case (Inr p)
    obtain dq1 vs where p: "p = (dq1, vs)" by (cases p)
    show ?thesis using Inr p Cons [of dq1] by (cases "dq_run xs dq1"; cases "dq_run ys (fst (projr (dq_run xs dq1)))") auto
  qed simp
qed

text \<open>C28. A chosen key can be forgotten. Take a run in which nothing was received about instance
  \<open>i\<close>, which is in the window; then comes the mapping of one key, the acceptance of another, and the
  mapping of this chosen key. Whatever messages and checks follow, the instance is not delivered, and none after
  it, unless another acceptance of it arrives: the acceptance drops the first mapping but does not record that
  its key is final. The messages agree on chosen keys and values throughout, so no assertion fails. With the two
  messages of the chosen key alone, in the same order, the value is delivered.\<close>

theorem delivery_queue_forgets_final:
  assumes "consistent (cmdmaps_of (pre @ ms @ post)) (acceptances_of (pre @ ms @ post))" "k1 \<noteq> k2"
    and "1 < unat n" "unat n < 2 ^ 62" "unat start < 2 ^ 62"
    and "dq_run pre ((delivery_queue_init n pc)\<lparr>highest_delivered := start\<rparr>) = Inr (dq0, vs0)"
    and "unat start < unat i" "unat i < unat (highest_delivered dq0) + unat (dq_size dq0)"
    and ms: "ms = [Cmdmap i k1 v1, Acceptance i k2, Cmdmap i k2 v2]"
    and "\<forall>k v. Cmdmap i k v \<notin> set pre \<and> Acceptance i k \<notin> set pre" "\<forall>k. Acceptance i k \<notin> set post"
  shows "(\<exists>dq vs. dq_run (pre @ ms @ post) ((delivery_queue_init n pc)\<lparr>highest_delivered := start\<rparr>) = Inr (dq, vs)
      \<and> highest_delivered dq < i \<and> unat (highest_delivered dq) = unat start + length vs)
    \<and> (\<exists>dq. dq_run [Acceptance 1 k2, Cmdmap 1 k2 v2] (delivery_queue_init n pc) = Inr (dq, [v2]))"
proof -
  let ?D = "(delivery_queue_init n pc)\<lparr>highest_delivered := start\<rparr>"
  define M where "M = cmdmaps_of (pre @ ms @ post)"
  define A where "A = acceptances_of (pre @ post)"
  have "A \<subseteq> acceptances_of (pre @ ms @ post)" by (auto simp: A_def acceptances_of_def)
  then have c: "consistent M A" using assms(1) unfolding M_def consistent_def by blast
  have sub: "cmdmaps_of pre \<subseteq> M" "cmdmaps_of post \<subseteq> M" "acceptances_of pre \<subseteq> A" "acceptances_of post \<subseteq> A"
      "(i, k1, v1) \<in> M" "(i, k2, v2) \<in> M"
    by (auto simp: M_def A_def cmdmaps_of_def acceptances_of_def ms)
  have notA: "(i, k) \<notin> A" for k using assms(10,11) by (auto simp: A_def acceptances_of_def)
  note len = consistentD(3) [OF c sub(5)] consistentD(3) [OF c sub(6)]
  have below: "unat (highest_delivered dq') < unat i"
    if "dq_progress M A dq dq' vs" "unat (highest_delivered dq) < unat i" for dq dq' vs
    by (rule not_past_unaccepted [OF that]) (use notA in blast)
  have consistent_pre: "consistent (cmdmaps_of pre) (acceptances_of pre)"
    using c sub(1,3) unfolding consistent_def by blast
  obtain dqp vsp where "dq_run pre ?D = Inr (dqp, vsp)" "dq_inv (cmdmaps_of pre) (acceptances_of pre) dqp"
    using dq_run_ok [OF consistent_pre init_inv [of n start _ _ pc] subset_refl subset_refl] assms(3-5) by auto
  then have pre_inv: "dq_inv (cmdmaps_of pre) (acceptances_of pre) dq0" using assms(6) by simp
  have inv0: "dq_inv M A dq0" by (rule dq_inv_mono [OF pre_inv sub(1,3)])
  have prog0: "dq_progress M A ?D dq0 vs0"
    using dq_run_ok [OF c init_inv [of n start M A pc] sub(1,3)] assms(3-6) by auto
  have hd0: "unat (highest_delivered dq0) < unat i" by (rule below [OF prog0]) (use assms(7) in simp)
  have w: "in_dq_window dq0 i" "i < highest_delivered dq0 + dq_size dq0"
    using hd0 assms(8) unat_window_end [OF inv0] by (simp_all add: in_dq_window_def word_less_nat_alt)
  have e0: "\<not> has_mapping (entry_of i dq0) \<and> \<not> has_final_value (entry_of i dq0)"
    by (rule unknown_entry [OF pre_inv w(1)]) (use assms(10) in \<open>auto simp: cmdmaps_of_def acceptances_of_def\<close>)
  obtain dq1 where 1: "delivery_queue_handle_command_map dq0 i k1 v1 = Inr (dq1, [])" "highest_delivered dq1 = highest_delivered dq0"
      "dq_size dq1 = dq_size dq0" "has_mapping (entry_of i dq1)" "\<not> has_final_value (entry_of i dq1)" "cmd_key (entry_of i dq1) = k1"
    using first_mapping [OF inv0 w _ _ len(1) [THEN conjunct2, THEN conjunct2]] e0 by blast
  have inv1: "dq_inv M A dq1" using command_map_ok [OF c inv0 sub(5)] 1(1) by auto
  have w1: "in_dq_window dq1 i" "i < highest_delivered dq1 + dq_size dq1" using w 1(2,3) by (simp_all add: in_dq_window_def)
  obtain dq2 where 2: "delivery_queue_handle_acceptance dq1 i k2 = Inr (dq2, [])" "dq_inv M A dq2"
      "highest_delivered dq2 = highest_delivered dq1"
    using mapping_dropped [OF inv1 w1 1(4,5), of k2] 1(6) assms(2) by blast
  have "cmdmaps_of (Cmdmap i k2 v2 # post) \<subseteq> M" "acceptances_of (Cmdmap i k2 v2 # post) \<subseteq> A"
    using sub(2,4,6) by (auto simp: cmdmaps_of_def acceptances_of_def)
  then obtain dq vs where 3: "dq_run (Cmdmap i k2 v2 # post) dq2 = Inr (dq, vs)" "dq_progress M A dq2 dq vs"
    using dq_run_ok [OF c 2(2)] by blast
  have hd: "unat (highest_delivered dq) < unat i" by (rule below [OF 3(2)]) (use hd0 1(2) 2(3) in simp)
  have "dq_run (ms @ post) dq0 = Inr (dq, vs)" using 1(1) 2(1) 3(1) by (simp add: ms)
  then have "dq_run (pre @ ms @ post) ?D = Inr (dq, vs0 @ vs)" by (simp add: dq_run_append assms(6))
  moreover have "unat (highest_delivered dq) = unat start + length (vs0 @ vs)"
    using 3(2) prog0 1(2) 2(3) by (simp add: dq_progress_def)
  moreover have "\<exists>dq. dq_run [Acceptance 1 k2, Cmdmap 1 k2 v2] (delivery_queue_init n pc) = Inr (dq, [v2])"
    by (rule chosen_alone_delivered) (use len assms(3,4) in simp_all)
  ultimately show ?thesis using hd by (auto simp: word_less_nat_alt)
qed

text \<open>A later instance is chosen and mapped, and the mapping of the first one repeated; nothing is delivered.\<close>

theorem delivery_queue_forgets_final_witness:
  "\<exists>dq. dq_run [Cmdmap 1 (key 7) [7], Acceptance 1 (key 8), Cmdmap 1 (key 8) [8, 8], Acceptance 2 (key 9), Cmdmap 2 (key 9) [9],
      Check (Timeval 5 0), Cmdmap 1 (key 8) [8, 8]] ((delivery_queue_init 16 False)\<lparr>highest_delivered := 0\<rparr>) = Inr (dq, [])"
proof -
  let ?post = "[Acceptance 2 (key 9), Cmdmap 2 (key 9) [9], Check (Timeval 5 0), Cmdmap 1 (key 8) [8, 8]]"
  let ?ms = "[Cmdmap 1 (key 7) [7], Acceptance 1 (key 8), Cmdmap 1 (key 8) [8, 8]]"
  have ok: "consistent (cmdmaps_of ([] @ ?ms @ ?post)) (acceptances_of ([] @ ?ms @ ?post))"
    by (auto simp: consistent_def cmdmaps_of_def acceptances_of_def key_def MAX_MESSAGE_SIZE_def MAX_TCP_PAYLOAD_def)
  have ne: "key 7 \<noteq> key 8" by (simp add: key_def)
  obtain dq vs where "dq_run ([] @ ?ms @ ?post) ((delivery_queue_init 16 False)\<lparr>highest_delivered := 0\<rparr>) = Inr (dq, vs)"
      "highest_delivered dq < 1" "unat (highest_delivered dq) = unat (0 :: ring_iid) + length vs"
    using delivery_queue_forgets_final [OF ok ne, of 16 0 False "(delivery_queue_init 16 False)\<lparr>highest_delivered := 0\<rparr>" "[]"]
    by auto
  then show ?thesis by auto
qed

end
