(* ===== verification/RingStorage.thy ===== *)
theory RingStorage
  imports RingBallot
begin

text \<open>
  The in-memory storage of the acceptors of \<^verbatim>\<open>ring_paxos\<close>
  (\<^verbatim>\<open>lib/stable_storage_1.c\<close>, \<^verbatim>\<open>include/lp_stable_storage.h\<close>), and the
  memory its records point to. A record points to the values of an accepted and of a proposed command:
  to the command slot of the record, or to a block of the heap, so the pointers are explicit. A block
  that was freed is no longer allocated: using it is a fault (\<open>OutOfBounds\<close>). A block that
  \<^verbatim>\<open>malloc\<close> returns is new.
\<close>

section \<open>Memory\<close>

datatype cmd_ptr = Slot u64 | Block nat

record instance_record =
  ir_inst :: ring_iid
  ir_ballot :: ring_ballot
  accept_ballot :: ring_ballot
  accepted_cmd_key :: command_id
  accepted_cmd_size :: u64
  accepted_cmd :: "cmd_ptr option"
  proposed_cmd_key :: command_id
  proposed_cmd_size :: u64
  proposed_cmd :: "cmd_ptr option"

record stable_storage_mngr =
  ssm_size :: u32
  instances_array :: "u64 \<Rightarrow> instance_record"
  commands_array :: "u64 \<Rightarrow> bytes"
  ssm_initialized :: bool
  heap :: "nat \<Rightarrow> bytes option"
  next_block :: nat

definition ptr_target :: "cmd_ptr \<Rightarrow> stable_storage_mngr \<Rightarrow> bytes option" where
  "ptr_target p s = (case p of Slot i \<Rightarrow> Some (commands_array s i) | Block b \<Rightarrow> heap s b)"

definition ptr_read :: "cmd_ptr option \<Rightarrow> nat \<Rightarrow> stable_storage_mngr \<Rightarrow> bytes res" where
  "ptr_read p n s = (case p of None \<Rightarrow> Inl NullPointer
     | Some p \<Rightarrow> (case ptr_target p s of None \<Rightarrow> Inl OutOfBounds | Some d \<Rightarrow> mread d 0 n))"

definition ptr_write :: "cmd_ptr option \<Rightarrow> bytes \<Rightarrow> stable_storage_mngr \<Rightarrow> stable_storage_mngr res" where
  "ptr_write p v s = (case p of None \<Rightarrow> Inl NullPointer
     | Some p \<Rightarrow> (case ptr_target p s of None \<Rightarrow> Inl OutOfBounds
         | Some d \<Rightarrow> rbind (mwrite d 0 v) (\<lambda>d. Inr (case p of
             Slot i \<Rightarrow> s\<lparr>commands_array := (commands_array s)(i := d)\<rparr>
           | Block b \<Rightarrow> s\<lparr>heap := (heap s)(b := Some d)\<rparr>))))"

definition c_malloc :: "nat \<Rightarrow> stable_storage_mngr \<Rightarrow> cmd_ptr \<times> stable_storage_mngr" where
  "c_malloc n s = (Block (next_block s),
     s\<lparr>heap := (heap s)(next_block s := Some (replicate n 0)), next_block := next_block s + 1\<rparr>)"

definition c_free :: "cmd_ptr option \<Rightarrow> stable_storage_mngr \<Rightarrow> stable_storage_mngr res" where
  "c_free p s = (case p of None \<Rightarrow> Inr s
     | Some (Slot i) \<Rightarrow> Inl OutOfBounds
     | Some (Block b) \<Rightarrow> rguard (heap s b \<noteq> None) (Inr (s\<lparr>heap := (heap s)(b := None)\<rparr>)))"

section \<open>Records\<close>

definition clear_instance_record :: "instance_record \<Rightarrow> instance_record" where
  "clear_instance_record ir = ir\<lparr>ir_inst := 0, ir_ballot := 0, accept_ballot := 0,
     accepted_cmd_key := clear_cmd_key (accepted_cmd_key ir), accepted_cmd_size := 0, accepted_cmd := None,
     proposed_cmd_key := clear_cmd_key (proposed_cmd_key ir), proposed_cmd_size := 0, proposed_cmd := None\<rparr>"

definition record_index :: "stable_storage_mngr \<Rightarrow> ring_iid \<Rightarrow> u64" where
  "record_index s i = i mod ucast (ssm_size s)"

definition put_ir :: "ring_iid \<Rightarrow> instance_record \<Rightarrow> stable_storage_mngr \<Rightarrow> stable_storage_mngr" where
  "put_ir i ir s = s\<lparr>instances_array := (instances_array s)(record_index s i := ir)\<rparr>"

text \<open>There is no archive of the records that were overwritten.\<close>

definition ssm_get_archived_record :: "stable_storage_mngr \<Rightarrow> ring_iid \<Rightarrow> (instance_record \<times> stable_storage_mngr) res" where
  "ssm_get_archived_record s i = rassert (ssm_initialized s) (Inl AssertFailed)"

definition ssm_archive_record :: "stable_storage_mngr \<Rightarrow> instance_record \<Rightarrow> stable_storage_mngr res" where
  "ssm_archive_record s ir = rassert (ssm_initialized s) (Inr s)"

definition ssm_get_record :: "stable_storage_mngr \<Rightarrow> ring_iid \<Rightarrow> (instance_record \<times> stable_storage_mngr) res" where
  "ssm_get_record s i =
     rassert (ssm_initialized s) (
     rguard (ssm_size s \<noteq> 0) (
     let ir = instances_array s (record_index s i) in
     if ir_inst ir = 0 then let ir = ir\<lparr>ir_inst := i\<rparr> in Inr (ir, put_ir i ir s)
     else if ir_inst ir < i then
       rbind (ssm_archive_record s ir) (\<lambda>s.
       let ir = (clear_instance_record ir)\<lparr>ir_inst := i\<rparr> in Inr (ir, put_ir i ir s))
     else if ir_inst ir > i then ssm_get_archived_record s i
     else Inr (ir, s)))"

definition ssm_update_record :: "stable_storage_mngr \<Rightarrow> instance_record \<Rightarrow> stable_storage_mngr res" where
  "ssm_update_record s ir = rassert (ssm_initialized s) (Inr s)"

definition ssm_get_command_slot :: "stable_storage_mngr \<Rightarrow> ring_iid \<Rightarrow> (cmd_ptr \<times> stable_storage_mngr) res" where
  "ssm_get_command_slot s i =
     rassert (ssm_initialized s) (
     rbind (ssm_get_record s i) (\<lambda>(ir, s).
     rassert (ir_inst ir = i) (Inr (Slot (record_index s i), s))))"

definition ssm_save_delivered_value :: "stable_storage_mngr \<Rightarrow> ring_iid \<Rightarrow> command_id \<Rightarrow> stable_storage_mngr res" where
  "ssm_save_delivered_value s i k = rassert (ssm_initialized s) (Inr s)"

definition zero_record :: instance_record where
  "zero_record = \<lparr>ir_inst = 0, ir_ballot = 0, accept_ballot = 0,
     accepted_cmd_key = \<lparr>mcaster_id = 0, mcaster_incarnation = 0, cmd_seqnum = 0\<rparr>, accepted_cmd_size = 0,
     accepted_cmd = None, proposed_cmd_key = \<lparr>mcaster_id = 0, mcaster_incarnation = 0, cmd_seqnum = 0\<rparr>,
     proposed_cmd_size = 0, proposed_cmd = None\<rparr>"

definition stable_storage_init :: "u32 \<Rightarrow> stable_storage_mngr" where
  "stable_storage_init working_set_size =
     \<lparr>ssm_size = working_set_size, instances_array = (\<lambda>_. clear_instance_record zero_record),
      commands_array = (\<lambda>_. replicate MAX_MESSAGE_SIZE 0), ssm_initialized = True,
      heap = (\<lambda>_. None), next_block = 0\<rparr>"

section \<open>Facts on memory\<close>

lemma ssm_simps [simp]:
  "record_index (s\<lparr>instances_array := f\<rparr>) i = record_index s i"
  "record_index (s\<lparr>commands_array := c\<rparr>) i = record_index s i"
  "record_index (s\<lparr>heap := h\<rparr>) i = record_index s i"
  "record_index (s\<lparr>next_block := n\<rparr>) i = record_index s i"
  by (simp_all add: record_index_def)

lemma put_ir_simps [simp]:
  "ssm_size (put_ir i ir s) = ssm_size s" "ssm_initialized (put_ir i ir s) = ssm_initialized s"
  "heap (put_ir i ir s) = heap s" "next_block (put_ir i ir s) = next_block s"
  "commands_array (put_ir i ir s) = commands_array s" "record_index (put_ir i ir s) j = record_index s j"
  "instances_array (put_ir i ir s) = (instances_array s)(record_index s i := ir)"
  "put_ir i ir' (put_ir i ir s) = put_ir i ir' s"
  by (simp_all add: put_ir_def record_index_def)

end
