(* ===== verification/RingMessages.thy ===== *)
theory RingMessages
  imports RingBallot
begin

text \<open>
  The messages of \<^verbatim>\<open>ring_paxos\<close> (\<^verbatim>\<open>include/ringpaxos_messages.h\<close>,
  \<^verbatim>\<open>include/lp_network.h\<close>). A message with a value at its end
  (\<^verbatim>\<open>char cmd_value[0]\<close>) has the bytes after its header as a list; their number is not
  tied to \<^verbatim>\<open>cmd_size\<close>. The structs are not packed, so they have padding bytes.
\<close>

record phase1_msg =
  p1_inst :: ring_iid
  p1_ballot :: ring_ballot
  promises_count :: u32
  highest_accepted_ballot :: ring_ballot
  highest_promised_ballot :: ring_ballot
  p1_cmd_key :: command_id
  p1_cmd_size :: u64
  p1_cmd_value :: bytes

record phase1_range_msg =
  pr_from :: ring_iid
  pr_to :: ring_iid
  pr_ballot :: ring_ballot
  pr_promises_count :: u32

record phase2_msg =
  p2_inst :: ring_iid
  p2_ballot :: ring_ballot
  accepts_count :: u32
  p2_cmd_key :: command_id

record cmdmap_msg =
  cm_inst :: ring_iid
  cm_cmd_key :: command_id
  cm_cmd_size :: u64
  cm_cmd_value :: bytes

record acceptance_msg =
  am_inst :: ring_iid
  am_cmd_key :: command_id

text \<open>The two kinds of requests of the learners: a count, and the instance numbers after it.\<close>

record requests_msg =
  requests_count :: u32
  rq_inst_number :: "ring_iid list"

text \<open>A value that a client submits (\<^verbatim>\<open>include/lp_submit_proxy.h\<close>).\<close>

record submit_cmd_msg =
  sc_cmd_size :: u64
  sc_cmd_value :: bytes

definition sizeof_phase1_msg :: u64 where "sizeof_phase1_msg = 40"
definition sizeof_phase1_range_msg :: u64 where "sizeof_phase1_range_msg = 24"
definition sizeof_phase2_msg :: u64 where "sizeof_phase2_msg = 24"
definition sizeof_cmdmap_msg :: u64 where "sizeof_cmdmap_msg = 24"
definition sizeof_acceptance_msg :: u64 where "sizeof_acceptance_msg = 16"
definition sizeof_requests_msg :: u64 where "sizeof_requests_msg = 8"

definition SUBMIT_CMD_MSG_SIZE :: "submit_cmd_msg \<Rightarrow> u64" where
  "SUBMIT_CMD_MSG_SIZE m = 8 + sc_cmd_size m"

definition PH1_MSG_SIZE :: "phase1_msg \<Rightarrow> u64" where
  "PH1_MSG_SIZE m = sizeof_phase1_msg + p1_cmd_size m"

definition CMDMAP_MSG_SIZE :: "cmdmap_msg \<Rightarrow> u64" where
  "CMDMAP_MSG_SIZE m = sizeof_cmdmap_msg + cm_cmd_size m"

definition CMDMAP_REQS_MSG_SIZE :: "requests_msg \<Rightarrow> u64" where
  "CMDMAP_REQS_MSG_SIZE m = sizeof_requests_msg + ucast (requests_count m) * 8"

definition FINVAL_REQS_MSG_SIZE :: "requests_msg \<Rightarrow> u64" where
  "FINVAL_REQS_MSG_SIZE m = sizeof_requests_msg + ucast (requests_count m) * 8"

text \<open>The largest value that still fits into a message of phase 1.\<close>

definition MAX_COMMAND_SIZE :: nat where
  "MAX_COMMAND_SIZE = MAX_MESSAGE_SIZE - unat sizeof_phase1_msg"

lemmas ring_sizes = sizeof_phase1_msg_def sizeof_phase1_range_msg_def sizeof_phase2_msg_def sizeof_cmdmap_msg_def
  sizeof_acceptance_msg_def sizeof_requests_msg_def PH1_MSG_SIZE_def CMDMAP_MSG_SIZE_def
  CMDMAP_REQS_MSG_SIZE_def FINVAL_REQS_MSG_SIZE_def

text \<open>A message on the wire, by the type of its header.\<close>

datatype ring_msg =
    phase1 phase1_msg
  | phase1_range phase1_range_msg
  | phase2 phase2_msg
  | command_map cmdmap_msg
  | acceptance acceptance_msg
  | map_request requests_msg
  | chosenval_request requests_msg
  | client_submit submit_cmd_msg
  | other_msg

text \<open>\<^verbatim>\<open>strncmp\<close> compares up to the first null byte, \<^verbatim>\<open>memcmp\<close> all
  bytes. Both are used on blocks of the same length here.\<close>

fun strncmp_eq :: "bytes \<Rightarrow> bytes \<Rightarrow> bool" where
  "strncmp_eq (x # xs) (y # ys) \<longleftrightarrow> x = y \<and> (x = 0 \<or> strncmp_eq xs ys)"
| "strncmp_eq _ _ \<longleftrightarrow> True"

lemma strncmp_eq_refl [simp]: "strncmp_eq xs xs"
  by (induction xs) auto

end
