(* ===== verification/RingAcceptor.thy ===== *)
theory RingAcceptor
  imports RingStorage RingMessages
begin

text \<open>
  The acceptors of \<^verbatim>\<open>ring_paxos\<close> that are not the multicaster
  (\<^verbatim>\<open>ring-paxos/acceptor_helpers.c\<close> and the dispatch of
  \<^verbatim>\<open>ring-paxos/acceptor_events.c\<close>). A handler takes the message, the size the
  receiver reports for it, and the state; it returns the new state and the messages sent to the
  successor. Sending is \<^verbatim>\<open>net_send_udp\<close> on the sender of the successor; event
  counters and log messages are not modelled.
\<close>

record ring_acceptor =
  ssm :: stable_storage_mngr
  highest_instance_seen :: ring_iid

type_synonym acc_result = "(ring_acceptor \<times> ring_msg list) res"

definition track_instance :: "ring_iid \<Rightarrow> ring_acceptor \<Rightarrow> ring_acceptor" where
  "track_instance i acc =
     (if i > highest_instance_seen acc then acc\<lparr>highest_instance_seen := i\<rparr> else acc)"

section \<open>Phase 1\<close>

text \<open>
  \<^verbatim>\<open>memcpy(to_successor, msg, sizeof(msg))\<close> copies the size of a pointer, 8 bytes: the
  number of the instance. The other fields of the forward buffer are what the stack held; \<open>junk\<close>
  stands for it. The value must fit into the buffer.
\<close>

definition forward_accepted :: "phase1_msg \<Rightarrow> instance_record \<Rightarrow> phase1_msg \<Rightarrow> stable_storage_mngr \<Rightarrow> phase1_msg res" where
  "forward_accepted junk ir msg s =
     (let to_successor = junk\<lparr>p1_inst := p1_inst msg\<rparr>;
          to_successor = to_successor\<lparr>highest_accepted_ballot := accept_ballot ir, p1_cmd_key := accepted_cmd_key ir,
            p1_cmd_size := accepted_cmd_size ir\<rparr>
      in rbind (ptr_read (accepted_cmd ir) (unat (accepted_cmd_size ir)) s) (\<lambda>v.
         rguard (unat sizeof_phase1_msg + length v \<le> MAX_MESSAGE_SIZE) (
           Inr (to_successor\<lparr>p1_cmd_value := v\<rparr>))))"

definition acceptor_handle_phase1_msg :: "phase1_msg \<Rightarrow> phase1_msg \<Rightarrow> u64 \<Rightarrow> ring_acceptor \<Rightarrow> acc_result" where
  "acceptor_handle_phase1_msg junk msg msg_size acc =
     rassert (msg_size = p1_cmd_size msg + sizeof_phase1_msg) (
     rbind (ssm_get_record (ssm acc) (p1_inst msg)) (\<lambda>(ir, s).
     rassert (ir_inst ir = p1_inst msg) (
     if p1_ballot msg < ir_ballot ir
     then
       let msg = (if ir_ballot ir > highest_promised_ballot msg then msg\<lparr>highest_promised_ballot := ir_ballot ir\<rparr> else msg)
       in Inr (acc\<lparr>ssm := s\<rparr>, [phase1 msg])
     else
       let acc = track_instance (p1_inst msg) acc;
           ir = ir\<lparr>ir_ballot := p1_ballot msg\<rparr> in
       rbind (ssm_update_record (put_ir (p1_inst msg) ir s) ir) (\<lambda>s.
       let msg = msg\<lparr>promises_count := promises_count msg + 1\<rparr> in
       if accept_ballot ir \<le> highest_accepted_ballot msg
       then Inr (acc\<lparr>ssm := s\<rparr>, [phase1 msg])
       else rbind (forward_accepted junk ir msg s) (\<lambda>m. Inr (acc\<lparr>ssm := s\<rparr>, [phase1 m]))))))"

text \<open>The two loops of a range of instances. They count an unsigned number up to \<open>to\<close>, so with
  the last number there is they would not end; that is outside the model.\<close>

definition iids :: "ring_iid \<Rightarrow> ring_iid \<Rightarrow> ring_iid list" where
  "iids from to = map word_of_nat [unat from ..< Suc (unat to)]"

fun promise_range :: "ring_ballot \<Rightarrow> ring_iid list \<Rightarrow> stable_storage_mngr \<Rightarrow> stable_storage_mngr res" where
  "promise_range b [] s = Inr s"
| "promise_range b (i # is) s =
     rbind (ssm_get_record s i) (\<lambda>(ir, s).
     rassert (ir_inst ir = i) (
     rassert (ir_ballot ir = 0) (
     let ir = ir\<lparr>ir_ballot := b\<rparr> in
     rbind (ssm_update_record (put_ir i ir s) ir) (promise_range b is))))"

definition p1_temp_msg :: "phase1_range_msg \<Rightarrow> ring_iid \<Rightarrow> phase1_msg" where
  "p1_temp_msg msg i = \<lparr>p1_inst = i, p1_ballot = pr_ballot msg, promises_count = pr_promises_count msg,
     highest_accepted_ballot = 0, highest_promised_ballot = 0,
     p1_cmd_key = \<lparr>mcaster_id = 0, mcaster_incarnation = 0, cmd_seqnum = 0\<rparr>, p1_cmd_size = 0, p1_cmd_value = []\<rparr>"

fun break_range :: "phase1_msg \<Rightarrow> phase1_range_msg \<Rightarrow> ring_iid list \<Rightarrow> ring_acceptor \<Rightarrow> acc_result" where
  "break_range junk msg [] acc = Inr (acc, [])"
| "break_range junk msg (i # is) acc =
     rbind (acceptor_handle_phase1_msg junk (p1_temp_msg msg i) (PH1_MSG_SIZE (p1_temp_msg msg i)) acc) (\<lambda>(acc, out).
     rbind (break_range junk msg is acc) (\<lambda>(acc, out'). Inr (acc, out @ out')))"

definition acceptor_handle_phase1_range_msg :: "phase1_msg \<Rightarrow> phase1_range_msg \<Rightarrow> u64 \<Rightarrow> ring_acceptor \<Rightarrow> acc_result" where
  "acceptor_handle_phase1_range_msg junk msg msg_size acc =
     rassert (msg_size = sizeof_phase1_range_msg) (
     rguard (pr_to msg \<noteq> - 1) (
     if pr_from msg > highest_instance_seen acc
     then
       let acc = acc\<lparr>highest_instance_seen := pr_to msg\<rparr> in
       rbind (promise_range (pr_ballot msg) (iids (pr_from msg) (pr_to msg)) (ssm acc)) (\<lambda>s.
         Inr (acc\<lparr>ssm := s\<rparr>, [phase1_range (msg\<lparr>pr_promises_count := pr_promises_count msg + 1\<rparr>)]))
     else break_range junk msg (iids (pr_from msg) (pr_to msg)) acc))"

section \<open>Phase 2\<close>

text \<open>The three ways to accept, by the edges of the map-accept graph that the comments name: A4 and A6
  (accepted before), A2 (the mapping is in the command slot), A8 (another command was accepted).\<close>

definition accept_again :: "command_id \<Rightarrow> cmd_ptr \<Rightarrow> instance_record \<Rightarrow> stable_storage_mngr \<Rightarrow> (instance_record \<times> stable_storage_mngr) res" where
  "accept_again k slot ir s =
     (if proposed_cmd ir \<noteq> None
      then rassert (CMD_KEY_EQUALS k (proposed_cmd_key ir) = False) (
           rassert (proposed_cmd ir \<noteq> Some slot) (
           rbind (c_free (proposed_cmd ir) s) (\<lambda>s.
             Inr (ir\<lparr>proposed_cmd_key := clear_cmd_key (proposed_cmd_key ir), proposed_cmd := None, proposed_cmd_size := 0\<rparr>, s))))
      else Inr (ir, s))"

definition accept_first :: "cmd_ptr \<Rightarrow> instance_record \<Rightarrow> stable_storage_mngr \<Rightarrow> (instance_record \<times> stable_storage_mngr) res" where
  "accept_first slot ir s =
     rassert (proposed_cmd ir = Some slot) (
       Inr (ir\<lparr>accepted_cmd_key := proposed_cmd_key ir, accepted_cmd := proposed_cmd ir,
              accepted_cmd_size := proposed_cmd_size ir,
              proposed_cmd_key := clear_cmd_key (proposed_cmd_key ir), proposed_cmd := None, proposed_cmd_size := 0\<rparr>, s))"

text \<open>The pointer of the proposed command is not reset after its block is freed.\<close>

definition accept_other :: "bool \<Rightarrow> cmd_ptr \<Rightarrow> instance_record \<Rightarrow> stable_storage_mngr \<Rightarrow> (instance_record \<times> stable_storage_mngr) res" where
  "accept_other is_proposed_cmd slot ir s =
     rassert (accepted_cmd ir \<noteq> None \<and> proposed_cmd ir \<noteq> None \<and> accepted_cmd ir \<noteq> proposed_cmd ir) (
     rassert is_proposed_cmd (
     rbind (ptr_read (proposed_cmd ir) (unat (proposed_cmd_size ir)) s) (\<lambda>v.
     rbind (ptr_write (Some slot) v s) (\<lambda>s.
     rbind (c_free (proposed_cmd ir) s) (\<lambda>s.
       Inr (ir\<lparr>accepted_cmd_size := proposed_cmd_size ir, accepted_cmd_key := proposed_cmd_key ir,
              proposed_cmd_size := 0, proposed_cmd_key := clear_cmd_key (proposed_cmd_key ir)\<rparr>, s))))))"

definition acceptor_handle_phase2_msg :: "phase2_msg \<Rightarrow> u64 \<Rightarrow> ring_acceptor \<Rightarrow> acc_result" where
  "acceptor_handle_phase2_msg msg msg_size acc =
     rassert (msg_size = sizeof_phase2_msg) (
     rbind (ssm_get_record (ssm acc) (p2_inst msg)) (\<lambda>(ir, s).
     rassert (ir_inst ir = p2_inst msg) (
     if p2_ballot msg < ir_ballot ir then Inr (acc\<lparr>ssm := s\<rparr>, [])
     else
       let k = p2_cmd_key msg;
           is_proposed_cmd = CMD_KEY_EQUALS k (proposed_cmd_key ir);
           is_accepted_cmd = CMD_KEY_EQUALS k (accepted_cmd_key ir) in
       rassert ((is_proposed_cmd \<and> is_accepted_cmd) = False) (
       if \<not> is_accepted_cmd \<and> \<not> is_proposed_cmd then Inr (acc\<lparr>ssm := s\<rparr>, [])
       else
         let acc = track_instance (p2_inst msg) acc in
         rbind (ssm_get_command_slot s (p2_inst msg)) (\<lambda>(slot, s).
         rbind (if is_accepted_cmd then accept_again k slot ir s
                else if is_proposed_cmd \<and> accepted_cmd ir = None then accept_first slot ir s
                else accept_other is_proposed_cmd slot ir s) (\<lambda>(ir, s).
         let ir = ir\<lparr>ir_ballot := p2_ballot msg, accept_ballot := p2_ballot msg\<rparr> in
         rbind (ssm_update_record (put_ir (p2_inst msg) ir s) ir) (\<lambda>s.
           Inr (acc\<lparr>ssm := s\<rparr>, [phase2 (msg\<lparr>accepts_count := accepts_count msg + 1\<rparr>)]))))))))"

section \<open>Mappings\<close>

text \<open>The blocks that hold the value of a command: the edges M4 and M6 (already accepted), M3 and M7
  (already stored), M1 and M2 (nothing accepted), M5 (a second mapping), M8 (another second mapping).\<close>

definition known_accepted :: "cmdmap_msg \<Rightarrow> instance_record \<Rightarrow> stable_storage_mngr \<Rightarrow> (instance_record \<times> stable_storage_mngr) res" where
  "known_accepted msg ir s =
     rassert (accepted_cmd_size ir = cm_cmd_size msg) (
     rbind (ptr_read (accepted_cmd ir) (unat (cm_cmd_size msg)) s) (\<lambda>v.
     rbind (mread (cm_cmd_value msg) 0 (unat (cm_cmd_size msg))) (\<lambda>w.
     rassert (strncmp_eq v w) (
     if proposed_cmd ir \<noteq> None
     then rassert (proposed_cmd ir \<noteq> accepted_cmd ir) (
          rbind (c_free (proposed_cmd ir) s) (\<lambda>s.
            Inr (ir\<lparr>proposed_cmd := None, proposed_cmd_size := 0, proposed_cmd_key := clear_cmd_key (proposed_cmd_key ir)\<rparr>, s)))
     else Inr (ir, s)))))"

definition known_proposed :: "cmdmap_msg \<Rightarrow> instance_record \<Rightarrow> stable_storage_mngr \<Rightarrow> (instance_record \<times> stable_storage_mngr) res" where
  "known_proposed msg ir s =
     rassert (proposed_cmd_size ir = cm_cmd_size msg) (
     rbind (ptr_read (proposed_cmd ir) (unat (cm_cmd_size msg)) s) (\<lambda>v.
     rbind (mread (cm_cmd_value msg) 0 (unat (cm_cmd_size msg))) (\<lambda>w.
     rassert (strncmp_eq v w) (Inr (ir, s)))))"

definition store_in_slot :: "cmdmap_msg \<Rightarrow> cmd_ptr \<Rightarrow> instance_record \<Rightarrow> stable_storage_mngr \<Rightarrow> (instance_record \<times> stable_storage_mngr) res" where
  "store_in_slot msg slot ir s =
     rassert (accepted_cmd_size ir = 0) (
     rbind (mread (cm_cmd_value msg) 0 (unat (cm_cmd_size msg))) (\<lambda>w.
     rbind (ptr_write (Some slot) w s) (\<lambda>s.
       Inr (ir\<lparr>proposed_cmd := Some slot, proposed_cmd_size := cm_cmd_size msg, proposed_cmd_key := cm_cmd_key msg\<rparr>, s))))"

definition store_in_block :: "cmdmap_msg \<Rightarrow> instance_record \<Rightarrow> stable_storage_mngr \<Rightarrow> (instance_record \<times> stable_storage_mngr) res" where
  "store_in_block msg ir s =
     (let (p, s) = c_malloc (unat (cm_cmd_size msg)) s in
      rbind (mread (cm_cmd_value msg) 0 (unat (cm_cmd_size msg))) (\<lambda>w.
      rbind (ptr_write (Some p) w s) (\<lambda>s.
        Inr (ir\<lparr>proposed_cmd := Some p, proposed_cmd_size := cm_cmd_size msg, proposed_cmd_key := cm_cmd_key msg\<rparr>, s))))"

text \<open>\<^verbatim>\<open>strncmp\<close> is only called when the sizes agree.\<close>

definition replace_block :: "cmdmap_msg \<Rightarrow> instance_record \<Rightarrow> stable_storage_mngr \<Rightarrow> (instance_record \<times> stable_storage_mngr) res" where
  "replace_block msg ir s =
     rbind (if proposed_cmd_size ir = cm_cmd_size msg
            then rbind (ptr_read (proposed_cmd ir) (unat (cm_cmd_size msg)) s) (\<lambda>v.
                 rbind (mread (cm_cmd_value msg) 0 (unat (cm_cmd_size msg))) (\<lambda>w. Inr (strncmp_eq v w)))
            else Inr False) (\<lambda>same.
     rassert (same = False) (
     rbind (c_free (proposed_cmd ir) s) (\<lambda>s. store_in_block msg ir s)))"

definition acceptor_handle_cmdmap_msg :: "cmdmap_msg \<Rightarrow> u64 \<Rightarrow> ring_acceptor \<Rightarrow> acc_result" where
  "acceptor_handle_cmdmap_msg msg msg_size acc =
     rassert (msg_size = CMDMAP_MSG_SIZE msg) (
     rbind (ssm_get_record (ssm acc) (cm_inst msg)) (\<lambda>(ir, s).
     rassert (ir_inst ir = cm_inst msg) (
     let k = cm_cmd_key msg in
     rbind (ssm_get_command_slot s (cm_inst msg)) (\<lambda>(slot, s).
     rbind (if accepted_cmd ir \<noteq> None \<and> CMD_KEY_EQUALS k (accepted_cmd_key ir) then known_accepted msg ir s
            else if proposed_cmd ir \<noteq> None \<and> CMD_KEY_EQUALS k (proposed_cmd_key ir) then known_proposed msg ir s
            else if accepted_cmd ir = None then store_in_slot msg slot ir s
            else if proposed_cmd ir = None then store_in_block msg ir s
            else replace_block msg ir s) (\<lambda>(ir, s).
       Inr (acc\<lparr>ssm := put_ir (cm_inst msg) ir s\<rparr>, []))))))"

definition acceptor_handle_acceptance_msg :: "acceptance_msg \<Rightarrow> u64 \<Rightarrow> ring_acceptor \<Rightarrow> acc_result" where
  "acceptor_handle_acceptance_msg msg msg_size acc =
     rassert (msg_size = sizeof_acceptance_msg) (
     rbind (ssm_save_delivered_value (ssm acc) (am_inst msg) (am_cmd_key msg)) (\<lambda>s. Inr (acc\<lparr>ssm := s\<rparr>, [])))"

section \<open>Dispatch\<close>

definition am_i_leader :: "u8 \<Rightarrow> bool" where "am_i_leader self \<longleftrightarrow> self = 1"

definition am_i_first_in_ring :: "u8 \<Rightarrow> bool" where "am_i_first_in_ring self \<longleftrightarrow> self = 2"

text \<open>The branch of \<^verbatim>\<open>on_predecessor_msg\<close> for an acceptor that is not the leader.\<close>

definition acceptor_on_predecessor_msg :: "phase1_msg \<Rightarrow> ring_msg \<Rightarrow> u64 \<Rightarrow> ring_acceptor \<Rightarrow> acc_result" where
  "acceptor_on_predecessor_msg junk m msg_size acc = (case m of
       phase1 msg \<Rightarrow> acceptor_handle_phase1_msg junk msg msg_size acc
     | phase1_range msg \<Rightarrow> acceptor_handle_phase1_range_msg junk msg msg_size acc
     | phase2 msg \<Rightarrow> acceptor_handle_phase2_msg msg msg_size acc
     | _ \<Rightarrow> Inr (acc, []))"

definition on_multicast_msg :: "u8 \<Rightarrow> ring_msg \<Rightarrow> u64 \<Rightarrow> ring_acceptor \<Rightarrow> acc_result" where
  "on_multicast_msg self m msg_size acc = (case m of
       command_map msg \<Rightarrow> acceptor_handle_cmdmap_msg msg msg_size acc
     | acceptance msg \<Rightarrow> acceptor_handle_acceptance_msg msg msg_size acc
     | phase2 msg \<Rightarrow> if am_i_first_in_ring self then acceptor_handle_phase2_msg msg msg_size acc else Inr (acc, [])
     | _ \<Rightarrow> Inr (acc, []))"

definition regular_acceptor_init :: "u32 \<Rightarrow> ring_acceptor" where
  "regular_acceptor_init working_set_size = \<lparr>ssm = stable_storage_init working_set_size, highest_instance_seen = 0\<rparr>"

end
