(* ===== verification/RingAcceptorSpec.thy ===== *)
theory RingAcceptorSpec
  imports RingAcceptor
begin

text \<open>
  What the acceptors of \<^verbatim>\<open>ring_paxos\<close> do, as an abstract acceptor that keeps for each
  instance the promised ballot, the accepted command and the last mapping that is not accepted. The
  implementation keeps the two values in a command slot and in blocks of the heap that it moves, frees
  and shares; it refines the abstract acceptor, answer by answer, as long as only one command is mapped
  to each instance. With two it can use a block it has freed (\<open>ring_double_free\<close>).
\<close>

section \<open>The abstract acceptor\<close>

record ring_view =
  rv_ballot :: ring_ballot
  rv_accepted :: "(ring_ballot \<times> command_id \<times> bytes) option"
  rv_pending :: "(command_id \<times> bytes) option"

record abs_acceptor =
  views :: "ring_iid \<Rightarrow> ring_view"
  abs_highest :: ring_iid

definition empty_view :: ring_view where
  "empty_view = \<lparr>rv_ballot = 0, rv_accepted = None, rv_pending = None\<rparr>"

definition set_view :: "ring_iid \<Rightarrow> ring_view \<Rightarrow> abs_acceptor \<Rightarrow> abs_acceptor" where
  "set_view i w a = a\<lparr>views := (views a)(i := w)\<rparr>"

definition spec_promise :: "ring_iid \<Rightarrow> ring_ballot \<Rightarrow> abs_acceptor \<Rightarrow> abs_acceptor" where
  "spec_promise i b a = (set_view i ((views a i)\<lparr>rv_ballot := b\<rparr>) a)\<lparr>abs_highest := max (abs_highest a) i\<rparr>"

text \<open>The answer to a promise: the message with one promise more, unless a command was accepted in a
  higher ballot than the message has seen; then the command in a message whose other fields are
  undefined.\<close>

definition promise_answer :: "phase1_msg \<Rightarrow> phase1_msg \<Rightarrow> ring_view \<Rightarrow> phase1_msg" where
  "promise_answer junk m w = (case rv_accepted w of
       Some (b, k, v) \<Rightarrow>
         if b \<le> highest_accepted_ballot m then m\<lparr>promises_count := promises_count m + 1\<rparr>
         else junk\<lparr>p1_inst := p1_inst m, highest_accepted_ballot := b, p1_cmd_key := k,
                p1_cmd_size := word_of_nat (length v), p1_cmd_value := v\<rparr>
     | None \<Rightarrow> m\<lparr>promises_count := promises_count m + 1\<rparr>)"

definition spec_phase1 :: "phase1_msg \<Rightarrow> phase1_msg \<Rightarrow> abs_acceptor \<Rightarrow> abs_acceptor \<times> ring_msg list" where
  "spec_phase1 junk m a =
     (if p1_ballot m < rv_ballot (views a (p1_inst m))
      then (a, [phase1 (m\<lparr>highest_promised_ballot := max (highest_promised_ballot m) (rv_ballot (views a (p1_inst m)))\<rparr>)])
      else (spec_promise (p1_inst m) (p1_ballot m) a, [phase1 (promise_answer junk m (views a (p1_inst m)))]))"

fun spec_each :: "('a \<Rightarrow> abs_acceptor \<Rightarrow> abs_acceptor \<times> ring_msg list) \<Rightarrow> 'a list \<Rightarrow> abs_acceptor \<Rightarrow> abs_acceptor \<times> ring_msg list" where
  "spec_each f [] a = (a, [])"
| "spec_each f (x # xs) a = (let (a, out) = f x a; (a, out') = spec_each f xs a in (a, out @ out'))"

definition spec_range :: "phase1_msg \<Rightarrow> phase1_range_msg \<Rightarrow> abs_acceptor \<Rightarrow> abs_acceptor \<times> ring_msg list" where
  "spec_range junk m a =
     (if pr_from m > abs_highest a
      then (fold (\<lambda>i. spec_promise i (pr_ballot m)) (iids (pr_from m) (pr_to m)) a,
            [phase1_range (m\<lparr>pr_promises_count := pr_promises_count m + 1\<rparr>)])
      else spec_each (\<lambda>i. spec_phase1 junk (p1_temp_msg m i)) (iids (pr_from m) (pr_to m)) a)"

text \<open>A command is accepted when its ballot is high enough and its value is known.\<close>

definition known_value :: "command_id \<Rightarrow> ring_view \<Rightarrow> bytes option" where
  "known_value k w = (case rv_accepted w of
       Some (b, k', v) \<Rightarrow> if k = k' then Some v else map_of (case rv_pending w of None \<Rightarrow> [] | Some p \<Rightarrow> [p]) k
     | None \<Rightarrow> map_of (case rv_pending w of None \<Rightarrow> [] | Some p \<Rightarrow> [p]) k)"

definition spec_phase2 :: "phase2_msg \<Rightarrow> abs_acceptor \<Rightarrow> abs_acceptor \<times> ring_msg list" where
  "spec_phase2 m a =
     (let w = views a (p2_inst m) in
      if p2_ballot m < rv_ballot w then (a, [])
      else case known_value (p2_cmd_key m) w of
        None \<Rightarrow> (a, [])
      | Some v \<Rightarrow> ((set_view (p2_inst m) \<lparr>rv_ballot = p2_ballot m, rv_accepted = Some (p2_ballot m, p2_cmd_key m, v),
            rv_pending = None\<rparr> a)\<lparr>abs_highest := max (abs_highest a) (p2_inst m)\<rparr>,
          [phase2 (m\<lparr>accepts_count := accepts_count m + 1\<rparr>)]))"

definition spec_cmdmap :: "cmdmap_msg \<Rightarrow> abs_acceptor \<Rightarrow> abs_acceptor" where
  "spec_cmdmap m a =
     (let w = views a (cm_inst m) in
      set_view (cm_inst m) (w\<lparr>rv_pending :=
        (case rv_accepted w of Some (b, k, v) \<Rightarrow> if k = cm_cmd_key m then None else Some (cm_cmd_key m, cm_cmd_value m)
         | None \<Rightarrow> Some (cm_cmd_key m, cm_cmd_value m))\<rparr>) a)"

datatype ring_event = FromPredecessor phase1_msg ring_msg u64 | FromMulticast ring_msg u64

definition spec_event :: "u8 \<Rightarrow> ring_event \<Rightarrow> abs_acceptor \<Rightarrow> abs_acceptor \<times> ring_msg list" where
  "spec_event self ev a = (case ev of
       FromPredecessor junk (phase1 m) _ \<Rightarrow> spec_phase1 junk m a
     | FromPredecessor junk (phase1_range m) _ \<Rightarrow> spec_range junk m a
     | FromPredecessor junk (phase2 m) _ \<Rightarrow> spec_phase2 m a
     | FromMulticast (command_map m) _ \<Rightarrow> (spec_cmdmap m a, [])
     | FromMulticast (phase2 m) _ \<Rightarrow> if self = 2 then spec_phase2 m a else (a, [])
     | _ \<Rightarrow> (a, []))"

definition abs_init :: abs_acceptor where
  "abs_init = \<lparr>views = (\<lambda>_. empty_view), abs_highest = 0\<rparr>"

section \<open>The implementation\<close>

fun ring_event_step :: "u8 \<Rightarrow> ring_event \<Rightarrow> ring_acceptor \<Rightarrow> acc_result" where
  "ring_event_step self (FromPredecessor junk m n) acc = acceptor_on_predecessor_msg junk m n acc"
| "ring_event_step self (FromMulticast m n) acc = on_multicast_msg self m n acc"

fun ring_run :: "u8 \<Rightarrow> ring_event list \<Rightarrow> ring_acceptor \<Rightarrow> acc_result" where
  "ring_run self [] acc = Inr (acc, [])"
| "ring_run self (ev # evs) acc =
     rbind (ring_event_step self ev acc) (\<lambda>(acc, out).
     rbind (ring_run self evs acc) (\<lambda>(acc, out'). Inr (acc, out @ out')))"

text \<open>What a record stands for.\<close>

definition stored :: "cmd_ptr option \<Rightarrow> u64 \<Rightarrow> stable_storage_mngr \<Rightarrow> bytes" where
  "stored p n s = (case p of None \<Rightarrow> [] | Some p \<Rightarrow> (case ptr_target p s of None \<Rightarrow> [] | Some d \<Rightarrow> take (unat n) d))"

definition view_of :: "stable_storage_mngr \<Rightarrow> instance_record \<Rightarrow> ring_view" where
  "view_of s ir = \<lparr>rv_ballot = ir_ballot ir,
     rv_accepted = (if accepted_cmd ir = None then None
       else Some (accept_ballot ir, accepted_cmd_key ir, stored (accepted_cmd ir) (accepted_cmd_size ir) s)),
     rv_pending = (if CMD_KEY_IS_NULL (proposed_cmd_key ir) then None
       else Some (proposed_cmd_key ir, stored (proposed_cmd ir) (proposed_cmd_size ir) s))\<rparr>"

definition inst_view :: "stable_storage_mngr \<Rightarrow> ring_iid \<Rightarrow> ring_view" where
  "inst_view s i = (let ir = instances_array s (record_index s i) in
     if ir_inst ir = i then view_of s ir else empty_view)"

section \<open>Invariant\<close>

text \<open>The mappings that the messages carry, and when two commands are mapped to one instance.\<close>

type_synonym ring_maps = "(ring_iid \<times> command_id \<times> bytes) set"

definition ring_maps_ok :: "ring_maps \<Rightarrow> bool" where
  "ring_maps_ok M \<longleftrightarrow> (\<forall>i k v. (i, k, v) \<in> M \<longrightarrow> \<not> CMD_KEY_IS_NULL k \<and> length v \<le> MAX_COMMAND_SIZE)
     \<and> (\<forall>i k v w. (i, k, v) \<in> M \<longrightarrow> (i, k, w) \<in> M \<longrightarrow> v = w)"

definition contested :: "ring_maps \<Rightarrow> ring_iid \<Rightarrow> bool" where
  "contested M i \<longleftrightarrow> (\<exists>k v k' v'. k \<noteq> k' \<and> (i, k, v) \<in> M \<and> (i, k', v') \<in> M)"

definition holds :: "ring_maps \<Rightarrow> ring_iid \<Rightarrow> command_id \<Rightarrow> u64 \<Rightarrow> bytes \<Rightarrow> bool" where
  "holds M i k n d \<longleftrightarrow> unat n \<le> length d \<and> (i, k, take (unat n) d) \<in> M"

definition accepted_ok :: "ring_maps \<Rightarrow> stable_storage_mngr \<Rightarrow> u64 \<Rightarrow> instance_record \<Rightarrow> bool" where
  "accepted_ok M s x ir \<longleftrightarrow> (case accepted_cmd ir of
       None \<Rightarrow> CMD_KEY_IS_NULL (accepted_cmd_key ir) \<and> accepted_cmd_size ir = 0 \<and> accept_ballot ir = 0
     | Some p \<Rightarrow> p = Slot x \<and> holds M (ir_inst ir) (accepted_cmd_key ir) (accepted_cmd_size ir) (commands_array s x))"

definition proposed_ok :: "ring_maps \<Rightarrow> stable_storage_mngr \<Rightarrow> u64 \<Rightarrow> instance_record \<Rightarrow> bool" where
  "proposed_ok M s x ir \<longleftrightarrow> (case proposed_cmd ir of
       None \<Rightarrow> CMD_KEY_IS_NULL (proposed_cmd_key ir) \<and> proposed_cmd_size ir = 0
     | Some (Slot y) \<Rightarrow> y = x \<and> accepted_cmd ir = None
         \<and> holds M (ir_inst ir) (proposed_cmd_key ir) (proposed_cmd_size ir) (commands_array s x)
     | Some (Block b) \<Rightarrow> b < next_block s \<and> accepted_cmd ir \<noteq> None \<and> contested M (ir_inst ir)
         \<and> (case heap s b of None \<Rightarrow> CMD_KEY_IS_NULL (proposed_cmd_key ir)
            | Some d \<Rightarrow> proposed_cmd_key ir \<noteq> accepted_cmd_key ir
                \<and> holds M (ir_inst ir) (proposed_cmd_key ir) (proposed_cmd_size ir) d))"

definition cell_ok :: "ring_maps \<Rightarrow> stable_storage_mngr \<Rightarrow> u64 \<Rightarrow> instance_record \<Rightarrow> bool" where
  "cell_ok M s x ir \<longleftrightarrow> accepted_ok M s x ir \<and> proposed_ok M s x ir
     \<and> accept_ballot ir \<le> ir_ballot ir \<and> length (commands_array s x) = MAX_MESSAGE_SIZE"

definition rec_ok :: "ring_maps \<Rightarrow> stable_storage_mngr \<Rightarrow> u64 \<Rightarrow> instance_record \<Rightarrow> bool" where
  "rec_ok M s x ir \<longleftrightarrow> cell_ok M s x ir
     \<and> (if ir_inst ir = 0 then view_of s ir = empty_view else record_index s (ir_inst ir) = x)"

definition owns :: "instance_record \<Rightarrow> nat \<Rightarrow> bool" where
  "owns ir b \<longleftrightarrow> proposed_cmd ir = Some (Block b)"

definition ssm_inv :: "ring_maps \<Rightarrow> stable_storage_mngr \<Rightarrow> bool" where
  "ssm_inv M s \<longleftrightarrow> ssm_initialized s \<and> ssm_size s \<noteq> 0
     \<and> (\<forall>x. rec_ok M s x (instances_array s x))
     \<and> (\<forall>x y b. owns (instances_array s x) b \<longrightarrow> owns (instances_array s y) b \<longrightarrow> x = y)"

text \<open>What the work on the record at \<open>x\<close> may change: its slot, the block it owns and new blocks.\<close>

definition touches :: "stable_storage_mngr \<Rightarrow> u64 \<Rightarrow> instance_record \<Rightarrow> stable_storage_mngr \<Rightarrow> instance_record \<Rightarrow> bool" where
  "touches s x ir s' ir' \<longleftrightarrow> ssm_size s' = ssm_size s \<and> ssm_initialized s' = ssm_initialized s
     \<and> instances_array s' = instances_array s \<and> next_block s \<le> next_block s'
     \<and> (\<forall>y. y \<noteq> x \<longrightarrow> commands_array s' y = commands_array s y)
     \<and> (\<forall>b. b < next_block s \<longrightarrow> \<not> owns ir b \<longrightarrow> heap s' b = heap s b)
     \<and> (\<forall>b. owns ir' b \<longrightarrow> owns ir b \<or> next_block s \<le> b)"

text \<open>The outcome of the work on a record: \<open>w\<close> is the view of the result; a fault only where two
  commands are mapped.\<close>

definition rec_outcome :: "ring_maps \<Rightarrow> stable_storage_mngr \<Rightarrow> u64 \<Rightarrow> instance_record \<Rightarrow> ring_view \<Rightarrow> (instance_record \<times> stable_storage_mngr) res \<Rightarrow> bool" where
  "rec_outcome M s x ir w r \<longleftrightarrow> (case r of
       Inl e \<Rightarrow> contested M (ir_inst ir)
     | Inr (ir', s') \<Rightarrow> cell_ok M s' x ir' \<and> touches s x ir s' ir' \<and> ir_inst ir' = ir_inst ir
         \<and> ir_ballot ir' = ir_ballot ir \<and> accept_ballot ir' = accept_ballot ir \<and> view_of s' ir' = w)"

lemma CMD_KEY_IS_NULL_iff: "CMD_KEY_IS_NULL k \<longleftrightarrow> k = clear_cmd_key k"
  by (cases k) (auto simp: CMD_KEY_IS_NULL_def clear_cmd_key_def)

lemma null_keys_eq: "CMD_KEY_IS_NULL k \<Longrightarrow> CMD_KEY_IS_NULL k' \<Longrightarrow> k = k'"
  by (cases k, cases k') (simp add: CMD_KEY_IS_NULL_def)

lemma holds_mapped: "holds M i k n d \<Longrightarrow> (i, k, take (unat n) d) \<in> M"
  by (simp add: holds_def)

lemma holds_not_null: "ring_maps_ok M \<Longrightarrow> holds M i k n d \<Longrightarrow> \<not> CMD_KEY_IS_NULL k"
  by (auto simp: holds_def ring_maps_ok_def)

lemma holds_read: "holds M i k n d \<Longrightarrow> mread d 0 (unat n) = Inr (take (unat n) d)"
  by (simp add: holds_def mread_def)

lemma holds_value:
  "ring_maps_ok M \<Longrightarrow> holds M i k n d \<Longrightarrow> (i, k, v) \<in> M \<Longrightarrow> take (unat n) d = v \<and> unat n = length v"
  by (metis holds_def length_take min_absorb2 ring_maps_ok_def)

lemma holds_write:
  "mwrite d 0 v = Inr d' \<Longrightarrow> (i, k, v) \<in> M \<Longrightarrow> unat n = length v \<Longrightarrow> holds M i k n d' \<and> take (unat n) d' = v"
  by (auto simp: mwrite_def holds_def res_eq_Inr)

lemma stored_simps [simp]:
  "stored None n s = []" "stored (Some (Slot x)) n s = take (unat n) (commands_array s x)"
  "stored (Some (Block b)) n s = (case heap s b of None \<Rightarrow> [] | Some d \<Rightarrow> take (unat n) d)"
  by (simp_all add: stored_def ptr_target_def)

section \<open>The work on one record\<close>

lemmas rec_defs = cell_ok_def accepted_ok_def proposed_ok_def touches_def owns_def view_of_def rec_outcome_def

lemma c_free_simps [simp]:
  "c_free None s = Inr s" "c_free (Some (Slot i)) s = Inl OutOfBounds"
  "c_free (Some (Block b)) s = rguard (heap s b \<noteq> None) (Inr (s\<lparr>heap := (heap s)(b := None)\<rparr>))"
  by (simp_all add: c_free_def)

lemma ptr_simps [simp]:
  "ptr_read (Some (Slot x)) n s = mread (commands_array s x) 0 n"
  "ptr_read (Some (Block b)) n s = (case heap s b of None \<Rightarrow> Inl OutOfBounds | Some d \<Rightarrow> mread d 0 n)"
  "ptr_write (Some (Slot x)) v s = rbind (mwrite (commands_array s x) 0 v) (\<lambda>d. Inr (s\<lparr>commands_array := (commands_array s)(x := d)\<rparr>))"
  "ptr_write (Some (Block b)) v s = (case heap s b of None \<Rightarrow> Inl OutOfBounds
     | Some d \<Rightarrow> rbind (mwrite d 0 v) (\<lambda>d. Inr (s\<lparr>heap := (heap s)(b := Some d)\<rparr>)))"
  by (simp_all add: ptr_read_def ptr_write_def ptr_target_def split: option.split)

lemma touches_refl: "touches s x ir s ir"
  by (simp add: touches_def)

lemma clear_cmd_key_null [simp]: "CMD_KEY_IS_NULL k \<Longrightarrow> clear_cmd_key k = k"
  by (metis CMD_KEY_IS_NULL_iff)

text \<open>The four shapes of the pair of pointers.\<close>

lemma rec_cases:
  assumes "cell_ok M s x ir"
  obtains (empty) "accepted_cmd ir = None" "proposed_cmd ir = None"
  | (mapped) "accepted_cmd ir = None" "proposed_cmd ir = Some (Slot x)"
  | (chosen) "accepted_cmd ir = Some (Slot x)" "proposed_cmd ir = None"
  | (freed) b where "accepted_cmd ir = Some (Slot x)" "proposed_cmd ir = Some (Block b)" "heap s b = None"
  | (both) b d where "accepted_cmd ir = Some (Slot x)" "proposed_cmd ir = Some (Block b)" "heap s b = Some d"
proof (cases "accepted_cmd ir")
  case None
  then show ?thesis using assms that(1,2)
    by (cases "proposed_cmd ir") (auto simp: rec_defs split: option.splits cmd_ptr.splits)
next
  case (Some p)
  then show ?thesis using assms that(3,4,5)
    by (cases "proposed_cmd ir") (auto simp: rec_defs split: option.splits cmd_ptr.splits)
qed

lemma accept_again_ok:
  assumes M: "ring_maps_ok M" and r: "cell_ok M s x ir" and k: "\<not> CMD_KEY_IS_NULL k" "accepted_cmd_key ir = k"
  shows "rec_outcome M s x ir ((view_of s ir)\<lparr>rv_pending := None\<rparr>) (accept_again k (Slot x) ir s)"
  using r
proof (cases rule: rec_cases)
  case chosen
  then show ?thesis using r by (simp add: accept_again_def rec_outcome_def touches_refl) (simp add: rec_defs)
next
  case (both b d)
  then have "proposed_cmd_key ir \<noteq> k" using r k by (auto simp: rec_defs)
  then show ?thesis using r both by (auto simp: accept_again_def rec_defs)
next
  case (freed b)
  then show ?thesis using r k by (auto simp: accept_again_def rec_defs rassert_def)
qed (use r k in \<open>auto simp: rec_defs\<close>)

lemma accept_first_ok:
  assumes "cell_ok M s x ir" "accepted_cmd ir = None" "\<not> CMD_KEY_IS_NULL k" "proposed_cmd_key ir = k"
  shows "rec_outcome M s x ir \<lparr>rv_ballot = ir_ballot ir,
      rv_accepted = Some (accept_ballot ir, k, stored (proposed_cmd ir) (proposed_cmd_size ir) s), rv_pending = None\<rparr>
    (accept_first (Slot x) ir s)"
  using assms by (cases rule: rec_cases [OF assms(1)]) (auto simp: accept_first_def rec_defs)

lemma mwrite_fits: "off + length v \<le> length d \<Longrightarrow> \<exists>d'. mwrite d off v = Inr d' \<and> length d' = length d"
  by (auto simp: mwrite_def)

lemma mapped_fits: "ring_maps_ok M \<Longrightarrow> (i, k, v) \<in> M \<Longrightarrow> length v \<le> MAX_MESSAGE_SIZE"
  unfolding ring_maps_ok_def MAX_COMMAND_SIZE_def by (meson diff_le_self order_trans)

lemma accept_other_ok:
  assumes M: "ring_maps_ok M" and r: "cell_ok M s x ir" and a: "accepted_cmd ir \<noteq> None"
    and k: "\<not> CMD_KEY_IS_NULL k" "proposed_cmd_key ir = k"
  shows "rec_outcome M s x ir \<lparr>rv_ballot = ir_ballot ir,
      rv_accepted = Some (accept_ballot ir, k, stored (proposed_cmd ir) (proposed_cmd_size ir) s), rv_pending = None\<rparr>
    (accept_other True (Slot x) ir s)"
  using r
proof (cases rule: rec_cases)
  case (both b d)
  let ?v = "take (unat (proposed_cmd_size ir)) d"
  have h: "holds M (ir_inst ir) k (proposed_cmd_size ir) d" using r both k by (auto simp: rec_defs)
  then have v: "(ir_inst ir, k, ?v) \<in> M" "length ?v = unat (proposed_cmd_size ir)"
    by (simp_all add: holds_def)
  obtain d' where d': "mwrite (commands_array s x) 0 ?v = Inr d'" "length d' = MAX_MESSAGE_SIZE"
    using mwrite_fits [of 0 ?v "commands_array s x"] mapped_fits [OF M v(1)] r by (auto simp: rec_defs)
  have "holds M (ir_inst ir) k (proposed_cmd_size ir) d' \<and> take (unat (proposed_cmd_size ir)) d' = ?v"
    using v(2) by (intro holds_write [OF d'(1) v(1)]) simp
  then show ?thesis using r both k d' holds_read [OF h] by (auto simp: accept_other_def rec_defs)
qed (use r k a in \<open>auto simp: rec_defs\<close>)

lemma mread_all: "n = length v \<Longrightarrow> mread v 0 n = Inr v"
  by (simp add: mread_def)

text \<open>A message that maps the value \<open>v\<close> to its key.\<close>

definition maps_value :: "ring_maps \<Rightarrow> ring_iid \<Rightarrow> cmdmap_msg \<Rightarrow> bool" where
  "maps_value M i m \<longleftrightarrow> (i, cm_cmd_key m, cm_cmd_value m) \<in> M \<and> unat (cm_cmd_size m) = length (cm_cmd_value m)"

lemma known_accepted_ok:
  assumes M: "ring_maps_ok M" and r: "cell_ok M s x ir" and m: "maps_value M (ir_inst ir) m"
    and a: "accepted_cmd ir \<noteq> None" "accepted_cmd_key ir = cm_cmd_key m"
  shows "rec_outcome M s x ir ((view_of s ir)\<lparr>rv_pending := None\<rparr>) (known_accepted m ir s)"
proof -
  have h: "holds M (ir_inst ir) (cm_cmd_key m) (accepted_cmd_size ir) (commands_array s x)" "accepted_cmd ir = Some (Slot x)"
    using r a by (auto simp: rec_defs)
  have v: "take (unat (accepted_cmd_size ir)) (commands_array s x) = cm_cmd_value m" "accepted_cmd_size ir = cm_cmd_size m"
    using holds_value [OF M h(1)] m by (auto simp: maps_value_def word_unat_eq_iff)
  have k: "\<not> CMD_KEY_IS_NULL (cm_cmd_key m)" by (rule holds_not_null [OF M h(1)])
  have n: "unat (cm_cmd_size m) = length (cm_cmd_value m)" using m by (simp add: maps_value_def)
  have "mread (commands_array s x) 0 (length (cm_cmd_value m)) = Inr (cm_cmd_value m)"
    using holds_read [OF h(1)] v n by simp
  note simps = known_accepted_def mread_all n this
  show ?thesis
    using r
  proof (cases rule: rec_cases)
    case chosen
    then show ?thesis using r m h v
      by (simp add: simps maps_value_def) (simp add: rec_defs v)
  next
    case (both b d)
    then show ?thesis using r m h v by (auto simp: simps maps_value_def rec_defs)
  next
    case (freed b)
    then show ?thesis using r m h v by (auto simp: simps maps_value_def rec_defs)
  qed (use a in auto)
qed

lemma known_proposed_ok:
  assumes M: "ring_maps_ok M" and r: "cell_ok M s x ir" and m: "maps_value M (ir_inst ir) m"
    and p: "proposed_cmd ir \<noteq> None" "proposed_cmd_key ir = cm_cmd_key m"
  shows "rec_outcome M s x ir ((view_of s ir)\<lparr>rv_pending := Some (cm_cmd_key m, cm_cmd_value m)\<rparr>) (known_proposed m ir s)"
proof -
  have k: "\<not> CMD_KEY_IS_NULL (cm_cmd_key m)" using M m by (auto simp: ring_maps_ok_def maps_value_def)
  obtain q d where q: "proposed_cmd ir = Some q" "ptr_target q s = Some d" "holds M (ir_inst ir) (cm_cmd_key m) (proposed_cmd_size ir) d"
    using r p k that by (cases rule: rec_cases [OF r]) (auto simp: rec_defs ptr_target_def)
  have v: "take (unat (proposed_cmd_size ir)) d = cm_cmd_value m" "proposed_cmd_size ir = cm_cmd_size m"
    using holds_value [OF M q(3)] m by (auto simp: maps_value_def word_unat_eq_iff)
  have "stored (proposed_cmd ir) (proposed_cmd_size ir) s = cm_cmd_value m" using q(1,2) v(1) by (simp add: stored_def)
  then have "view_of s ir = (view_of s ir)\<lparr>rv_pending := Some (cm_cmd_key m, cm_cmd_value m)\<rparr>"
    using k p(2) by (simp add: view_of_def)
  moreover have "known_proposed m ir s = Inr (ir, s)"
    using q v m holds_read [OF q(3)] by (simp add: known_proposed_def ptr_read_def mread_all maps_value_def)
  ultimately show ?thesis using r by (simp add: rec_outcome_def touches_refl)
qed

lemma store_in_slot_ok:
  assumes M: "ring_maps_ok M" and r: "cell_ok M s x ir" and m: "maps_value M (ir_inst ir) m" and a: "accepted_cmd ir = None"
  shows "rec_outcome M s x ir ((view_of s ir)\<lparr>rv_pending := Some (cm_cmd_key m, cm_cmd_value m)\<rparr>) (store_in_slot m (Slot x) ir s)"
proof -
  let ?v = "cm_cmd_value m"
  have k: "\<not> CMD_KEY_IS_NULL (cm_cmd_key m)" using M m by (auto simp: ring_maps_ok_def maps_value_def)
  obtain d' where d': "mwrite (commands_array s x) 0 ?v = Inr d'" "length d' = MAX_MESSAGE_SIZE"
    using mwrite_fits [of 0 ?v "commands_array s x"] mapped_fits [OF M] m r by (fastforce simp: rec_defs maps_value_def)
  have "holds M (ir_inst ir) (cm_cmd_key m) (cm_cmd_size m) d' \<and> take (unat (cm_cmd_size m)) d' = ?v"
    by (rule holds_write [OF d'(1)]) (use m in \<open>simp_all add: maps_value_def\<close>)
  then show ?thesis using r a m k d' by (auto simp: store_in_slot_def rec_defs maps_value_def mread_all)
qed

text \<open>The second mapping gets a new block; the old one may have been freed before, in \<open>s0\<close>.\<close>

lemma store_in_block_ok:
  assumes M: "ring_maps_ok M" and r: "cell_ok M s0 x ir" and m: "maps_value M (ir_inst ir) m"
    and a: "accepted_cmd ir \<noteq> None" "accepted_cmd_key ir \<noteq> cm_cmd_key m"
    and s: "s = s0 \<or> owns ir b \<and> s = s0\<lparr>heap := (heap s0)(b := None)\<rparr>"
  shows "rec_outcome M s0 x ir ((view_of s0 ir)\<lparr>rv_pending := Some (cm_cmd_key m, cm_cmd_value m)\<rparr>) (store_in_block m ir s)"
proof -
  let ?v = "cm_cmd_value m" and ?b = "next_block s0"
  have h: "holds M (ir_inst ir) (accepted_cmd_key ir) (accepted_cmd_size ir) (commands_array s0 x)" "accepted_cmd ir = Some (Slot x)"
    using r a(1) by (auto simp: rec_defs)
  have v: "(ir_inst ir, cm_cmd_key m, ?v) \<in> M" "unat (cm_cmd_size m) = length ?v"
    using m by (simp_all add: maps_value_def)
  have k: "\<not> CMD_KEY_IS_NULL (cm_cmd_key m)" using M v(1) by (auto simp: ring_maps_ok_def)
  have c: "contested M (ir_inst ir)"
    using holds_mapped [OF h(1)] v(1) a(2) by (auto simp: contested_def)
  have s_same: "next_block s = ?b" "commands_array s = commands_array s0" "ssm_size s = ssm_size s0"
      "ssm_initialized s = ssm_initialized s0" "instances_array s = instances_array s0"
      "\<And>b'. \<not> owns ir b' \<Longrightarrow> heap s b' = heap s0 b'"
    using s by auto
  define s' where "s' = s\<lparr>heap := (heap s)(?b := Some ?v), next_block := ?b + 1\<rparr>"
  have st: "store_in_block m ir s = Inr (ir\<lparr>proposed_cmd := Some (Block ?b), proposed_cmd_size := cm_cmd_size m,
      proposed_cmd_key := cm_cmd_key m\<rparr>, s')"
    using v(2) by (simp add: store_in_block_def c_malloc_def mread_all s_same(1) mwrite_def s'_def)
  have "holds M (ir_inst ir) (cm_cmd_key m) (cm_cmd_size m) ?v" using v by (simp add: holds_def)
  then show ?thesis unfolding st rec_outcome_def prod.case sum.case
    using r h v k a(2) c s_same by (auto simp: s'_def cell_ok_def accepted_ok_def proposed_ok_def touches_def owns_def view_of_def)
qed

lemma replace_block_ok:
  assumes M: "ring_maps_ok M" and r: "cell_ok M s x ir" and m: "maps_value M (ir_inst ir) m"
    and a: "accepted_cmd ir \<noteq> None" "accepted_cmd_key ir \<noteq> cm_cmd_key m" "proposed_cmd ir \<noteq> None"
  shows "rec_outcome M s x ir ((view_of s ir)\<lparr>rv_pending := Some (cm_cmd_key m, cm_cmd_value m)\<rparr>) (replace_block m ir s)"
proof -
  obtain b where b: "proposed_cmd ir = Some (Block b)" "contested M (ir_inst ir)"
    using r a(1,3) by (cases rule: rec_cases [OF r]) (auto simp: rec_defs)
  show ?thesis
  proof (cases "replace_block m ir s")
    case (Inl e)
    then show ?thesis using b(2) by (simp add: rec_outcome_def)
  next
    case (Inr q)
    then obtain s1 where s1: "c_free (proposed_cmd ir) s = Inr s1" "store_in_block m ir s1 = Inr q"
      by (auto simp: replace_block_def res_eq_Inr split: if_splits)
    then have "s1 = s\<lparr>heap := (heap s)(b := None)\<rparr>" using b(1) by (auto simp: res_eq_Inr)
    then have "rec_outcome M s x ir ((view_of s ir)\<lparr>rv_pending := Some (cm_cmd_key m, cm_cmd_value m)\<rparr>) (store_in_block m ir s1)"
      using b(1) by (intro store_in_block_ok [OF M r m a(1,2)]) (auto simp: owns_def)
    then show ?thesis using s1(2) Inr by simp
  qed
qed

section \<open>The storage\<close>

lemma inst_view_cong:
  "instances_array s' (record_index s' i) = instances_array s (record_index s i) \<Longrightarrow>
   (ir_inst (instances_array s (record_index s i)) = i \<Longrightarrow>
     view_of s' (instances_array s (record_index s i)) = view_of s (instances_array s (record_index s i)))
   \<Longrightarrow> inst_view s' i = inst_view s i"
  by (simp add: inst_view_def Let_def)

lemma clear_cell_ok: "length (commands_array s x) = MAX_MESSAGE_SIZE \<Longrightarrow> cell_ok M s x ((clear_instance_record ir)\<lparr>ir_inst := i\<rparr>)"
  by (simp add: clear_instance_record_def rec_defs)

lemma view_clear [simp]: "view_of s ((clear_instance_record ir)\<lparr>ir_inst := i\<rparr>) = empty_view"
  by (simp add: view_of_def clear_instance_record_def empty_view_def)

text \<open>Changing one record, and what it owns, keeps the other records and their views.\<close>

lemma touches_cell_ok:
  assumes "touches s x ir s' ir'" "cell_ok M s y ir2" "y \<noteq> x" "\<And>b. owns ir2 b \<Longrightarrow> \<not> owns ir b"
  shows "cell_ok M s' y ir2 \<and> view_of s' ir2 = view_of s ir2"
  using assms(2)
proof (cases rule: rec_cases)
  case (freed b)
  then have "heap s' b = heap s b" using assms by (auto simp: rec_defs)
  then show ?thesis using assms freed by (auto simp: rec_defs)
next
  case (both b d)
  then have "heap s' b = heap s b" using assms by (auto simp: rec_defs)
  then show ?thesis using assms both by (auto simp: rec_defs)
qed (use assms in \<open>auto simp: rec_defs\<close>)

lemma put_ir_ok:
  assumes s: "ssm_inv M s" and x: "record_index s i = x" "instances_array s x = ir" "i \<noteq> 0"
    and t: "touches s x ir s' ir'" and r: "cell_ok M s' x ir'" "ir_inst ir' = i"
  shows "ssm_inv M (put_ir i ir' s')" and "inst_view (put_ir i ir' s') i = view_of s' ir'"
    and "j \<noteq> i \<Longrightarrow> ir_inst ir \<noteq> j \<or> record_index s j \<noteq> x \<Longrightarrow> inst_view (put_ir i ir' s') j = inst_view s j"
proof -
  let ?s = "put_ir i ir' s'"
  have idx: "record_index s' j = record_index s j" for j using t by (simp add: touches_def record_index_def)
  have same: "view_of ?s q = view_of s' q" "cell_ok M ?s y q = cell_ok M s' y q" for q y
    by (simp_all add: rec_defs stored_def ptr_target_def cong: option.case_cong cmd_ptr.case_cong)
  have inst: "instances_array s' = instances_array s" "record_index s' i = x" using t x(1) idx by (simp_all add: touches_def)
  have other: "cell_ok M s' y (instances_array s y) \<and> view_of s' (instances_array s y) = view_of s (instances_array s y)"
    if "y \<noteq> x" for y
  proof (rule touches_cell_ok [OF t _ that])
    show "cell_ok M s y (instances_array s y)" using s by (simp add: ssm_inv_def rec_ok_def)
    show "\<not> owns ir b" if "owns (instances_array s y) b" for b
      using s x that \<open>y \<noteq> x\<close> unfolding ssm_inv_def by blast
  qed
  have rec: "rec_ok M ?s y (instances_array ?s y)" for y
    using s r x other [of y] idx by (auto simp: inst rec_ok_def same ssm_inv_def)
  have old: "b < next_block s" if "owns (instances_array s y) b" for y b
  proof -
    have "cell_ok M s y (instances_array s y)" using s by (simp add: ssm_inv_def rec_ok_def)
    then show ?thesis using that by (auto simp: rec_defs)
  qed
  have new: "owns (instances_array s x) b" if "owns ir' b" "owns (instances_array s y) b" for y b
    using t x(2) that(1) old [OF that(2)] by (auto simp: touches_def)
  have own: "y = z" if o: "owns (instances_array ?s y) b" "owns (instances_array ?s z) b" for y z b
  proof -
    have e: "instances_array ?s q = (if q = x then ir' else instances_array s q)" for q by (simp add: inst)
    have inj: "owns (instances_array s p) b \<Longrightarrow> owns (instances_array s q) b \<Longrightarrow> p = q" for p q
      using s unfolding ssm_inv_def by blast
    consider "y = x" "z = x" | "y = x" "z \<noteq> x" | "y \<noteq> x" "z = x" | "y \<noteq> x" "z \<noteq> x" by blast
    then show ?thesis
    proof cases
      case 2
      then have "owns ir' b" "owns (instances_array s z) b" using o e by simp_all
      then show ?thesis using new inj 2 by blast
    next
      case 3
      then have "owns ir' b" "owns (instances_array s y) b" using o e by simp_all
      then show ?thesis using new inj 3 by blast
    next
      case 4
      then have "owns (instances_array s y) b" "owns (instances_array s z) b" using o e by simp_all
      then show ?thesis using inj by blast
    qed simp
  qed
  have "ssm_initialized ?s" "ssm_size ?s \<noteq> 0" using s t by (simp_all add: ssm_inv_def touches_def)
  then show "ssm_inv M ?s" unfolding ssm_inv_def using rec own by blast
  show "inst_view ?s i = view_of s' ir'" using x(1) r(2) idx by (simp add: inst_view_def same inst Let_def)
  show "inst_view ?s j = inst_view s j" if "j \<noteq> i" "ir_inst ir \<noteq> j \<or> record_index s j \<noteq> x"
  proof (cases "record_index s j = x")
    case True
    then show ?thesis using that x r(2) idx by (simp add: inst_view_def inst Let_def)
  next
    case False
    then show ?thesis using other [of "record_index s j"] idx x(1) by (simp add: inst_view_def inst Let_def same)
  qed
qed

text \<open>Getting a record: it belongs to the instance, and stands for what was known of it. The views of the
  instances that do not share its index stay.\<close>

lemma ring_get_record_ok:
  assumes M: "ring_maps_ok M" and s: "ssm_inv M s" and i: "i \<noteq> 0" "ir_inst (instances_array s (record_index s i)) \<le> i"
  shows "\<exists>ir s'. ssm_get_record s i = Inr (ir, s') \<and> ssm_inv M s' \<and> ssm_size s' = ssm_size s \<and> ir_inst ir = i
    \<and> instances_array s' (record_index s i) = ir \<and> cell_ok M s' (record_index s i) ir \<and> view_of s' ir = inst_view s i
    \<and> (\<forall>j. record_index s j \<noteq> record_index s i \<longrightarrow> inst_view s' j = inst_view s j)
    \<and> (\<forall>y. y \<noteq> record_index s i \<longrightarrow> instances_array s' y = instances_array s y)"
proof -
  define x ir where "x = record_index s i" and "ir = instances_array s x"
  have r: "rec_ok M s x ir" and b: "ssm_initialized s" "ssm_size s \<noteq> 0"
    using s by (simp_all add: ssm_inv_def ir_def)
  have ?thesis if g: "ssm_get_record s i = Inr (ir', put_ir i ir' s)" "ir_inst ir' = i" "cell_ok M s x ir'"
      "view_of s ir' = inst_view s i" "touches s x ir s ir'" for ir'
  proof -
    note p = put_ir_ok [OF s x_def [symmetric] ir_def [symmetric] i(1) g(5,3,2)]
    have v: "view_of (put_ir i ir' s) ir' = view_of s ir'" "cell_ok M (put_ir i ir' s) x ir' = cell_ok M s x ir'"
      by (simp_all add: rec_defs stored_def ptr_target_def cong: option.case_cong cmd_ptr.case_cong)
    have o: "inst_view (put_ir i ir' s) j = inst_view s j" if "record_index s j \<noteq> record_index s i" for j
      using p(3) [of j] that by (auto simp: x_def)
    show ?thesis
      using g p(1) o v by (intro exI [of _ ir'] exI [of _ "put_ir i ir' s"]) (auto simp: x_def)
  qed note new = this
  consider "ir_inst ir = 0" | "ir_inst ir \<noteq> 0" "ir_inst ir < i" | "ir_inst ir = i"
    using i(2) by (auto simp: ir_def x_def le_less)
  then show ?thesis
  proof cases
    case 1
    let ?ir = "ir\<lparr>ir_inst := i\<rparr>"
    have e: "view_of s ir = empty_view" "cell_ok M s x ir" using r 1 by (simp_all add: rec_ok_def)
    have "accepted_cmd ir = None" using e(1) by (auto simp: view_of_def empty_view_def split: if_splits)
    moreover have "CMD_KEY_IS_NULL (proposed_cmd_key ir)" using e(1) by (auto simp: view_of_def empty_view_def split: if_splits)
    ultimately have n: "accepted_cmd ir = None \<and> proposed_cmd ir = None"
      using e(2) holds_not_null [OF M] by (cases rule: rec_cases [OF e(2)]) (auto simp: rec_defs)
    show ?thesis
    proof (rule new)
      show "ssm_get_record s i = Inr (?ir, put_ir i ?ir s)"
        using b 1 by (simp add: ssm_get_record_def ir_def x_def Let_def)
      have "view_of s ?ir = view_of s ir" by (simp add: view_of_def)
      then show "view_of s ?ir = inst_view s i"
        using e(1) 1 i(1) by (simp add: inst_view_def ir_def [symmetric] x_def [symmetric])
    qed (use e n in \<open>auto simp: rec_defs\<close>)
  next
    case 2
    let ?ir = "(clear_instance_record ir)\<lparr>ir_inst := i\<rparr>"
    show ?thesis
    proof (rule new)
      show "ssm_get_record s i = Inr (?ir, put_ir i ?ir s)"
        using b 2 by (simp add: ssm_get_record_def ssm_archive_record_def ir_def x_def Let_def)
      show "view_of s ?ir = inst_view s i" using 2 by (simp add: inst_view_def Let_def ir_def [symmetric] x_def [symmetric])
      show "cell_ok M s x ?ir" using r by (intro clear_cell_ok) (simp add: rec_ok_def cell_ok_def)
    qed (simp_all add: touches_def owns_def clear_instance_record_def)
  next
    case 3
    then have "ssm_get_record s i = Inr (ir, s)" using b i(1) by (simp add: ssm_get_record_def ir_def x_def)
    moreover have "view_of s ir = inst_view s i" using 3 by (simp add: inst_view_def ir_def x_def)
    ultimately show ?thesis using s r 3 by (auto simp: x_def ir_def rec_ok_def)
  qed
qed

section \<open>Simulation\<close>

text \<open>
  \<open>mx\<close> is the highest instance of the messages so far. The acceptor stands for the abstract one
  on the recent instances, those that no later one can have replaced in the table.
\<close>

definition recent :: "nat \<Rightarrow> nat \<Rightarrow> ring_iid \<Rightarrow> bool" where
  "recent n mx i \<longleftrightarrow> i \<noteq> 0 \<and> mx < unat i + n"

definition seen_ok :: "nat \<Rightarrow> ring_acceptor \<Rightarrow> instance_record \<Rightarrow> bool" where
  "seen_ok mx acc ir \<longleftrightarrow> unat (ir_inst ir) \<le> mx
     \<and> (ir_inst ir \<noteq> 0 \<longrightarrow> ir_ballot ir \<noteq> 0 \<longrightarrow> ir_inst ir \<le> highest_instance_seen acc)"

definition acc_sim :: "ring_maps \<Rightarrow> nat \<Rightarrow> nat \<Rightarrow> ring_acceptor \<Rightarrow> abs_acceptor \<Rightarrow> bool" where
  "acc_sim M n mx acc a \<longleftrightarrow> ssm_inv M (ssm acc) \<and> unat (ssm_size (ssm acc)) = n
     \<and> highest_instance_seen acc = abs_highest a
     \<and> (\<forall>x. seen_ok mx acc (instances_array (ssm acc) x))
     \<and> (\<forall>i. recent n mx i \<longrightarrow> inst_view (ssm acc) i = views a i)"

lemma record_index_eq:
  assumes "ssm_size s \<noteq> 0"
  shows "record_index s i = record_index s j \<longleftrightarrow> unat i mod unat (ssm_size s) = unat j mod unat (ssm_size s)"
proof -
  have "unat (ucast (ssm_size s) :: u64) = unat (ssm_size s)"
    using unat_u32_less [of "ssm_size s"] by (simp add: unsigned_ucast_eq take_bit_eq_mod)
  then show ?thesis by (simp add: record_index_def word_unat_eq_iff unat_mod)
qed

lemma record_index_window:
  assumes "ssm_size s \<noteq> 0" "record_index s i = record_index s j"
    and "mx < unat i + unat (ssm_size s)" "mx < unat j + unat (ssm_size s)" "unat i \<le> mx" "unat j \<le> mx"
  shows "i = j"
proof -
  have n: "0 < unat (ssm_size s)" using assms(1) by (simp add: unat_gt_0)
  have "unat i = unat j"
    by (rule circular.window_slot_inj [OF circular_mod [OF n], where c = "Suc mx - unat (ssm_size s)"])
      (use assms record_index_eq [OF assms(1), of i j] in auto)
  then show ?thesis by (simp add: word_unat_eq_iff)
qed

lemma later_view_empty:
  assumes "\<forall>x. unat (ir_inst (instances_array s x)) \<le> mx" "mx < unat j"
  shows "inst_view s j = empty_view"
proof -
  have "unat (ir_inst (instances_array s (record_index s j))) < unat j" using assms le_less_trans by blast
  then have "ir_inst (instances_array s (record_index s j)) \<noteq> j" by auto
  then show ?thesis by (simp add: inst_view_def Let_def)
qed

lemma sim_get:
  assumes M: "ring_maps_ok M" and sim: "acc_sim M n mx acc a" and i: "recent n mx i"
  defines "x \<equiv> record_index (ssm acc) i" and "mx' \<equiv> max mx (unat i)"
  shows "\<exists>ir s. ssm_get_record (ssm acc) i = Inr (ir, s) \<and> acc_sim M n mx' (acc\<lparr>ssm := s\<rparr>) a
    \<and> ir_inst ir = i \<and> instances_array s x = ir \<and> record_index s i = x \<and> cell_ok M s x ir \<and> view_of s ir = views a i"
proof -
  let ?s = "ssm acc"
  have s: "ssm_inv M ?s" "unat (ssm_size ?s) = n" "\<forall>x. unat (ir_inst (instances_array ?s x)) \<le> mx" "ssm_size ?s \<noteq> 0"
    using sim by (simp_all add: acc_sim_def seen_ok_def ssm_inv_def)
  let ?ir = "instances_array ?s x"
  have le: "ir_inst ?ir \<le> i"
  proof (rule ccontr)
    assume "\<not> ir_inst ?ir \<le> i"
    then have gt: "unat i < unat (ir_inst ?ir)" by (simp add: word_less_nat_alt not_le)
    then have "ir_inst ?ir \<noteq> 0" by auto
    then have "record_index ?s (ir_inst ?ir) = record_index ?s i"
      using s(1) by (auto simp: ssm_inv_def rec_ok_def x_def split: if_splits)
    note e = this
    have b: "mx < unat i + unat (ssm_size ?s)" "unat (ir_inst ?ir) \<le> mx"
      using i s(2,3) by (simp_all add: recent_def)
    have c: "mx < unat (ir_inst ?ir) + unat (ssm_size ?s)" by (meson add_less_mono1 b(1) gt less_trans)
    have d: "unat i \<le> mx" by (meson b(2) gt less_imp_le order_trans)
    have "ir_inst ?ir = i" by (rule record_index_window [OF s(4) e c b d])
    then show False using gt by simp
  qed
  obtain ir s1 where g: "ssm_get_record ?s i = Inr (ir, s1)" "ssm_inv M s1" "ssm_size s1 = ssm_size ?s" "ir_inst ir = i"
      "instances_array s1 x = ir" "cell_ok M s1 x ir" "view_of s1 ir = inst_view ?s i"
      "\<forall>j. record_index ?s j \<noteq> x \<longrightarrow> inst_view s1 j = inst_view ?s j"
      "\<forall>y. y \<noteq> x \<longrightarrow> instances_array s1 y = instances_array ?s y"
    using ring_get_record_ok [OF M s(1) _ le [unfolded x_def]] i unfolding x_def recent_def by blast
  have idx: "record_index s1 j = record_index ?s j" for j using g(3) by (simp add: record_index_def)
  have v: "view_of s1 ir = views a i" using g(7) sim i by (simp add: acc_sim_def)
  have inst_le: "\<forall>y. unat (ir_inst (instances_array s1 y)) \<le> mx'"
  proof
    fix y
    show "unat (ir_inst (instances_array s1 y)) \<le> mx'" using s(3) g(4,5,9)
      by (cases "y = x") (auto simp: mx'_def max_def intro: le_trans)
  qed
  have views: "inst_view s1 j = views a j" if j: "recent n mx' j" for j
  proof (cases "mx' < unat j")
    case True
    then have "inst_view ?s j = empty_view" using s(3) by (intro later_view_empty [of _ mx]) (auto simp: mx'_def)
    moreover have "inst_view s1 j = empty_view" by (rule later_view_empty [OF inst_le True])
    ultimately show ?thesis using sim j by (auto simp: acc_sim_def recent_def mx'_def)
  next
    case False
    show ?thesis
    proof (cases "record_index ?s j = x")
      case True
      have "j = i"
        using record_index_window [OF s(4), of j i mx'] True False i j s(2) by (auto simp: x_def recent_def mx'_def)
      then show ?thesis using g(4,5) idx v by (simp add: inst_view_def x_def)
    next
      case False
      then show ?thesis using g(8) sim j by (auto simp: acc_sim_def recent_def mx'_def)
    qed
  qed
  have seen: "seen_ok mx' (acc\<lparr>ssm := s1\<rparr>) (instances_array s1 y)" for y
  proof (cases "y = x")
    case True
    have "ir_ballot ir = rv_ballot (inst_view ?s i)" using g(7) by (metis ring_view.select_convs(1) view_of_def)
    moreover have "seen_ok mx acc (instances_array ?s (record_index ?s i))" using sim by (simp add: acc_sim_def)
    ultimately have "ir_ballot ir \<noteq> 0 \<longrightarrow> i \<le> highest_instance_seen acc"
      using i by (auto simp: inst_view_def view_of_def empty_view_def seen_ok_def recent_def Let_def split: if_splits)
    then show ?thesis using True g(4,5) inst_le by (auto simp: seen_ok_def)
  next
    case False
    then show ?thesis using sim g(9) by (auto simp: acc_sim_def seen_ok_def mx'_def max_def intro: le_trans)
  qed
  show ?thesis
    using g v idx views seen s(2) sim by (intro exI [of _ ir] exI [of _ s1]) (auto simp: acc_sim_def x_def)
qed

lemma sim_put:
  assumes sim: "acc_sim M n mx acc a" and x: "record_index (ssm acc) i = x" "instances_array (ssm acc) x = ir" "ir_inst ir = i" "i \<noteq> 0"
    and t: "touches (ssm acc) x ir s' ir'" and r: "cell_ok M s' x ir'" "ir_inst ir' = i"
    and h: "highest_instance_seen acc \<le> h" "ir_ballot ir' \<noteq> 0 \<Longrightarrow> i \<le> h"
  shows "acc_sim M n mx \<lparr>ssm = put_ir i ir' s', highest_instance_seen = h\<rparr> ((set_view i (view_of s' ir') a)\<lparr>abs_highest := h\<rparr>)"
proof -
  have s: "ssm_inv M (ssm acc)" using sim by (simp add: acc_sim_def)
  note p = put_ir_ok [OF s x(1,2,4) t r]
  have ia: "instances_array s' = instances_array (ssm acc)" "ssm_size s' = ssm_size (ssm acc)" "record_index s' i = x"
    using t x(1) by (auto simp: touches_def record_index_def)
  have seen: "seen_ok mx \<lparr>ssm = put_ir i ir' s', highest_instance_seen = h\<rparr> (instances_array (put_ir i ir' s') y)" for y
  proof (cases "y = x")
    case True
    have "unat i \<le> mx" using sim x(2,3) by (auto simp: acc_sim_def seen_ok_def)
    then show ?thesis using True r(2) h(2) ia by (simp add: seen_ok_def)
  next
    case False
    then show ?thesis using sim h(1) ia by (auto simp: acc_sim_def seen_ok_def intro: order_trans)
  qed
  have views: "inst_view (put_ir i ir' s') j = (if j = i then view_of s' ir' else views a j)" if "recent n mx j" for j
    using p(2) p(3) [of j] x(3) sim that by (auto simp: acc_sim_def)
  show ?thesis
    using sim p(1) seen views ia by (auto simp: acc_sim_def set_view_def)
qed

lemma sim_seen: "acc_sim M n mx acc a \<Longrightarrow> seen_ok mx acc (instances_array (ssm acc) x)"
  by (simp add: acc_sim_def)

lemma sim_eta:
  "acc_sim M n mx \<lparr>ssm = q, highest_instance_seen = h\<rparr> a \<Longrightarrow> highest_instance_seen acc = h \<Longrightarrow> acc_sim M n mx (acc\<lparr>ssm := q\<rparr>) a"
  by (cases acc) simp

lemma sim_eta2:
  "acc_sim M n mx \<lparr>ssm = q, highest_instance_seen = h\<rparr> a \<Longrightarrow> acc_sim M n mx (acc\<lparr>highest_instance_seen := h, ssm := q\<rparr>) a"
  by (cases acc) simp

lemma sim_mono: "acc_sim M n mx acc a \<Longrightarrow> mx \<le> mx' \<Longrightarrow> acc_sim M n mx' acc a"
  by (auto simp: acc_sim_def seen_ok_def recent_def intro: order_trans)

lemma track_instance_eq: "track_instance i acc = acc\<lparr>highest_instance_seen := max (highest_instance_seen acc) i\<rparr>"
  by (simp add: track_instance_def max_def)

lemma view_of_sel [simp]: "rv_ballot (view_of s ir) = ir_ballot ir"
  by (simp add: view_of_def)

lemma update_record [simp]: "ssm_initialized s \<Longrightarrow> ssm_update_record s ir = Inr s"
  by (simp add: ssm_update_record_def)

text \<open>The value of an accepted command fits into a message of phase 1.\<close>

lemma forward_accepted_ok:
  assumes M: "ring_maps_ok M" and r: "cell_ok M s x ir" and a: "accepted_cmd ir \<noteq> None"
  shows "forward_accepted junk ir m (put_ir i ir' s) = Inr (junk\<lparr>p1_inst := p1_inst m,
      highest_accepted_ballot := accept_ballot ir, p1_cmd_key := accepted_cmd_key ir,
      p1_cmd_size := word_of_nat (length (stored (accepted_cmd ir) (accepted_cmd_size ir) s)),
      p1_cmd_value := stored (accepted_cmd ir) (accepted_cmd_size ir) s\<rparr>)"
proof -
  have h: "holds M (ir_inst ir) (accepted_cmd_key ir) (accepted_cmd_size ir) (commands_array s x)" "accepted_cmd ir = Some (Slot x)"
    using r a by (auto simp: rec_defs)
  let ?v = "take (unat (accepted_cmd_size ir)) (commands_array s x)"
  have "length ?v = unat (accepted_cmd_size ir)" using h(1) by (simp add: holds_def)
  moreover have "length ?v \<le> MAX_COMMAND_SIZE" using holds_mapped [OF h(1)] M unfolding ring_maps_ok_def by blast
  ultimately show ?thesis using h holds_read [OF h(1)]
    by (simp add: forward_accepted_def Let_def MAX_COMMAND_SIZE_def MAX_MESSAGE_SIZE_def MAX_TCP_PAYLOAD_def sizeof_phase1_msg_def)
qed

lemma phase1_sim:
  assumes M: "ring_maps_ok M" and sim: "acc_sim M n mx acc a" and i: "recent n mx (p1_inst m)" and sz: "msg_size = PH1_MSG_SIZE m"
  shows "\<exists>acc'. acceptor_handle_phase1_msg junk m msg_size acc = Inr (acc', snd (spec_phase1 junk m a))
    \<and> acc_sim M n (max mx (unat (p1_inst m))) acc' (fst (spec_phase1 junk m a))"
proof -
  let ?i = "p1_inst m" and ?mx = "max mx (unat (p1_inst m))" and ?x = "record_index (ssm acc) (p1_inst m)"
  obtain ir s where g: "ssm_get_record (ssm acc) ?i = Inr (ir, s)" "acc_sim M n ?mx (acc\<lparr>ssm := s\<rparr>) a" "ir_inst ir = ?i"
      "instances_array s ?x = ir" "record_index s ?i = ?x" "cell_ok M s ?x ir" "view_of s ir = views a ?i"
    using sim_get [OF M sim i] by blast
  have ini: "ssm_initialized s" using g(2) by (simp add: acc_sim_def ssm_inv_def)
  have size: "msg_size = p1_cmd_size m + sizeof_phase1_msg" using sz by (simp add: PH1_MSG_SIZE_def)
  have ballot: "rv_ballot (views a ?i) = ir_ballot ir" using g(7) by (metis view_of_sel)
  note handler = acceptor_handle_phase1_msg_def size g(1,3) spec_phase1_def ballot Let_def
  show ?thesis
  proof (cases "p1_ballot m < ir_ballot ir")
    case True
    then show ?thesis using g(2) by (auto simp: handler max_def not_less)
  next
    case False
    let ?ir = "ir\<lparr>ir_ballot := p1_ballot m\<rparr>" and ?h = "max (highest_instance_seen acc) ?i"
    have c: "cell_ok M s ?x ?ir" using g(6) False by (auto simp: rec_defs cong: option.case_cong cmd_ptr.case_cong)
    have "acc_sim M n ?mx \<lparr>ssm = put_ir ?i ?ir s, highest_instance_seen = ?h\<rparr> ((set_view ?i (view_of s ?ir) a)\<lparr>abs_highest := ?h\<rparr>)"
      using g i c by (intro sim_put [OF g(2), where x = ?x and ir = ir]) (simp_all add: touches_def owns_def recent_def)
    moreover have "view_of s ?ir = (views a ?i)\<lparr>rv_ballot := p1_ballot m\<rparr>"
      unfolding g(7) [symmetric] by (simp add: view_of_def)
    moreover have "highest_instance_seen acc = abs_highest a" using sim by (simp add: acc_sim_def)
    ultimately have sim': "acc_sim M n ?mx \<lparr>ssm = put_ir ?i ?ir s, highest_instance_seen = ?h\<rparr> (spec_promise ?i (p1_ballot m) a)"
      by (simp add: spec_promise_def)
    have acc': "acc\<lparr>highest_instance_seen := h, ssm := q\<rparr> = \<lparr>ssm = q, highest_instance_seen = h\<rparr>" for h q by simp
    have acpt: "rv_accepted (views a ?i) = (if accepted_cmd ir = None then None
        else Some (accept_ballot ir, accepted_cmd_key ir, stored (accepted_cmd ir) (accepted_cmd_size ir) s))"
      unfolding g(7) [symmetric] by (simp add: view_of_def)
    have none: "accept_ballot ir = 0" if "accepted_cmd ir = None" using g(6) that by (auto simp: rec_defs)
    show ?thesis
    proof (cases "accept_ballot ir \<le> highest_accepted_ballot m")
      case True
      then have "promise_answer junk m (views a ?i) = m\<lparr>promises_count := promises_count m + 1\<rparr>"
        by (auto simp: promise_answer_def acpt)
      then show ?thesis using False True sim' ini by (simp add: handler track_instance_eq acc')
    next
      case False': False
      then have a: "accepted_cmd ir \<noteq> None" using none by (metis word_zero_le)
      then have "forward_accepted junk ?ir (m\<lparr>promises_count := promises_count m + 1\<rparr>) (put_ir ?i ?ir s)
          = Inr (promise_answer junk m (views a ?i))"
        using False' forward_accepted_ok [OF M c, of junk "m\<lparr>promises_count := promises_count m + 1\<rparr>" ?i ?ir]
        by (auto simp: promise_answer_def acpt)
      then show ?thesis using False False' sim' ini
        by (simp add: handler track_instance_eq acc')
    qed
  qed
qed

text \<open>The outcome of a message about an instance: a fault only if two commands are mapped to it.\<close>

definition sim_outcome :: "ring_maps \<Rightarrow> nat \<Rightarrow> nat \<Rightarrow> ring_iid \<Rightarrow> abs_acceptor \<times> ring_msg list \<Rightarrow> acc_result \<Rightarrow> bool" where
  "sim_outcome M n mx i r res \<longleftrightarrow> (case res of
       Inl e \<Rightarrow> contested M i
     | Inr (acc, out) \<Rightarrow> out = snd r \<and> acc_sim M n mx acc (fst r))"

lemma command_slot_ok:
  "ssm_initialized s \<Longrightarrow> ssm_size s \<noteq> 0 \<Longrightarrow> ir_inst (instances_array s (record_index s i)) = i \<Longrightarrow> i \<noteq> 0 \<Longrightarrow>
     ssm_get_command_slot s i = Inr (Slot (record_index s i), s)"
  by (simp add: ssm_get_command_slot_def ssm_get_record_def Let_def)

lemma phase2_sim:
  assumes M: "ring_maps_ok M" and sim: "acc_sim M n mx acc a" and i: "recent n mx (p2_inst m)"
    and k: "\<not> CMD_KEY_IS_NULL (p2_cmd_key m)"
  shows "sim_outcome M n (max mx (unat (p2_inst m))) (p2_inst m) (spec_phase2 m a)
    (acceptor_handle_phase2_msg m sizeof_phase2_msg acc)"
proof -
  let ?i = "p2_inst m" and ?k = "p2_cmd_key m" and ?mx = "max mx (unat (p2_inst m))" and ?x = "record_index (ssm acc) (p2_inst m)"
  obtain ir s where g: "ssm_get_record (ssm acc) ?i = Inr (ir, s)" "acc_sim M n ?mx (acc\<lparr>ssm := s\<rparr>) a" "ir_inst ir = ?i"
      "instances_array s ?x = ir" "record_index s ?i = ?x" "cell_ok M s ?x ir" "view_of s ir = views a ?i"
    using sim_get [OF M sim i] by blast
  have ini: "ssm_initialized s" "ssm_size s \<noteq> 0" using g(2) by (simp_all add: acc_sim_def ssm_inv_def)
  have slot: "ssm_get_command_slot s ?i = Inr (Slot ?x, s)"
    using command_slot_ok [OF ini, of ?i] g i by (simp add: recent_def)
  define w where "w = views a ?i"
  have w: "rv_ballot w = ir_ballot ir" "rv_accepted w = (if accepted_cmd ir = None then None
        else Some (accept_ballot ir, accepted_cmd_key ir, stored (accepted_cmd ir) (accepted_cmd_size ir) s))"
      "rv_pending w = (if CMD_KEY_IS_NULL (proposed_cmd_key ir) then None
        else Some (proposed_cmd_key ir, stored (proposed_cmd ir) (proposed_cmd_size ir) s))"
    unfolding w_def g(7) [symmetric] by (simp_all add: view_of_def)
  let ?A = "?k = accepted_cmd_key ir" and ?P = "?k = proposed_cmd_key ir"
  have ex: "\<not> (?P \<and> ?A)"
    using g(6) k holds_not_null [OF M] by (cases rule: rec_cases [OF g(6)]) (auto simp: rec_defs)
  have a_some: "accepted_cmd ir \<noteq> None" if ?A
    using g(6) k that by (cases "accepted_cmd ir") (simp_all add: cell_ok_def accepted_ok_def)
  note handler = acceptor_handle_phase2_msg_def g(1,3) spec_phase2_def w_def [symmetric] w(1) Let_def sim_outcome_def
  consider (old) "p2_ballot m < ir_ballot ir" | (unknown) "\<not> p2_ballot m < ir_ballot ir" "\<not> ?A" "\<not> ?P"
    | (known) "\<not> p2_ballot m < ir_ballot ir" "?A \<or> ?P" by blast
  then show ?thesis
  proof cases
    case old
    then show ?thesis using g(2) by (simp add: handler)
  next
    case unknown
    then have "known_value ?k w = None" by (auto simp: known_value_def w split: option.splits if_splits)
    then show ?thesis using unknown g(2) by (simp add: handler)
  next
    case known
    let ?v = "if ?A then stored (accepted_cmd ir) (accepted_cmd_size ir) s else stored (proposed_cmd ir) (proposed_cmd_size ir) s"
    let ?step = "if ?A then accept_again ?k (Slot ?x) ir s
      else if ?P \<and> accepted_cmd ir = None then accept_first (Slot ?x) ir s else accept_other ?P (Slot ?x) ir s"
    let ?w = "\<lparr>rv_ballot = ir_ballot ir, rv_accepted = Some (accept_ballot ir, ?k, ?v), rv_pending = None\<rparr>"
    have kv: "known_value ?k w = Some ?v" using known k a_some ex by (auto simp: known_value_def w)
    have "view_of s ir\<lparr>rv_pending := None\<rparr> = ?w" if ?A using a_some that by (simp add: view_of_def)
    then have step: "rec_outcome M s ?x ir ?w ?step"
      using accept_again_ok [OF M g(6) k] accept_first_ok [OF g(6) _ k] accept_other_ok [OF M g(6) _ k] known by auto
    show ?thesis
    proof (cases ?step)
      case (Inl e)
      then have "contested M ?i" using step g(3) by (simp add: rec_outcome_def)
      moreover have "acceptor_handle_phase2_msg m sizeof_phase2_msg acc = Inl e"
        using known ex slot Inl by (simp add: handler)
      ultimately show ?thesis by (simp add: sim_outcome_def)
    next
      case (Inr q)
      obtain ir1 s1 where q: "q = (ir1, s1)" by (cases q)
      note r = step [unfolded Inr q rec_outcome_def sum.case prod.case]
      let ?ir = "ir1\<lparr>ir_ballot := p2_ballot m, accept_ballot := p2_ballot m\<rparr>" and ?h = "max (highest_instance_seen acc) ?i"
      have vw: "view_of s1 ?ir = \<lparr>rv_ballot = p2_ballot m, rv_accepted = Some (p2_ballot m, ?k, ?v), rv_pending = None\<rparr>"
        using r by (auto simp: view_of_def split: if_splits)
      have "accepted_cmd ir1 \<noteq> None" using r by (auto simp: view_of_def split: if_splits)
      then have c: "cell_ok M s1 ?x ?ir" using r by (auto simp: rec_defs cong: option.case_cong cmd_ptr.case_cong)
      have "acc_sim M n ?mx \<lparr>ssm = put_ir ?i ?ir s1, highest_instance_seen = ?h\<rparr> ((set_view ?i (view_of s1 ?ir) a)\<lparr>abs_highest := ?h\<rparr>)"
        using g i c r by (intro sim_put [OF g(2), where x = ?x and ir = ir]) (simp_all add: touches_def owns_def recent_def)
      moreover have "highest_instance_seen acc = abs_highest a" using sim by (simp add: acc_sim_def)
      moreover have "ssm_initialized s1" using r ini by (simp add: touches_def)
      moreover have acc': "acc\<lparr>highest_instance_seen := h, ssm := q\<rparr> = \<lparr>ssm = q, highest_instance_seen = h\<rparr>" for h q by simp
      ultimately show ?thesis
        using known ex slot Inr q kv vw by (simp add: handler track_instance_eq acc')
    qed
  qed
qed

lemma cmdmap_sim:
  assumes M: "ring_maps_ok M" and sim: "acc_sim M n mx acc a" and i: "recent n mx (cm_inst m)"
    and m: "maps_value M (cm_inst m) m"
  shows "sim_outcome M n (max mx (unat (cm_inst m))) (cm_inst m) (spec_cmdmap m a, [])
    (acceptor_handle_cmdmap_msg m (CMDMAP_MSG_SIZE m) acc)"
proof -
  let ?i = "cm_inst m" and ?k = "cm_cmd_key m" and ?mx = "max mx (unat (cm_inst m))" and ?x = "record_index (ssm acc) (cm_inst m)"
  obtain ir s where g: "ssm_get_record (ssm acc) ?i = Inr (ir, s)" "acc_sim M n ?mx (acc\<lparr>ssm := s\<rparr>) a" "ir_inst ir = ?i"
      "instances_array s ?x = ir" "record_index s ?i = ?x" "cell_ok M s ?x ir" "view_of s ir = views a ?i"
    using sim_get [OF M sim i] by blast
  have ini: "ssm_initialized s" "ssm_size s \<noteq> 0" using g(2) by (simp_all add: acc_sim_def ssm_inv_def)
  have slot: "ssm_get_command_slot s ?i = Inr (Slot ?x, s)"
    using command_slot_ok [OF ini, of ?i] g i by (simp add: recent_def)
  have m': "maps_value M (ir_inst ir) m" using m g(3) by simp
  let ?w = "(view_of s ir)\<lparr>rv_pending := (if accepted_cmd ir \<noteq> None \<and> accepted_cmd_key ir = ?k then None
      else Some (?k, cm_cmd_value m))\<rparr>"
  let ?step = "if accepted_cmd ir \<noteq> None \<and> ?k = accepted_cmd_key ir then known_accepted m ir s
            else if proposed_cmd ir \<noteq> None \<and> ?k = proposed_cmd_key ir then known_proposed m ir s
            else if accepted_cmd ir = None then store_in_slot m (Slot ?x) ir s
            else if proposed_cmd ir = None then store_in_block m ir s
            else replace_block m ir s"
  have step: "rec_outcome M s ?x ir ?w ?step"
    using known_accepted_ok [OF M g(6) m'] known_proposed_ok [OF M g(6) m'] store_in_slot_ok [OF M g(6) m']
      store_in_block_ok [OF M g(6) m', where s = s] replace_block_ok [OF M g(6) m'] by auto
  have h: "acceptor_handle_cmdmap_msg m (CMDMAP_MSG_SIZE m) acc
      = rbind ?step (\<lambda>(ir, s). Inr (acc\<lparr>ssm := put_ir ?i ir s\<rparr>, []))"
    by (simp add: acceptor_handle_cmdmap_msg_def g(1,3) slot Let_def)
  show ?thesis
  proof (cases ?step)
    case (Inl e)
    then show ?thesis using step g(3) unfolding h by (simp add: rec_outcome_def sim_outcome_def)
  next
    case (Inr q)
    obtain ir1 s1 where q: "q = (ir1, s1)" by (cases q)
    note r = step [unfolded Inr q rec_outcome_def sum.case prod.case]
    let ?h = "highest_instance_seen acc"
    have b: "ir_ballot ir \<noteq> 0 \<Longrightarrow> ?i \<le> ?h"
      using sim_seen [OF g(2), of ?x] g(3,4) i by (simp add: seen_ok_def recent_def)
    have "acc_sim M n ?mx \<lparr>ssm = put_ir ?i ir1 s1, highest_instance_seen = ?h\<rparr> ((set_view ?i (view_of s1 ir1) a)\<lparr>abs_highest := ?h\<rparr>)"
      using g i r b by (intro sim_put [OF g(2), where x = ?x and ir = ir]) (simp_all add: recent_def)
    moreover have "?h = abs_highest a" using sim by (simp add: acc_sim_def)
    moreover have "view_of s1 ir1 = (views a ?i)\<lparr>rv_pending := (case rv_accepted (views a ?i) of
          Some (b, k, v) \<Rightarrow> if k = ?k then None else Some (?k, cm_cmd_value m) | None \<Rightarrow> Some (?k, cm_cmd_value m))\<rparr>"
      using r unfolding g(7) [symmetric] by (auto simp: view_of_def)
    ultimately show ?thesis unfolding h Inr q
      by (simp add: sim_outcome_def spec_cmdmap_def Let_def set_view_def sim_eta)
  qed
qed

section \<open>Ranges\<close>

fun recent_all :: "nat \<Rightarrow> nat \<Rightarrow> ring_iid list \<Rightarrow> bool" where
  "recent_all n mx [] \<longleftrightarrow> True"
| "recent_all n mx (i # is) \<longleftrightarrow> recent n mx i \<and> recent_all n (max mx (unat i)) is"

definition top_of :: "ring_iid list \<Rightarrow> nat \<Rightarrow> nat" where
  "top_of is mx = fold (\<lambda>i m. max m (unat i)) is mx"

lemma top_of_simps [simp]: "top_of [] mx = mx" "top_of (i # is) mx = top_of is (max mx (unat i))"
  by (simp_all add: top_of_def)

lemma break_range_sim:
  assumes "ring_maps_ok M" "acc_sim M n mx acc a" "recent_all n mx is"
  shows "\<exists>acc'. break_range junk m is acc = Inr (acc', snd (spec_each (\<lambda>i. spec_phase1 junk (p1_temp_msg m i)) is a))
    \<and> acc_sim M n (top_of is mx) acc' (fst (spec_each (\<lambda>i. spec_phase1 junk (p1_temp_msg m i)) is a))"
  using assms(2,3)
proof (induction "is" arbitrary: acc a mx)
  case (Cons i "is")
  have "p1_inst (p1_temp_msg m i) = i" by (simp add: p1_temp_msg_def)
  then obtain acc1 where 1: "acceptor_handle_phase1_msg junk (p1_temp_msg m i) (PH1_MSG_SIZE (p1_temp_msg m i)) acc
        = Inr (acc1, snd (spec_phase1 junk (p1_temp_msg m i) a))"
      "acc_sim M n (max mx (unat i)) acc1 (fst (spec_phase1 junk (p1_temp_msg m i) a))"
    using phase1_sim [OF assms(1) Cons.prems(1), of "p1_temp_msg m i" _ junk] Cons.prems(2) by auto
  then show ?case using Cons.IH [OF 1(2)] Cons.prems(2) by (auto simp: split_beta Let_def)
qed simp

text \<open>The instances of a range that starts above the highest one seen were never promised.\<close>

lemma promise_range_sim:
  assumes M: "ring_maps_ok M"
  shows "acc_sim M n mx \<lparr>ssm = s, highest_instance_seen = h\<rparr> a \<Longrightarrow> recent_all n mx is \<Longrightarrow> sorted_wrt (<) (h # is) \<Longrightarrow>
    \<exists>s'. promise_range b is s = Inr s'
      \<and> acc_sim M n (top_of is mx) \<lparr>ssm = s', highest_instance_seen = last (h # is)\<rparr> (fold (\<lambda>i. spec_promise i b) is a)"
proof (induction "is" arbitrary: s h a mx)
  case (Cons i "is")
  let ?x = "record_index s i" and ?mx = "max mx (unat i)"
  have i: "recent n mx i" "h < i" using Cons.prems by auto
  obtain ir s1 where g: "ssm_get_record s i = Inr (ir, s1)" "acc_sim M n ?mx \<lparr>ssm = s1, highest_instance_seen = h\<rparr> a"
      "ir_inst ir = i" "instances_array s1 ?x = ir" "record_index s1 i = ?x" "cell_ok M s1 ?x ir" "view_of s1 ir = views a i"
    using sim_get [OF M Cons.prems(1) i(1)] by auto
  have z: "ir_ballot ir = 0"
    using sim_seen [OF g(2), of ?x] g(3,4) i by (auto simp: seen_ok_def recent_def not_le [symmetric])
  let ?ir = "ir\<lparr>ir_ballot := b\<rparr>"
  have c: "cell_ok M s1 ?x ?ir" using g(6) z by (auto simp: rec_defs cong: option.case_cong cmd_ptr.case_cong)
  have "acc_sim M n ?mx \<lparr>ssm = put_ir i ?ir s1, highest_instance_seen = i\<rparr> ((set_view i (view_of s1 ?ir) a)\<lparr>abs_highest := i\<rparr>)"
    using g i c by (intro sim_put [OF g(2), where x = ?x and ir = ir]) (simp_all add: touches_def owns_def recent_def)
  moreover have "view_of s1 ?ir = (views a i)\<lparr>rv_ballot := b\<rparr>" unfolding g(7) [symmetric] by (simp add: view_of_def)
  moreover have "max (abs_highest a) i = i" 
    using Cons.prems(1) i(2) by (simp add: acc_sim_def max_absorb2 less_imp_le)
  ultimately have sim: "acc_sim M n ?mx \<lparr>ssm = put_ir i ?ir s1, highest_instance_seen = i\<rparr> (spec_promise i b a)"
    by (simp add: spec_promise_def set_view_def)
  have "ssm_initialized s1" using g(2) by (simp add: acc_sim_def ssm_inv_def)
  then show ?case using Cons.IH [OF sim] Cons.prems(2,3) g(1,3) z by (auto simp: Let_def)
qed auto

lemma iids_sorted: "sorted_wrt (<) (iids from to)"
proof -
  have "unat (word_of_nat i :: ring_iid) = i" if "i \<in> set [unat from ..< Suc (unat to)]" for i
    using that unat_u64_less [of to] by (auto simp: unat_of_nat)
  then have "sorted_wrt (\<lambda>i j. (word_of_nat i :: ring_iid) < word_of_nat j) [unat from ..< Suc (unat to)]"
    by (intro sorted_wrt_mono_rel [OF _ sorted_wrt_upt]) (auto simp: word_less_nat_alt)
  then show ?thesis by (simp add: iids_def sorted_wrt_map del: upt_Suc)
qed

lemma iids_ends:
  assumes "from \<le> to"
  shows "last (iids from to) = to" "iids from to \<noteq> []" "i \<in> set (iids from to) \<Longrightarrow> from \<le> i"
proof -
  have le: "unat from \<le> unat to" using assms by (simp add: word_le_nat_alt)
  then show "last (iids from to) = to" "iids from to \<noteq> []" by (simp_all add: iids_def last_map)
  show "from \<le> i" if "i \<in> set (iids from to)"
    using that unat_u64_less [of to] by (auto simp: iids_def word_le_nat_alt unat_of_nat simp del: upt_Suc)
qed

lemma range_sim:
  assumes M: "ring_maps_ok M" and sim: "acc_sim M n mx acc a" and r: "recent_all n mx (iids (pr_from m) (pr_to m))"
    and b: "pr_from m \<le> pr_to m" "pr_to m \<noteq> - 1"
  shows "\<exists>acc'. acceptor_handle_phase1_range_msg junk m sizeof_phase1_range_msg acc = Inr (acc', snd (spec_range junk m a))
    \<and> acc_sim M n (top_of (iids (pr_from m) (pr_to m)) mx) acc' (fst (spec_range junk m a))"
proof -
  let ?is = "iids (pr_from m) (pr_to m)"
  have h: "highest_instance_seen acc = abs_highest a" using sim by (simp add: acc_sim_def)
  show ?thesis
  proof (cases "pr_from m > highest_instance_seen acc")
    case True
    have sorted: "sorted_wrt (<) (highest_instance_seen acc # ?is)"
      using iids_sorted iids_ends(3) [OF b(1)] True by (auto intro: less_le_trans)
    have "acc_sim M n mx \<lparr>ssm = ssm acc, highest_instance_seen = highest_instance_seen acc\<rparr> a"
      using sim by (cases acc) simp
    then obtain s' where "promise_range (pr_ballot m) ?is (ssm acc) = Inr s'"
        "acc_sim M n (top_of ?is mx) \<lparr>ssm = s', highest_instance_seen = pr_to m\<rparr> (fold (\<lambda>i. spec_promise i (pr_ballot m)) ?is a)"
      using promise_range_sim [OF M _ r sorted] iids_ends(1,2) [OF b(1)] by fastforce
    then show ?thesis using True b(2) h
      by (simp add: acceptor_handle_phase1_range_msg_def spec_range_def Let_def sim_eta2)
  next
    case False
    then show ?thesis using break_range_sim [OF M sim r, of junk m] b(2) h
      by (simp add: acceptor_handle_phase1_range_msg_def spec_range_def)
  qed
qed

section \<open>Properties\<close>

fun spec_run :: "u8 \<Rightarrow> ring_event list \<Rightarrow> abs_acceptor \<Rightarrow> abs_acceptor \<times> ring_msg list" where
  "spec_run self evs a = spec_each (spec_event self) evs a"

text \<open>The instances a message is about; the messages an acceptor can get: of the right size, about recent
  instances, with keys that are not null; and the mappings they carry.\<close>

definition event_iids :: "ring_event \<Rightarrow> ring_iid list" where
  "event_iids ev = (case ev of
       FromPredecessor junk (phase1 m) _ \<Rightarrow> [p1_inst m]
     | FromPredecessor junk (phase1_range m) _ \<Rightarrow> iids (pr_from m) (pr_to m)
     | FromPredecessor junk (phase2 m) _ \<Rightarrow> [p2_inst m]
     | FromMulticast (command_map m) _ \<Rightarrow> [cm_inst m]
     | FromMulticast (phase2 m) _ \<Rightarrow> [p2_inst m]
     | _ \<Rightarrow> [])"

definition valid_event :: "ring_event \<Rightarrow> bool" where
  "valid_event ev \<longleftrightarrow> (case ev of
       FromPredecessor junk (phase1 m) n \<Rightarrow> n = PH1_MSG_SIZE m
     | FromPredecessor junk (phase1_range m) n \<Rightarrow> n = sizeof_phase1_range_msg \<and> pr_from m \<le> pr_to m \<and> pr_to m \<noteq> - 1
     | FromPredecessor junk (phase2 m) n \<Rightarrow> n = sizeof_phase2_msg \<and> \<not> CMD_KEY_IS_NULL (p2_cmd_key m)
     | FromMulticast (phase2 m) n \<Rightarrow> n = sizeof_phase2_msg \<and> \<not> CMD_KEY_IS_NULL (p2_cmd_key m)
     | FromMulticast (command_map m) n \<Rightarrow> n = CMDMAP_MSG_SIZE m \<and> unat (cm_cmd_size m) = length (cm_cmd_value m)
     | FromMulticast (acceptance m) n \<Rightarrow> n = sizeof_acceptance_msg
     | _ \<Rightarrow> True)"

definition event_maps :: "ring_event list \<Rightarrow> ring_maps" where
  "event_maps evs = {(cm_inst m, cm_cmd_key m, cm_cmd_value m) | m n. FromMulticast (command_map m) n \<in> set evs}"

definition valid_run :: "nat \<Rightarrow> nat \<Rightarrow> ring_event list \<Rightarrow> bool" where
  "valid_run n mx evs \<longleftrightarrow> list_all valid_event evs \<and> recent_all n mx (concat (map event_iids evs))"

lemma recent_all_append: "recent_all n mx (is @ js) \<longleftrightarrow> recent_all n mx is \<and> recent_all n (top_of is mx) js"
  by (induction "is" arbitrary: mx) auto

lemma top_of_append: "top_of (is @ js) mx = top_of js (top_of is mx)"
  by (simp add: top_of_def)

definition run_outcome :: "ring_maps \<Rightarrow> nat \<Rightarrow> nat \<Rightarrow> abs_acceptor \<times> ring_msg list \<Rightarrow> acc_result \<Rightarrow> bool" where
  "run_outcome M n mx r res \<longleftrightarrow> (case res of
       Inl e \<Rightarrow> \<exists>i. contested M i
     | Inr (acc, out) \<Rightarrow> out = snd r \<and> acc_sim M n mx acc (fst r))"

lemma sim_outcome_run: "sim_outcome M n mx i r res \<Longrightarrow> run_outcome M n mx r res"
  by (auto simp: sim_outcome_def run_outcome_def split: sum.splits)

lemma acceptance_sim:
  "acc_sim M n mx acc a \<Longrightarrow> run_outcome M n mx (a, []) (acceptor_handle_acceptance_msg m sizeof_acceptance_msg acc)"
  by (cases acc) (simp add: acceptor_handle_acceptance_msg_def ssm_save_delivered_value_def run_outcome_def acc_sim_def ssm_inv_def)

lemma event_sim:
  assumes M: "ring_maps_ok M" "event_maps [ev] \<subseteq> M" and sim: "acc_sim M n mx acc a"
    and v: "valid_event ev" "recent_all n mx (event_iids ev)"
  shows "run_outcome M n (top_of (event_iids ev) mx) (spec_event self ev a) (ring_event_step self ev acc)"
proof (cases ev)
  case (FromPredecessor junk m k)
  show ?thesis
  proof (cases m)
    case (phase1 p)
    then show ?thesis using phase1_sim [OF M(1) sim, of p k junk] v
      by (auto simp: FromPredecessor event_iids_def valid_event_def acceptor_on_predecessor_msg_def spec_event_def run_outcome_def)
  next
    case (phase1_range p)
    then show ?thesis using range_sim [OF M(1) sim, of p junk] v
      by (auto simp: FromPredecessor event_iids_def valid_event_def acceptor_on_predecessor_msg_def spec_event_def run_outcome_def)
  next
    case (phase2 p)
    then show ?thesis using sim_outcome_run [OF phase2_sim [OF M(1) sim, of p]] v
      by (simp add: FromPredecessor event_iids_def valid_event_def acceptor_on_predecessor_msg_def spec_event_def)
  qed (use sim in \<open>simp_all add: FromPredecessor event_iids_def acceptor_on_predecessor_msg_def spec_event_def run_outcome_def\<close>)
next
  case (FromMulticast m k)
  show ?thesis
  proof (cases m)
    case (phase2 p)
    then show ?thesis using sim_outcome_run [OF phase2_sim [OF M(1) sim, of p]] v sim_mono [OF sim, of "max mx (unat (p2_inst p))"]
      by (auto simp: FromMulticast event_iids_def valid_event_def on_multicast_msg_def am_i_first_in_ring_def spec_event_def run_outcome_def)
  next
    case (command_map p)
    have "maps_value M (cm_inst p) p" using M(2) v
      by (auto simp: FromMulticast command_map event_maps_def maps_value_def valid_event_def)
    then show ?thesis using sim_outcome_run [OF cmdmap_sim [OF M(1) sim, of p]] v command_map
      by (simp add: FromMulticast event_iids_def valid_event_def on_multicast_msg_def spec_event_def)
  next
    case (acceptance p)
    then show ?thesis using acceptance_sim [OF sim, of p] v
      by (simp add: FromMulticast event_iids_def valid_event_def on_multicast_msg_def spec_event_def)
  qed (use sim in \<open>simp_all add: FromMulticast event_iids_def on_multicast_msg_def spec_event_def run_outcome_def\<close>)
qed

lemma ring_run_sim:
  assumes "ring_maps_ok M"
  shows "event_maps evs \<subseteq> M \<Longrightarrow> acc_sim M n mx acc a \<Longrightarrow> valid_run n mx evs \<Longrightarrow>
    run_outcome M n (top_of (concat (map event_iids evs)) mx) (spec_run self evs a) (ring_run self evs acc)"
proof (induction evs arbitrary: mx acc a)
  case (Cons ev evs)
  have m: "event_maps [ev] \<subseteq> M" "event_maps evs \<subseteq> M" using Cons.prems(1) by (auto simp: event_maps_def)
  have v: "valid_event ev" "recent_all n mx (event_iids ev)" "valid_run n (top_of (event_iids ev) mx) evs"
    using Cons.prems(3) by (auto simp: valid_run_def recent_all_append)
  note 1 = event_sim [OF assms m(1) Cons.prems(2) v(1,2), of self]
  show ?case
  proof (cases "ring_event_step self ev acc")
    case (Inl e)
    then show ?thesis using 1 by (simp add: run_outcome_def)
  next
    case (Inr p)
    obtain acc1 out1 where p: "p = (acc1, out1)" by (cases p)
    then have 2: "acc_sim M n (top_of (event_iids ev) mx) acc1 (fst (spec_event self ev a))" "out1 = snd (spec_event self ev a)"
      using 1 Inr by (auto simp: run_outcome_def)
    show ?thesis using Cons.IH [OF m(2) 2(1) v(3)] 2(2) Inr p
      by (auto simp: run_outcome_def top_of_append split_beta Let_def split: sum.splits)
  qed
qed (simp add: run_outcome_def)

lemma init_sim:
  assumes "w \<noteq> 0"
  shows "acc_sim M (unat w) 0 (regular_acceptor_init w) abs_init"
proof -
  have z: "clear_instance_record zero_record = zero_record"
    by (simp add: zero_record_def clear_instance_record_def clear_cmd_key_def)
  have e: "instances_array (stable_storage_init w) = (\<lambda>_. zero_record)"
      "commands_array (stable_storage_init w) = (\<lambda>_. replicate MAX_MESSAGE_SIZE 0)"
      "ssm_initialized (stable_storage_init w)" "ssm_size (stable_storage_init w) = w"
    by (simp_all add: stable_storage_init_def z)
  have n: "CMD_KEY_IS_NULL (accepted_cmd_key zero_record)" "CMD_KEY_IS_NULL (proposed_cmd_key zero_record)"
      "ir_inst zero_record = 0" "accepted_cmd zero_record = None" "proposed_cmd zero_record = None"
      "accepted_cmd_size zero_record = 0" "proposed_cmd_size zero_record = 0" "accept_ballot zero_record = 0" "ir_ballot zero_record = 0"
    by (simp_all add: CMD_KEY_IS_NULL_def zero_record_def)
  then have c: "cell_ok M (stable_storage_init w) x zero_record" "view_of (stable_storage_init w) zero_record = empty_view" for x
    by (simp_all add: rec_defs e empty_view_def)
  have "inst_view (stable_storage_init w) i = empty_view" if "i \<noteq> 0" for i
    using that by (simp add: inst_view_def e n)
  then show ?thesis using assms e n c
    by (auto simp: acc_sim_def regular_acceptor_init_def ssm_inv_def rec_ok_def seen_ok_def abs_init_def recent_def owns_def)
qed

end
