(* ===== verification/RingAcceptorProps.thy ===== *)
theory RingAcceptorProps
  imports RingAcceptorSpec
begin

text \<open>
  The properties of the acceptors of \<^verbatim>\<open>ring_paxos\<close>: they refine the abstract acceptor, they
  keep their promises, and the way they free the value of a command when two are mapped to one instance.
\<close>

section \<open>Refinement\<close>

lemma ring_maps_ok_subset: "M \<subseteq> N \<Longrightarrow> ring_maps_ok N \<Longrightarrow> ring_maps_ok M"
  unfolding ring_maps_ok_def by blast

definition mapping :: "ring_iid \<Rightarrow> command_id \<Rightarrow> bytes \<Rightarrow> cmdmap_msg" where
  "mapping i k v = \<lparr>cm_inst = i, cm_cmd_key = k, cm_cmd_size = word_of_nat (length v), cm_cmd_value = v\<rparr>"

definition map_event :: "ring_iid \<Rightarrow> command_id \<Rightarrow> bytes \<Rightarrow> ring_event" where
  "map_event i k v = FromMulticast (command_map (mapping i k v)) (CMDMAP_MSG_SIZE (mapping i k v))"

definition accept_event :: "ring_iid \<Rightarrow> ring_ballot \<Rightarrow> command_id \<Rightarrow> ring_event" where
  "accept_event i b k = FromMulticast (phase2 \<lparr>p2_inst = i, p2_ballot = b, accepts_count = 0, p2_cmd_key = k\<rparr>) sizeof_phase2_msg"

definition ring_key :: "u16 \<Rightarrow> command_id" where
  "ring_key n = \<lparr>mcaster_id = 1, mcaster_incarnation = 0, cmd_seqnum = n\<rparr>"

definition ring_example :: "ring_event list" where
  "ring_example = [map_event 1 (ring_key 1) [7, 8], accept_event 1 0x10100 (ring_key 1),
     FromPredecessor (p1_temp_msg \<lparr>pr_from = 0, pr_to = 0, pr_ballot = 0, pr_promises_count = 0\<rparr> 0)
       (phase1_range \<lparr>pr_from = 2, pr_to = 3, pr_ballot = 0x10100, pr_promises_count = 0\<rparr>) sizeof_phase1_range_msg,
     map_event 2 (ring_key 2) [9]]"

text \<open>C6. The acceptor of \<^verbatim>\<open>ring_paxos\<close> refines an abstract Paxos acceptor: over any
  messages about recent instances it sends exactly the answers of the abstract one, and its records
  stand for the abstract promise, accepted command with its value, and pending mapping. It can only
  fault when two different commands are mapped to one instance.\<close>

theorem ring_acceptor_refines:
  assumes "w \<noteq> 0" "ring_maps_ok (event_maps evs)" "valid_run (unat w) 0 evs"
  shows "case ring_run self evs (regular_acceptor_init w) of
      Inl e \<Rightarrow> \<exists>i. contested (event_maps evs) i
    | Inr (acc, out) \<Rightarrow> out = snd (spec_run self evs abs_init)
        \<and> (\<forall>i. recent (unat w) (top_of (concat (map event_iids evs)) 0) i
            \<longrightarrow> inst_view (ssm acc) i = views (fst (spec_run self evs abs_init)) i)"
  using ring_run_sim [OF assms(2) subset_refl init_sim [OF assms(1)] assms(3), of self]
  by (auto simp: run_outcome_def acc_sim_def split: sum.splits)

theorem ring_acceptor_refines_witness:
  "case ring_run 2 ring_example (regular_acceptor_init 10) of
      Inl e \<Rightarrow> \<exists>i. contested (event_maps ring_example) i
    | Inr (acc, out) \<Rightarrow> out = snd (spec_run 2 ring_example abs_init)
        \<and> (\<forall>i. recent (unat (10 :: u32)) (top_of (concat (map event_iids ring_example)) 0) i
            \<longrightarrow> inst_view (ssm acc) i = views (fst (spec_run 2 ring_example abs_init)) i)"
proof (rule ring_acceptor_refines)
  have m: "event_maps ring_example \<subseteq> {(1, ring_key 1, [7, 8]), (2, ring_key 2, [9])}"
    by (auto simp: event_maps_def ring_example_def map_event_def accept_event_def mapping_def)
  show "ring_maps_ok (event_maps ring_example)"
    by (rule ring_maps_ok_subset [OF m]) (auto simp: ring_maps_ok_def ring_key_def CMD_KEY_IS_NULL_def MAX_COMMAND_SIZE_def MAX_MESSAGE_SIZE_def
        MAX_TCP_PAYLOAD_def sizeof_phase1_msg_def)
  show "valid_run (unat (10 :: u32)) 0 ring_example"
    by (simp add: valid_run_def ring_example_def map_event_def accept_event_def mapping_def valid_event_def event_iids_def
        iids_def recent_def ring_key_def CMD_KEY_IS_NULL_def upt_rec)
qed simp

section \<open>A block that is freed twice\<close>

text \<open>The record of an instance that was met before.\<close>

definition record_at :: "ring_iid \<Rightarrow> u64 \<Rightarrow> instance_record \<Rightarrow> stable_storage_mngr \<Rightarrow> bool" where
  "record_at i x ir s \<longleftrightarrow> ssm_initialized s \<and> ssm_size s \<noteq> 0 \<and> record_index s i = x \<and> instances_array s x = ir
     \<and> ir_inst ir = i \<and> i \<noteq> 0 \<and> length (commands_array s x) = MAX_MESSAGE_SIZE"

lemma record_at_get:
  assumes "record_at i x ir s"
  shows "ssm_get_record s i = Inr (ir, s)" "ssm_get_command_slot s i = Inr (Slot x, s)" "ssm_initialized s" "ir_inst ir = i"
  using assms command_slot_ok [of s i] by (auto simp: record_at_def ssm_get_record_def Let_def)

lemma record_at_put:
  "record_at i x ir s \<Longrightarrow> ir_inst ir' = i \<Longrightarrow> record_at i x ir' (put_ir i ir' s)"
  by (auto simp: record_at_def)

lemma record_at_upd [simp]:
  "record_at i x ir (s\<lparr>heap := h\<rparr>) = record_at i x ir s" "record_at i x ir (s\<lparr>next_block := n\<rparr>) = record_at i x ir s"
  "length d = MAX_MESSAGE_SIZE \<Longrightarrow> record_at i x ir s \<Longrightarrow> record_at i x ir (s\<lparr>commands_array := (commands_array s)(x := d)\<rparr>)"
  by (simp_all add: record_at_def)

lemmas event_defs = map_event_def mapping_def accept_event_def on_multicast_msg_def am_i_first_in_ring_def
  acceptor_handle_cmdmap_msg_def acceptor_handle_phase2_msg_def

lemma accept_other_step:
  assumes "record_at i x ir (ssm acc)" "accepted_cmd ir = Some (Slot x)" "proposed_cmd ir = Some (Block b)"
    "heap (ssm acc) b = Some v" "proposed_cmd_key ir = k" "accepted_cmd_key ir \<noteq> k" "length v \<le> MAX_MESSAGE_SIZE"
    "unat (proposed_cmd_size ir) = length v" "ir_ballot ir \<le> b2"
  shows "\<exists>acc' ir' out. ring_event_step 2 (accept_event i b2 k) acc = Inr (acc', out)
    \<and> record_at i x ir' (ssm acc') \<and> proposed_cmd ir' = Some (Block b) \<and> heap (ssm acc') b = None
    \<and> CMD_KEY_IS_NULL (proposed_cmd_key ir') \<and> proposed_cmd_size ir' = 0
    \<and> accepted_cmd ir' = Some (Slot x) \<and> accepted_cmd_key ir' = k \<and> ir_ballot ir' = b2"
proof -
  obtain d where d: "mwrite (commands_array (ssm acc) x) 0 v = Inr d" "length d = MAX_MESSAGE_SIZE"
    using mwrite_fits [of 0 v "commands_array (ssm acc) x"] assms(1,7) by (auto simp: record_at_def)
  have "mread v 0 (unat (proposed_cmd_size ir)) = Inr v" using assms(8) by (simp add: mread_def)
  moreover define ir' where "ir' = ir\<lparr>accepted_cmd_size := proposed_cmd_size ir, accepted_cmd_key := k, proposed_cmd_size := 0,
      proposed_cmd_key := clear_cmd_key k, ir_ballot := b2, accept_ballot := b2\<rparr>"
  moreover define s' where "s' = (ssm acc)\<lparr>commands_array := (commands_array (ssm acc))(x := d), heap := (heap (ssm acc))(b := None)\<rparr>"
  ultimately have "\<exists>out. ring_event_step 2 (accept_event i b2 k) acc
      = Inr (acc\<lparr>highest_instance_seen := max (highest_instance_seen acc) i, ssm := put_ir i ir' s'\<rparr>, out)"
    using assms d record_at_get [OF assms(1)] by (auto simp: event_defs accept_other_def Let_def track_instance_eq not_less)
  moreover have "record_at i x ir' (put_ir i ir' s')"
    using assms(1) d(2) record_at_get(4) [OF assms(1)] by (intro record_at_put [of i x ir]) (simp_all add: s'_def ir'_def)
  ultimately show ?thesis
    using assms(2,3) by (fastforce simp: ir'_def s'_def intro!: exI [of _ ir'])
qed

lemma freed_block_faults:
  assumes "record_at i x ir (ssm acc)" "accepted_cmd ir = Some (Slot x)" "proposed_cmd ir = Some (Block b)"
    "heap (ssm acc) b = None" "CMD_KEY_IS_NULL (proposed_cmd_key ir)" "proposed_cmd_size ir = 0" "accepted_cmd_key ir = k2"
  shows "\<not> CMD_KEY_IS_NULL k2 \<Longrightarrow> ir_ballot ir \<le> b3 \<Longrightarrow> ring_event_step 2 (accept_event i b3 k2) acc = Inl OutOfBounds"
    and "k3 \<noteq> k2 \<Longrightarrow> \<not> CMD_KEY_IS_NULL k3 \<Longrightarrow> (word_of_nat (length v3) :: u64) \<noteq> 0 \<Longrightarrow>
      ring_event_step 2 (map_event i k3 v3) acc = Inl OutOfBounds"
proof -
  have k: "k \<noteq> proposed_cmd_key ir" if "\<not> CMD_KEY_IS_NULL k" for k using assms(5) that by auto
  show "ring_event_step 2 (accept_event i b3 k2) acc = Inl OutOfBounds" if "\<not> CMD_KEY_IS_NULL k2" "ir_ballot ir \<le> b3"
    using assms record_at_get [OF assms(1)] k [OF that(1)] that(2)
    by (simp add: event_defs accept_again_def Let_def track_instance_eq not_less)
  show "ring_event_step 2 (map_event i k3 v3) acc = Inl OutOfBounds"
    if "k3 \<noteq> k2" "\<not> CMD_KEY_IS_NULL k3" "(word_of_nat (length v3) :: u64) \<noteq> 0"
    using assms record_at_get [OF assms(1)] k [OF that(2)] that(1,3)
    by (simp add: event_defs replace_block_def Let_def)
qed

lemma first_mapping_step:
  assumes "w \<noteq> 0" "length v \<le> MAX_COMMAND_SIZE" "\<not> CMD_KEY_IS_NULL k"
  shows "\<exists>acc x ir. ring_event_step 2 (map_event 1 k v) (regular_acceptor_init w) = Inr (acc, [])
    \<and> record_at 1 x ir (ssm acc) \<and> accepted_cmd ir = None \<and> CMD_KEY_IS_NULL (accepted_cmd_key ir)
    \<and> proposed_cmd ir = Some (Slot x) \<and> proposed_cmd_key ir = k \<and> ir_ballot ir = 0"
proof -
  let ?s = "stable_storage_init w" and ?x = "record_index (stable_storage_init w) 1"
  define z where "z = (clear_instance_record zero_record)\<lparr>ir_inst := 1\<rparr>"
  have z: "accepted_cmd z = None" "proposed_cmd z = None" "CMD_KEY_IS_NULL (accepted_cmd_key z)" "ir_inst z = 1"
      "accepted_cmd_size z = 0" "ir_ballot z = 0" by (simp_all add: z_def clear_instance_record_def)
  have s: "ssm_initialized ?s" "ssm_size ?s = w" "instances_array ?s = (\<lambda>_. clear_instance_record zero_record)"
      "length (commands_array ?s ?x) = MAX_MESSAGE_SIZE" by (simp_all add: stable_storage_init_def)
  have "ir_inst (clear_instance_record zero_record) = 0" by (simp add: clear_instance_record_def)
  then have g: "ssm_get_record ?s 1 = Inr (z, put_ir 1 z ?s)"
    using assms(1) s by (simp add: ssm_get_record_def Let_def z_def)
  have at: "record_at 1 ?x z (put_ir 1 z ?s)" using s assms(1) z(4) by (auto simp: record_at_def)
  have len: "unat (word_of_nat (length v) :: u64) = length v" "length v \<le> MAX_MESSAGE_SIZE"
    using assms(2) by (simp_all add: unat_of_nat MAX_COMMAND_SIZE_def MAX_MESSAGE_SIZE_def MAX_TCP_PAYLOAD_def sizeof_phase1_msg_def)
  obtain d where d: "mwrite (commands_array ?s ?x) 0 v = Inr d" "length d = MAX_MESSAGE_SIZE"
    using mwrite_fits [of 0 v "commands_array ?s ?x"] s(4) len(2) by auto
  define ir s' where "ir = z\<lparr>proposed_cmd := Some (Slot ?x), proposed_cmd_size := word_of_nat (length v), proposed_cmd_key := k\<rparr>"
    and "s' = (put_ir 1 z ?s)\<lparr>commands_array := (commands_array ?s)(?x := d)\<rparr>"
  have "ring_event_step 2 (map_event 1 k v) (regular_acceptor_init w)
      = Inr ((regular_acceptor_init w)\<lparr>ssm := put_ir 1 ir s'\<rparr>, [])"
    using g record_at_get [OF at] z d len(1) s
    by (simp add: event_defs regular_acceptor_init_def store_in_slot_def Let_def mread_all ir_def s'_def)
  moreover have "record_at 1 ?x ir (put_ir 1 ir s')"
    using at d(2) z(4) by (intro record_at_put [of 1 ?x z]) (auto simp: s'_def ir_def record_at_def)
  ultimately show ?thesis using z by (fastforce simp: ir_def intro!: exI [of _ ir])
qed

lemma first_accept_step:
  assumes "record_at i x ir (ssm acc)" "accepted_cmd ir = None" "CMD_KEY_IS_NULL (accepted_cmd_key ir)"
    "proposed_cmd ir = Some (Slot x)" "proposed_cmd_key ir = k" "\<not> CMD_KEY_IS_NULL k" "ir_ballot ir \<le> b"
  shows "\<exists>acc' ir' out. ring_event_step 2 (accept_event i b k) acc = Inr (acc', out)
    \<and> record_at i x ir' (ssm acc') \<and> accepted_cmd ir' = Some (Slot x) \<and> accepted_cmd_key ir' = k \<and> proposed_cmd ir' = None
    \<and> ir_ballot ir' = b"
proof -
  define ir' where "ir' = ir\<lparr>accepted_cmd_key := k, accepted_cmd := Some (Slot x), accepted_cmd_size := proposed_cmd_size ir,
      proposed_cmd_key := clear_cmd_key k, proposed_cmd := None, proposed_cmd_size := 0, ir_ballot := b, accept_ballot := b\<rparr>"
  have "k \<noteq> accepted_cmd_key ir" using assms(3,6) by auto
  then have "\<exists>out. ring_event_step 2 (accept_event i b k) acc
      = Inr (acc\<lparr>highest_instance_seen := max (highest_instance_seen acc) i, ssm := put_ir i ir' (ssm acc)\<rparr>, out)"
    using assms record_at_get [OF assms(1)]
    by (auto simp: event_defs accept_first_def Let_def track_instance_eq not_less ir'_def)
  moreover have "record_at i x ir' (put_ir i ir' (ssm acc))"
    using assms(1) record_at_get(4) [OF assms(1)] by (intro record_at_put [of i x ir]) (simp_all add: ir'_def)
  ultimately show ?thesis by (fastforce simp: ir'_def intro!: exI [of _ ir'])
qed

lemma second_mapping_step:
  assumes "record_at i x ir (ssm acc)" "accepted_cmd ir = Some (Slot x)" "accepted_cmd_key ir \<noteq> k" "proposed_cmd ir = None"
    "length v \<le> MAX_COMMAND_SIZE"
  shows "\<exists>acc' ir' b. ring_event_step 2 (map_event i k v) acc = Inr (acc', []) \<and> record_at i x ir' (ssm acc')
    \<and> accepted_cmd ir' = Some (Slot x) \<and> accepted_cmd_key ir' = accepted_cmd_key ir \<and> ir_ballot ir' = ir_ballot ir
    \<and> proposed_cmd ir' = Some (Block b) \<and> heap (ssm acc') b = Some v \<and> proposed_cmd_key ir' = k \<and> unat (proposed_cmd_size ir') = length v"
proof -
  have len: "unat (word_of_nat (length v) :: u64) = length v"
    using assms(5) by (simp add: unat_of_nat MAX_COMMAND_SIZE_def MAX_MESSAGE_SIZE_def MAX_TCP_PAYLOAD_def sizeof_phase1_msg_def)
  let ?b = "next_block (ssm acc)"
  define ir' s' where "ir' = ir\<lparr>proposed_cmd := Some (Block ?b), proposed_cmd_size := word_of_nat (length v), proposed_cmd_key := k\<rparr>"
    and "s' = (ssm acc)\<lparr>heap := (heap (ssm acc))(?b := Some v), next_block := ?b + 1\<rparr>"
  have "ring_event_step 2 (map_event i k v) acc = Inr (acc\<lparr>ssm := put_ir i ir' s'\<rparr>, [])"
    using assms record_at_get [OF assms(1)] len
    by (auto simp: event_defs store_in_block_def c_malloc_def mread_all mwrite_def Let_def ir'_def s'_def)
  moreover have "record_at i x ir' (put_ir i ir' s')"
    using assms(1) record_at_get(4) [OF assms(1)] by (intro record_at_put [of i x ir]) (simp_all add: ir'_def s'_def)
  ultimately show ?thesis
    using assms(2) len by (intro exI [of _ "acc\<lparr>ssm := put_ir i ir' s'\<rparr>"] exI [of _ ir'] exI [of _ ?b]) (simp add: ir'_def s'_def)
qed

text \<open>C30. Two commands mapped to one instance: once the second has replaced the first as the accepted
  one, the record points to a block that was freed, so the next repetition of phase 2 for the
  command, or any further mapping for the instance, frees it again.\<close>

theorem ring_double_free:
  assumes "k1 \<noteq> k2" "k3 \<noteq> k2" "\<not> CMD_KEY_IS_NULL k1" "\<not> CMD_KEY_IS_NULL k2" "\<not> CMD_KEY_IS_NULL k3"
    and "length v1 \<le> MAX_COMMAND_SIZE" "length v2 \<le> MAX_COMMAND_SIZE" "0 < length v3" "length v3 \<le> MAX_COMMAND_SIZE"
    and "b1 \<le> b2" "b2 \<le> b3" "w \<noteq> 0"
  shows "\<exists>acc out. ring_run 2 [map_event 1 k1 v1, accept_event 1 b1 k1, map_event 1 k2 v2, accept_event 1 b2 k2]
        (regular_acceptor_init w) = Inr (acc, out)
    \<and> ring_event_step 2 (accept_event 1 b3 k2) acc = Inl OutOfBounds
    \<and> ring_event_step 2 (map_event 1 k3 v3) acc = Inl OutOfBounds"
proof -
  have fit: "length v2 \<le> MAX_MESSAGE_SIZE" using assms(7) by (simp add: MAX_COMMAND_SIZE_def)
  have "unat (word_of_nat (length v3) :: u64) = length v3"
    using assms(9) by (simp add: unat_of_nat MAX_COMMAND_SIZE_def MAX_MESSAGE_SIZE_def MAX_TCP_PAYLOAD_def sizeof_phase1_msg_def)
  then have v3: "(word_of_nat (length v3) :: u64) \<noteq> 0" using assms(8) by (metis less_numeral_extra(3) unat_0)
  obtain acc1 x ir1 where 1: "ring_event_step 2 (map_event 1 k1 v1) (regular_acceptor_init w) = Inr (acc1, [])"
      "record_at 1 x ir1 (ssm acc1)" "accepted_cmd ir1 = None" "CMD_KEY_IS_NULL (accepted_cmd_key ir1)"
      "proposed_cmd ir1 = Some (Slot x)" "proposed_cmd_key ir1 = k1" "ir_ballot ir1 = 0"
    using first_mapping_step [OF assms(12,6,3)] by blast
  obtain acc2 ir2 out2 where 2: "ring_event_step 2 (accept_event 1 b1 k1) acc1 = Inr (acc2, out2)"
      "record_at 1 x ir2 (ssm acc2)" "accepted_cmd ir2 = Some (Slot x)" "accepted_cmd_key ir2 = k1" "proposed_cmd ir2 = None" "ir_ballot ir2 = b1"
    using first_accept_step [OF 1(2-6) assms(3), of b1] 1(7) by auto
  obtain acc3 ir3 b where 3: "ring_event_step 2 (map_event 1 k2 v2) acc2 = Inr (acc3, [])" "record_at 1 x ir3 (ssm acc3)"
      "accepted_cmd ir3 = Some (Slot x)" "accepted_cmd_key ir3 = k1" "ir_ballot ir3 = b1"
      "proposed_cmd ir3 = Some (Block b)" "heap (ssm acc3) b = Some v2" "proposed_cmd_key ir3 = k2" "unat (proposed_cmd_size ir3) = length v2"
    using second_mapping_step [OF 2(2,3) _ 2(5) assms(7), of k2] assms(1) 2(4,6) by auto
  obtain acc4 ir4 out4 where 4: "ring_event_step 2 (accept_event 1 b2 k2) acc3 = Inr (acc4, out4)" "record_at 1 x ir4 (ssm acc4)"
      "proposed_cmd ir4 = Some (Block b)" "heap (ssm acc4) b = None" "CMD_KEY_IS_NULL (proposed_cmd_key ir4)" "proposed_cmd_size ir4 = 0"
      "accepted_cmd ir4 = Some (Slot x)" "accepted_cmd_key ir4 = k2" "ir_ballot ir4 = b2"
    using accept_other_step [OF 3(2,3,6-8) _ fit 3(9), of b2] assms(1,10) 3(4,5) by auto
  note faults = freed_block_faults [OF 4(2,7,3-6,8)]
  show ?thesis using 1(1) 2(1) 3(1) 4(1) faults(1) [OF assms(4), of b3] faults(2) [OF assms(2,5) v3] assms(11) 4(9)
    by simp
qed

theorem ring_double_free_witness:
  "\<exists>acc out. ring_run 2 [map_event 1 (ring_key 1) [1], accept_event 1 0x10100 (ring_key 1), map_event 1 (ring_key 2) [2, 2],
        accept_event 1 0x20100 (ring_key 2)] (regular_acceptor_init 10) = Inr (acc, out)
    \<and> ring_event_step 2 (accept_event 1 0x20100 (ring_key 2)) acc = Inl OutOfBounds
    \<and> ring_event_step 2 (map_event 1 (ring_key 1) [1]) acc = Inl OutOfBounds"
  by (rule ring_double_free)
    (simp_all add: ring_key_def CMD_KEY_IS_NULL_def MAX_COMMAND_SIZE_def MAX_MESSAGE_SIZE_def MAX_TCP_PAYLOAD_def sizeof_phase1_msg_def)

section \<open>Promises\<close>

text \<open>From one view to a later one: the promise is not lowered, and what is accepted was accepted before or
  has a ballot that keeps the promise.\<close>

definition grows :: "ring_view \<Rightarrow> ring_view \<Rightarrow> bool" where
  "grows w w' \<longleftrightarrow> rv_ballot w \<le> rv_ballot w' \<and> (\<forall>b k v. rv_accepted w' = Some (b, k, v) \<longrightarrow>
     rv_accepted w = Some (b, k, v) \<or> rv_ballot w \<le> b)"

definition abs_step_ok :: "abs_acceptor \<Rightarrow> abs_acceptor \<Rightarrow> bool" where
  "abs_step_ok a a' \<longleftrightarrow> (\<forall>i. grows (views a i) (views a' i))
     \<and> ((\<forall>i. rv_ballot (views a i) \<noteq> 0 \<longrightarrow> i \<le> abs_highest a) \<longrightarrow> (\<forall>i. rv_ballot (views a' i) \<noteq> 0 \<longrightarrow> i \<le> abs_highest a'))"

lemma grows_refl [simp]: "grows w w"
  by (simp add: grows_def)

lemma grows_trans: "grows w w' \<Longrightarrow> grows w' w'' \<Longrightarrow> grows w w''"
  unfolding grows_def by (meson order_trans)

lemma abs_step_refl [simp]: "abs_step_ok a a"
  by (simp add: abs_step_ok_def)

lemma abs_step_trans: "abs_step_ok a a' \<Longrightarrow> abs_step_ok a' a'' \<Longrightarrow> abs_step_ok a a''"
  unfolding abs_step_ok_def using grows_trans by blast

lemma promise_step: "rv_ballot (views a i) \<le> b \<Longrightarrow> abs_step_ok a (spec_promise i b a)"
  by (auto simp: abs_step_ok_def spec_promise_def set_view_def grows_def max_def intro: order_trans)

lemma phase1_step: "abs_step_ok a (fst (spec_phase1 junk m a))"
  using promise_step [of a "p1_inst m" "p1_ballot m"] by (simp add: spec_phase1_def not_less)

lemma each_step: "(\<And>x a. abs_step_ok a (fst (f x a))) \<Longrightarrow> abs_step_ok a (fst (spec_each f xs a))"
proof (induction xs arbitrary: a)
  case (Cons x xs)
  have "abs_step_ok a (fst (f x a))" "abs_step_ok (fst (f x a)) (fst (spec_each f xs (fst (f x a))))"
    using Cons by blast+
  then show ?case using abs_step_trans by (auto simp: split_beta Let_def)
qed simp

definition promised_below :: "abs_acceptor \<Rightarrow> bool" where
  "promised_below a \<longleftrightarrow> (\<forall>i. rv_ballot (views a i) \<noteq> 0 \<longrightarrow> i \<le> abs_highest a)"

lemma step_promised_below: "abs_step_ok a a' \<Longrightarrow> promised_below a \<Longrightarrow> promised_below a'"
  unfolding abs_step_ok_def promised_below_def by blast

lemma promises_step:
  "promised_below a \<Longrightarrow> sorted_wrt (<) (abs_highest a # is) \<Longrightarrow> abs_step_ok a (fold (\<lambda>i. spec_promise i b) is a)"
proof (induction "is" arbitrary: a)
  case (Cons i "is")
  have "rv_ballot (views a i) = 0"
    using Cons.prems by (auto simp: promised_below_def not_le [symmetric])
  then have 1: "abs_step_ok a (spec_promise i b a)" by (intro promise_step) simp
  have h: "abs_highest (spec_promise i b a) = i" using Cons.prems(2) by (simp add: spec_promise_def max_absorb2 less_imp_le)
  have "abs_step_ok (spec_promise i b a) (fold (\<lambda>i. spec_promise i b) is (spec_promise i b a))"
    using Cons.prems(2) h by (intro Cons.IH step_promised_below [OF 1 Cons.prems(1)]) simp
  then show ?case using abs_step_trans [OF 1] by simp
qed simp

lemma range_step:
  assumes "promised_below a" "pr_from m \<le> pr_to m"
  shows "abs_step_ok a (fst (spec_range junk m a))"
proof (cases "pr_from m > abs_highest a")
  case True
  have "sorted_wrt (<) (abs_highest a # iids (pr_from m) (pr_to m))"
    using iids_sorted iids_ends(3) [OF assms(2)] True by (auto intro: less_le_trans)
  then show ?thesis using promises_step [OF assms(1)] True by (simp add: spec_range_def)
next
  case False
  then show ?thesis using each_step [of "\<lambda>i. spec_phase1 junk (p1_temp_msg m i)"] phase1_step by (simp add: spec_range_def)
qed

lemma phase2_step: "abs_step_ok a (fst (spec_phase2 m a))"
  by (auto simp: abs_step_ok_def spec_phase2_def set_view_def grows_def max_def Let_def not_less
      intro: order_trans split: option.splits)

lemma cmdmap_step: "abs_step_ok a (spec_cmdmap m a)"
  by (auto simp: abs_step_ok_def spec_cmdmap_def set_view_def grows_def Let_def)

lemma event_step: "promised_below a \<Longrightarrow> valid_event ev \<Longrightarrow> abs_step_ok a (fst (spec_event self ev a))"
  using phase1_step range_step phase2_step cmdmap_step
  by (cases ev) (auto simp: spec_event_def valid_event_def split: ring_msg.splits)

lemma run_step: "promised_below a \<Longrightarrow> list_all valid_event evs \<Longrightarrow> abs_step_ok a (fst (spec_run self evs a))"
proof (induction evs arbitrary: a)
  case (Cons ev evs)
  let ?a = "fst (spec_event self ev a)"
  have 1: "abs_step_ok a ?a" using Cons.prems by (intro event_step) auto
  have "abs_step_ok ?a (fst (spec_run self evs ?a))"
    using Cons.prems step_promised_below [OF 1] by (intro Cons.IH) auto
  then show ?case using abs_step_trans [OF 1] by (simp add: split_beta Let_def)
qed simp

lemma top_of_le: "mx \<le> top_of is mx"
  by (induction "is" arbitrary: mx) (auto intro: order_trans [OF max.cobounded1])

text \<open>C9. An acceptor of \<^verbatim>\<open>ring_paxos\<close> keeps its promises: between any two points of a run the
  promised ballot of a recent instance is not lowered, and a command it has accepted at the later
  point was accepted at the earlier one in the same ballot, or its ballot is at least the ballot
  promised then.\<close>

theorem ring_promises_kept:
  assumes "w \<noteq> 0" "ring_maps_ok (event_maps (evs1 @ evs2))" "valid_run (unat w) 0 (evs1 @ evs2)"
    and "ring_run self evs1 (regular_acceptor_init w) = Inr (acc1, out1)" "ring_run self evs2 acc1 = Inr (acc2, out2)"
    and "recent (unat w) (top_of (concat (map event_iids (evs1 @ evs2))) 0) i"
  shows "rv_ballot (inst_view (ssm acc1) i) \<le> rv_ballot (inst_view (ssm acc2) i)
    \<and> (\<forall>b k v. rv_accepted (inst_view (ssm acc2) i) = Some (b, k, v) \<longrightarrow>
        rv_accepted (inst_view (ssm acc1) i) = Some (b, k, v) \<or> rv_ballot (inst_view (ssm acc1) i) \<le> b)"
proof -
  let ?M = "event_maps (evs1 @ evs2)" and ?n = "unat w" and ?t1 = "top_of (concat (map event_iids evs1)) 0"
  have m: "event_maps evs1 \<subseteq> ?M" "event_maps evs2 \<subseteq> ?M" by (auto simp: event_maps_def)
  have v: "valid_run ?n 0 evs1" "valid_run ?n ?t1 evs2"
    using assms(3) by (simp_all add: valid_run_def recent_all_append)
  let ?a1 = "fst (spec_run self evs1 abs_init)"
  have 1: "acc_sim ?M ?n ?t1 acc1 ?a1"
    using ring_run_sim [OF assms(2) m(1) init_sim [OF assms(1)] v(1), of self] assms(4) by (simp add: run_outcome_def)
  let ?t2 = "top_of (concat (map event_iids evs2)) ?t1" and ?a2 = "fst (spec_run self evs2 ?a1)"
  have 2: "acc_sim ?M ?n ?t2 acc2 ?a2"
    using ring_run_sim [OF assms(2) m(2) 1 v(2), of self] assms(5) by (simp add: run_outcome_def)
  have r: "recent ?n ?t2 i" "recent ?n ?t1 i"
    using assms(6) top_of_le [of ?t1 "concat (map event_iids evs2)"] by (auto simp: recent_def top_of_append)
  have "promised_below abs_init" by (simp add: promised_below_def abs_init_def empty_view_def)
  then have "promised_below ?a1"
    using v(1) by (intro step_promised_below [OF run_step]) (simp_all add: valid_run_def)
  then have "abs_step_ok ?a1 ?a2" using v(2) by (intro run_step) (simp_all add: valid_run_def)
  then have "grows (inst_view (ssm acc1) i) (inst_view (ssm acc2) i)"
    using 1 2 r by (simp add: acc_sim_def abs_step_ok_def)
  then show ?thesis by (simp add: grows_def)
qed

definition promise_example :: "ring_event list" where
  "promise_example = [FromPredecessor (p1_temp_msg \<lparr>pr_from = 0, pr_to = 0, pr_ballot = 0, pr_promises_count = 0\<rparr> 0)
     (phase1 (p1_temp_msg \<lparr>pr_from = 1, pr_to = 1, pr_ballot = 0x30100, pr_promises_count = 0\<rparr> 1)) sizeof_phase1_msg]"

definition accept_example :: "ring_event list" where
  "accept_example = [map_event 1 (ring_key 1) [7], accept_event 1 0x20100 (ring_key 1)]"

lemma uncontested_run:
  "run_outcome M n mx r res \<Longrightarrow> \<forall>i. \<not> contested M i \<Longrightarrow> \<exists>acc out. res = Inr (acc, out) \<and> acc_sim M n mx acc (fst r)"
  by (auto simp: run_outcome_def split: sum.splits)

theorem ring_promises_kept_witness:
  "\<exists>acc1 out1 acc2 out2. ring_run 2 promise_example (regular_acceptor_init 10) = Inr (acc1, out1)
    \<and> ring_run 2 accept_example acc1 = Inr (acc2, out2)
    \<and> rv_ballot (inst_view (ssm acc1) 1) \<le> rv_ballot (inst_view (ssm acc2) 1)
    \<and> (\<forall>b k v. rv_accepted (inst_view (ssm acc2) 1) = Some (b, k, v) \<longrightarrow>
        rv_accepted (inst_view (ssm acc1) 1) = Some (b, k, v) \<or> rv_ballot (inst_view (ssm acc1) 1) \<le> b)"
proof -
  let ?M = "event_maps (promise_example @ accept_example)" and ?n = "unat (10 :: u32)"
  have m: "?M \<subseteq> {(1, ring_key 1, [7])}"
    by (auto simp: event_maps_def promise_example_def accept_example_def map_event_def accept_event_def mapping_def)
  have M: "ring_maps_ok ?M"
    by (rule ring_maps_ok_subset [OF m]) (auto simp: ring_maps_ok_def ring_key_def CMD_KEY_IS_NULL_def MAX_COMMAND_SIZE_def
        MAX_MESSAGE_SIZE_def MAX_TCP_PAYLOAD_def sizeof_phase1_msg_def)
  have c: "\<forall>i. \<not> contested ?M i" using m unfolding contested_def by blast
  have v: "valid_run ?n 0 (promise_example @ accept_example)"
    by (simp add: valid_run_def promise_example_def accept_example_def map_event_def accept_event_def mapping_def valid_event_def
        event_iids_def recent_def ring_key_def CMD_KEY_IS_NULL_def p1_temp_msg_def PH1_MSG_SIZE_def)
  have w: "(10 :: u32) \<noteq> 0" by simp
  have sub: "event_maps promise_example \<subseteq> ?M" "event_maps accept_example \<subseteq> ?M" by (auto simp: event_maps_def)
  have vs: "valid_run ?n 0 promise_example" "valid_run ?n (top_of (concat (map event_iids promise_example)) 0) accept_example"
    using v by (simp_all add: valid_run_def recent_all_append)
  obtain acc1 out1 where 1: "ring_run 2 promise_example (regular_acceptor_init 10) = Inr (acc1, out1)"
      "acc_sim ?M ?n (top_of (concat (map event_iids promise_example)) 0) acc1 (fst (spec_run 2 promise_example abs_init))"
    using uncontested_run [OF ring_run_sim [OF M sub(1) init_sim [OF w] vs(1)] c] by blast
  obtain acc2 out2 where 2: "ring_run 2 accept_example acc1 = Inr (acc2, out2)"
    using uncontested_run [OF ring_run_sim [OF M sub(2) 1(2) vs(2)] c] by blast
  have "recent ?n (top_of (concat (map event_iids (promise_example @ accept_example))) 0) 1"
    by (simp add: recent_def promise_example_def accept_example_def map_event_def accept_event_def mapping_def
        event_iids_def p1_temp_msg_def)
  from ring_promises_kept [OF w M v 1(1) 2 this] 1(1) 2 show ?thesis by blast
qed

end
