(* ===== verification/RingConfig.thy ===== *)
theory RingConfig
  imports RingBallot Timeval
begin

text \<open>
  The configuration of \<^verbatim>\<open>ring_paxos\<close> (\<^verbatim>\<open>lib/config_parser.c\<close>,
  \<^verbatim>\<open>include/lp_config_parser_macros.h\<close>). A file is the list of the lines that
  \<^verbatim>\<open>fgets\<close> returns. What \<^verbatim>\<open>sscanf\<close> does with the conversions that the
  parser uses is written out; a variable it does not assign keeps its value, and a local variable that was
  not initialized has the value of a parameter (\<open>scan_junk\<close>). The check of an address
  (\<^verbatim>\<open>inet_addr\<close>) and the limits of the operating system are parameters. The integers of the
  configuration are the values of C's \<^verbatim>\<open>int\<close>, of 32 bits: what is scanned is cut to them, and the
  one sum of the validation wraps around (\<open>c_int\<close>).
\<close>

section \<open>State\<close>

definition MAX_ACCEPTORS :: nat where "MAX_ACCEPTORS = 10"

record acceptor_info =
  ai_id :: u8
  ip_addr :: string
  inbound_port :: int
  learners_port :: int

record config_mngr =
  self_acceptor_id :: u8
  acceptors_count :: int
  p1_interval :: timeval
  p2_interval :: timeval
  delivery_check_interval :: timeval
  mcaster_clock_interval :: timeval
  default_autoflush_interval :: int
  retransmit_request_interval :: timeval
  socket_buffers_size :: int
  mcast_addr :: string
  mcast_port :: int
  quorum_size :: int
  working_set_size :: int
  max_active_instances :: int
  preexecution_window_size :: int
  max_p2_open_per_iteration :: int
  max_client_values_queue_size :: int
  acc_infos :: "acceptor_info list"
  cfg_initialized :: bool

definition zero_acceptor_info :: acceptor_info where
  "zero_acceptor_info = \<lparr>ai_id = 0, ip_addr = [], inbound_port = 0, learners_port = 0\<rparr>"

text \<open>\<^verbatim>\<open>calloc\<close>.\<close>

definition zero_config :: config_mngr where
  "zero_config = \<lparr>self_acceptor_id = 0, acceptors_count = 0, p1_interval = Timeval 0 0, p2_interval = Timeval 0 0,
     delivery_check_interval = Timeval 0 0, mcaster_clock_interval = Timeval 0 0, default_autoflush_interval = 0,
     retransmit_request_interval = Timeval 0 0, socket_buffers_size = 0, mcast_addr = [], mcast_port = 0,
     quorum_size = 0, working_set_size = 0, max_active_instances = 0, preexecution_window_size = 0,
     max_p2_open_per_iteration = 0, max_client_values_queue_size = 0,
     acc_infos = replicate MAX_ACCEPTORS zero_acceptor_info, cfg_initialized = False\<rparr>"

text \<open>The getters (\<^verbatim>\<open>CONF_GETTER\<close>) check that the configuration is initialized and
  return a field. The array has the indices 0 to 9.\<close>

definition conf_getter :: "(config_mngr \<Rightarrow> 'a) \<Rightarrow> config_mngr \<Rightarrow> 'a res" where
  "conf_getter field cfg = rassert (cfg_initialized cfg) (Inr (field cfg))"

definition lpconfig_get_acceptor_info :: "config_mngr \<Rightarrow> u8 \<Rightarrow> acceptor_info res" where
  "lpconfig_get_acceptor_info cfg acceptor =
     rassert (unat acceptor \<le> MAX_ACCEPTORS) (
     rassert (cfg_initialized cfg) (
     rguard (unat acceptor < length (acc_infos cfg)) (
     let ai = acc_infos cfg ! unat acceptor in
     rassert (unat (ai_id ai) \<le> MAX_ACCEPTORS) (Inr ai))))"

definition lpconfig_get_self_ip_addr :: "config_mngr \<Rightarrow> string res" where
  "lpconfig_get_self_ip_addr cfg =
     rbind (conf_getter self_acceptor_id cfg) (\<lambda>i. rbind (lpconfig_get_acceptor_info cfg i) (\<lambda>ai. Inr (ip_addr ai)))"

definition own_info :: "config_mngr \<Rightarrow> acceptor_info res" where
  "own_info cfg = rbind (conf_getter self_acceptor_id cfg) (\<lambda>i.
     rguard (unat i < length (acc_infos cfg)) (Inr (acc_infos cfg ! unat i)))"

definition lpconfig_get_ring_inbound_port :: "config_mngr \<Rightarrow> int res" where
  "lpconfig_get_ring_inbound_port cfg = rbind (own_info cfg) (\<lambda>ai. Inr (inbound_port ai))"

definition lpconfig_get_learners_inbound_port :: "config_mngr \<Rightarrow> int res" where
  "lpconfig_get_learners_inbound_port cfg = rbind (own_info cfg) (\<lambda>ai. Inr (learners_port ai))"

definition lpconfig_get_ip_addr_of :: "config_mngr \<Rightarrow> u8 \<Rightarrow> string res" where
  "lpconfig_get_ip_addr_of cfg i = rbind (lpconfig_get_acceptor_info cfg i) (\<lambda>ai. Inr (ip_addr ai))"

definition lpconfig_get_learners_port_of :: "config_mngr \<Rightarrow> u8 \<Rightarrow> int res" where
  "lpconfig_get_learners_port_of cfg i = rbind (lpconfig_get_acceptor_info cfg i) (\<lambda>ai. Inr (learners_port ai))"

definition lpconfig_get_ring_port_of :: "config_mngr \<Rightarrow> u8 \<Rightarrow> int res" where
  "lpconfig_get_ring_port_of cfg i = rbind (lpconfig_get_acceptor_info cfg i) (\<lambda>ai. Inr (inbound_port ai))"

definition lpconfig_get_incarnation_number :: "config_mngr \<Rightarrow> u8" where
  "lpconfig_get_incarnation_number cfg = 0"

section \<open>Parsing\<close>

text \<open>The value of an \<^verbatim>\<open>int\<close> of 32 bits with the low bits of a number.\<close>

definition c_int :: "int \<Rightarrow> int" where
  "c_int x = (x + 2 ^ 31) mod 2 ^ 32 - 2 ^ 31"

definition is_c_int :: "int \<Rightarrow> bool" where
  "is_c_int x \<longleftrightarrow> - (2 ^ 31) \<le> x \<and> x < 2 ^ 31"

text \<open>\<^verbatim>\<open>sscanf\<close>: white space, words (\<open>%s\<close>) and numbers (\<open>%d\<close>,
  \<open>%hho\<close>) in a base. A number that does not fit is treated as in glibc: it saturates at the bounds of
  \<^verbatim>\<open>long\<close> or \<^verbatim>\<open>unsigned long\<close>, of 64 bits, and is then cut to the size of the
  variable.\<close>

definition is_space :: "char \<Rightarrow> bool" where
  "is_space c \<longleftrightarrow> c \<in> {CHR '' '', CHR 0x09, CHR 0x0A, CHR 0x0B, CHR 0x0C, CHR 0x0D}"

definition scan_word :: "string \<Rightarrow> (string \<times> string) option" where
  "scan_word s = (let s = dropWhile is_space s; w = takeWhile (\<lambda>c. \<not> is_space c) s in
     if w = [] then None else Some (w, drop (length w) s))"

definition digit_value :: "char \<Rightarrow> int" where
  "digit_value c = int (of_char c) - 48"

definition is_digit :: "int \<Rightarrow> char \<Rightarrow> bool" where
  "is_digit base c \<longleftrightarrow> 0 \<le> digit_value c \<and> digit_value c < base"

definition scan_digits :: "int \<Rightarrow> string \<Rightarrow> (int \<times> int \<times> string) option" where
  "scan_digits base s =
     (let s = dropWhile is_space s;
          (sign, s) = (case s of c # r \<Rightarrow> if c = CHR ''-'' then (- 1, r) else if c = CHR ''+'' then (1, r) else (1, s) | [] \<Rightarrow> (1, s));
          ds = takeWhile (is_digit base) s
      in if ds = [] then None
         else Some (sign, foldl (\<lambda>n c. base * n + digit_value c) 0 ds, drop (length ds) s))"

definition scan_int :: "string \<Rightarrow> (int \<times> string) option" where
  "scan_int s = (case scan_digits 10 s of None \<Rightarrow> None
     | Some (sign, n, s) \<Rightarrow> Some (c_int (max (- (2 ^ 63)) (min (sign * n) (2 ^ 63 - 1))), s))"

definition scan_octal_byte :: "string \<Rightarrow> (u8 \<times> string) option" where
  "scan_octal_byte s = (case scan_digits 8 s of None \<Rightarrow> None
     | Some (sign, n, s) \<Rightarrow> Some (word_of_int (if n \<ge> 2 ^ 64 then - 1 else sign * n), s))"

definition starts_with :: "string \<Rightarrow> string \<Rightarrow> bool" where
  "starts_with match buffer \<longleftrightarrow> take (length match) buffer = match"

text \<open>\<^verbatim>\<open>"%s %d"\<close> and \<^verbatim>\<open>"%s %d %d"\<close>: the values that were assigned.\<close>

definition scan_word_int :: "string \<Rightarrow> int option" where
  "scan_word_int s = (case scan_word s of None \<Rightarrow> None
     | Some (w, s) \<Rightarrow> (case scan_int s of None \<Rightarrow> None | Some (n, s) \<Rightarrow> Some n))"

definition scan_word_int_int :: "string \<Rightarrow> int option \<times> int option" where
  "scan_word_int_int s = (case scan_word s of None \<Rightarrow> (None, None)
     | Some (w, s) \<Rightarrow> (case scan_int s of None \<Rightarrow> (None, None)
         | Some (n, s) \<Rightarrow> (case scan_int s of None \<Rightarrow> (Some n, None) | Some (m, s) \<Rightarrow> (Some n, Some m))))"

record scan_junk =
  junk_sec :: int
  junk_usec :: int
  junk_ip :: string

definition or_else :: "'a option \<Rightarrow> 'a \<Rightarrow> 'a" where
  "or_else x d = (case x of None \<Rightarrow> d | Some y \<Rightarrow> y)"

definition parse_timeval :: "scan_junk \<Rightarrow> string \<Rightarrow> timeval" where
  "parse_timeval j line = (let (sec, usec) = scan_word_int_int line
     in Timeval (or_else sec (junk_sec j)) (or_else usec (junk_usec j)))"

definition parse_integer :: "string \<Rightarrow> int \<Rightarrow> int" where
  "parse_integer line old = or_else (scan_word_int line) old"

text \<open>\<^verbatim>\<open>memcpy(ai->ip_addr, tmp_ip, 16)\<close> copies the string and its end. The entry must be
  one of the array.\<close>

definition add_acceptor_info :: "config_mngr \<Rightarrow> u8 \<Rightarrow> string \<Rightarrow> int \<Rightarrow> int \<Rightarrow> (bool \<times> config_mngr) res" where
  "add_acceptor_info cm acc_id tmp_ip port_in port_lea =
     (if acc_id \<le> 0 \<or> unat acc_id > MAX_ACCEPTORS then Inr (False, cm)
      else if length tmp_ip > 15 then Inr (False, cm)
      else rguard (unat acc_id < length (acc_infos cm)) (
        Inr (True, cm\<lparr>acc_infos := (acc_infos cm)[unat acc_id :=
            \<lparr>ai_id = acc_id, ip_addr = tmp_ip, inbound_port = port_in, learners_port = port_lea\<rparr>],
          acceptors_count := c_int (acceptors_count cm + 1)\<rparr>)))"

text \<open>A word is stored in an array of 16 characters without a limit.\<close>

definition store16 :: "string \<Rightarrow> 'a res \<Rightarrow> 'a res" where
  "store16 w k = rguard (length w < 16) k"

definition parse_multicast :: "string \<Rightarrow> config_mngr \<Rightarrow> config_mngr res" where
  "parse_multicast line cm = (case scan_word line of None \<Rightarrow> Inr cm
     | Some (w, s) \<Rightarrow> (case scan_word s of None \<Rightarrow> Inr cm
         | Some (ip, s) \<Rightarrow> store16 ip (Inr (cm\<lparr>mcast_addr := ip,
             mcast_port := or_else (map_option fst (scan_int s)) (mcast_port cm)\<rparr>))))"

definition parse_acceptor :: "scan_junk \<Rightarrow> string \<Rightarrow> config_mngr \<Rightarrow> (bool \<times> config_mngr) res" where
  "parse_acceptor j line cm = (case scan_word line of None \<Rightarrow> add_acceptor_info cm 0 (junk_ip j) 0 0
     | Some (w, s) \<Rightarrow> (case scan_octal_byte s of None \<Rightarrow> add_acceptor_info cm 0 (junk_ip j) 0 0
         | Some (i, s) \<Rightarrow> (case scan_word s of None \<Rightarrow> add_acceptor_info cm i (junk_ip j) 0 0
             | Some (ip, s) \<Rightarrow> store16 ip (case scan_int s of None \<Rightarrow> add_acceptor_info cm i ip 0 0
                 | Some (p1, s) \<Rightarrow> add_acceptor_info cm i ip p1
                     (or_else (map_option fst (scan_int s)) 0)))))"

definition parse_line :: "scan_junk \<Rightarrow> string \<Rightarrow> config_mngr \<Rightarrow> config_mngr option res" where
  "parse_line j line cm =
     (if starts_with ''#'' line \<or> starts_with ''//'' line \<or> starts_with [CHR 0x0A] line then Inr (Some cm)
      else if starts_with ''p1_interval'' line then Inr (Some (cm\<lparr>p1_interval := parse_timeval j line\<rparr>))
      else if starts_with ''p2_interval'' line then Inr (Some (cm\<lparr>p2_interval := parse_timeval j line\<rparr>))
      else if starts_with ''mcaster_clock_interval'' line then Inr (Some (cm\<lparr>mcaster_clock_interval := parse_timeval j line\<rparr>))
      else if starts_with ''delivery_check_interval'' line then Inr (Some (cm\<lparr>delivery_check_interval := parse_timeval j line\<rparr>))
      else if starts_with ''retransmit_request_interval'' line
        then Inr (Some (cm\<lparr>retransmit_request_interval := parse_timeval j line\<rparr>))
      else if starts_with ''default_autoflush_interval'' line
        then Inr (Some (cm\<lparr>default_autoflush_interval := parse_integer line (default_autoflush_interval cm)\<rparr>))
      else if starts_with ''socket_buffers_size'' line
        then Inr (Some (cm\<lparr>socket_buffers_size := parse_integer line (socket_buffers_size cm)\<rparr>))
      else if starts_with ''quorum_size'' line then Inr (Some (cm\<lparr>quorum_size := parse_integer line (quorum_size cm)\<rparr>))
      else if starts_with ''working_set_size'' line
        then Inr (Some (cm\<lparr>working_set_size := parse_integer line (working_set_size cm)\<rparr>))
      else if starts_with ''max_active_instances'' line
        then Inr (Some (cm\<lparr>max_active_instances := parse_integer line (max_active_instances cm)\<rparr>))
      else if starts_with ''preexecution_window_size'' line
        then Inr (Some (cm\<lparr>preexecution_window_size := parse_integer line (preexecution_window_size cm)\<rparr>))
      else if starts_with ''max_p2_open_per_iteration'' line
        then Inr (Some (cm\<lparr>max_p2_open_per_iteration := parse_integer line (max_p2_open_per_iteration cm)\<rparr>))
      else if starts_with ''max_client_values_queue_size'' line
        then Inr (Some (cm\<lparr>max_client_values_queue_size := parse_integer line (max_client_values_queue_size cm)\<rparr>))
      else if starts_with ''multicast'' line then rbind (parse_multicast line cm) (\<lambda>cm. Inr (Some cm))
      else if starts_with ''acceptor'' line
        then rbind (parse_acceptor j line cm) (\<lambda>(added, cm). Inr (if added then Some cm else None))
      else Inr None)"

fun open_and_parse :: "scan_junk \<Rightarrow> string list \<Rightarrow> config_mngr \<Rightarrow> config_mngr option res" where
  "open_and_parse j [] cm = Inr (Some cm)"
| "open_and_parse j (line # lines) cm =
     rbind (parse_line j line cm) (\<lambda>r. case r of None \<Rightarrow> Inr None | Some cm \<Rightarrow> open_and_parse j lines cm)"

section \<open>Validation\<close>

text \<open>A failed check ends the validation with None. The sums of an interval are of type
  \<^verbatim>\<open>long\<close>, which they fit. The sum of the two windows is of type \<^verbatim>\<open>int\<close>; its overflow
  is undefined in C and taken to wrap around, as compiled code does.\<close>

definition validate :: "bool \<Rightarrow> config_mngr option res \<Rightarrow> config_mngr option res" where
  "validate c k = (if c then k else Inr None)"

definition tv_total :: "timeval \<Rightarrow> int" where
  "tv_total tv = tv_sec tv * 1000000 + tv_usec tv"

definition timeval_or_default :: "timeval \<Rightarrow> int \<Rightarrow> int \<Rightarrow> timeval" where
  "timeval_or_default tv ds du = (if tv_total tv \<le> 0 then Timeval ds du else tv)"

definition int_or_default :: "int \<Rightarrow> int \<Rightarrow> int" where
  "int_or_default i d = (if i \<le> 0 then d else i)"

definition timeval_less :: "timeval \<Rightarrow> timeval \<Rightarrow> bool" where
  "timeval_less tv1 tv2 \<longleftrightarrow> tv_sec tv2 > tv_sec tv1 \<or> tv_sec tv2 = tv_sec tv1 \<and> tv_usec tv2 > tv_usec tv1"

text \<open>\<^verbatim>\<open>VALIDATE_INT_COMPARISON(X, Y, OP)\<close> tests \<^verbatim>\<open>! X OP Y\<close>, in which the
  negation binds to \<open>X\<close>: it is 0 or 1.\<close>

definition c_not :: "int \<Rightarrow> int" where
  "c_not x = (if x = 0 then 1 else 0)"

record os_config =
  inet_addr_ok :: "string \<Rightarrow> bool"
  os_max_rbuf :: int
  os_max_wbuf :: int

definition validate_socket_buffer_size :: "os_config \<Rightarrow> config_mngr \<Rightarrow> bool" where
  "validate_socket_buffer_size env cfg \<longleftrightarrow>
     \<not> os_max_rbuf env < 0 \<and> \<not> socket_buffers_size cfg > os_max_rbuf env
     \<and> \<not> os_max_wbuf env < 0 \<and> \<not> socket_buffers_size cfg > os_max_wbuf env"

fun validate_acceptors :: "os_config \<Rightarrow> nat list \<Rightarrow> int \<Rightarrow> config_mngr \<Rightarrow> int option res" where
  "validate_acceptors env [] count cfg = Inr (Some count)"
| "validate_acceptors env (i # is) count cfg =
     rbind (lpconfig_get_acceptor_info cfg (word_of_nat i)) (\<lambda>ai.
     if ai_id ai = 0 then validate_acceptors env is count cfg
     else rassert (i = unat (ai_id ai)) (
       if \<not> inet_addr_ok env (ip_addr ai) then Inr None
       else if learners_port ai \<le> 1024 then Inr None
       else if inbound_port ai \<le> 1024 then Inr None
       else validate_acceptors env is (count + 1) cfg))"

definition validate_config :: "os_config \<Rightarrow> config_mngr \<Rightarrow> config_mngr option res" where
  "validate_config env cfg =
     validate (inet_addr_ok env (mcast_addr cfg)) (
     validate (\<not> mcast_port cfg \<le> 1024) (
     validate (\<not> tv_total (p1_interval cfg) \<le> 0) (
     validate (\<not> tv_total (p2_interval cfg) \<le> 0) (
     let cfg = cfg\<lparr>mcaster_clock_interval := timeval_or_default (mcaster_clock_interval cfg) 0 100000\<rparr> in
     validate (\<not> timeval_less (p2_interval cfg) (mcaster_clock_interval cfg)) (
     validate (\<not> timeval_less (p1_interval cfg) (mcaster_clock_interval cfg)) (
     let cfg = cfg\<lparr>delivery_check_interval := timeval_or_default (delivery_check_interval cfg) 1 0\<rparr>;
         cfg = cfg\<lparr>retransmit_request_interval := timeval_or_default (retransmit_request_interval cfg) 1 0\<rparr> in
     validate (\<not> timeval_less (retransmit_request_interval cfg) (delivery_check_interval cfg)) (
     validate (\<not> (quorum_size cfg mod 2 ^ 32) \<le> 0) (
     validate (\<not> c_not (acceptors_count cfg) \<ge> quorum_size cfg) (
     let cfg = cfg\<lparr>default_autoflush_interval := int_or_default (default_autoflush_interval cfg) 50\<rparr>;
         cfg = cfg\<lparr>working_set_size := int_or_default (working_set_size cfg) 100\<rparr>;
         cfg = cfg\<lparr>max_active_instances := int_or_default (max_active_instances cfg) 25\<rparr>;
         cfg = cfg\<lparr>preexecution_window_size := int_or_default (preexecution_window_size cfg) 50\<rparr>;
         cfg = cfg\<lparr>max_p2_open_per_iteration := int_or_default (max_p2_open_per_iteration cfg) 10\<rparr>;
         cfg = cfg\<lparr>max_client_values_queue_size := int_or_default (max_client_values_queue_size cfg) 100\<rparr> in
     validate (socket_buffers_size cfg \<le> 0 \<or> validate_socket_buffer_size env cfg) (
     validate (\<not> c_not (working_set_size cfg) > max_active_instances cfg) (
     validate (\<not> working_set_size cfg \<le> c_int (preexecution_window_size cfg + max_active_instances cfg)) (
     rbind (validate_acceptors env [1 ..< MAX_ACCEPTORS] 0 cfg) (\<lambda>r. case r of
       None \<Rightarrow> Inr None
     | Some count \<Rightarrow> validate (\<not> c_not (acceptors_count cfg) = count) (Inr (Some cfg)))))))))))))))"

text \<open>\<^verbatim>\<open>config_mngr_init\<close>: a file that cannot be opened, parsed or validated gives -1.\<close>

definition config_mngr_init :: "os_config \<Rightarrow> scan_junk \<Rightarrow> string list option \<Rightarrow> u8 \<Rightarrow> (int \<times> config_mngr option) res" where
  "config_mngr_init env j file acceptor_id =
     (case file of None \<Rightarrow> Inr (- 1, None)
      | Some lines \<Rightarrow> rbind (open_and_parse j lines (zero_config\<lparr>self_acceptor_id := acceptor_id\<rparr>)) (\<lambda>r. case r of
          None \<Rightarrow> Inr (- 1, None)
        | Some cm \<Rightarrow> rbind (validate_config env (cm\<lparr>cfg_initialized := True\<rparr>)) (\<lambda>r. case r of
            None \<Rightarrow> Inr (- 1, None)
          | Some cm \<Rightarrow> Inr (0, Some cm))))"

end
