(* ===== verification/RingNetwork.thy ===== *)
theory RingNetwork
  imports RingMessages RingConfig
begin

text \<open>
  The framing of \<^verbatim>\<open>ring_paxos\<close> (\<^verbatim>\<open>lib/network_udp.c\<close>): a sender collects
  messages in a buffer, each after a header with its size and type, and sends the buffer as a datagram when
  the next message does not fit or on request; a receiver walks through a datagram and delivers its
  messages. What \<^verbatim>\<open>send\<close> returns for a number of bytes is a parameter of each call; a
  datagram is what \<^verbatim>\<open>recvfrom\<close> stores. The statistics are not modelled.
\<close>

definition MAX_UDP_PAYLOAD :: nat where "MAX_UDP_PAYLOAD = 9000 - 12"

text \<open>\<^verbatim>\<open>lp_message_header\<close>: two bytes for the size, two of padding, four for the type.\<close>

definition sizeof_lp_message_header :: nat where "sizeof_lp_message_header = 8"

section \<open>Sender\<close>

record udp_sender =
  send_buf :: bytes
  current_buf_size :: nat
  us_is_multicast :: bool
  us_initialized :: bool

type_synonym os_send = "nat \<Rightarrow> int"

definition udp_sender_new :: udp_sender where
  "udp_sender_new = \<lparr>send_buf = replicate MAX_UDP_PAYLOAD 0, current_buf_size = 0, us_is_multicast = False,
     us_initialized = True\<rparr>"

text \<open>What the operating system answers is a parameter: whether \<^verbatim>\<open>inet_addr\<close> accepts an
  address, and whether a socket was opened, connected or bound, and joined the group. A failure is None.\<close>

definition udp_sender_init :: "(string \<Rightarrow> bool) \<Rightarrow> bool \<Rightarrow> bool \<Rightarrow> string option \<Rightarrow> udp_sender option res" where
  "udp_sender_init inet_ok opened connected addr_str =
     rassert (MAX_MESSAGE_SIZE \<le> MAX_UDP_PAYLOAD + sizeof_lp_message_header) (
     case addr_str of None \<Rightarrow> Inl AssertFailed
     | Some addr \<Rightarrow>
       if length addr \<ge> 16 \<or> length addr < 7 then Inr None
       else if \<not> opened then Inr None
       else if \<not> inet_ok addr then Inr None
       else if \<not> connected then Inr None
       else Inr (Some udp_sender_new))"

definition mcast_sender_init :: "(string \<Rightarrow> bool) \<Rightarrow> bool \<Rightarrow> bool \<Rightarrow> bool \<Rightarrow> string option \<Rightarrow> udp_sender option res" where
  "mcast_sender_init inet_ok opened connected joined addr_str =
     (if addr_str = None then Inr None
      else rbind (udp_sender_init inet_ok opened connected addr_str) (\<lambda>r. case r of
        None \<Rightarrow> Inr None
      | Some us \<Rightarrow>
          let us = us\<lparr>us_is_multicast := True\<rparr> in
          if \<not> joined then Inr None else rassert (us_initialized us) (Inr (Some us))))"

text \<open>The result has what the function returns and the datagram, if there is one. A failed
  \<^verbatim>\<open>send\<close> loses the content of the buffer.\<close>

definition udp_sender_force_flush :: "os_send \<Rightarrow> udp_sender \<Rightarrow> (int \<times> udp_sender \<times> bytes list) res" where
  "udp_sender_force_flush os us =
     rassert (us_initialized us) (
     rassert (current_buf_size us \<le> length (send_buf us)) (
     if current_buf_size us = 0 then Inr (0, us, [])
     else
       let data_sent = os (current_buf_size us); us' = us\<lparr>current_buf_size := 0\<rparr> in
       if data_sent < 0 then Inr (1, us', [])
       else rassert (data_sent = int (current_buf_size us)) (Inr (0, us', [take (current_buf_size us) (send_buf us)]))))"

definition flush_if :: "bool \<Rightarrow> os_send \<Rightarrow> udp_sender \<Rightarrow> (udp_sender \<times> bytes list) res" where
  "flush_if c os us = (if c then rbind (udp_sender_force_flush os us) (\<lambda>(r, us, ds). Inr (us, ds)) else Inr (us, []))"

text \<open>The size is an \<^verbatim>\<open>int\<close>; a negative one is a huge number of bytes for
  \<^verbatim>\<open>memcpy\<close>. The padding of the header keeps what the buffer holds.\<close>

definition put_message :: "udp_sender \<Rightarrow> bytes \<Rightarrow> int \<Rightarrow> u32 \<Rightarrow> udp_sender res" where
  "put_message us data sz type =
     rguard (0 \<le> sz) (
     let off = current_buf_size us in
     rbind (mwrite (send_buf us) off (le_bytes 2 (nat sz))) (\<lambda>b.
     rbind (mwrite b (off + 4) (le_bytes 4 (unat type))) (\<lambda>b.
     rbind (mread data 0 (nat sz)) (\<lambda>d.
     rbind (mwrite b (off + sizeof_lp_message_header) d) (\<lambda>b.
       Inr (us\<lparr>send_buf := b, current_buf_size := off + nat sz + sizeof_lp_message_header\<rparr>))))))"

definition net_send_udp :: "os_send \<Rightarrow> os_send \<Rightarrow> udp_sender \<Rightarrow> bytes \<Rightarrow> int \<Rightarrow> u32 \<Rightarrow> (udp_sender \<times> bytes list) res" where
  "net_send_udp os1 os2 us data sz type =
     rassert (us_initialized us) (
     if sz > int MAX_MESSAGE_SIZE then Inr (us, [])
     else
       let total_size = sz + int sizeof_lp_message_header in
       rbind (flush_if (int (current_buf_size us) + total_size > int MAX_MESSAGE_SIZE) os1 us) (\<lambda>(us, ds1).
       rbind (put_message us data sz type) (\<lambda>us.
       rbind (flush_if (int MAX_MESSAGE_SIZE - int (current_buf_size us) \<le> int sizeof_lp_message_header) os2 us) (\<lambda>(us, ds2).
         Inr (us, ds1 @ ds2)))))"

text \<open>The callback of the periodic event flushes the buffer; the interval of the event is the result.\<close>

definition udp_autoflush_cb :: "os_send \<Rightarrow> udp_sender \<Rightarrow> (udp_sender \<times> bytes list) res" where
  "udp_autoflush_cb os us =
     rassert (us_initialized us) (rbind (udp_sender_force_flush os us) (\<lambda>(r, us, ds). Inr (us, ds)))"

definition udp_sender_enable_autoflush :: "udp_sender \<Rightarrow> u32 \<Rightarrow> timeval res" where
  "udp_sender_enable_autoflush us milliseconds =
     rassert (us_initialized us) (
       Inr (Timeval (uint (milliseconds div 1000)) (uint ((milliseconds mod 1000) * 1000))))"

definition udp_sender_enable_default_autoflush :: "config_mngr \<Rightarrow> udp_sender \<Rightarrow> timeval res" where
  "udp_sender_enable_default_autoflush cfg us =
     rassert (us_initialized us) (
     rbind (conf_getter default_autoflush_interval cfg) (\<lambda>ms. udp_sender_enable_autoflush us (word_of_int ms)))"

section \<open>Receiver\<close>

record udp_receiver =
  recv_buf :: bytes
  has_pre_recv_cb :: bool
  has_post_recv_cb :: bool
  has_post_dlvr_cb :: bool
  ur_is_multicast :: bool
  ur_initialized :: bool

datatype recv_event = PreRecv | PostRecv | Deliver u32 bytes | PostDeliver

definition udp_receiver_new :: udp_receiver where
  "udp_receiver_new = \<lparr>recv_buf = replicate MAX_UDP_PAYLOAD 0, has_pre_recv_cb = False, has_post_recv_cb = False,
     has_post_dlvr_cb = False, ur_is_multicast = False, ur_initialized = True\<rparr>"

definition udp_receiver_init :: "bool \<Rightarrow> bool \<Rightarrow> string option \<Rightarrow> udp_receiver option res" where
  "udp_receiver_init opened bound addr_str =
     rassert (case addr_str of None \<Rightarrow> True | Some addr \<Rightarrow> length addr < 16) (
       if \<not> opened then Inr None else if \<not> bound then Inr None else Inr (Some udp_receiver_new))"

definition mcast_receiver_init :: "bool \<Rightarrow> bool \<Rightarrow> bool \<Rightarrow> string option \<Rightarrow> udp_receiver option res" where
  "mcast_receiver_init opened bound joined addr_str =
     (if addr_str = None then Inr None
      else rbind (udp_receiver_init opened bound addr_str) (\<lambda>r. case r of
        None \<Rightarrow> Inr None
      | Some ur \<Rightarrow>
          let ur = ur\<lparr>ur_is_multicast := True\<rparr> in
          if \<not> joined then Inr None else rassert (ur_initialized ur) (Inr (Some ur))))"

definition udp_receiver_set_preread_callback :: "udp_receiver \<Rightarrow> udp_receiver res" where
  "udp_receiver_set_preread_callback ur = rassert (ur_initialized ur) (Inr (ur\<lparr>has_pre_recv_cb := True\<rparr>))"

definition udp_receiver_set_postread_callback :: "udp_receiver \<Rightarrow> udp_receiver res" where
  "udp_receiver_set_postread_callback ur = rassert (ur_initialized ur) (Inr (ur\<lparr>has_post_recv_cb := True\<rparr>))"

definition udp_receiver_set_postdeliver_callback :: "udp_receiver \<Rightarrow> udp_receiver res" where
  "udp_receiver_set_postdeliver_callback ur = rassert (ur_initialized ur) (Inr (ur\<lparr>has_post_dlvr_cb := True\<rparr>))"

lemma cursor_moves:
  fixes c s u :: u16
  assumes "unat c + 8 + unat s \<le> unat u"
  shows "unat (c + (s + 8)) = unat c + unat s + 8"
proof -
  have "unat c + unat s + 8 < 2 ^ 16" using assms unat_u16_less [of u] by simp
  then show ?thesis by (simp add: unat_word_ariths)
qed

text \<open>The loop over the messages of a packet. The cursor has 16 bits.\<close>

function recv_loop :: "bytes \<Rightarrow> u16 \<Rightarrow> u16 \<Rightarrow> recv_event list res" where
  "recv_loop b udatasize current_offset =
     (if current_offset < udatasize
      then rbind (mread b (unat current_offset) 2) (\<lambda>s.
        let sz = (word_of_nat (le_nat s) :: u16) in
        if unat current_offset + sizeof_lp_message_header + unat sz > unat udatasize then Inr []
        else
          rbind (mread b (unat current_offset + 4) 4) (\<lambda>t.
          rbind (mread b (unat current_offset + sizeof_lp_message_header) (unat sz)) (\<lambda>d.
          rbind (recv_loop b udatasize (current_offset + (sz + word_of_nat sizeof_lp_message_header))) (\<lambda>es.
            Inr (Deliver (word_of_nat (le_nat t)) d # es)))))
      else Inr [])"
  by pat_completeness auto

termination
  by (relation "measure (\<lambda>(b, u, c). unat u - unat c)")
    (auto simp: cursor_moves sizeof_lp_message_header_def not_less word_less_nat_alt)

declare recv_loop.simps [simp del]

text \<open>\<^verbatim>\<open>udp_read_callback_wrapper\<close>: a datagram that is longer than the buffer is cut; an
  error of \<^verbatim>\<open>recvfrom\<close> is None.\<close>

definition udp_read_callback_wrapper :: "bytes option \<Rightarrow> udp_receiver \<Rightarrow> (udp_receiver \<times> recv_event list) res" where
  "udp_read_callback_wrapper datagram ur =
     rassert (ur_initialized ur) (
     let pre = (if has_pre_recv_cb ur then [PreRecv] else []) in
     case datagram of None \<Rightarrow> Inr (ur, pre)
     | Some d \<Rightarrow>
         let d = take (length (recv_buf ur)) d;
             ur = ur\<lparr>recv_buf := d @ drop (length d) (recv_buf ur)\<rparr>;
             post = (if has_post_recv_cb ur then [PostRecv] else [])
         in rbind (recv_loop (recv_buf ur) (word_of_nat (length d)) 0) (\<lambda>es.
              Inr (ur, pre @ post @ es @ (if has_post_dlvr_cb ur then [PostDeliver] else []))))"

end
