(* ===== verification/RingNetworkSpec.thy ===== *)
theory RingNetworkSpec
  imports RingNetwork
begin

text \<open>
  The framing of \<^verbatim>\<open>ring_paxos\<close> loses nothing: what a sender puts into datagrams, a
  receiver takes out of them; and a receiver never leaves the datagram, whatever is in it, except by one
  byte at the end of its buffer.
\<close>

section \<open>Framed messages\<close>

type_synonym net_msg = "u32 \<times> bytes"

fun framed :: "bytes \<Rightarrow> net_msg list \<Rightarrow> bool" where
  "framed b [] \<longleftrightarrow> b = []"
| "framed b ((t, d) # ms) \<longleftrightarrow> (\<exists>p r. b = le_bytes 2 (length d) @ p @ le_bytes 4 (unat t) @ d @ r \<and> length p = 2 \<and> framed r ms)"

fun deliver :: "net_msg \<Rightarrow> recv_event" where
  "deliver (t, d) = Deliver t d"

lemma framed_append: "framed a ms \<Longrightarrow> framed b ns \<Longrightarrow> framed (a @ b) (ms @ ns)"
proof (induction ms arbitrary: a)
  case (Cons m ms)
  obtain t d where m: "m = (t, d)" by (cases m)
  obtain p r where "a = le_bytes 2 (length d) @ p @ le_bytes 4 (unat t) @ d @ r" "length p = 2" "framed r ms"
    using Cons.prems(1) m by auto
  moreover from this have "framed (r @ b) (ms @ ns)" using Cons.IH Cons.prems(2) by blast
  ultimately show ?case by (auto simp: m)
qed simp

lemma framed_one: "length p = 2 \<Longrightarrow> framed (le_bytes 2 (length d) @ p @ le_bytes 4 (unat t) @ d) [(t, d)]"
  by auto

lemma le_nat_u16: "n < 2 ^ 16 \<Longrightarrow> le_nat (le_bytes 2 n) = n"
  by (rule le_nat_bytes) simp

lemma mread_at: "n = length y \<Longrightarrow> mread (x @ y @ z) (length x) n = Inr y"
  by (simp add: mread_def)

lemma unat_small: "k < 2 ^ 16 \<Longrightarrow> unat (word_of_nat k :: u16) = k"
  by (simp add: unsigned_of_nat take_bit_nat_eq_self)

lemma recv_prefix:
  assumes "framed r ms" "b = x @ r @ z" "length x + length r \<le> unat U"
  shows "recv_loop b U (word_of_nat (length x))
    = rbind (recv_loop b U (word_of_nat (length x + length r))) (\<lambda>es. Inr (map deliver ms @ es))"
  using assms
proof (induction ms arbitrary: r x)
  case Nil
  then show ?case by (cases "recv_loop b U (word_of_nat (length x))") simp_all
next
  case (Cons m ms)
  obtain t d where m: "m = (t, d)" by (cases m)
  obtain p q where r: "r = le_bytes 2 (length d) @ p @ le_bytes 4 (unat t) @ d @ q" "length p = 2" "framed q ms"
    using Cons.prems(1) m by auto
  define c :: u16 where c_def: "c = word_of_nat (length x)"
  have n: "length d < 2 ^ 16" "length x < 2 ^ 16" using Cons.prems(3) r(1) unat_u16_less [of U] by simp_all
  have u: "unat c = length x" unfolding c_def by (rule unat_small [OF n(2)])
  have fit: "length x + 8 + length d \<le> unat U" using Cons.prems(3) unfolding r(1) by (simp add: r(2))
  have lt: "c < U" unfolding word_less_nat_alt u using fit by simp
  have s: "mread b (length x) 2 = Inr (le_bytes 2 (length d))"
    unfolding Cons.prems(2) r(1) by (simp add: mread_at)
  have sz: "unat (word_of_nat (le_nat (le_bytes 2 (length d))) :: u16) = length d"
    by (simp only: le_nat_u16 [OF n(1)] unat_small [OF n(1)])
  have t: "mread b (length x + 4) 4 = Inr (le_bytes 4 (unat t))"
    using mread_at [of 4 "le_bytes 4 (unat t)" "x @ le_bytes 2 (length d) @ p" "d @ q @ z"]
    unfolding Cons.prems(2) r(1) by (simp add: r(2))
  have d: "mread b (length x + 8) (length d) = Inr d"
    using mread_at [of "length d" d "x @ le_bytes 2 (length d) @ p @ le_bytes 4 (unat t)" "q @ z"]
    unfolding Cons.prems(2) r(1) by (simp add: r(2))
  let ?x = "x @ le_bytes 2 (length d) @ p @ le_bytes 4 (unat t) @ d"
  have len: "length ?x + length q = length x + length r" unfolding r(1) by simp
  have pos: "c + (word_of_nat (le_nat (le_bytes 2 (length d))) + 8) = word_of_nat (length ?x)"
    unfolding c_def by (simp add: le_nat_u16 [OF n(1)] r(2))
  have rest: "recv_loop b U (word_of_nat (length ?x))
      = rbind (recv_loop b U (word_of_nat (length x + length r))) (\<lambda>es. Inr (map deliver ms @ es))"
    using Cons.IH [OF r(3), of ?x] Cons.prems(2,3) unfolding len by (simp add: r(1))
  have "recv_loop b U c = rbind (recv_loop b U (word_of_nat (length ?x))) (\<lambda>es. Inr (Deliver t d # es))"
    using s t d fit lt
    by (simp add: recv_loop.simps [of b U c] u sz pos sizeof_lp_message_header_def Let_def le_bytes_u32 del: of_nat_add length_append)
  then show ?case unfolding m c_def rest by (simp add: rbind_assoc)
qed

lemma recv_framed:
  assumes "framed r ms" "length r < 2 ^ 16"
  shows "recv_loop (r @ z) (word_of_nat (length r)) 0 = Inr (map deliver ms)"
  using recv_prefix [OF assms(1), of "r @ z" "[]" z "word_of_nat (length r)"] unat_small [OF assms(2)]
  by (simp add: recv_loop.simps [of _ "word_of_nat (length r)" "word_of_nat (length r)"])

section \<open>The sender\<close>

definition us_ok :: "udp_sender \<Rightarrow> net_msg list \<Rightarrow> bool" where
  "us_ok us ms \<longleftrightarrow> us_initialized us \<and> length (send_buf us) = MAX_UDP_PAYLOAD \<and> current_buf_size us \<le> MAX_UDP_PAYLOAD
     \<and> framed (take (current_buf_size us) (send_buf us)) ms"

lemma framed_pos: "framed b ms \<Longrightarrow> ms \<noteq> [] \<Longrightarrow> b \<noteq> []"
  by (cases ms) (auto simp: framed.simps numeral_2_eq_2)

lemma flush_ok:
  assumes "us_ok us ms" "\<And>n. os n = int n"
  shows "\<exists>us' ds. udp_sender_force_flush os us = Inr (0, us', ds) \<and> us_ok us' [] \<and> current_buf_size us' = 0
    \<and> (if ms = [] then ds = [] else \<exists>d. ds = [d] \<and> framed d ms \<and> length d \<le> MAX_UDP_PAYLOAD)"
proof (cases "current_buf_size us = 0")
  case True
  then have "ms = []" using assms(1) framed_pos [of "[]" ms] by (auto simp: us_ok_def)
  then show ?thesis using assms(1) True by (simp add: udp_sender_force_flush_def us_ok_def)
next
  case False
  then have "ms \<noteq> []" using assms(1) by (auto simp: us_ok_def MAX_UDP_PAYLOAD_def)
  then show ?thesis using assms False by (simp add: udp_sender_force_flush_def us_ok_def Let_def)
qed

lemma mwrite_eq: "off + length bs \<le> length b \<Longrightarrow> mwrite b off bs = Inr (take off b @ bs @ drop (off + length bs) b)"
  by (simp add: mwrite_def)

lemma put_message_ok:
  assumes ok: "us_ok us ms" and fit: "current_buf_size us + 8 + length d \<le> MAX_UDP_PAYLOAD"
  shows "\<exists>us'. put_message us d (int (length d)) t = Inr us' \<and> us_ok us' (ms @ [(t, d)])
    \<and> current_buf_size us' = current_buf_size us + 8 + length d"
proof -
  let ?b = "send_buf us" and ?o = "current_buf_size us"
  obtain f p q z where b: "?b = f @ p @ q @ z" and len: "length f = ?o" "length p = 4" "length q = 4"
      "length z = MAX_UDP_PAYLOAD - ?o - 8"
  proof (rule that [of "take ?o ?b" "take 4 (drop ?o ?b)" "take 4 (drop (?o + 4) ?b)" "drop (?o + 8) ?b"])
    have "drop ?o ?b = take 4 (drop ?o ?b) @ drop (?o + 4) ?b" by (metis append_take_drop_id drop_drop add.commute)
    moreover have "drop (?o + 4) ?b = take 4 (drop (?o + 4) ?b) @ drop (?o + 8) ?b"
      using append_take_drop_id [of 4 "drop (?o + 4) ?b"] by (simp add: add.commute add.left_commute)
    ultimately show "?b = take ?o ?b @ take 4 (drop ?o ?b) @ take 4 (drop (?o + 4) ?b) @ drop (?o + 8) ?b"
      by (metis append_take_drop_id)
  qed (use ok fit in \<open>simp_all add: us_ok_def\<close>)
  obtain e g where z: "z = e @ g" "length e = length d"
    using len(4) fit by (intro that [of "take (length d) z" "drop (length d) z"]) simp_all
  let ?f = "le_bytes 2 (length d) @ drop 2 p @ le_bytes 4 (unat t) @ d"
  have 1: "mwrite ?b ?o (le_bytes 2 (length d)) = Inr (f @ le_bytes 2 (length d) @ drop 2 p @ q @ z)"
    unfolding b by (simp add: mwrite_eq len)
  have 2: "mwrite (f @ le_bytes 2 (length d) @ drop 2 p @ q @ z) (?o + 4) (le_bytes 4 (unat t))
      = Inr (f @ le_bytes 2 (length d) @ drop 2 p @ le_bytes 4 (unat t) @ z)"
    by (simp add: mwrite_eq len)
  have 3: "mwrite (f @ le_bytes 2 (length d) @ drop 2 p @ le_bytes 4 (unat t) @ z) (?o + 8) d = Inr (f @ ?f @ g)"
    unfolding z by (simp add: mwrite_eq len z(2))
  have r: "mread d 0 (length d) = Inr d" by (simp add: mread_def)
  let ?us = "us\<lparr>send_buf := f @ ?f @ g, current_buf_size := ?o + length d + 8\<rparr>"
  have put: "put_message us d (int (length d)) t = Inr ?us"
    by (simp add: put_message_def sizeof_lp_message_header_def Let_def 1 2 3 r)
  have fr: "framed f ms" using ok unfolding us_ok_def b by (simp add: len)
  have "framed (f @ ?f) (ms @ [(t, d)])" by (rule framed_append [OF fr]) (use len in \<open>simp add: framed_one\<close>)
  moreover have "take (?o + length d + 8) (f @ ?f @ g) = f @ ?f" by (simp add: len)
  moreover have "length (f @ ?f @ g) = MAX_UDP_PAYLOAD" using ok unfolding us_ok_def b z by (simp add: len z(2))
  ultimately have "us_ok ?us (ms @ [(t, d)])" using ok fit by (simp add: us_ok_def)
  then show ?thesis using put by (intro exI [of _ ?us]) simp
qed

text \<open>A datagram and the messages it carries.\<close>

definition carries :: "bytes \<Rightarrow> net_msg list \<Rightarrow> bool" where
  "carries b ms \<longleftrightarrow> framed b ms \<and> length b \<le> MAX_UDP_PAYLOAD"

lemma flush_if_ok:
  assumes "us_ok us ms"
  shows "\<exists>us' ds out ms'. flush_if c int us = Inr (us', ds) \<and> us_ok us' ms' \<and> list_all2 carries ds out \<and> concat out @ ms' = ms
    \<and> current_buf_size us' = (if c then 0 else current_buf_size us)"
proof (cases c)
  case True
  obtain us' ds where f: "udp_sender_force_flush int us = Inr (0, us', ds)" "us_ok us' []" "current_buf_size us' = 0"
      "if ms = [] then ds = [] else \<exists>d. ds = [d] \<and> framed d ms \<and> length d \<le> MAX_UDP_PAYLOAD"
    using flush_ok [OF assms, of int] by auto
  show ?thesis
  proof (cases "ms = []")
    case True
    then show ?thesis using f \<open>c\<close> by (intro exI [of _ us'] exI [of _ ds] exI [of _ "[]"]) (simp add: flush_if_def)
  next
    case False
    then show ?thesis using f \<open>c\<close> by (intro exI [of _ us'] exI [of _ ds] exI [of _ "[ms]"]) (auto simp: flush_if_def carries_def)
  qed
next
  case False
  then show ?thesis using assms by (intro exI [of _ us] exI [of _ "[]"] exI [of _ "[]"] exI [of _ ms]) (simp add: flush_if_def)
qed

lemma send_ok:
  assumes ok: "us_ok us ms" and d: "length d \<le> MAX_MESSAGE_SIZE"
  shows "\<exists>us' ds out ms'. net_send_udp int int us d (int (length d)) t = Inr (us', ds) \<and> us_ok us' ms'
    \<and> list_all2 carries ds out \<and> concat out @ ms' = ms @ [(t, d)]"
proof -
  let ?c = "int (current_buf_size us) + (int (length d) + int sizeof_lp_message_header) > int MAX_MESSAGE_SIZE"
  obtain us1 ds1 out1 ms1 where 1: "flush_if ?c int us = Inr (us1, ds1)" "us_ok us1 ms1" "list_all2 carries ds1 out1"
      "concat out1 @ ms1 = ms" "current_buf_size us1 = (if ?c then 0 else current_buf_size us)"
    using flush_if_ok [OF ok] by blast
  have "current_buf_size us1 + 8 + length d \<le> MAX_UDP_PAYLOAD"
    using d 1(5) by (auto simp: sizeof_lp_message_header_def MAX_UDP_PAYLOAD_def MAX_MESSAGE_SIZE_def MAX_TCP_PAYLOAD_def split: if_splits)
  then obtain us2 where 2: "put_message us1 d (int (length d)) t = Inr us2" "us_ok us2 (ms1 @ [(t, d)])"
    using put_message_ok [OF 1(2)] by blast
  obtain us3 ds3 out3 ms3 where 3: "flush_if (int MAX_MESSAGE_SIZE - int (current_buf_size us2) \<le> int sizeof_lp_message_header) int us2
      = Inr (us3, ds3)" "us_ok us3 ms3" "list_all2 carries ds3 out3" "concat out3 @ ms3 = ms1 @ [(t, d)]"
    using flush_if_ok [OF 2(2)] by blast
  have "net_send_udp int int us d (int (length d)) t = Inr (us3, ds1 @ ds3)"
    using ok d 1(1) 2(1) 3(1) by (simp add: net_send_udp_def us_ok_def Let_def)
  moreover have "list_all2 carries (ds1 @ ds3) (out1 @ out3)" using 1(3) 3(3) by (rule list_all2_appendI)
  moreover have "concat (out1 @ out3) @ ms3 = ms @ [(t, d)]" using 1(4) 3(4) by (metis append.assoc concat_append)
  ultimately show ?thesis using 3(2) by blast
qed

section \<open>Runs\<close>

datatype net_op = Send_msg u32 bytes | Flush_now

fun net_step :: "net_op \<Rightarrow> udp_sender \<Rightarrow> (udp_sender \<times> bytes list) res" where
  "net_step (Send_msg t d) us = net_send_udp int int us d (int (length d)) t"
| "net_step Flush_now us = flush_if True int us"

fun net_run :: "net_op list \<Rightarrow> udp_sender \<Rightarrow> (udp_sender \<times> bytes list) res" where
  "net_run [] us = Inr (us, [])"
| "net_run (op # ops) us = rbind (net_step op us) (\<lambda>(us, ds). rbind (net_run ops us) (\<lambda>(us, ds'). Inr (us, ds @ ds')))"

text \<open>The messages of a run; a message that is too big is not sent.\<close>

fun sent_by :: "net_op \<Rightarrow> net_msg list" where
  "sent_by (Send_msg t d) = (if length d \<le> MAX_MESSAGE_SIZE then [(t, d)] else [])"
| "sent_by Flush_now = []"

lemma net_step_ok:
  assumes "us_ok us ms"
  shows "\<exists>us' ds out ms'. net_step op us = Inr (us', ds) \<and> us_ok us' ms' \<and> list_all2 carries ds out
    \<and> concat out @ ms' = ms @ sent_by op"
proof (cases op)
  case (Send_msg t d)
  show ?thesis
  proof (cases "length d \<le> MAX_MESSAGE_SIZE")
    case True
    then show ?thesis using send_ok [OF assms True, of t] Send_msg by simp
  next
    case False
    then have "net_step op us = Inr (us, [])" using assms Send_msg by (simp add: net_send_udp_def us_ok_def)
    then show ?thesis using assms False Send_msg by (intro exI [of _ us] exI [of _ "[]"] exI [of _ "[]"] exI [of _ ms]) simp
  qed
next
  case Flush_now
  then show ?thesis using flush_if_ok [OF assms, of True] by auto
qed

lemma net_run_ok:
  assumes "us_ok us ms"
  shows "\<exists>us' ds out ms'. net_run ops us = Inr (us', ds) \<and> us_ok us' ms' \<and> list_all2 carries ds out
    \<and> concat out @ ms' = ms @ concat (map sent_by ops)"
  using assms
proof (induction ops arbitrary: us ms)
  case Nil
  then show ?case by (intro exI [of _ us] exI [of _ "[]"] exI [of _ "[]"] exI [of _ ms]) simp
next
  case (Cons op ops)
  obtain us1 ds1 out1 ms1 where 1: "net_step op us = Inr (us1, ds1)" "us_ok us1 ms1" "list_all2 carries ds1 out1"
      "concat out1 @ ms1 = ms @ sent_by op"
    using net_step_ok [OF Cons.prems, of op] by blast
  obtain us2 ds2 out2 ms2 where 2: "net_run ops us1 = Inr (us2, ds2)" "us_ok us2 ms2" "list_all2 carries ds2 out2"
      "concat out2 @ ms2 = ms1 @ concat (map sent_by ops)"
    using Cons.IH [OF 1(2)] by blast
  have "net_run (op # ops) us = Inr (us2, ds1 @ ds2)" using 1(1) 2(1) by simp
  moreover have "list_all2 carries (ds1 @ ds2) (out1 @ out2)" using 1(3) 2(3) by (rule list_all2_appendI)
  moreover have "concat (out1 @ out2) @ ms2 = ms @ concat (map sent_by (op # ops))"
    using 1(4) 2(4) by (metis append.assoc concat.simps(2) concat_append list.simps(9))
  ultimately show ?case using 2(2) by blast
qed

lemma net_run_append: "net_run (ops @ ops') us = rbind (net_run ops us) (\<lambda>(us, ds).
    rbind (net_run ops' us) (\<lambda>(us, ds'). Inr (us, ds @ ds')))"
proof (induction ops arbitrary: us)
  case Nil
  show ?case by (cases "net_run ops' us") auto
next
  case (Cons op ops)
  show ?case by (cases "net_step op us") (auto simp: Cons.IH rbind_assoc split_def)
qed

text \<open>A receiver without callbacks around the messages.\<close>

definition plain_receiver :: "udp_receiver \<Rightarrow> bool" where
  "plain_receiver ur \<longleftrightarrow> ur_initialized ur \<and> length (recv_buf ur) = MAX_UDP_PAYLOAD \<and> \<not> has_pre_recv_cb ur
     \<and> \<not> has_post_recv_cb ur \<and> \<not> has_post_dlvr_cb ur"

lemma receive_carried:
  assumes "carries b ms" "plain_receiver ur"
  shows "\<exists>ur'. udp_read_callback_wrapper (Some b) ur = Inr (ur', map deliver ms) \<and> plain_receiver ur'"
proof -
  have len: "length b \<le> MAX_UDP_PAYLOAD" "length b < 2 ^ 16" using assms(1) by (simp_all add: carries_def MAX_UDP_PAYLOAD_def)
  have "recv_loop (b @ drop (length b) (recv_buf ur)) (word_of_nat (length b)) 0 = Inr (map deliver ms)"
    using recv_framed [of b ms "drop (length b) (recv_buf ur)"] assms(1) len by (simp add: carries_def)
  then show ?thesis using assms(2) len(1) by (simp add: udp_read_callback_wrapper_def plain_receiver_def Let_def)
qed

text \<open>C33. Framing: for any sequence of sends and flushes, the sender cuts the messages, in order and without
  losing one, into datagrams, except for those over the limit, which it drops; and whatever a receiver held before, a
  datagram that arrives gives exactly its messages. So a lost datagram loses whole messages.\<close>

theorem net_framing:
  "\<exists>us ds mss. net_run (ops @ [Flush_now]) udp_sender_new = Inr (us, ds) \<and> current_buf_size us = 0
    \<and> concat mss = concat (map sent_by ops)
    \<and> list_all2 (\<lambda>d ms. \<forall>ur. plain_receiver ur \<longrightarrow>
         (\<exists>ur'. udp_read_callback_wrapper (Some d) ur = Inr (ur', map deliver ms) \<and> plain_receiver ur')) ds mss"
proof -
  have init: "us_ok udp_sender_new []" by (simp add: us_ok_def udp_sender_new_def)
  obtain us ds out ms where 1: "net_run ops udp_sender_new = Inr (us, ds)" "us_ok us ms" "list_all2 carries ds out"
      "concat out @ ms = concat (map sent_by ops)"
    using net_run_ok [OF init, of ops] by auto
  obtain us' r where f: "udp_sender_force_flush int us = Inr (0, us', r)" "current_buf_size us' = 0"
      "if ms = [] then r = [] else \<exists>d. r = [d] \<and> framed d ms \<and> length d \<le> MAX_UDP_PAYLOAD"
    using flush_ok [OF 1(2), of int] by auto
  define mss where "mss = out @ (if ms = [] then [] else [ms])"
  have run: "net_run (ops @ [Flush_now]) udp_sender_new = Inr (us', ds @ r)"
    using 1(1) f(1) by (simp add: net_run_append flush_if_def)
  have all: "list_all2 carries (ds @ r) mss"
    unfolding mss_def by (rule list_all2_appendI [OF 1(3)]) (use f(3) in \<open>auto simp: carries_def split: if_splits\<close>)
  have "concat mss = concat (map sent_by ops)" using 1(4) by (auto simp: mss_def)
  moreover have "list_all2 (\<lambda>d ms. \<forall>ur. plain_receiver ur \<longrightarrow>
      (\<exists>ur'. udp_read_callback_wrapper (Some d) ur = Inr (ur', map deliver ms) \<and> plain_receiver ur')) (ds @ r) mss"
    by (rule list_all2_mono [OF all]) (blast intro: receive_carried)
  ultimately show ?thesis using run f(2) by blast
qed

theorem net_framing_witness:
  "\<exists>us ds mss. net_run ([Send_msg 3 [1, 2], Send_msg 5 [], Flush_now, Send_msg 4 [9]] @ [Flush_now]) udp_sender_new = Inr (us, ds)
    \<and> concat mss = [(3, [1, 2]), (5, []), (4, [9])]
    \<and> list_all2 (\<lambda>d ms. \<exists>ur. udp_read_callback_wrapper (Some d) udp_receiver_new = Inr (ur, map deliver ms)) ds mss"
proof -
  let ?ops = "[Send_msg 3 [1, 2], Send_msg 5 [], Flush_now, Send_msg 4 [9]]"
  have "plain_receiver udp_receiver_new" by (simp add: plain_receiver_def udp_receiver_new_def)
  moreover obtain us ds mss where "net_run (?ops @ [Flush_now]) udp_sender_new = Inr (us, ds)" "concat mss = concat (map sent_by ?ops)"
      "list_all2 (\<lambda>d ms. \<forall>ur. plain_receiver ur \<longrightarrow>
         (\<exists>ur'. udp_read_callback_wrapper (Some d) ur = Inr (ur', map deliver ms) \<and> plain_receiver ur')) ds mss"
    using net_framing [of ?ops] by blast
  ultimately show ?thesis
    by (intro exI [of _ us] exI [of _ ds] exI [of _ mss])
      (auto simp: MAX_MESSAGE_SIZE_def MAX_TCP_PAYLOAD_def elim!: list_all2_mono)
qed

section \<open>Arbitrary datagrams\<close>

fun msg_bytes :: "recv_event \<Rightarrow> nat" where
  "msg_bytes (Deliver t d) = 8 + length d"
| "msg_bytes e = 0"

lemma recv_loop_sound:
  "unat u < length b \<Longrightarrow> \<exists>es. recv_loop b u c = Inr es \<and> sum_list (map msg_bytes es) \<le> unat u - unat c"
proof (induction b u c rule: recv_loop.induct)
  case (1 b u c)
  show ?case
  proof (cases "c < u")
    case True
    then have lt: "unat c < unat u" by (simp add: word_less_nat_alt)
    let ?s = "take 2 (drop (unat c) b)"
    define sz :: u16 where "sz = word_of_nat (le_nat ?s)"
    have s: "mread b (unat c) 2 = Inr ?s" using lt "1.prems" by (simp add: mread_def)
    show ?thesis
    proof (cases "unat c + 8 + unat sz > unat u")
      case True
      then have "recv_loop b u c = Inr []"
        using s \<open>c < u\<close> by (simp add: recv_loop.simps [of b u c] Let_def sizeof_lp_message_header_def sz_def)
      then show ?thesis by simp
    next
      case False
      let ?c = "c + (sz + 8)"
      have c: "unat ?c = unat c + unat sz + 8" by (rule cursor_moves [of c sz u]) (use False in simp)
      let ?t = "take 4 (drop (unat c + 4) b)" and ?d = "take (unat sz) (drop (unat c + 8) b)"
      have r: "mread b (unat c + 4) 4 = Inr ?t" "mread b (unat c + 8) (unat sz) = Inr ?d"
        using False "1.prems" by (simp_all add: mread_def)
      obtain es where es: "recv_loop b u ?c = Inr es" "sum_list (map msg_bytes es) \<le> unat u - unat ?c"
        using "1.IH" [OF \<open>c < u\<close> s, of sz ?t ?d] False r "1.prems"
        by (auto simp: sizeof_lp_message_header_def sz_def)
      have "recv_loop b u c = Inr (Deliver (word_of_nat (le_nat ?t)) ?d # es)"
        using s r es(1) False \<open>c < u\<close>
        by (simp add: recv_loop.simps [of b u c] Let_def sizeof_lp_message_header_def sz_def [symmetric])
      then show ?thesis using es(2) False by (simp add: c)
    qed
  next
    case False
    then show ?thesis by (simp add: recv_loop.simps [of b u c])
  qed
qed

text \<open>C34. Whatever a datagram contains, and whatever the buffer held before, the receiver ends without a fault
  and the messages it delivers lie in the datagram, headers included, one after the other, unless the
  datagram fills the buffer.\<close>

theorem receive_sound:
  assumes "ur_initialized ur" "length (recv_buf ur) = MAX_UDP_PAYLOAD" "length d < MAX_UDP_PAYLOAD"
  shows "\<exists>ur' es. udp_read_callback_wrapper (Some d) ur = Inr (ur', es) \<and> sum_list (map msg_bytes es) \<le> length d
    \<and> length (recv_buf ur') = MAX_UDP_PAYLOAD"
proof -
  have u: "unat (word_of_nat (length d) :: u16) = length d" by (rule unat_small) (use assms(3) in \<open>simp add: MAX_UDP_PAYLOAD_def\<close>)
  obtain es where "recv_loop (d @ drop (length d) (recv_buf ur)) (word_of_nat (length d)) 0 = Inr es"
      "sum_list (map msg_bytes es) \<le> length d"
    using recv_loop_sound [of "word_of_nat (length d)" "d @ drop (length d) (recv_buf ur)" 0] assms(2,3) by (auto simp: u)
  then show ?thesis using assms by (simp add: udp_read_callback_wrapper_def Let_def)
qed

theorem receive_sound_witness:
  "\<exists>ur' es. udp_read_callback_wrapper (Some [7, 0, 0, 0, 1]) udp_receiver_new = Inr (ur', es)
    \<and> sum_list (map msg_bytes es) \<le> length [7, 0, 0, 0, 1 :: u8] \<and> length (recv_buf ur') = MAX_UDP_PAYLOAD"
  by (rule receive_sound) (simp_all add: udp_receiver_new_def MAX_UDP_PAYLOAD_def)

text \<open>A datagram that fills the buffer and has one byte after its last message makes the receiver read
  a size that lies half behind its buffer.\<close>

theorem full_datagram_overreads:
  assumes "ur_initialized ur" "length (recv_buf ur) = MAX_UDP_PAYLOAD" "length (b @ [x]) = MAX_UDP_PAYLOAD" "framed b ms"
  shows "udp_read_callback_wrapper (Some (b @ [x])) ur = Inl OutOfBounds"
proof -
  have len: "length b = 8987" using assms(3) by (simp add: MAX_UDP_PAYLOAD_def)
  define U :: u16 where "U = word_of_nat (length (b @ [x]))"
  have u: "unat U = 8988" unfolding U_def using len by (subst unat_small) simp_all
  have c: "unat (word_of_nat (length b) :: u16) = 8987" using len by (subst unat_small) simp_all
  have "recv_loop (b @ [x]) U (word_of_nat (length b)) = Inl OutOfBounds"
    using u c len by (simp add: recv_loop.simps [of _ U] word_less_nat_alt mread_def)
  then have "recv_loop (b @ [x]) U 0 = Inl OutOfBounds"
    using recv_prefix [OF assms(4), of "b @ [x]" "[]" "[x]" U] u len by simp
  moreover have "take (length (recv_buf ur)) (b @ [x]) = b @ [x]" "drop (length (b @ [x])) (recv_buf ur) = []"
    using assms(2,3) by simp_all
  ultimately show ?thesis
    using assms(1) by (simp add: udp_read_callback_wrapper_def Let_def U_def del: length_append take_append drop_append)
qed

lemma full_datagram_ok: "framed (le_bytes 2 8979 @ [0, 0] @ le_bytes 4 (unat (5 :: u32)) @ replicate 8979 0) [(5, replicate 8979 0)]"
  using framed_one [of "[0, 0]" "replicate 8979 0" 5] by simp

theorem full_datagram_overreads_witness:
  "udp_read_callback_wrapper (Some ((le_bytes 2 8979 @ [0, 0] @ le_bytes 4 (unat (5 :: u32)) @ replicate 8979 0) @ [1])) udp_receiver_new
    = Inl OutOfBounds"
  by (rule full_datagram_overreads [OF _ _ _ full_datagram_ok]) (simp_all add: udp_receiver_new_def MAX_UDP_PAYLOAD_def)

end
