(* ===== verification/RingTopology.thy ===== *)
theory RingTopology
  imports RingConfig
begin

text \<open>
  The ring overlay of \<^verbatim>\<open>ring_paxos\<close> (\<^verbatim>\<open>lib/topology_manager.c\<close>): the
  acceptors 1 to n forward to each other in the order of their ids, and the last one to the first, which is
  the leader. The topology never changes, so a manager is its configuration.
\<close>

definition lptopo_get_successor_id :: "config_mngr \<Rightarrow> u8 res" where
  "lptopo_get_successor_id cfg =
     rbind (conf_getter self_acceptor_id cfg) (\<lambda>self.
     let successor = self + 1 in
     rbind (conf_getter acceptors_count cfg) (\<lambda>n.
     if uint successor > n then rassert (uint successor = n + 1) (Inr 1) else Inr successor))"

definition lptopo_get_successor_port :: "config_mngr \<Rightarrow> int res" where
  "lptopo_get_successor_port cfg = rbind (lptopo_get_successor_id cfg) (lpconfig_get_ring_port_of cfg)"

definition lptopo_get_successor_addr :: "config_mngr \<Rightarrow> string res" where
  "lptopo_get_successor_addr cfg = rbind (lptopo_get_successor_id cfg) (lpconfig_get_ip_addr_of cfg)"

definition lptopo_get_leader_addr :: "config_mngr \<Rightarrow> string res" where
  "lptopo_get_leader_addr cfg = lpconfig_get_ip_addr_of cfg 1"

definition lptopo_get_leader_ring_port :: "config_mngr \<Rightarrow> int res" where
  "lptopo_get_leader_ring_port cfg = lpconfig_get_ring_port_of cfg 1"

definition lptopo_get_leader_clients_port :: "config_mngr \<Rightarrow> int res" where
  "lptopo_get_leader_clients_port cfg = lpconfig_get_learners_port_of cfg 1"

text \<open>The ids along the ring from an acceptor on.\<close>

fun ring_path :: "nat \<Rightarrow> config_mngr \<Rightarrow> u8 list res" where
  "ring_path 0 cfg = Inr []"
| "ring_path (Suc n) cfg = rbind (lptopo_get_successor_id cfg) (\<lambda>i.
     rbind (ring_path n (cfg\<lparr>self_acceptor_id := i\<rparr>)) (\<lambda>is. Inr (i # is)))"

lemma successor_id:
  assumes "cfg_initialized cfg" "acceptors_count cfg = int n" "n < 255" "unat (self_acceptor_id cfg) = Suc k" "k < n"
  shows "\<exists>i. lptopo_get_successor_id cfg = Inr i \<and> unat i = Suc (Suc k mod n)"
proof -
  have s: "unat (self_acceptor_id cfg + 1) = Suc (Suc k)"
    using assms(3-5) by (simp add: unat_word_ariths)
  then have u: "uint (self_acceptor_id cfg + 1) = int (Suc (Suc k))" by (metis uint_nat)
  show ?thesis
  proof (cases "Suc k = n")
    case True
    then show ?thesis using assms(1,2) u by (simp add: lptopo_get_successor_id_def conf_getter_def Let_def)
  next
    case False
    then show ?thesis using assms u s by (simp add: lptopo_get_successor_id_def conf_getter_def Let_def)
  qed
qed

lemma ring_path_ok:
  assumes "cfg_initialized cfg" "acceptors_count cfg = int n" "n < 255" "unat (self_acceptor_id cfg) = Suc k" "k < n"
  shows "\<exists>is. ring_path m cfg = Inr is \<and> map unat is = map (\<lambda>j. Suc ((k + Suc j) mod n)) [0 ..< m]"
  using assms(1,2,4,5)
proof (induction m arbitrary: cfg k)
  case (Suc m)
  obtain i where i: "lptopo_get_successor_id cfg = Inr i" "unat i = Suc (Suc k mod n)"
    using successor_id [OF Suc.prems(1,2) assms(3) Suc.prems(3,4)] by blast
  obtain "is" where r: "ring_path m (cfg\<lparr>self_acceptor_id := i\<rparr>) = Inr is"
      "map unat is = map (\<lambda>j. Suc ((Suc k mod n + Suc j) mod n)) [0 ..< m]"
    using Suc.IH [of "cfg\<lparr>self_acceptor_id := i\<rparr>" "Suc k mod n"] Suc.prems i(2) by auto
  have "map (\<lambda>j. Suc ((k + Suc j) mod n)) [0 ..< Suc m] = Suc (Suc k mod n) # map (\<lambda>j. Suc ((Suc k mod n + Suc j) mod n)) [0 ..< m]"
  proof -
    have "(k + Suc (Suc j)) mod n = (Suc k mod n + Suc j) mod n" for j
      by (metis add_Suc_shift mod_add_left_eq)
    then show ?thesis by (simp only: map_upt_Suc add_Suc_right add_0_right)
  qed
  then show ?case using i r by simp
qed simp

text \<open>The ring is a cycle through all acceptors: following the successors from an acceptor, the first
  \<open>n\<close> steps visit the \<open>n\<close> acceptors once each and end where they began.\<close>

theorem ring_visits_all:
  assumes "cfg_initialized cfg" "acceptors_count cfg = int n" "n < 255" "0 < unat (self_acceptor_id cfg)" "unat (self_acceptor_id cfg) \<le> n"
  shows "\<exists>is. ring_path n cfg = Inr is \<and> distinct is \<and> unat ` set is = {1 .. n} \<and> last is = self_acceptor_id cfg"
proof -
  obtain k where k: "unat (self_acceptor_id cfg) = Suc k" "k < n" using assms(4,5) by (cases "unat (self_acceptor_id cfg)") auto
  obtain "is" where r: "ring_path n cfg = Inr is" "map unat is = map (\<lambda>j. Suc ((k + Suc j) mod n)) [0 ..< n]"
    using ring_path_ok [OF assms(1-3) k, of n] by blast
  have inj: "inj_on (\<lambda>j. Suc ((k + Suc j) mod n)) {0 ..< n}"
  proof (rule inj_onI)
    fix i j assume a: "i \<in> {0 ..< n}" "j \<in> {0 ..< n}" "Suc ((k + Suc i) mod n) = Suc ((k + Suc j) mod n)"
    have "i + Suc k = j + Suc k"
      by (rule circular.window_slot_inj [OF circular_mod, of n "Suc k"]) (use a k in \<open>auto simp: ac_simps\<close>)
    then show "i = j" by simp
  qed
  then have "distinct (map unat is)" unfolding r(2) by (simp add: distinct_map)
  then have d: "distinct is" by (simp add: distinct_map)
  have "unat ` set is = (\<lambda>j. Suc ((k + Suc j) mod n)) ` {0 ..< n}" by (metis r(2) atLeastLessThan_upt image_set)
  moreover have "\<dots> = {1 .. n}"
  proof (rule card_subset_eq)
    show "card ((\<lambda>j. Suc ((k + Suc j) mod n)) ` {0 ..< n}) = card {1 .. n}" using card_image [OF inj] by simp
  qed (use k in \<open>auto simp: Suc_le_eq\<close>)
  moreover have "unat (last is) = unat (self_acceptor_id cfg)"
  proof -
    have ne: "is \<noteq> []" using r(2) k by auto
    then have "unat (last is) = last (map unat is)" by (simp add: last_map)
    also have "\<dots> = Suc ((k + n) mod n)" unfolding r(2) using k by (cases n) (auto simp: last_map)
    finally show ?thesis using k by simp
  qed
  ultimately show ?thesis using r(1) d by (auto simp: word_unat_eq_iff)
qed

theorem ring_visits_all_witness:
  "\<exists>is. ring_path 3 (zero_config\<lparr>cfg_initialized := True, acceptors_count := 3, self_acceptor_id := 2\<rparr>) = Inr is
    \<and> distinct is \<and> unat ` set is = {1 .. 3} \<and> last is = 2"
  using ring_visits_all [of "zero_config\<lparr>cfg_initialized := True, acceptors_count := 3, self_acceptor_id := 2\<rparr>" 3] by simp

end
