(* ===== verification/RingLearner.thy ===== *)
theory RingLearner
  imports DeliveryQueue RingMessages RingTopology
begin

text \<open>
  The learner of \<^verbatim>\<open>ring_paxos\<close> (\<^verbatim>\<open>lib/ringpaxos_learner.c\<close>): it
  passes the messages of the multicaster to its delivery queue, collects the requests of the queue for
  what is missing in two messages, and sends them to the leader when they are full or after the periodic
  check. It also has the client's proxy (\<^verbatim>\<open>lib/ringpaxos_submit_proxy.c\<close>). What goes to
  the sender is a list of calls; printing and event counters are not modelled.
\<close>

section \<open>State\<close>

record learner_context =
  lc_initialized :: bool
  lc_dq :: delivery_queue
  missing_cmd_request :: requests_msg
  missing_acc_request :: requests_msg

datatype lc_out = LcSend ring_msg u64 | LcFlush

text \<open>The number of entries of a request that the buffer of \<^verbatim>\<open>MAX_MESSAGE_SIZE\<close> bytes can
  hold, and the number at which it is sent.\<close>

definition request_capacity :: nat where
  "request_capacity = (MAX_MESSAGE_SIZE - unat sizeof_requests_msg) div 8"

definition REPEAT_REQUEST_MAX_ENTRIES :: nat where
  "REPEAT_REQUEST_MAX_ENTRIES = (MAX_MESSAGE_SIZE - unat sizeof_requests_msg) div 8 - 1"

definition empty_request :: requests_msg where
  "empty_request = \<lparr>requests_count = 0, rq_inst_number = replicate request_capacity 0\<rparr>"

section \<open>Requests\<close>

definition add_request :: "ring_iid \<Rightarrow> requests_msg \<Rightarrow> requests_msg res" where
  "add_request i msg =
     rguard (unat (requests_count msg) < length (rq_inst_number msg)) (
       Inr (msg\<lparr>rq_inst_number := (rq_inst_number msg)[unat (requests_count msg) := i],
                requests_count := requests_count msg + 1\<rparr>))"

text \<open>The sender copies the counted entries.\<close>

definition sent_request :: "requests_msg \<Rightarrow> requests_msg" where
  "sent_request msg = msg\<lparr>rq_inst_number := take (unat (requests_count msg)) (rq_inst_number msg)\<rparr>"

definition on_missing_cmdmap :: "ring_iid \<Rightarrow> learner_context \<Rightarrow> (learner_context \<times> lc_out list) res" where
  "on_missing_cmdmap i l =
     rassert (lc_initialized l) (
     rbind (add_request i (missing_cmd_request l)) (\<lambda>msg.
     if unat (requests_count msg) \<ge> REPEAT_REQUEST_MAX_ENTRIES
     then Inr (l\<lparr>missing_cmd_request := msg\<lparr>requests_count := 0\<rparr>\<rparr>,
               [LcSend (map_request (sent_request msg)) (CMDMAP_REQS_MSG_SIZE msg), LcFlush])
     else Inr (l\<lparr>missing_cmd_request := msg\<rparr>, [])))"

definition on_missing_acceptance :: "ring_iid \<Rightarrow> learner_context \<Rightarrow> (learner_context \<times> lc_out list) res" where
  "on_missing_acceptance i l =
     rassert (lc_initialized l) (
     rbind (add_request i (missing_acc_request l)) (\<lambda>msg.
     if unat (requests_count msg) \<ge> REPEAT_REQUEST_MAX_ENTRIES
     then Inr (l\<lparr>missing_acc_request := msg\<lparr>requests_count := 0\<rparr>\<rparr>,
               [LcSend (chosenval_request (sent_request msg)) (FINVAL_REQS_MSG_SIZE msg), LcFlush])
     else Inr (l\<lparr>missing_acc_request := msg\<rparr>, [])))"

definition post_delivery_check :: "learner_context \<Rightarrow> (learner_context \<times> lc_out list) res" where
  "post_delivery_check l =
     rassert (lc_initialized l) (
     let msg1 = missing_cmd_request l; msg2 = missing_acc_request l;
         out1 = (if requests_count msg1 > 0 then [LcSend (map_request (sent_request msg1)) (CMDMAP_REQS_MSG_SIZE msg1)] else []);
         l = (if requests_count msg1 > 0 then l\<lparr>missing_cmd_request := msg1\<lparr>requests_count := 0\<rparr>\<rparr> else l);
         out2 = (if requests_count msg2 > 0 then [LcSend (chosenval_request (sent_request msg2)) (FINVAL_REQS_MSG_SIZE msg2)] else []);
         l = (if requests_count msg2 > 0 then l\<lparr>missing_acc_request := msg2\<lparr>requests_count := 0\<rparr>\<rparr> else l)
     in Inr (l, out1 @ out2 @ [LcFlush]))"

text \<open>The callbacks of the delivery queue, in the order of their calls.\<close>

fun on_dq_request :: "dq_request \<Rightarrow> learner_context \<Rightarrow> (learner_context \<times> lc_out list) res" where
  "on_dq_request (MissingCmdmap i) l = on_missing_cmdmap i l"
| "on_dq_request (MissingAcceptance i) l = on_missing_acceptance i l"
| "on_dq_request PostCheck l = post_delivery_check l"

fun on_dq_requests :: "dq_request list \<Rightarrow> learner_context \<Rightarrow> (learner_context \<times> lc_out list) res" where
  "on_dq_requests [] l = Inr (l, [])"
| "on_dq_requests (r # rs) l = rbind (on_dq_request r l) (\<lambda>(l, out).
     rbind (on_dq_requests rs l) (\<lambda>(l, out'). Inr (l, out @ out')))"

definition learner_periodic_check :: "timeval \<Rightarrow> learner_context \<Rightarrow> (learner_context \<times> lc_out list) res" where
  "learner_periodic_check now l =
     rbind (dq_periodic_check now (lc_dq l)) (\<lambda>(dq, rs). on_dq_requests rs (l\<lparr>lc_dq := dq\<rparr>))"

section \<open>Messages\<close>

definition learner_delayed_start :: "learner_context \<Rightarrow> learner_context res" where
  "learner_delayed_start l = rassert (lc_initialized l) (Inr (l\<lparr>lc_dq := dq_delayed_start (lc_dq l)\<rparr>))"

text \<open>The results are the new state and the values that are delivered.\<close>

definition with_dq :: "learner_context \<Rightarrow> (delivery_queue \<times> bytes list) res \<Rightarrow> (learner_context \<times> bytes list) res" where
  "with_dq l r = rbind r (\<lambda>(dq, vs). Inr (l\<lparr>lc_dq := dq\<rparr>, vs))"

definition on_mcast_msg :: "ring_msg \<Rightarrow> u64 \<Rightarrow> learner_context \<Rightarrow> (learner_context \<times> bytes list) res" where
  "on_mcast_msg m sz l =
     rassert (lc_initialized l) (case m of
       command_map msg \<Rightarrow>
         rassert (sz = CMDMAP_MSG_SIZE msg) (
         rbind (mread (cm_cmd_value msg) 0 (unat (cm_cmd_size msg))) (\<lambda>v.
           with_dq l (delivery_queue_handle_command_map (lc_dq l) (cm_inst msg) (cm_cmd_key msg) v)))
     | acceptance msg \<Rightarrow>
         rassert (sz = sizeof_acceptance_msg) (
           with_dq l (delivery_queue_handle_acceptance (lc_dq l) (am_inst msg) (am_cmd_key msg)))
     | _ \<Rightarrow> Inr (l, []))"

definition post_receive_check :: "learner_context \<Rightarrow> (learner_context \<times> bytes list) res" where
  "post_receive_check l = rassert (lc_initialized l) (with_dq l (dq_deliver_loop (lc_dq l)))"

section \<open>Initialization\<close>

text \<open>The flag of the structure is read before it was written (\<open>uninitialized\<close>); the opening of
  the two sockets is a result each.\<close>

definition learner_init :: "bool \<Rightarrow> os_config \<Rightarrow> scan_junk \<Rightarrow> string list option \<Rightarrow> bool \<Rightarrow> bool
    \<Rightarrow> (learner_context \<times> config_mngr) res" where
  "learner_init uninitialized env j file send_opened recv_opened =
     rassert (\<not> uninitialized) (
     rbind (config_mngr_init env j file 0) (\<lambda>(result, cfg).
     rassert (result = 0) (case cfg of None \<Rightarrow> Inl NullPointer
     | Some cfg \<Rightarrow>
       rbind (conf_getter working_set_size cfg) (\<lambda>n.
       rbind (lptopo_get_leader_addr cfg) (\<lambda>_.
       rbind (lptopo_get_leader_ring_port cfg) (\<lambda>_.
       rassert send_opened (rassert recv_opened (
         Inr (\<lparr>lc_initialized = True, lc_dq = delivery_queue_init (word_of_int n) True,
                missing_cmd_request = empty_request, missing_acc_request = empty_request\<rparr>, cfg)))))))))"

section \<open>The proxy of a client\<close>

definition LARGEST_PAXOS_HEADER :: u64 where "LARGEST_PAXOS_HEADER = 14"

definition submit_proxy_udp_init :: "os_config \<Rightarrow> scan_junk \<Rightarrow> string list option \<Rightarrow> bool \<Rightarrow> config_mngr res" where
  "submit_proxy_udp_init env j file send_opened =
     rbind (config_mngr_init env j file 0) (\<lambda>(result, cfg).
     rassert (result = 0) (case cfg of None \<Rightarrow> Inl NullPointer
     | Some cfg \<Rightarrow>
       rbind (lptopo_get_leader_addr cfg) (\<lambda>_.
       rbind (lptopo_get_leader_clients_port cfg) (\<lambda>_.
       rassert send_opened (Inr cfg)))))"

definition submit_command :: "submit_cmd_msg \<Rightarrow> lc_out list" where
  "submit_command scm =
     (if SUBMIT_CMD_MSG_SIZE scm > word_of_nat MAX_MESSAGE_SIZE - LARGEST_PAXOS_HEADER then []
      else [LcSend (client_submit scm) (SUBMIT_CMD_MSG_SIZE scm)])"

definition submit_proxy_flush_now :: "lc_out list" where
  "submit_proxy_flush_now = [LcFlush]"

end
