(* ===== verification/RingLearnerSpec.thy ===== *)
theory RingLearnerSpec
  imports RingLearner
begin

text \<open>
  The learner asks for everything its delivery queue misses: the requests it sends carry exactly the
  instances that the queue reported, in order, in messages that fit into a datagram.
\<close>

definition req_ok :: "requests_msg \<Rightarrow> ring_iid list \<Rightarrow> bool" where
  "req_ok msg xs \<longleftrightarrow> unat (requests_count msg) = length xs \<and> length (rq_inst_number msg) = request_capacity
     \<and> take (length xs) (rq_inst_number msg) = xs \<and> length xs < REPEAT_REQUEST_MAX_ENTRIES"

lemma request_limits: "request_capacity = 1121" "REPEAT_REQUEST_MAX_ENTRIES = 1120"
  by (simp_all add: request_capacity_def REPEAT_REQUEST_MAX_ENTRIES_def MAX_MESSAGE_SIZE_def MAX_TCP_PAYLOAD_def sizeof_requests_msg_def)

lemma empty_request_ok: "req_ok empty_request []"
  by (simp add: req_ok_def empty_request_def request_limits)

text \<open>The size of a request is its header and 8 bytes for each entry.\<close>

definition request_msg_ok :: "requests_msg \<Rightarrow> u64 \<Rightarrow> bool" where
  "request_msg_ok m n \<longleftrightarrow> unat (requests_count m) = length (rq_inst_number m) \<and> unat n = 8 + 8 * length (rq_inst_number m)
     \<and> unat n \<le> MAX_MESSAGE_SIZE"

lemma sent_ok:
  assumes "unat (requests_count msg) = length xs" "length (rq_inst_number msg) = request_capacity"
    "take (length xs) (rq_inst_number msg) = xs" "length xs \<le> REPEAT_REQUEST_MAX_ENTRIES"
  shows "rq_inst_number (sent_request msg) = xs" "request_msg_ok (sent_request msg) (CMDMAP_REQS_MSG_SIZE msg)"
    "request_msg_ok (sent_request msg) (FINVAL_REQS_MSG_SIZE msg)"
proof -
  show xs: "rq_inst_number (sent_request msg) = xs" using assms(1,3) by (simp add: sent_request_def)
  have n: "unat (requests_count msg) \<le> 1120" using assms(1,4) by (simp add: request_limits)
  have "unat (ucast (requests_count msg) :: u64) = unat (requests_count msg)"
    using unat_u32_less [of "requests_count msg"] by (simp add: unsigned_ucast_eq take_bit_eq_mod)
  then have "unat (CMDMAP_REQS_MSG_SIZE msg) = 8 + 8 * length xs" "unat (FINVAL_REQS_MSG_SIZE msg) = 8 + 8 * length xs"
    using n assms(1)
    by (simp_all add: CMDMAP_REQS_MSG_SIZE_def FINVAL_REQS_MSG_SIZE_def sizeof_requests_msg_def unat_word_ariths)
  then show "request_msg_ok (sent_request msg) (CMDMAP_REQS_MSG_SIZE msg)"
    "request_msg_ok (sent_request msg) (FINVAL_REQS_MSG_SIZE msg)"
    using xs assms(1,4)
    by (simp_all add: request_msg_ok_def request_limits MAX_MESSAGE_SIZE_def MAX_TCP_PAYLOAD_def) (simp_all add: sent_request_def)
qed

lemma add_request_ok:
  assumes "req_ok msg xs"
  shows "\<exists>msg'. add_request i msg = Inr msg' \<and> unat (requests_count msg') = length (xs @ [i])
    \<and> length (rq_inst_number msg') = request_capacity \<and> take (length (xs @ [i])) (rq_inst_number msg') = xs @ [i]"
proof -
  have c: "unat (requests_count msg) = length xs" "length xs < length (rq_inst_number msg)" "length xs < 1120"
    using assms by (simp_all add: req_ok_def request_limits)
  have "unat (requests_count msg + 1) = Suc (length xs)" using c by (simp add: unat_word_ariths)
  moreover have "take (Suc (length xs)) ((rq_inst_number msg)[length xs := i]) = xs @ [i]"
    using assms c(2) by (simp add: take_Suc_conv_app_nth req_ok_def)
  ultimately show ?thesis using assms c by (simp add: add_request_def req_ok_def)
qed

fun cmd_ids :: "lc_out \<Rightarrow> ring_iid list" where
  "cmd_ids (LcSend (map_request m) n) = rq_inst_number m"
| "cmd_ids _ = []"

fun acc_ids :: "lc_out \<Rightarrow> ring_iid list" where
  "acc_ids (LcSend (chosenval_request m) n) = rq_inst_number m"
| "acc_ids _ = []"

fun lc_out_ok :: "lc_out \<Rightarrow> bool" where
  "lc_out_ok (LcSend (map_request m) n) = request_msg_ok m n"
| "lc_out_ok (LcSend (chosenval_request m) n) = request_msg_ok m n"
| "lc_out_ok (LcSend _ n) = False"
| "lc_out_ok LcFlush = True"

fun missing_cmds :: "dq_request \<Rightarrow> ring_iid list" where
  "missing_cmds (MissingCmdmap i) = [i]"
| "missing_cmds _ = []"

fun missing_accs :: "dq_request \<Rightarrow> ring_iid list" where
  "missing_accs (MissingAcceptance i) = [i]"
| "missing_accs _ = []"

definition lc_ok :: "learner_context \<Rightarrow> ring_iid list \<Rightarrow> ring_iid list \<Rightarrow> bool" where
  "lc_ok l xs ys \<longleftrightarrow> lc_initialized l \<and> req_ok (missing_cmd_request l) xs \<and> req_ok (missing_acc_request l) ys"

lemma req_ok_count: "req_ok msg xs \<Longrightarrow> requests_count msg > 0 \<longleftrightarrow> xs \<noteq> []"
  by (auto simp: req_ok_def word_less_nat_alt)

lemma req_ok_reset: "length (rq_inst_number msg) = request_capacity \<Longrightarrow> req_ok (msg\<lparr>requests_count := 0\<rparr>) []"
  by (simp add: req_ok_def request_limits)

lemma on_dq_request_ok:
  assumes ok: "lc_ok l xs ys"
  shows "\<exists>l' out xs' ys'. on_dq_request r l = Inr (l', out) \<and> lc_ok l' xs' ys' \<and> list_all lc_out_ok out
    \<and> concat (map cmd_ids out) @ xs' = xs @ missing_cmds r \<and> concat (map acc_ids out) @ ys' = ys @ missing_accs r
    \<and> (r = PostCheck \<longrightarrow> xs' = [] \<and> ys' = [] \<and> out \<noteq> [] \<and> last out = LcFlush)"
proof (cases r)
  case (MissingCmdmap i)
  obtain msg where m: "add_request i (missing_cmd_request l) = Inr msg" "unat (requests_count msg) = length (xs @ [i])"
      "length (rq_inst_number msg) = request_capacity" "take (length (xs @ [i])) (rq_inst_number msg) = xs @ [i]"
    using add_request_ok ok unfolding lc_ok_def by blast
  have le: "length (xs @ [i]) \<le> REPEAT_REQUEST_MAX_ENTRIES" using ok by (simp add: lc_ok_def req_ok_def)
  show ?thesis
  proof (cases "REPEAT_REQUEST_MAX_ENTRIES \<le> length (xs @ [i])")
    case True
    have "on_dq_request r l = Inr (l\<lparr>missing_cmd_request := msg\<lparr>requests_count := 0\<rparr>\<rparr>,
        [LcSend (map_request (sent_request msg)) (CMDMAP_REQS_MSG_SIZE msg), LcFlush])"
      using ok m True MissingCmdmap by (simp add: on_missing_cmdmap_def lc_ok_def)
    then show ?thesis using sent_ok [OF m(2-4) le] req_ok_reset [OF m(3)] ok MissingCmdmap
      by (intro exI [of _ "l\<lparr>missing_cmd_request := msg\<lparr>requests_count := 0\<rparr>\<rparr>"] exI conjI exI [of _ "[]"] exI [of _ ys])
        (auto simp: lc_ok_def)
  next
    case False
    have "on_dq_request r l = Inr (l\<lparr>missing_cmd_request := msg\<rparr>, [])"
      using ok m False MissingCmdmap by (simp add: on_missing_cmdmap_def lc_ok_def)
    moreover have "lc_ok (l\<lparr>missing_cmd_request := msg\<rparr>) (xs @ [i]) ys" using ok m(2-4) False by (simp add: lc_ok_def req_ok_def)
    ultimately show ?thesis using MissingCmdmap by force
  qed
next
  case (MissingAcceptance i)
  obtain msg where m: "add_request i (missing_acc_request l) = Inr msg" "unat (requests_count msg) = length (ys @ [i])"
      "length (rq_inst_number msg) = request_capacity" "take (length (ys @ [i])) (rq_inst_number msg) = ys @ [i]"
    using add_request_ok ok unfolding lc_ok_def by blast
  have le: "length (ys @ [i]) \<le> REPEAT_REQUEST_MAX_ENTRIES" using ok by (simp add: lc_ok_def req_ok_def)
  show ?thesis
  proof (cases "REPEAT_REQUEST_MAX_ENTRIES \<le> length (ys @ [i])")
    case True
    let ?l = "l\<lparr>missing_acc_request := msg\<lparr>requests_count := 0\<rparr>\<rparr>"
      and ?o = "[LcSend (chosenval_request (sent_request msg)) (FINVAL_REQS_MSG_SIZE msg), LcFlush]"
    have "on_dq_request r l = Inr (?l, ?o)"
      using ok m True MissingAcceptance by (simp add: on_missing_acceptance_def lc_ok_def)
    moreover have "lc_ok ?l xs []" using ok req_ok_reset [OF m(3)] by (simp add: lc_ok_def)
    ultimately show ?thesis using sent_ok [OF m(2-4) le] MissingAcceptance
      by (intro exI [of _ ?l] exI [of _ ?o] exI [of _ xs] exI [of _ "[]"]) simp
  next
    case False
    have "on_dq_request r l = Inr (l\<lparr>missing_acc_request := msg\<rparr>, [])"
      using ok m False MissingAcceptance by (simp add: on_missing_acceptance_def lc_ok_def)
    moreover have "lc_ok (l\<lparr>missing_acc_request := msg\<rparr>) xs (ys @ [i])" using ok m(2-4) False by (simp add: lc_ok_def req_ok_def)
    ultimately show ?thesis using MissingAcceptance by force
  qed
next
  case PostCheck
  let ?m1 = "missing_cmd_request l" and ?m2 = "missing_acc_request l"
  have q: "req_ok ?m1 xs" "req_ok ?m2 ys" "lc_initialized l" using ok by (simp_all add: lc_ok_def)
  let ?l1 = "if xs \<noteq> [] then l\<lparr>missing_cmd_request := ?m1\<lparr>requests_count := 0\<rparr>\<rparr> else l"
  let ?l2 = "if ys \<noteq> [] then ?l1\<lparr>missing_acc_request := ?m2\<lparr>requests_count := 0\<rparr>\<rparr> else ?l1"
  let ?o1 = "if xs \<noteq> [] then [LcSend (map_request (sent_request ?m1)) (CMDMAP_REQS_MSG_SIZE ?m1)] else []"
  let ?o2 = "if ys \<noteq> [] then [LcSend (chosenval_request (sent_request ?m2)) (FINVAL_REQS_MSG_SIZE ?m2)] else []"
  have s1: "rq_inst_number (sent_request ?m1) = xs" "request_msg_ok (sent_request ?m1) (CMDMAP_REQS_MSG_SIZE ?m1)"
    using sent_ok [of ?m1 xs] q(1) by (simp_all add: req_ok_def)
  have s2: "rq_inst_number (sent_request ?m2) = ys" "request_msg_ok (sent_request ?m2) (FINVAL_REQS_MSG_SIZE ?m2)"
    using sent_ok [of ?m2 ys] q(2) by (simp_all add: req_ok_def)
  have "on_dq_request r l = Inr (?l2, ?o1 @ ?o2 @ [LcFlush])"
    using q(3) by (simp add: PostCheck post_delivery_check_def Let_def req_ok_count [OF q(1)] req_ok_count [OF q(2)])
  moreover have "lc_ok ?l2 [] []" using q req_ok_reset [of ?m1] req_ok_reset [of ?m2] by (auto simp: lc_ok_def req_ok_def)
  ultimately show ?thesis using s1 s2 PostCheck
    by (intro exI [of _ ?l2] exI [of _ "?o1 @ ?o2 @ [LcFlush]"] exI [of _ "[]"]) simp
qed

lemma sent_then_pending: "a @ x = x0 @ m \<Longrightarrow> b @ y = x @ n \<Longrightarrow> a @ b @ y = x0 @ m @ n"
  by (metis append.assoc)

lemma on_dq_requests_ok:
  assumes "lc_ok l xs ys"
  shows "\<exists>l' out xs' ys'. on_dq_requests rs l = Inr (l', out) \<and> lc_ok l' xs' ys' \<and> list_all lc_out_ok out
    \<and> concat (map cmd_ids out) @ xs' = xs @ concat (map missing_cmds rs)
    \<and> concat (map acc_ids out) @ ys' = ys @ concat (map missing_accs rs)
    \<and> (rs \<noteq> [] \<and> last rs = PostCheck \<longrightarrow> xs' = [] \<and> ys' = [] \<and> out \<noteq> [] \<and> last out = LcFlush)"
  using assms
proof (induction rs arbitrary: l xs ys)
  case Nil
  then show ?case by (intro exI [of _ l] exI [of _ "[]"] exI [of _ xs] exI [of _ ys]) simp
next
  case (Cons r rs)
  obtain l1 o1 xs1 ys1 where 1: "on_dq_request r l = Inr (l1, o1)" "lc_ok l1 xs1 ys1" "list_all lc_out_ok o1"
      "concat (map cmd_ids o1) @ xs1 = xs @ missing_cmds r" "concat (map acc_ids o1) @ ys1 = ys @ missing_accs r"
      "r = PostCheck \<longrightarrow> xs1 = [] \<and> ys1 = [] \<and> o1 \<noteq> [] \<and> last o1 = LcFlush"
    using on_dq_request_ok [OF Cons.prems, of r] by blast
  obtain l2 o2 xs2 ys2 where 2: "on_dq_requests rs l1 = Inr (l2, o2)" "lc_ok l2 xs2 ys2" "list_all lc_out_ok o2"
      "concat (map cmd_ids o2) @ xs2 = xs1 @ concat (map missing_cmds rs)"
      "concat (map acc_ids o2) @ ys2 = ys1 @ concat (map missing_accs rs)"
      "rs \<noteq> [] \<and> last rs = PostCheck \<longrightarrow> xs2 = [] \<and> ys2 = [] \<and> o2 \<noteq> [] \<and> last o2 = LcFlush"
    using Cons.IH [OF 1(2)] by blast
  have "on_dq_requests (r # rs) l = Inr (l2, o1 @ o2)" using 1(1) 2(1) by simp
  moreover have "concat (map cmd_ids (o1 @ o2)) @ xs2 = xs @ concat (map missing_cmds (r # rs))"
    using sent_then_pending [OF 1(4) 2(4)] by simp
  moreover have "concat (map acc_ids (o1 @ o2)) @ ys2 = ys @ concat (map missing_accs (r # rs))"
    using sent_then_pending [OF 1(5) 2(5)] by simp
  moreover have "r # rs \<noteq> [] \<and> last (r # rs) = PostCheck \<longrightarrow> xs2 = [] \<and> ys2 = [] \<and> o1 @ o2 \<noteq> [] \<and> last (o1 @ o2) = LcFlush"
  proof (cases "rs = []")
    case True
    then have "o2 = []" using 2(1) by simp
    then have "xs2 = xs1" "ys2 = ys1" using 2(4,5) True by simp_all
    then show ?thesis using 1(6) True \<open>o2 = []\<close> by simp
  next
    case False
    then show ?thesis using 2(6) by simp
  qed
  ultimately show ?case using 2(2) 1(3) 2(3) by (intro exI [of _ l2] exI [of _ "o1 @ o2"] exI [of _ xs2] exI [of _ ys2]) simp
qed

text \<open>C35. Requests of a learner: after a periodic check, everything the delivery queue reported as missing
  has been asked for, once and in order, the mappings in the one kind of request and the acceptances in the
  other; every request fits into a message, the last thing is a flush, and nothing waits.\<close>

theorem learner_requests_complete:
  assumes "lc_ok l [] []"
  shows "\<exists>l' out. on_dq_requests (rs @ [PostCheck]) l = Inr (l', out) \<and> lc_ok l' [] []
    \<and> concat (map cmd_ids out) = concat (map missing_cmds rs) \<and> concat (map acc_ids out) = concat (map missing_accs rs)
    \<and> list_all lc_out_ok out \<and> last out = LcFlush"
  using on_dq_requests_ok [OF assms, of "rs @ [PostCheck]"] by auto

definition example_learner :: learner_context where
  "example_learner = \<lparr>lc_initialized = True, lc_dq = delivery_queue_init 8 True, missing_cmd_request = empty_request,
     missing_acc_request = empty_request\<rparr>"

theorem learner_requests_complete_witness:
  "\<exists>l' out. on_dq_requests ([MissingCmdmap 3, MissingAcceptance 3, MissingCmdmap 4] @ [PostCheck]) example_learner = Inr (l', out)
    \<and> lc_ok l' [] [] \<and> concat (map cmd_ids out) = [3, 4] \<and> concat (map acc_ids out) = [3]
    \<and> list_all lc_out_ok out \<and> last out = LcFlush"
  using learner_requests_complete [of example_learner "[MissingCmdmap 3, MissingAcceptance 3, MissingCmdmap 4]"]
  by (simp add: example_learner_def lc_ok_def empty_request_ok)

end
