(* ===== verification/RingConfigSpec.thy ===== *)
theory RingConfigSpec
  imports RingConfig
begin

text \<open>
  What the validation of a configuration of \<^verbatim>\<open>ring_paxos\<close> guarantees, and what its
  comparisons do not.
\<close>

section \<open>What is guaranteed\<close>

lemma validate_eq: "validate c k = Inr (Some x) \<longleftrightarrow> c \<and> k = Inr (Some x)"
  by (simp add: validate_def)

lemma acceptor_info_ok: "lpconfig_get_acceptor_info cfg i = Inr ai \<Longrightarrow> ai = acc_infos cfg ! unat i \<and> cfg_initialized cfg"
  by (auto simp: lpconfig_get_acceptor_info_def res_eq_Inr Let_def split: if_splits)

text \<open>The entries of the table are empty or their own id's, with ports above 1024.\<close>

definition entry_valid :: "os_config \<Rightarrow> nat \<Rightarrow> acceptor_info \<Rightarrow> bool" where
  "entry_valid env i ai \<longleftrightarrow> unat (ai_id ai) = i \<and> inet_addr_ok env (ip_addr ai) \<and> learners_port ai > 1024 \<and> inbound_port ai > 1024"

lemma validate_acceptors_ok:
  assumes "validate_acceptors env is count cfg = Inr (Some n)" "\<forall>i \<in> set is. i < 256"
  shows "\<forall>i \<in> set is. ai_id (acc_infos cfg ! i) = 0 \<or> entry_valid env i (acc_infos cfg ! i)"
  using assms
proof (induction "is" arbitrary: count)
  case (Cons i "is")
  obtain ai where g: "lpconfig_get_acceptor_info cfg (word_of_nat i) = Inr ai"
    using Cons.prems(1) by (auto simp: res_eq_Inr)
  have "unat (word_of_nat i :: u8) = i" using Cons.prems(2) by (simp add: unsigned_of_nat take_bit_nat_eq_self)
  then have ai: "ai = acc_infos cfg ! i" using acceptor_info_ok [OF g] by simp
  show ?case
  proof (cases "ai_id ai = 0")
    case True
    then have "validate_acceptors env is count cfg = Inr (Some n)" using Cons.prems(1) g by simp
    then show ?thesis using Cons.IH Cons.prems(2) True ai by simp
  next
    case False
    then have e: "entry_valid env i ai" and "validate_acceptors env is (count + 1) cfg = Inr (Some n)"
      using Cons.prems(1) g by (auto simp: res_eq_Inr entry_valid_def split: if_splits)
    then show ?thesis using Cons.IH Cons.prems(2) ai by simp
  qed
qed simp

definition config_valid :: "os_config \<Rightarrow> config_mngr \<Rightarrow> bool" where
  "config_valid env cfg \<longleftrightarrow> cfg_initialized cfg \<and> inet_addr_ok env (mcast_addr cfg) \<and> mcast_port cfg > 1024
     \<and> tv_total (p1_interval cfg) > 0 \<and> tv_total (p2_interval cfg) > 0 \<and> tv_total (mcaster_clock_interval cfg) > 0
     \<and> \<not> timeval_less (p1_interval cfg) (mcaster_clock_interval cfg) \<and> \<not> timeval_less (p2_interval cfg) (mcaster_clock_interval cfg)
     \<and> default_autoflush_interval cfg > 0 \<and> max_active_instances cfg > 0 \<and> preexecution_window_size cfg > 0
     \<and> max_p2_open_per_iteration cfg > 0 \<and> max_client_values_queue_size cfg > 0
     \<and> is_c_int (working_set_size cfg) \<and> is_c_int (preexecution_window_size cfg) \<and> is_c_int (max_active_instances cfg)
     \<and> working_set_size cfg > c_int (preexecution_window_size cfg + max_active_instances cfg)
     \<and> (preexecution_window_size cfg + max_active_instances cfg < 2 ^ 31 \<longrightarrow>
          working_set_size cfg > preexecution_window_size cfg + max_active_instances cfg)
     \<and> (\<forall>i. 0 < i \<and> i < MAX_ACCEPTORS \<longrightarrow> ai_id (acc_infos cfg ! i) = 0 \<or> entry_valid env i (acc_infos cfg ! i))"

text \<open>What is scanned is an \<^verbatim>\<open>int\<close>.\<close>

lemma c_int_range [simp]: "is_c_int (c_int x)"
  using pos_mod_bound [of "2 ^ 32" "x + 2 ^ 31"] pos_mod_sign [of "2 ^ 32" "x + 2 ^ 31"] by (simp add: is_c_int_def c_int_def)

lemma c_int_same: "is_c_int x \<Longrightarrow> c_int x = x"
  by (simp add: c_int_def is_c_int_def)

lemma scan_int_range: "scan_int s = Some (n, r) \<Longrightarrow> is_c_int n"
  by (auto simp: scan_int_def split: option.splits)

definition windows_ok :: "config_mngr \<Rightarrow> bool" where
  "windows_ok cm \<longleftrightarrow> is_c_int (working_set_size cm) \<and> is_c_int (preexecution_window_size cm) \<and> is_c_int (max_active_instances cm)"

lemma parse_integer_range: "is_c_int old \<Longrightarrow> is_c_int (parse_integer line old)"
  by (auto simp: parse_integer_def or_else_def scan_word_int_def split: option.splits dest: scan_int_range)

lemma add_acceptor_windows: "add_acceptor_info cm a ip p q = Inr (added, cm') \<Longrightarrow> windows_ok cm \<Longrightarrow> windows_ok cm'"
  by (auto simp: add_acceptor_info_def windows_ok_def res_eq_Inr split: if_splits)

lemma parse_acceptor_windows: "parse_acceptor j line cm = Inr (added, cm') \<Longrightarrow> windows_ok cm \<Longrightarrow> windows_ok cm'"
  by (auto simp: parse_acceptor_def store16_def res_eq_Inr split: option.splits prod.splits dest: add_acceptor_windows)

lemma parse_multicast_windows: "parse_multicast line cm = Inr cm' \<Longrightarrow> windows_ok cm \<Longrightarrow> windows_ok cm'"
  by (auto simp: parse_multicast_def store16_def res_eq_Inr windows_ok_def split: option.splits prod.splits)

lemma parse_line_windows: "parse_line j line cm = Inr (Some cm') \<Longrightarrow> windows_ok cm \<Longrightarrow> windows_ok cm'"
  by (auto simp: parse_line_def res_eq_Inr split: if_splits dest: parse_acceptor_windows parse_multicast_windows)
    (auto simp: windows_ok_def parse_integer_range)

lemma open_and_parse_windows: "open_and_parse j lines cm = Inr (Some cm') \<Longrightarrow> windows_ok cm \<Longrightarrow> windows_ok cm'"
proof (induction lines arbitrary: cm)
  case (Cons line lines)
  then show ?case by (auto simp: res_eq_Inr split: option.splits dest: parse_line_windows)
qed simp

lemma default_pos: "0 < d \<Longrightarrow> int_or_default i d > 0" "0 < tv_total (Timeval ds du) \<Longrightarrow> tv_total (timeval_or_default tv ds du) > 0"
  by (auto simp: int_or_default_def timeval_or_default_def)

lemma validate_config_ok:
  assumes "validate_config env cfg = Inr (Some cfg')" "cfg_initialized cfg" "windows_ok cfg"
  shows "config_valid env cfg'"
proof -
  have windows: "windows_ok cfg'"
    using assms(1,3) unfolding validate_config_def Let_def validate_eq
    by (auto simp: res_eq_Inr validate_eq windows_ok_def int_or_default_def is_c_int_def split: option.splits)
  obtain n where c: "validate_acceptors env [1 ..< MAX_ACCEPTORS] 0 cfg' = Inr (Some n)"
    and rest: "cfg_initialized cfg' \<and> inet_addr_ok env (mcast_addr cfg') \<and> mcast_port cfg' > 1024
     \<and> tv_total (p1_interval cfg') > 0 \<and> tv_total (p2_interval cfg') > 0 \<and> tv_total (mcaster_clock_interval cfg') > 0
     \<and> \<not> timeval_less (p1_interval cfg') (mcaster_clock_interval cfg') \<and> \<not> timeval_less (p2_interval cfg') (mcaster_clock_interval cfg')
     \<and> default_autoflush_interval cfg' > 0 \<and> max_active_instances cfg' > 0 \<and> preexecution_window_size cfg' > 0
     \<and> max_p2_open_per_iteration cfg' > 0 \<and> max_client_values_queue_size cfg' > 0
     \<and> working_set_size cfg' > c_int (preexecution_window_size cfg' + max_active_instances cfg')"
    using assms(1,2) unfolding validate_config_def Let_def validate_eq
    by (auto simp: res_eq_Inr validate_eq default_pos tv_total_def [of "Timeval _ _"] split: option.splits)
  have "\<forall>i \<in> set [1 ..< MAX_ACCEPTORS]. ai_id (acc_infos cfg' ! i) = 0 \<or> entry_valid env i (acc_infos cfg' ! i)"
    by (rule validate_acceptors_ok [OF c]) (auto simp: MAX_ACCEPTORS_def)
  moreover have "preexecution_window_size cfg' + max_active_instances cfg' < 2 ^ 31 \<Longrightarrow>
      c_int (preexecution_window_size cfg' + max_active_instances cfg') = preexecution_window_size cfg' + max_active_instances cfg'"
    using rest by (intro c_int_same) (simp add: is_c_int_def)
  ultimately show ?thesis using rest windows unfolding config_valid_def windows_ok_def by (auto simp: Suc_le_eq)
qed

section \<open>A sample\<close>

lemma validate_acceptors_cong:
  assumes "acc_infos c1 = acc_infos c2" "cfg_initialized c1 = cfg_initialized c2"
  shows "validate_acceptors env is n c1 = validate_acceptors env is n c2" 
proof -
  have "lpconfig_get_acceptor_info c1 = lpconfig_get_acceptor_info c2" using assms by (auto simp: lpconfig_get_acceptor_info_def)
  then show ?thesis by (induction "is" arbitrary: n) (simp_all cong: if_cong)
qed
text \<open>The configuration that the parser builds for a ring of one acceptor.\<close>

definition sample_env :: os_config where
  "sample_env = \<lparr>inet_addr_ok = \<lambda>a. a = ''239.0.0.1'' \<or> a = ''10.0.0.1'', os_max_rbuf = 65536, os_max_wbuf = 65536\<rparr>"
definition sample_junk :: scan_junk where "sample_junk = \<lparr>junk_sec = 0, junk_usec = 0, junk_ip = []\<rparr>"
definition sample_config :: config_mngr where
  "sample_config = \<lparr>self_acceptor_id = 1, acceptors_count = 1, p1_interval = Timeval 1 0, p2_interval = Timeval 1 0,
     delivery_check_interval = Timeval 0 0, mcaster_clock_interval = Timeval 0 0, default_autoflush_interval = 0,
     retransmit_request_interval = Timeval 0 0, socket_buffers_size = 0, mcast_addr = ''239.0.0.1'', mcast_port = 6000,
     quorum_size = 1, working_set_size = 0, max_active_instances = 0, preexecution_window_size = 0,
     max_p2_open_per_iteration = 0, max_client_values_queue_size = 0,
     acc_infos = (replicate 10 zero_acceptor_info)[1 := \<lparr>ai_id = 1, ip_addr = ''10.0.0.1'', inbound_port = 6001, learners_port = 6002\<rparr>], cfg_initialized = False\<rparr>"
definition sample_file :: "string list" where
  "sample_file = [''# ring'', ''multicast 239.0.0.1 6000'', ''p1_interval 1 0'', ''p2_interval 1 0'', ''quorum_size 1'',
     ''acceptor 1 10.0.0.1 6001 6002'']"

lemma sample_parsed: "open_and_parse sample_junk sample_file (zero_config\<lparr>self_acceptor_id := 1\<rparr>) = Inr (Some sample_config)"
  by code_simp

lemma sample_acceptors: "validate_acceptors sample_env [1 ..< MAX_ACCEPTORS] 0 (sample_config\<lparr>cfg_initialized := True\<rparr>) = Inr (Some 1)"
  by code_simp

text \<open>No check compares the quorum with the number of the acceptors: any positive quorum is accepted for the
  one acceptor of the sample.\<close>

lemma quorum_not_bounded:
  assumes "0 < q" "q < 2 ^ 31"
  shows "\<exists>cfg. validate_config sample_env (sample_config\<lparr>quorum_size := q, cfg_initialized := True\<rparr>) = Inr (Some cfg)
     \<and> quorum_size cfg = q \<and> acceptors_count cfg = 1 \<and> mcast_addr cfg = ''239.0.0.1'' \<and> acc_infos cfg = acc_infos sample_config"
proof -
  have v: "validate_acceptors sample_env [Suc 0 ..< MAX_ACCEPTORS] 0 c = Inr (Some 1)"
    if "acc_infos c = acc_infos sample_config" "cfg_initialized c" for c
    using sample_acceptors validate_acceptors_cong [of c "sample_config\<lparr>cfg_initialized := True\<rparr>"] that by simp
  have "q mod 2 ^ 32 = q" using assms by simp
  then show ?thesis using assms unfolding validate_config_def Let_def
    by (simp add: validate_def v [unfolded sample_env_def sample_config_def, simplified] sample_config_def sample_env_def
      tv_total_def timeval_or_default_def int_or_default_def timeval_less_def c_not_def c_int_def)
qed

lemma sample_accepted: "\<exists>cfg. config_mngr_init sample_env sample_junk (Some sample_file) 1 = Inr (0, Some cfg)
    \<and> acceptors_count cfg = 1 \<and> mcast_addr cfg = ''239.0.0.1'' \<and> acc_infos cfg = acc_infos sample_config"
  using quorum_not_bounded [of 1] by (auto simp: config_mngr_init_def sample_parsed sample_config_def)

text \<open>The sum of the windows is computed with 32 bits: two windows whose sum overflows are accepted for the
  default working set of 100 instances.\<close>

lemma window_sum_overflows:
  "\<exists>cfg. validate_config sample_env (sample_config\<lparr>max_active_instances := 1, preexecution_window_size := 2147483647,
      cfg_initialized := True\<rparr>) = Inr (Some cfg)
    \<and> working_set_size cfg = 100 \<and> preexecution_window_size cfg + max_active_instances cfg = 2147483648"
proof -
  have v: "validate_acceptors sample_env [Suc 0 ..< MAX_ACCEPTORS] 0 c = Inr (Some 1)"
    if "acc_infos c = acc_infos sample_config" "cfg_initialized c" for c
    using sample_acceptors validate_acceptors_cong [of c "sample_config\<lparr>cfg_initialized := True\<rparr>"] that by simp
  show ?thesis unfolding validate_config_def Let_def
    by (simp add: validate_def v [unfolded sample_env_def sample_config_def, simplified] sample_config_def sample_env_def
      tv_total_def timeval_or_default_def int_or_default_def timeval_less_def c_not_def c_int_def)
qed

section \<open>Accepted configurations\<close>

text \<open>C36. A configuration file that is accepted gives a configuration in its bounds: the sum of the windows, as
  a number of 32 bits, is below the working set, so that they fit into it unless the sum reaches \<open>2 ^ 31\<close>
  and wraps around; the intervals are positive and not shorter than the clock's, and every acceptor of
  the table has its own id, a valid address and ports above 1024. In every other case there is no
  configuration.\<close>

theorem accepted_configuration_valid:
  assumes "config_mngr_init env j file i = Inr (r, c)"
  shows "(r = 0 \<and> (\<exists>cfg. c = Some cfg \<and> config_valid env cfg)) \<or> (r = - 1 \<and> c = None)"
proof (cases "c = None")
  case True
  then show ?thesis using assms by (auto simp: config_mngr_init_def res_eq_Inr split: option.splits)
next
  case False
  then obtain lines cm cfg where p: "open_and_parse j lines (zero_config\<lparr>self_acceptor_id := i\<rparr>) = Inr (Some cm)"
      "validate_config env (cm\<lparr>cfg_initialized := True\<rparr>) = Inr (Some cfg)" "r = 0" "c = Some cfg"
    using assms by (auto simp: config_mngr_init_def res_eq_Inr split: option.splits)
  have "windows_ok cm" by (rule open_and_parse_windows [OF p(1)]) (simp add: windows_ok_def zero_config_def is_c_int_def)
  then have "config_valid env cfg" by (intro validate_config_ok [OF p(2)]) (simp_all add: windows_ok_def)
  then show ?thesis using p(3,4) by simp
qed

theorem accepted_configuration_valid_witness:
  "\<exists>cfg. config_mngr_init sample_env sample_junk (Some sample_file) 1 = Inr (0, Some cfg) \<and> config_valid sample_env cfg"
proof -
  obtain cfg where i: "config_mngr_init sample_env sample_junk (Some sample_file) 1 = Inr (0, Some cfg)"
    using sample_accepted by blast
  then show ?thesis using accepted_configuration_valid [OF i] by simp
qed

section \<open>Identifiers of acceptors\<close>

text \<open>The identifiers are read in base 8, and the test of the range lets the identifier 10 pass, which is
  outside of the table.\<close>

lemma acceptor_id_octal:
  "case parse_acceptor sample_junk ''acceptor 10 10.0.0.1 6001 6002'' zero_config of
     Inr (added, cm) \<Rightarrow> added \<and> ai_id (acc_infos cm ! 8) = 8 | Inl e \<Rightarrow> False"
  by code_simp

lemma acceptor_id_ten_outside:
  "parse_acceptor sample_junk ''acceptor 12 10.0.0.1 6001 6002'' zero_config = Inl OutOfBounds"
  by code_simp

end
