(* ===== verification/McasterStorage.thy ===== *)
theory McasterStorage
  imports Queue RingMessages RingConfig
begin

text \<open>
  What the multicaster of \<^verbatim>\<open>ring_paxos\<close> keeps: the values of the clients
  (\<^verbatim>\<open>lib/client_values_manager.c\<close>), a queue of the module \<open>Queue\<close>, and a record
  for each open instance (\<^verbatim>\<open>lib/mcaster_storage.c\<close>). The pointer to a value is the value: a
  value has one owner at a time, the queue or the record it is assigned to.
\<close>

section \<open>Values of the clients\<close>

record clival_mngr =
  cv_queue :: "bytes lpqueue option"
  cv_initialized :: bool

definition on_cv_queue :: "(bytes lpqueue \<Rightarrow> ('r \<times> bytes lpqueue) res) \<Rightarrow> clival_mngr \<Rightarrow> ('r \<times> clival_mngr) res" where
  "on_cv_queue f cvm =
     rassert (cv_initialized cvm) (case cv_queue cvm of None \<Rightarrow> Inl AssertFailed
       | Some q \<Rightarrow> rbind (f q) (\<lambda>(r, q). Inr (r, cvm\<lparr>cv_queue := Some q\<rparr>)))"

definition cvm_get_next_value :: "clival_mngr \<Rightarrow> ((bytes option \<times> u64) option \<times> clival_mngr) res" where
  "cvm_get_next_value = on_cv_queue queue_pop"

text \<open>The queue copies the bytes of the value.\<close>

definition cvm_save_value :: "bytes \<Rightarrow> u64 \<Rightarrow> clival_mngr \<Rightarrow> (bool \<times> clival_mngr) res" where
  "cvm_save_value cmd_value cmd_size =
     on_cv_queue (\<lambda>q. rbind (mread cmd_value 0 (unat cmd_size)) (\<lambda>v. queue_append v cmd_size q))"

definition cvm_push_back_value :: "bytes \<Rightarrow> u64 \<Rightarrow> clival_mngr \<Rightarrow> (bool \<times> clival_mngr) res" where
  "cvm_push_back_value cmd_value cmd_size = on_cv_queue (queue_prepend cmd_value cmd_size)"

definition cvm_pending_list_size :: "clival_mngr \<Rightarrow> u32 res" where
  "cvm_pending_list_size cvm = rassert (cv_initialized cvm)
     (case cv_queue cvm of None \<Rightarrow> Inl NullPointer | Some q \<Rightarrow> Inr (queue_get_current_size q))"

definition client_values_mngr_UDP_init :: clival_mngr where
  "client_values_mngr_UDP_init = \<lparr>cv_queue = None, cv_initialized = True\<rparr>"

definition client_values_mngr_init_queue :: "u32 \<Rightarrow> clival_mngr \<Rightarrow> (bool \<times> clival_mngr) res" where
  "client_values_mngr_init_queue queue_length cvm =
     rassert (cv_initialized cvm) (
     if cv_queue cvm \<noteq> None then Inr (False, cvm)
     else
       let cvm = cvm\<lparr>cv_queue := queue_init queue_length\<rparr> in
       if cv_queue cvm = None then Inr (False, cvm) else Inr (True, cvm))"

section \<open>Records of the open instances\<close>

datatype mcaster_instance_status = st_empty | st_ready | st_p1_pending | st_p1_done | st_p2_pending | st_done

record mcaster_instance_record =
  mir_inst :: ring_iid
  mir_status :: mcaster_instance_status
  mir_ballot :: ring_ballot
  assigned_cmd_key :: command_id
  assigned_cmd_value :: "bytes option"
  assigned_cmd_size :: u64
  mir_timeout :: timeval
  repeat_cmdmap_timeout :: timeval

record mcaster_storage_mngr =
  msm_cfg :: config_mngr
  msm_initialized :: bool
  seq_number :: u16
  array_size :: u64
  mcaster_array :: "u64 \<Rightarrow> mcaster_instance_record"

definition create_value_key :: "mcaster_storage_mngr \<Rightarrow> (command_id \<times> mcaster_storage_mngr) res" where
  "create_value_key msm =
     rassert (msm_initialized msm) (
     let k = \<lparr>mcaster_id = self_acceptor_id (msm_cfg msm),
              mcaster_incarnation = lpconfig_get_incarnation_number (msm_cfg msm), cmd_seqnum = seq_number msm\<rparr>;
         n = seq_number msm + 1
     in Inr (k, msm\<lparr>seq_number := (if n = 0xFFFF then 1 else n)\<rparr>))"

definition mcaster_storage_clear_record :: "mcaster_instance_record \<Rightarrow> mcaster_instance_record" where
  "mcaster_storage_clear_record mir = mir\<lparr>mir_inst := 0, mir_status := st_empty, mir_ballot := 0,
     assigned_cmd_value := None, assigned_cmd_size := 0, assigned_cmd_key := clear_cmd_key (assigned_cmd_key mir)\<rparr>"

definition zero_mir :: mcaster_instance_record where
  "zero_mir = \<lparr>mir_inst = 0, mir_status = st_empty, mir_ballot = 0,
     assigned_cmd_key = \<lparr>mcaster_id = 0, mcaster_incarnation = 0, cmd_seqnum = 0\<rparr>, assigned_cmd_value = None,
     assigned_cmd_size = 0, mir_timeout = Timeval 0 0, repeat_cmdmap_timeout = Timeval 0 0\<rparr>"

definition mcaster_storage_init :: "config_mngr \<Rightarrow> mcaster_storage_mngr" where
  "mcaster_storage_init cfg = \<lparr>msm_cfg = cfg, msm_initialized = True, seq_number = 1,
     array_size = word_of_int (working_set_size cfg * 2),
     mcaster_array = (\<lambda>_. mcaster_storage_clear_record zero_mir)\<rparr>"

definition put_mir :: "mcaster_instance_record \<Rightarrow> mcaster_storage_mngr \<Rightarrow> mcaster_storage_mngr" where
  "put_mir mir msm = msm\<lparr>mcaster_array := (mcaster_array msm)(mir_inst mir mod array_size msm := mir)\<rparr>"

definition mcaster_storage_get :: "mcaster_storage_mngr \<Rightarrow> ring_iid \<Rightarrow> (mcaster_instance_record \<times> mcaster_storage_mngr) res" where
  "mcaster_storage_get msm i =
     rassert (msm_initialized msm) (
     rguard (array_size msm \<noteq> 0) (
     let mir = mcaster_array msm (i mod array_size msm) in
     if mir_inst mir = 0
     then let mir = mir\<lparr>mir_inst := i, mir_status := st_ready\<rparr> in Inr (mir, put_mir mir msm)
     else if mir_inst mir < i
     then rassert (mir_status mir = st_done) (
       let mir = (mcaster_storage_clear_record mir)\<lparr>mir_inst := i, mir_status := st_ready\<rparr> in Inr (mir, put_mir mir msm))
     else if mir_inst mir > i then Inl AssertFailed
     else Inr (mir, msm)))"

definition mcaster_storage_assign_value :: "mcaster_instance_record \<Rightarrow> bytes option \<Rightarrow> u64 \<Rightarrow> mcaster_storage_mngr
    \<Rightarrow> (mcaster_instance_record \<times> mcaster_storage_mngr) res" where
  "mcaster_storage_assign_value mir cmd_value cmd_size msm =
     rassert (msm_initialized msm) (
     rassert (assigned_cmd_value mir = None) (
     rbind (create_value_key msm) (\<lambda>(k, msm).
       let mir = mir\<lparr>assigned_cmd_value := cmd_value, assigned_cmd_size := cmd_size, assigned_cmd_key := k\<rparr>
       in Inr (mir, put_mir mir msm))))"

text \<open>When phase 1 returns another command: only the key is replaced if the values are equal; otherwise
  the assigned value goes back to the queue and the returned one is copied.\<close>

definition mcaster_storage_replace_assigned_value :: "mcaster_instance_record \<Rightarrow> command_id \<Rightarrow> bytes \<Rightarrow> u64
    \<Rightarrow> clival_mngr \<Rightarrow> mcaster_storage_mngr \<Rightarrow> (mcaster_instance_record \<times> clival_mngr \<times> mcaster_storage_mngr) res" where
  "mcaster_storage_replace_assigned_value mir cmd_key cmd_value cmd_size cvm msm =
     rassert (msm_initialized msm) (
     let mir = mir\<lparr>assigned_cmd_key := cmd_key\<rparr> in
     case assigned_cmd_value mir of None \<Rightarrow> Inl NullPointer
     | Some old \<Rightarrow>
       rbind (mread cmd_value 0 (unat cmd_size)) (\<lambda>v.
       rbind (if assigned_cmd_size mir = cmd_size
              then rbind (mread old 0 (unat cmd_size)) (\<lambda>w. Inr (w = v)) else Inr False) (\<lambda>same.
       if same then Inr (mir, cvm, put_mir mir msm)
       else rbind (cvm_push_back_value old (assigned_cmd_size mir) cvm) (\<lambda>(success, cvm).
            rassert success (
            let mir = mir\<lparr>assigned_cmd_size := cmd_size, assigned_cmd_value := Some v\<rparr>
            in Inr (mir, cvm, put_mir mir msm))))))"

end
