(* ===== verification/Mcaster.thy ===== *)
theory Mcaster
  imports McasterStorage RingTimers
begin

text \<open>
  The multicaster of \<^verbatim>\<open>ring_paxos\<close>, its leader
  (\<^verbatim>\<open>ring-paxos/acceptor_helpers_mcaster.c\<close>, the dispatch of
  \<^verbatim>\<open>ring-paxos/acceptor_events.c\<close>, \<^verbatim>\<open>multicaster_init\<close>). A handler takes the
  message and the size the receiver reports, and returns the new state and what is sent. The current time
  is part of the state, as in the code, and set by \<^verbatim>\<open>mcaster_update_wallclock\<close>. Event
  counters and log messages are not modelled, apart from the array of 100 counters that can be overrun.
\<close>

section \<open>State\<close>

record mcaster =
  mc_cfg :: config_mngr
  mc_cvm :: clival_mngr
  mc_msm :: mcaster_storage_mngr
  mcaster_clock :: timeval
  p1_ready_count :: u32
  p1_highest_open :: ring_iid
  highest_closed_iid :: ring_iid
  highest_open_iid :: ring_iid

datatype mc_out = ToSuccessor ring_msg | ToMulticast ring_msg | Flush

type_synonym mc_result = "(mcaster \<times> mc_out list) res"
type_synonym mir_result = "(mcaster_instance_record \<times> mcaster \<times> mc_out list) res"

definition save_mir :: "mcaster_instance_record \<Rightarrow> mcaster \<Rightarrow> mcaster" where
  "save_mir mir mc = mc\<lparr>mc_msm := put_mir mir (mc_msm mc)\<rparr>"

definition get_mir :: "ring_iid \<Rightarrow> mcaster \<Rightarrow> (mcaster_instance_record \<times> mcaster) res" where
  "get_mir i mc = rbind (mcaster_storage_get (mc_msm mc) i) (\<lambda>(mir, msm).
     rassert (mir_inst mir = i) (Inr (mir, mc\<lparr>mc_msm := msm\<rparr>)))"

definition mcaster_update_wallclock :: "timeval \<Rightarrow> mcaster \<Rightarrow> mcaster" where
  "mcaster_update_wallclock now mc = mc\<lparr>mcaster_clock := now\<rparr>"

text \<open>The loops over instance numbers up to a bound; with the highest number there is they would not end.
  Two of the loops have a variable of 32 bits, which truncates the first number.\<close>

definition mc_iids :: "ring_iid \<Rightarrow> ring_iid \<Rightarrow> ring_iid list" where
  "mc_iids from to = map word_of_nat [unat from ..< Suc (unat to)]"

definition mc_iids32 :: "ring_iid \<Rightarrow> ring_iid \<Rightarrow> ring_iid list" where
  "mc_iids32 from to = map word_of_nat [unat (ucast from :: u32) ..< Suc (unat to)]"

section \<open>Sending\<close>

text \<open>The key of a phase 1 message is not initialized: \<open>junk\<close> stands for what it holds.\<close>

definition mcaster_do_phase1 :: "(ring_iid \<Rightarrow> command_id) \<Rightarrow> mcaster \<Rightarrow> mcaster_instance_record \<Rightarrow> mir_result" where
  "mcaster_do_phase1 junk mc mir =
     rassert (mir_ballot mir \<noteq> 0) (
     let m = \<lparr>p1_inst = mir_inst mir, p1_ballot = mir_ballot mir, promises_count = 0, highest_accepted_ballot = 0,
              highest_promised_ballot = 0, p1_cmd_key = junk (mir_inst mir), p1_cmd_size = 0, p1_cmd_value = []\<rparr>;
         mir = mir\<lparr>mir_timeout := timer_set_timeout (mcaster_clock mc) (p1_interval (mc_cfg mc)), mir_status := st_p1_pending\<rparr>
     in Inr (mir, save_mir mir mc, [ToSuccessor (phase1 m)]))"

definition mcaster_do_phase1_range :: "ring_iid \<Rightarrow> ring_iid \<Rightarrow> ring_ballot \<Rightarrow> mc_out list" where
  "mcaster_do_phase1_range from to b =
     [ToSuccessor (phase1_range \<lparr>pr_from = from, pr_to = to, pr_ballot = b, pr_promises_count = 0\<rparr>)]"

definition mcaster_do_phase2 :: "mcaster \<Rightarrow> mcaster_instance_record \<Rightarrow> mir_result" where
  "mcaster_do_phase2 mc mir =
     (let m = \<lparr>p2_inst = mir_inst mir, p2_ballot = mir_ballot mir, accepts_count = 0, p2_cmd_key = assigned_cmd_key mir\<rparr>;
          mir = mir\<lparr>mir_status := st_p2_pending, mir_timeout := timer_set_timeout (mcaster_clock mc) (p2_interval (mc_cfg mc))\<rparr>
      in Inr (mir, save_mir mir mc, [ToMulticast (phase2 m)]))"

text \<open>The mapping is built in a buffer of \<^verbatim>\<open>MAX_MESSAGE_SIZE\<close> bytes. Copying no byte from a
  null pointer is harmless.\<close>

definition assigned_bytes :: "mcaster_instance_record \<Rightarrow> bytes res" where
  "assigned_bytes mir = (case assigned_cmd_value mir of
       None \<Rightarrow> if assigned_cmd_size mir = 0 then Inr [] else Inl NullPointer
     | Some v \<Rightarrow> mread v 0 (unat (assigned_cmd_size mir)))"

definition mcaster_broadcast_mapping :: "mcaster \<Rightarrow> mcaster_instance_record \<Rightarrow> mir_result" where
  "mcaster_broadcast_mapping mc mir =
     rbind (assigned_bytes mir) (\<lambda>v.
     rguard (unat sizeof_cmdmap_msg + length v \<le> MAX_MESSAGE_SIZE) (
     let m = \<lparr>cm_inst = mir_inst mir, cm_cmd_key = assigned_cmd_key mir, cm_cmd_size = assigned_cmd_size mir, cm_cmd_value = v\<rparr>;
         mir = mir\<lparr>repeat_cmdmap_timeout := timer_set_timeout (mcaster_clock mc) (retransmit_request_interval (mc_cfg mc))\<rparr>
     in Inr (mir, save_mir mir mc, [ToMulticast (command_map m)])))"

definition mcaster_broadcast_acceptance :: "mcaster_instance_record \<Rightarrow> mc_out list res" where
  "mcaster_broadcast_acceptance mir =
     rassert (mir_status mir = st_done) (
       Inr [ToMulticast (acceptance \<lparr>am_inst = mir_inst mir, am_cmd_key = assigned_cmd_key mir\<rparr>)])"

definition mapping_then_phase2 :: "mcaster \<Rightarrow> mcaster_instance_record \<Rightarrow> mir_result" where
  "mapping_then_phase2 mc mir =
     rbind (mcaster_broadcast_mapping mc mir) (\<lambda>(mir, mc, out).
     rbind (mcaster_do_phase2 mc mir) (\<lambda>(mir, mc, out'). Inr (mir, mc, out @ out')))"

definition forget_mir :: "mir_result \<Rightarrow> mc_result" where
  "forget_mir r = rbind r (\<lambda>(mir, mc, out). Inr (mc, out))"

section \<open>The periodic checks\<close>

fun p1_open_each :: "ring_ballot \<Rightarrow> ring_iid list \<Rightarrow> mcaster \<Rightarrow> mcaster res" where
  "p1_open_each b [] mc = Inr mc"
| "p1_open_each b (i # is) mc =
     rbind (mcaster_storage_get (mc_msm mc) i) (\<lambda>(mir, msm).
     rassert (mir_inst mir = i \<and> mir_status mir = st_ready) (
     let mir = mir\<lparr>mir_status := st_p1_pending, mir_ballot := b,
           mir_timeout := timer_set_timeout (mcaster_clock mc) (p1_interval (mc_cfg mc))\<rparr>
     in p1_open_each b is (save_mir mir (mc\<lparr>mc_msm := msm\<rparr>))))"

text \<open>With a variable of 32 bits, the bound must be below \<open>2 ^ 32 - 1\<close>; otherwise the loop does
  not end.\<close>

definition below_u32 :: "ring_iid \<Rightarrow> bool" where
  "below_u32 i \<longleftrightarrow> unat i < 2 ^ 32 - 1"

definition mcaster_open_new_instances_P1 :: "mcaster \<Rightarrow> mc_result" where
  "mcaster_open_new_instances_P1 mc =
     (let active_count = p1_ready_count mc + p1_ready_count mc;
          window = (word_of_int (preexecution_window_size (mc_cfg mc)) :: u32)
      in if active_count \<ge> window div 2 then Inr (mc, [])
         else
           let to_open = window - active_count;
               b = make_first_ballot (self_acceptor_id (mc_cfg mc)) (ucast (lpconfig_get_incarnation_number (mc_cfg mc)));
               from = p1_highest_open mc + 1;
               to = p1_highest_open mc + ucast to_open
           in rguard (below_u32 to) (
              rbind (p1_open_each b (mc_iids32 from to) mc) (\<lambda>mc.
                Inr (mc\<lparr>p1_highest_open := p1_highest_open mc + ucast to_open, p1_ready_count := p1_ready_count mc + to_open\<rparr>,
                     mcaster_do_phase1_range from to b))))"

definition check_expired_one :: "(ring_iid \<Rightarrow> command_id) \<Rightarrow> ring_iid \<Rightarrow> mcaster \<Rightarrow> mc_result" where
  "check_expired_one junk i mc =
     rbind (get_mir i mc) (\<lambda>(mir, mc). case mir_status mir of
       st_p1_pending \<Rightarrow> if timer_is_expired (mir_timeout mir) (mcaster_clock mc)
         then forget_mir (mcaster_do_phase1 junk mc mir) else Inr (mc, [])
     | st_p2_pending \<Rightarrow> if timer_is_expired (mir_timeout mir) (mcaster_clock mc)
         then forget_mir (mapping_then_phase2 mc mir) else Inr (mc, [])
     | _ \<Rightarrow> Inr (mc, []))"

fun mc_each :: "('a \<Rightarrow> mcaster \<Rightarrow> mc_result) \<Rightarrow> 'a list \<Rightarrow> mcaster \<Rightarrow> mc_result" where
  "mc_each f [] mc = Inr (mc, [])"
| "mc_each f (x # xs) mc = rbind (f x mc) (\<lambda>(mc, out). rbind (mc_each f xs mc) (\<lambda>(mc, out'). Inr (mc, out @ out')))"

definition mcaster_check_expired_instances :: "(ring_iid \<Rightarrow> command_id) \<Rightarrow> mcaster \<Rightarrow> mc_result" where
  "mcaster_check_expired_instances junk mc =
     (let upper_bound = (if highest_open_iid mc > p1_highest_open mc then highest_open_iid mc else p1_highest_open mc)
      in rguard (upper_bound \<noteq> - 1) (
         mc_each (check_expired_one junk) (mc_iids (highest_closed_iid mc + 1) upper_bound) mc))"

text \<open>The configuration does not change.\<close>

lemma save_mir_simps [simp]:
  "mc_cfg (save_mir mir mc) = mc_cfg mc" "mc_cvm (save_mir mir mc) = mc_cvm mc" "mcaster_clock (save_mir mir mc) = mcaster_clock mc"
  "p1_ready_count (save_mir mir mc) = p1_ready_count mc" "p1_highest_open (save_mir mir mc) = p1_highest_open mc"
  "highest_closed_iid (save_mir mir mc) = highest_closed_iid mc" "highest_open_iid (save_mir mir mc) = highest_open_iid mc"
  "mc_msm (save_mir mir mc) = put_mir mir (mc_msm mc)"
  by (simp_all add: save_mir_def)

lemma get_mir_cfg: "get_mir i mc = Inr (mir, mc') \<Longrightarrow> mc_cfg mc' = mc_cfg mc"
  by (auto simp: get_mir_def res_eq_Inr)

lemma mapping_then_phase2_cfg: "mapping_then_phase2 mc mir = Inr (mir', mc', out) \<Longrightarrow> mc_cfg mc' = mc_cfg mc"
  by (auto simp: mapping_then_phase2_def mcaster_broadcast_mapping_def mcaster_do_phase2_def res_eq_Inr Let_def)

text \<open>The loop of \<^verbatim>\<open>mcaster_open_new_instances_P2\<close>, which opens an instance in each turn and
  at most \<^verbatim>\<open>max_p2_open_per_iteration\<close> in all (but always one). The result has the number of
  instances it opened.\<close>

function p2_open_loop :: "int \<Rightarrow> mcaster \<Rightarrow> (int \<times> mcaster \<times> mc_out list) res" where
  "p2_open_loop open_count mc =
     (let range_size = (word_of_int (max_active_instances (mc_cfg mc)) :: u32);
          current_iid = highest_open_iid mc + 1
      in if \<not> ucast range_size - (highest_open_iid mc - highest_closed_iid mc) > 0 then Inr (open_count, mc, [])
         else if current_iid > p1_highest_open mc then Inr (open_count, mc, [])
         else if p1_ready_count mc = 0 then Inr (open_count, mc, [])
         else rbind (get_mir current_iid mc) (\<lambda>(mir, mc).
           if mir_status mir \<noteq> st_p1_done
           then rassert (mir_status mir = st_p1_pending) (Inr (open_count, mc, []))
           else rassert (mir_ballot mir \<noteq> 0) (
             rbind (cvm_get_next_value (mc_cvm mc)) (\<lambda>(r, cvm).
             let mc = mc\<lparr>mc_cvm := cvm\<rparr> in
             case r of None \<Rightarrow> Inr (open_count, mc, [])
             | Some (v, n) \<Rightarrow>
               rbind (mcaster_storage_assign_value mir v n (mc_msm mc)) (\<lambda>(mir, msm).
               let mc = mc\<lparr>mc_msm := msm, p1_ready_count := p1_ready_count mc - 1\<rparr> in
               rbind (mapping_then_phase2 mc mir) (\<lambda>(mir, mc, out).
               let mc = mc\<lparr>highest_open_iid := highest_open_iid mc + 1\<rparr> in
               if open_count + 1 \<ge> max_p2_open_per_iteration (mc_cfg mc) then Inr (open_count + 1, mc, out)
               else rbind (p2_open_loop (open_count + 1) mc) (\<lambda>(n, mc, out'). Inr (n, mc, out @ out'))))))))"
  by pat_completeness auto

termination
proof (relation "measure (\<lambda>(n, mc). nat (max_p2_open_per_iteration (mc_cfg mc) - n))")
qed (auto dest!: get_mir_cfg mapping_then_phase2_cfg)

declare p2_open_loop.simps [simp del]

text \<open>The number of instances that were opened is counted in an array of 100 counters.\<close>

definition mcaster_open_new_instances_P2 :: "mcaster \<Rightarrow> mc_result" where
  "mcaster_open_new_instances_P2 mc =
     rbind (p2_open_loop 0 mc) (\<lambda>(open_count, mc, out). rguard (open_count < 100) (Inr (mc, out)))"

section \<open>Answers of the ring\<close>

definition is_own_ballot :: "mcaster \<Rightarrow> ring_ballot \<Rightarrow> bool" where
  "is_own_ballot mc b \<longleftrightarrow> is_my_ballot b (self_acceptor_id (mc_cfg mc)) (ucast (lpconfig_get_incarnation_number (mc_cfg mc)))"

definition quorum :: "mcaster \<Rightarrow> u32" where
  "quorum mc = word_of_int (quorum_size (mc_cfg mc))"

fun range_done_each :: "ring_iid list \<Rightarrow> mcaster \<Rightarrow> mcaster res" where
  "range_done_each [] mc = Inr mc"
| "range_done_each (i # is) mc =
     rbind (mcaster_storage_get (mc_msm mc) i) (\<lambda>(mir, msm).
     rassert (mir_inst mir = i \<and> mir_status mir = st_p1_pending) (
       range_done_each is (save_mir (mir\<lparr>mir_status := st_p1_done\<rparr>) (mc\<lparr>mc_msm := msm\<rparr>))))"

definition mcaster_handle_phase1_range_msg :: "phase1_range_msg \<Rightarrow> u64 \<Rightarrow> mcaster \<Rightarrow> mc_result" where
  "mcaster_handle_phase1_range_msg msg msg_size mc =
     rassert (msg_size = sizeof_phase1_range_msg) (
     if \<not> is_own_ballot mc (pr_ballot msg) then Inr (mc, [])
     else
       rassert (pr_from msg > highest_closed_iid mc) (
       if pr_promises_count msg < quorum mc
       then Inr (mc, mcaster_do_phase1_range (pr_from msg) (pr_to msg) (pr_ballot msg))
       else
         let count = ucast (pr_to msg - pr_from msg + 1);
             mc = mc\<lparr>p1_ready_count := p1_ready_count mc - count\<rparr>;
             mc = mc\<lparr>p1_ready_count := p1_ready_count mc + count\<rparr>
         in rguard (below_u32 (pr_to msg)) (
            rbind (range_done_each (mc_iids32 (pr_from msg) (pr_to msg)) mc) (\<lambda>mc. Inr (mc, [])))))"

definition mcaster_handle_phase1_msg :: "(ring_iid \<Rightarrow> command_id) \<Rightarrow> phase1_msg \<Rightarrow> u64 \<Rightarrow> mcaster \<Rightarrow> mc_result" where
  "mcaster_handle_phase1_msg junk msg msg_size mc =
     rassert (msg_size = PH1_MSG_SIZE msg) (
     if p1_inst msg \<le> highest_closed_iid mc then Inr (mc, [])
     else if \<not> is_own_ballot mc (p1_ballot msg) then Inr (mc, [])
     else rbind (get_mir (p1_inst msg) mc) (\<lambda>(mir, mc).
       if mir_status mir \<noteq> st_p1_pending then Inr (mc, [])
       else if mir_ballot mir \<noteq> p1_ballot msg then Inr (mc, [])
       else if promises_count msg < quorum mc
       then
         let mir = (if highest_promised_ballot msg \<noteq> 0
                    then mir\<lparr>mir_ballot := raise_ballot (mir_ballot mir) (highest_promised_ballot msg)\<rparr> else mir)
         in forget_mir (mcaster_do_phase1 junk mc mir)
       else
         let mc = mc\<lparr>p1_ready_count := p1_ready_count mc - 1\<rparr>;
             mc = mc\<lparr>p1_ready_count := p1_ready_count mc + 1\<rparr>;
             mir = mir\<lparr>mir_status := st_p1_done\<rparr>;
             mc = save_mir mir mc
         in if assigned_cmd_value mir = None then Inr (mc, [])
            else if highest_accepted_ballot msg = 0 then forget_mir (mcaster_do_phase2 mc mir)
            else if CMD_KEY_EQUALS (assigned_cmd_key mir) (p1_cmd_key msg) then forget_mir (mcaster_do_phase2 mc mir)
            else rbind (mcaster_storage_replace_assigned_value mir (p1_cmd_key msg) (p1_cmd_value msg) (p1_cmd_size msg)
                   (mc_cvm mc) (mc_msm mc)) (\<lambda>(mir, cvm, msm).
                 forget_mir (mcaster_do_phase2 (mc\<lparr>mc_cvm := cvm, mc_msm := msm\<rparr>) mir))))"

text \<open>The loop that advances the highest closed instance: each turn leaves a closed record behind that is
  not above it any more. The last instance number there is cannot be passed.\<close>

definition closed_above :: "mcaster \<Rightarrow> u64 set" where
  "closed_above mc = {x. mir_status (mcaster_array (mc_msm mc) x) = st_done
     \<and> mir_inst (mcaster_array (mc_msm mc) x) > highest_closed_iid mc}"

lemma get_mir_closed_above:
  assumes "get_mir i mc = Inr (mir, mc')"
  shows "closed_above mc' \<subseteq> closed_above mc \<and> highest_closed_iid mc' = highest_closed_iid mc
    \<and> mir = mcaster_array (mc_msm mc') (i mod array_size (mc_msm mc')) \<and> mir_inst mir = i"
  using assms
  by (auto simp: get_mir_def mcaster_storage_get_def res_eq_Inr closed_above_def Let_def put_mir_def split: if_splits)

definition mir_at :: "ring_iid \<Rightarrow> mcaster \<Rightarrow> mcaster_instance_record" where
  "mir_at i mc = mcaster_array (mc_msm mc) (i mod array_size (mc_msm mc))"

lemma closed_above_less:
  assumes "mir_status (mir_at i mc) = st_done" "mir_inst (mir_at i mc) = highest_closed_iid mc + 1" "highest_closed_iid mc + 1 \<noteq> 0"
    and "get_mir j (mc\<lparr>highest_closed_iid := highest_closed_iid mc + 1\<rparr>) = Inr (mir, mc')"
  shows "card (closed_above mc') < card (closed_above mc)"
proof (rule psubset_card_mono)
  let ?mc = "mc\<lparr>highest_closed_iid := highest_closed_iid mc + 1\<rparr>" and ?x = "i mod array_size (mc_msm mc)"
  have gt: "highest_closed_iid mc < highest_closed_iid mc + 1"
    using assms(3) by (rule u64_less_Suc(1))
  have "closed_above ?mc \<subseteq> closed_above mc" using gt by (auto simp: closed_above_def)
  moreover have "?x \<in> closed_above mc" using assms(1,2) gt by (simp add: closed_above_def mir_at_def)
  moreover have "?x \<notin> closed_above ?mc" using assms(2) by (simp add: closed_above_def mir_at_def)
  ultimately show "closed_above mc' \<subset> closed_above mc" using get_mir_closed_above [OF assms(4)] by blast
qed simp

text \<open>The loop has the pointer to a record of the table: the index of an instance. The numbers of the
  instances do not wrap.\<close>

function close_loop :: "ring_iid \<Rightarrow> mcaster \<Rightarrow> mcaster res" where
  "close_loop i mc =
     (if mir_status (mir_at i mc) = st_done \<and> mir_inst (mir_at i mc) = highest_closed_iid mc + 1
      then
        rguard (highest_closed_iid mc + 1 \<noteq> 0) (
        rbind (get_mir (highest_closed_iid mc + 1 + 1) (mc\<lparr>highest_closed_iid := highest_closed_iid mc + 1\<rparr>)) (\<lambda>r.
          close_loop (highest_closed_iid mc + 1 + 1) (snd r)))
      else Inr mc)"
  by pat_completeness auto

termination
  by (relation "measure (\<lambda>(i, mc). card (closed_above mc))") (auto intro: closed_above_less)

declare close_loop.simps [simp del]

definition mcaster_handle_phase2_msg :: "phase2_msg \<Rightarrow> u64 \<Rightarrow> mcaster \<Rightarrow> mc_result" where
  "mcaster_handle_phase2_msg msg msg_size mc =
     rassert (msg_size = sizeof_phase2_msg) (
     if p2_inst msg \<le> highest_closed_iid mc then Inr (mc, [])
     else rbind (get_mir (p2_inst msg) mc) (\<lambda>(mir, mc).
       if mir_status mir \<noteq> st_p2_pending then Inr (mc, [])
       else if mir_ballot mir \<noteq> p2_ballot msg then Inr (mc, [])
       else rassert (CMD_KEY_EQUALS (assigned_cmd_key mir) (p2_cmd_key msg)) (
         if accepts_count msg < quorum mc then forget_mir (mapping_then_phase2 mc mir)
         else
           let mir = mir\<lparr>mir_status := st_done\<rparr> in
           rbind (mcaster_broadcast_acceptance mir) (\<lambda>out.
           rbind (close_loop (p2_inst msg) (save_mir mir mc)) (\<lambda>mc. Inr (mc, out))))))"

section \<open>Requests of the learners and the clients\<close>

definition request_iids :: "requests_msg \<Rightarrow> ring_iid list res" where
  "request_iids msg = rguard (unat (requests_count msg) \<le> length (rq_inst_number msg))
     (Inr (take (unat (requests_count msg)) (rq_inst_number msg)))"

definition map_request_one :: "ring_iid \<Rightarrow> mcaster \<Rightarrow> mc_result" where
  "map_request_one i mc =
     rbind (get_mir i mc) (\<lambda>(mir, mc).
     if timer_is_expired (repeat_cmdmap_timeout mir) (mcaster_clock mc)
     then forget_mir (mcaster_broadcast_mapping mc mir) else Inr (mc, []))"

definition mcaster_handle_map_request :: "requests_msg \<Rightarrow> u64 \<Rightarrow> mcaster \<Rightarrow> mc_result" where
  "mcaster_handle_map_request msg msg_size mc =
     rassert (msg_size = CMDMAP_REQS_MSG_SIZE msg) (
     rbind (request_iids msg) (\<lambda>is. mc_each map_request_one is mc))"

definition chosenval_request_one :: "ring_iid \<Rightarrow> mcaster \<Rightarrow> mc_result" where
  "chosenval_request_one i mc =
     rbind (get_mir i mc) (\<lambda>(mir, mc).
     if mir_status mir = st_done then rbind (mcaster_broadcast_acceptance mir) (\<lambda>out. Inr (mc, out)) else Inr (mc, []))"

definition mcaster_handle_chosenval_request :: "requests_msg \<Rightarrow> u64 \<Rightarrow> mcaster \<Rightarrow> mc_result" where
  "mcaster_handle_chosenval_request msg msg_size mc =
     rassert (msg_size = FINVAL_REQS_MSG_SIZE msg) (
     rbind (request_iids msg) (\<lambda>is. mc_each chosenval_request_one is mc))"

text \<open>The result says whether the value was taken.\<close>

definition mcaster_handle_value_submit :: "submit_cmd_msg \<Rightarrow> u64 \<Rightarrow> mcaster \<Rightarrow> (bool \<times> mcaster) res" where
  "mcaster_handle_value_submit msg msg_size mc =
     rassert (SUBMIT_CMD_MSG_SIZE msg = msg_size) (
     rbind (cvm_save_value (sc_cmd_value msg) (sc_cmd_size msg) (mc_cvm mc)) (\<lambda>(enqueued, cvm).
       Inr (enqueued, mc\<lparr>mc_cvm := cvm\<rparr>)))"

definition client_values_mngr_handle_data :: "ring_msg \<Rightarrow> u64 \<Rightarrow> mcaster \<Rightarrow> mcaster res" where
  "client_values_mngr_handle_data m msg_size mc = (case m of
       client_submit msg \<Rightarrow> rassert (cv_initialized (mc_cvm mc)) (
         rbind (mcaster_handle_value_submit msg msg_size mc) (\<lambda>(r, mc). Inr mc))
     | _ \<Rightarrow> Inr mc)"

section \<open>Events\<close>

definition on_mcaster_periodic_check :: "(ring_iid \<Rightarrow> command_id) \<Rightarrow> timeval \<Rightarrow> timeval \<Rightarrow> timeval \<Rightarrow> mcaster \<Rightarrow> mc_result" where
  "on_mcaster_periodic_check junk now1 now2 now3 mc =
     rbind (mcaster_open_new_instances_P1 (mcaster_update_wallclock now1 mc)) (\<lambda>(mc, out1).
     rbind (mcaster_check_expired_instances junk (mcaster_update_wallclock now2 mc)) (\<lambda>(mc, out2).
     rbind (mcaster_open_new_instances_P2 (mcaster_update_wallclock now3 mc)) (\<lambda>(mc, out3).
       Inr (mc, out1 @ out2 @ out3 @ [Flush]))))"

text \<open>The branch of \<^verbatim>\<open>on_predecessor_msg\<close> for the leader.\<close>

definition mcaster_on_predecessor_msg :: "(ring_iid \<Rightarrow> command_id) \<Rightarrow> ring_msg \<Rightarrow> u64 \<Rightarrow> mcaster \<Rightarrow> mc_result" where
  "mcaster_on_predecessor_msg junk m msg_size mc = (case m of
       phase1 msg \<Rightarrow> mcaster_handle_phase1_msg junk msg msg_size mc
     | phase1_range msg \<Rightarrow> mcaster_handle_phase1_range_msg msg msg_size mc
     | phase2 msg \<Rightarrow> mcaster_handle_phase2_msg msg msg_size mc
     | map_request msg \<Rightarrow> mcaster_handle_map_request msg msg_size mc
     | chosenval_request msg \<Rightarrow> mcaster_handle_chosenval_request msg msg_size mc
     | _ \<Rightarrow> Inr (mc, []))"

text \<open>The sockets and the periodic events are set up by libevent; the result of
  \<^verbatim>\<open>client_values_mngr_init_queue\<close> is not checked.\<close>

definition multicaster_init :: "config_mngr \<Rightarrow> mcaster res" where
  "multicaster_init cfg =
     rbind (client_values_mngr_init_queue 250 client_values_mngr_UDP_init) (\<lambda>(success, cvm).
       Inr \<lparr>mc_cfg = cfg, mc_cvm = cvm, mc_msm = mcaster_storage_init cfg, mcaster_clock = Timeval 0 0,
            p1_ready_count = 0, p1_highest_open = 0, highest_closed_iid = 0, highest_open_iid = 0\<rparr>)"

end
