(* ===== verification/McasterSpec.thy ===== *)
theory McasterSpec
  imports Mcaster
begin

text \<open>
  What the multicaster sends is consistent, whatever it receives: one value for each key of an instance,
  one chosen key for each instance, and a chosen key only after a quorum accepted it. This is what its
  acceptors and learners rely on. The invariant relates the table of records to the mappings \<open>W\<close> and
  acceptances \<open>A\<close> that were sent, and to the commands \<open>B\<close> that a quorum accepted.
\<close>

section \<open>Invariant\<close>

type_synonym sent_maps = "(ring_iid \<times> command_id \<times> bytes) set"
type_synonym sent_keys = "(ring_iid \<times> command_id) set"

definition mir_ok :: "mcaster \<Rightarrow> u64 \<Rightarrow> mcaster_instance_record \<Rightarrow> bool" where
  "mir_ok mc x r \<longleftrightarrow>
     (mir_inst r = 0 \<or> mir_inst r mod array_size (mc_msm mc) = x)
     \<and> (mir_status r \<notin> {st_p2_pending, st_done} \<longrightarrow>
          assigned_cmd_value r = None \<and> assigned_cmd_size r = 0 \<and> CMD_KEY_IS_NULL (assigned_cmd_key r))
     \<and> (mir_status r \<in> {st_p1_pending, st_p1_done} \<longrightarrow> 0 < mir_inst r \<and> mir_inst r \<le> p1_highest_open mc)
     \<and> (mir_status r \<in> {st_p2_pending, st_done} \<longrightarrow>
          0 < mir_inst r \<and> mir_inst r \<le> highest_open_iid mc \<and> \<not> CMD_KEY_IS_NULL (assigned_cmd_key r)
          \<and> mcaster_id (assigned_cmd_key r) = self_acceptor_id (mc_cfg mc))"

definition window_size :: "config_mngr \<Rightarrow> nat" where
  "window_size cfg = unat (word_of_int (max_active_instances cfg) :: u32)"

definition counters_ok :: "mcaster \<Rightarrow> bool" where
  "counters_ok mc \<longleftrightarrow> highest_closed_iid mc \<le> highest_open_iid mc \<and> highest_open_iid mc \<le> p1_highest_open mc
     \<and> below_u32 (p1_highest_open mc) \<and> unat (highest_open_iid mc) - unat (highest_closed_iid mc) \<le> window_size (mc_cfg mc)
     \<and> seq_number (mc_msm mc) \<noteq> 0 \<and> seq_number (mc_msm mc) \<noteq> 0xFFFF \<and> msm_cfg (mc_msm mc) = mc_cfg mc"

definition sent_map_ok :: "mcaster_instance_record \<Rightarrow> ring_iid \<Rightarrow> command_id \<Rightarrow> bytes \<Rightarrow> bool" where
  "sent_map_ok r i k v \<longleftrightarrow> 0 < unat i \<and> unat i < 2 ^ 62 \<and> length v \<le> MAX_MESSAGE_SIZE \<and> i \<le> mir_inst r
     \<and> (if CMD_KEY_IS_NULL k then v = []
        else mir_inst r = i \<longrightarrow> assigned_cmd_key r = k \<and> assigned_bytes r = Inr v)"

definition sent_key_ok :: "mcaster_instance_record \<Rightarrow> ring_iid \<Rightarrow> command_id \<Rightarrow> bool" where
  "sent_key_ok r i k \<longleftrightarrow> 0 < i \<and> i \<le> mir_inst r
     \<and> (mir_inst r = i \<longrightarrow> mir_status r = st_done \<and> assigned_cmd_key r = k)"

definition mc_inv :: "config_mngr \<Rightarrow> sent_maps \<Rightarrow> sent_keys \<Rightarrow> sent_keys \<Rightarrow> mcaster \<Rightarrow> bool" where
  "mc_inv cfg W A B mc \<longleftrightarrow> mc_cfg mc = cfg \<and> counters_ok mc
     \<and> (\<forall>x. mir_ok mc x (mcaster_array (mc_msm mc) x))
     \<and> (\<forall>x. mir_status (mcaster_array (mc_msm mc) x) = st_done \<longrightarrow>
          (mir_inst (mcaster_array (mc_msm mc) x), assigned_cmd_key (mcaster_array (mc_msm mc) x)) \<in> B)
     \<and> (\<forall>i k v. (i, k, v) \<in> W \<longrightarrow> sent_map_ok (mir_at i mc) i k v) \<and> (\<forall>i k. (i, k) \<in> A \<longrightarrow> sent_key_ok (mir_at i mc) i k)
     \<and> (\<forall>i k v w. (i, k, v) \<in> W \<longrightarrow> (i, k, w) \<in> W \<longrightarrow> v = w) \<and> (\<forall>i k l. (i, k) \<in> A \<longrightarrow> (i, l) \<in> A \<longrightarrow> k = l)
     \<and> A \<subseteq> B \<and> (\<forall>i k v. (i, k, v) \<in> W \<longrightarrow> \<not> CMD_KEY_IS_NULL k \<longrightarrow> mcaster_id k = self_acceptor_id cfg)"

lemma mc_invD:
  assumes "mc_inv cfg W A B mc"
  shows "mc_cfg mc = cfg" "counters_ok mc" "mir_ok mc x (mcaster_array (mc_msm mc) x)"
    "mir_status (mcaster_array (mc_msm mc) x) = st_done \<Longrightarrow>
       (mir_inst (mcaster_array (mc_msm mc) x), assigned_cmd_key (mcaster_array (mc_msm mc) x)) \<in> B"
    "(i, k, v) \<in> W \<Longrightarrow> sent_map_ok (mir_at i mc) i k v" "(i, k) \<in> A \<Longrightarrow> sent_key_ok (mir_at i mc) i k"
    "(i, k, v) \<in> W \<Longrightarrow> (i, k, w) \<in> W \<Longrightarrow> v = w" "(i, k) \<in> A \<Longrightarrow> (i, l) \<in> A \<Longrightarrow> k = l" "A \<subseteq> B"
    "(i, k, v) \<in> W \<Longrightarrow> \<not> CMD_KEY_IS_NULL k \<Longrightarrow> mcaster_id k = self_acceptor_id cfg"
  using assms unfolding mc_inv_def by blast+

text \<open>Changing other fields keeps the invariant, and so does raising the bounds.\<close>

lemma mir_at_update [simp]:
  "mir_at i (mc\<lparr>mc_cvm := c\<rparr>) = mir_at i mc" "mir_at i (mc\<lparr>mcaster_clock := t\<rparr>) = mir_at i mc"
  "mir_at i (mc\<lparr>p1_ready_count := n\<rparr>) = mir_at i mc" "mir_at i (mc\<lparr>p1_highest_open := j\<rparr>) = mir_at i mc"
  "mir_at i (mc\<lparr>highest_closed_iid := j\<rparr>) = mir_at i mc" "mir_at i (mc\<lparr>highest_open_iid := j\<rparr>) = mir_at i mc"
  by (simp_all add: mir_at_def)

lemma inv_update [simp]:
  "mc_inv cfg W A B (mc\<lparr>mc_cvm := c\<rparr>) = mc_inv cfg W A B mc"
  "mc_inv cfg W A B (mc\<lparr>mcaster_clock := t\<rparr>) = mc_inv cfg W A B mc"
  "mc_inv cfg W A B (mc\<lparr>p1_ready_count := n\<rparr>) = mc_inv cfg W A B mc"
  by (simp_all add: mc_inv_def mir_ok_def counters_ok_def)

lemma inv_raise:
  assumes "mc_inv cfg W A B mc" "p1_highest_open mc \<le> h" "highest_open_iid mc \<le> j"
    and "counters_ok (mc\<lparr>p1_highest_open := h, highest_open_iid := j, highest_closed_iid := c\<rparr>)"
  shows "mc_inv cfg W A B (mc\<lparr>p1_highest_open := h, highest_open_iid := j, highest_closed_iid := c\<rparr>)"
proof -
  have "mir_ok (mc\<lparr>p1_highest_open := h, highest_open_iid := j, highest_closed_iid := c\<rparr>) x r" if "mir_ok mc x r" for x r
    using that assms(2,3) by (auto simp: mir_ok_def intro: order_trans)
  then show ?thesis using assms unfolding mc_inv_def by simp
qed

lemma put_mir_simps [simp]:
  "array_size (put_mir r msm) = array_size msm" "msm_initialized (put_mir r msm) = msm_initialized msm"
  "seq_number (put_mir r msm) = seq_number msm" "msm_cfg (put_mir r msm) = msm_cfg msm"
  "mcaster_array (put_mir r msm) = (mcaster_array msm)(mir_inst r mod array_size msm := r)"
  by (simp_all add: put_mir_def)

lemma put_mir_twice: "mir_inst r = mir_inst r' \<Longrightarrow> put_mir r' (put_mir r msm) = put_mir r' msm"
  by (simp add: put_mir_def)

text \<open>Replacing the record of an instance: it stays with its instance or moves on to a later one; what was
  chosen stays chosen, what is assigned stays assigned.\<close>

definition mir_step :: "mcaster_instance_record \<Rightarrow> mcaster_instance_record \<Rightarrow> bool" where
  "mir_step r r' \<longleftrightarrow> mir_inst r \<le> mir_inst r' \<and>
     (mir_inst r' = mir_inst r \<longrightarrow> (mir_status r = st_done \<longrightarrow> mir_status r' = st_done \<and> assigned_cmd_key r' = assigned_cmd_key r)
        \<and> (\<not> CMD_KEY_IS_NULL (assigned_cmd_key r) \<longrightarrow> assigned_cmd_key r' = assigned_cmd_key r
             \<and> assigned_cmd_value r' = assigned_cmd_value r \<and> assigned_cmd_size r' = assigned_cmd_size r))"

lemma sent_ok_step:
  assumes "mir_step r r'"
  shows "sent_map_ok r i k v \<Longrightarrow> sent_map_ok r' i k v" "sent_key_ok r i k \<Longrightarrow> sent_key_ok r' i k"
proof -
  have le: "mir_inst r \<le> mir_inst r'" using assms by (simp add: mir_step_def)
  show "sent_map_ok r' i k v" if s: "sent_map_ok r i k v"
  proof (cases "mir_inst r' = i")
    case True
    then have "mir_inst r = i" using s le by (auto simp: sent_map_ok_def)
    moreover have "assigned_cmd_key r' = assigned_cmd_key r \<and> assigned_bytes r' = assigned_bytes r"
      if "\<not> CMD_KEY_IS_NULL (assigned_cmd_key r)" "mir_inst r' = mir_inst r"
      using assms that by (cases "assigned_cmd_value r") (simp_all add: mir_step_def assigned_bytes_def)
    ultimately show ?thesis using s True by (auto simp: sent_map_ok_def split: if_splits)
  next
    case False
    then show ?thesis using s le by (auto simp: sent_map_ok_def)
  qed
  show "sent_key_ok r' i k" if s: "sent_key_ok r i k"
  proof (cases "mir_inst r' = i")
    case True
    then have "mir_inst r = i" using s le by (auto simp: sent_key_ok_def)
    then show ?thesis using s assms True by (auto simp: sent_key_ok_def mir_step_def)
  next
    case False
    then show ?thesis using s le by (auto simp: sent_key_ok_def)
  qed
qed

lemma put_inv:
  assumes inv: "mc_inv cfg W A B mc" and step: "mir_step (mir_at (mir_inst r) mc) r"
    and r: "mir_ok mc (mir_inst r mod array_size (mc_msm mc)) r"
    and B: "mir_status r = st_done \<Longrightarrow> (mir_inst r, assigned_cmd_key r) \<in> B"
  shows "mc_inv cfg W A B (save_mir r mc)"
proof -
  let ?mc = "save_mir r mc"
  have at: "mir_at i ?mc = (if i mod array_size (mc_msm mc) = mir_inst r mod array_size (mc_msm mc) then r else mir_at i mc)" for i
    by (simp add: mir_at_def)
  have keeps: "P (mir_at i ?mc)" if "P (mir_at i mc)" "P (mir_at (mir_inst r) mc) \<Longrightarrow> P r" for P i
    using that by (cases "i mod array_size (mc_msm mc) = mir_inst r mod array_size (mc_msm mc)") (auto simp: at mir_at_def)
  have ok: "mir_ok ?mc y q = mir_ok mc y q" for y q by (simp add: mir_ok_def)
  have W: "sent_map_ok (mir_at i ?mc) i k v" if "(i, k, v) \<in> W" for i k v
    by (rule keeps [OF mc_invD(5) [OF inv that] sent_ok_step(1) [OF step]])
  have A: "sent_key_ok (mir_at i ?mc) i k" if "(i, k) \<in> A" for i k
    by (rule keeps [OF mc_invD(6) [OF inv that] sent_ok_step(2) [OF step]])
  have c: "counters_ok ?mc" using mc_invD(2) [OF inv] by (simp add: counters_ok_def)
  have m: "\<forall>x. mir_ok ?mc x (mcaster_array (mc_msm ?mc) x)" using mc_invD(3) [OF inv] r by (simp add: ok)
  have b: "\<forall>x. mir_status (mcaster_array (mc_msm ?mc) x) = st_done \<longrightarrow>
      (mir_inst (mcaster_array (mc_msm ?mc) x), assigned_cmd_key (mcaster_array (mc_msm ?mc) x)) \<in> B"
    using mc_invD(4) [OF inv] B by simp
  show ?thesis unfolding mc_inv_def
    using mc_invD(1) [OF inv] c m b W A mc_invD(7-10) [OF inv] by simp
qed


text \<open>Getting a record, by the invariant.\<close>

lemma storage_get_inv:
  assumes inv: "mc_inv cfg W A B mc" and get: "mcaster_storage_get (mc_msm mc) i = Inr (r, msm)"
  shows "mc_inv cfg W A B (mc\<lparr>mc_msm := msm\<rparr>)" "r = mir_at i (mc\<lparr>mc_msm := msm\<rparr>)" "mir_inst r = i"
    "array_size msm = array_size (mc_msm mc)" "seq_number msm = seq_number (mc_msm mc)"
    "msm_initialized msm" "array_size msm \<noteq> 0"
proof -
  let ?q = "mir_at i mc"
  have q: "mir_ok mc (i mod array_size (mc_msm mc)) ?q" using mc_invD(3) [OF inv] by (simp add: mir_at_def)
  have new: "mc_inv cfg W A B (save_mir r mc)"
    if "mir_inst r = i" "mir_status r = st_ready" "assigned_cmd_value r = None" "assigned_cmd_size r = 0"
      "CMD_KEY_IS_NULL (assigned_cmd_key r)" "mir_inst ?q = 0 \<or> mir_inst ?q < i"
  proof (rule put_inv [OF inv])
    have "mir_inst ?q = 0 \<Longrightarrow> mir_status ?q \<notin> {st_p2_pending, st_done}" using q by (auto simp: mir_ok_def)
    then show "mir_step (mir_at (mir_inst r) mc) r" using that q by (auto simp: mir_step_def mir_ok_def)
  qed (use that in \<open>simp_all add: mir_ok_def\<close>)
  have null: "mir_inst ?q = 0 \<Longrightarrow> assigned_cmd_value ?q = None \<and> assigned_cmd_size ?q = 0 \<and> CMD_KEY_IS_NULL (assigned_cmd_key ?q)"
    using q by (auto simp: mir_ok_def)
  have arr: "mcaster_array (mc_msm mc) (i mod array_size (mc_msm mc)) = ?q" by (simp add: mir_at_def)
  have init: "msm_initialized (mc_msm mc) \<and> array_size (mc_msm mc) \<noteq> 0"
    using get by (auto simp: mcaster_storage_get_def res_eq_Inr)
  have "mir_inst ?q = 0 \<or> \<not> i < mir_inst ?q"
    using get by (auto simp: mcaster_storage_get_def res_eq_Inr arr Let_def split: if_splits)
  then consider "mir_inst ?q = 0 \<or> mir_inst ?q < i" | "mir_inst ?q = i" "mir_inst ?q \<noteq> 0"
    by (cases "mir_inst ?q = 0"; cases "mir_inst ?q = i") (auto simp: not_less order_le_less)
  then have "mc_inv cfg W A B (mc\<lparr>mc_msm := msm\<rparr>) \<and> r = mir_at i (mc\<lparr>mc_msm := msm\<rparr>) \<and> mir_inst r = i
    \<and> array_size msm = array_size (mc_msm mc) \<and> seq_number msm = seq_number (mc_msm mc) \<and> msm_initialized msm \<and> array_size msm \<noteq> 0"
  proof cases
    case 1
    have g: "mir_inst r = i \<and> mir_status r = st_ready \<and> assigned_cmd_value r = None \<and> assigned_cmd_size r = 0
        \<and> CMD_KEY_IS_NULL (assigned_cmd_key r) \<and> msm = put_mir r (mc_msm mc)"
    proof (cases "mir_inst ?q = 0")
      case True
      then show ?thesis using get null by (auto simp: mcaster_storage_get_def res_eq_Inr arr Let_def)
    next
      case False
      then show ?thesis using get 1
        by (auto simp: mcaster_storage_get_def res_eq_Inr arr Let_def mcaster_storage_clear_record_def)
    qed
    have "mc_inv cfg W A B (save_mir r mc)" by (rule new) (use g 1 in simp_all)
    then show ?thesis using g init by (simp add: save_mir_def mir_at_def)
  next
    case 2
    then have "r = ?q \<and> msm = mc_msm mc"
      using get by (simp add: mcaster_storage_get_def res_eq_Inr arr Let_def)
    then show ?thesis using inv init 2 by simp
  qed
  then show "mc_inv cfg W A B (mc\<lparr>mc_msm := msm\<rparr>)" "r = mir_at i (mc\<lparr>mc_msm := msm\<rparr>)" "mir_inst r = i"
    "array_size msm = array_size (mc_msm mc)" "seq_number msm = seq_number (mc_msm mc)"
    "msm_initialized msm" "array_size msm \<noteq> 0" by blast+
qed

lemma get_mir_inv:
  assumes "mc_inv cfg W A B mc" "get_mir i mc = Inr (r, mc')"
  shows "mc_inv cfg W A B mc'" "r = mir_at i mc'" "mir_inst r = i" "\<exists>msm. mc' = mc\<lparr>mc_msm := msm\<rparr>"
proof -
  obtain msm where g: "mcaster_storage_get (mc_msm mc) i = Inr (r, msm)" "mc' = mc\<lparr>mc_msm := msm\<rparr>"
    using assms(2) by (auto simp: get_mir_def res_eq_Inr)
  note s = storage_get_inv [OF assms(1) g(1)]
  show "mc_inv cfg W A B mc'" "r = mir_at i mc'" "mir_inst r = i" "\<exists>msm. mc' = mc\<lparr>mc_msm := msm\<rparr>"
    unfolding g(2) by (rule s(1), rule s(2), rule s(3), blast)
qed

text \<open>What is sent for the record of an instance.\<close>

definition maps_of :: "mc_out list \<Rightarrow> sent_maps" where
  "maps_of out = {(cm_inst m, cm_cmd_key m, cm_cmd_value m) |m. ToMulticast (command_map m) \<in> set out}"

definition keys_of :: "mc_out list \<Rightarrow> sent_keys" where
  "keys_of out = {(am_inst m, am_cmd_key m) |m. ToMulticast (acceptance m) \<in> set out}"

lemma sent_simps [simp]:
  "maps_of [] = {}" "keys_of [] = {}" "maps_of (out @ out') = maps_of out \<union> maps_of out'"
  "keys_of (out @ out') = keys_of out \<union> keys_of out'"
  "maps_of (ToSuccessor m # out) = maps_of out" "keys_of (ToSuccessor m # out) = keys_of out"
  "maps_of (Flush # out) = maps_of out" "keys_of (Flush # out) = keys_of out"
  "maps_of (ToMulticast (phase2 p) # out) = maps_of out" "keys_of (ToMulticast (phase2 p) # out) = keys_of out"
  "maps_of (ToMulticast (command_map c) # out) = insert (cm_inst c, cm_cmd_key c, cm_cmd_value c) (maps_of out)"
  "keys_of (ToMulticast (command_map c) # out) = keys_of out"
  "maps_of (ToMulticast (acceptance a) # out) = maps_of out"
  "keys_of (ToMulticast (acceptance a) # out) = insert (am_inst a, am_cmd_key a) (keys_of out)"
  by (auto simp: maps_of_def keys_of_def)

lemma emit_map:
  assumes inv: "mc_inv cfg W A B mc" and r: "r = mir_at (mir_inst r) mc" "0 < unat (mir_inst r)" "unat (mir_inst r) < 2 ^ 62"
    and v: "assigned_bytes r = Inr v" "length v \<le> MAX_MESSAGE_SIZE"
  shows "mc_inv cfg (insert (mir_inst r, assigned_cmd_key r, v) W) A B mc"
proof -
  have "mir_ok mc (mir_inst r mod array_size (mc_msm mc)) r"
    using mc_invD(3) [OF inv, of "mir_inst r mod array_size (mc_msm mc)"] r(1) by (simp add: mir_at_def)
  then have null: "CMD_KEY_IS_NULL (assigned_cmd_key r) \<Longrightarrow> v = []"
    and own: "\<not> CMD_KEY_IS_NULL (assigned_cmd_key r) \<Longrightarrow> mcaster_id (assigned_cmd_key r) = self_acceptor_id cfg"
    using v(1) mc_invD(1) [OF inv] by (auto simp: mir_ok_def assigned_bytes_def)
  have "sent_map_ok (mir_at (mir_inst r) mc) (mir_inst r) (assigned_cmd_key r) v"
    using v r null by (auto simp: sent_map_ok_def)
  moreover have "w = v" if "(mir_inst r, assigned_cmd_key r, w) \<in> W" for w
    using mc_invD(5) [OF inv that] r(1) v(1) null by (auto simp: sent_map_ok_def split: if_splits)
  ultimately show ?thesis using inv own unfolding mc_inv_def by auto
qed

lemma emit_key:
  assumes inv: "mc_inv cfg W A B mc" and r: "r = mir_at (mir_inst r) mc" "mir_status r = st_done"
  shows "mc_inv cfg W (insert (mir_inst r, assigned_cmd_key r) A) B mc"
proof -
  let ?x = "mir_inst r mod array_size (mc_msm mc)"
  have at: "mcaster_array (mc_msm mc) ?x = r" using r(1) by (simp add: mir_at_def)
  have "0 < mir_inst r" "(mir_inst r, assigned_cmd_key r) \<in> B"
    using mc_invD(3,4) [OF inv, of ?x] r(2) unfolding at by (auto simp: mir_ok_def)
  moreover have "k = assigned_cmd_key r" if "(mir_inst r, k) \<in> A" for k
    using mc_invD(6) [OF inv that] r(1) by (auto simp: sent_key_ok_def)
  ultimately show ?thesis using inv r unfolding mc_inv_def by (auto simp: sent_key_ok_def)
qed

section \<open>Handlers\<close>

text \<open>Saving a record with another status, timeout or ballot.\<close>

lemma stored_ok:
  assumes "mc_inv cfg W A B mc"
  shows "mir_ok mc (i mod array_size (mc_msm mc)) (mir_at i mc)"
  using mc_invD(3) [OF assms] by (simp add: mir_at_def)

lemma resave:
  assumes inv: "mc_inv cfg W A B mc" and q: "mir_at (mir_inst r) mc = q"
    and same: "mir_inst q = mir_inst r" "assigned_cmd_key r = assigned_cmd_key q" "assigned_cmd_value r = assigned_cmd_value q"
      "assigned_cmd_size r = assigned_cmd_size q"
    and st: "mir_status q \<in> {st_p2_pending, st_done} \<longleftrightarrow> mir_status r \<in> {st_p2_pending, st_done}"
      "mir_status q = st_done \<Longrightarrow> mir_status r = st_done"
      "mir_status r = st_done \<Longrightarrow> (mir_inst r, assigned_cmd_key r) \<in> B"
      "mir_status r \<in> {st_p1_pending, st_p1_done} \<Longrightarrow> 0 < mir_inst r \<and> mir_inst r \<le> p1_highest_open mc"
  shows "mc_inv cfg W A B (save_mir r mc)" "mir_at (mir_inst r) (save_mir r mc) = r"
proof -
  have ok: "mir_ok mc (mir_inst r mod array_size (mc_msm mc)) q" using stored_ok [OF inv, of "mir_inst r"] q by simp
  show "mc_inv cfg W A B (save_mir r mc)"
  proof (rule put_inv [OF inv])
    show "mir_step (mir_at (mir_inst r) mc) r" unfolding q using same st(2) by (simp add: mir_step_def)
    show "mir_ok mc (mir_inst r mod array_size (mc_msm mc)) r" using ok same st(1,4) unfolding mir_ok_def by auto
  qed (use st in simp)
  show "mir_at (mir_inst r) (save_mir r mc) = r" by (simp add: mir_at_def)
qed

lemma open_bounds:
  assumes inv: "mc_inv cfg W A B mc" and r: "mir_status (mir_at i mc) \<in> {st_p2_pending, st_done}" "mir_inst (mir_at i mc) = i"
  shows "0 < unat i" "unat i < 2 ^ 62" "i \<le> highest_open_iid mc"
proof -
  have ok: "0 < i" "i \<le> highest_open_iid mc" using stored_ok [OF inv, of i] r by (auto simp: mir_ok_def)
  show "0 < unat i" using ok(1) by (simp add: word_less_nat_alt)
  show "i \<le> highest_open_iid mc" by (rule ok(2))
  have "unat i \<le> unat (highest_open_iid mc)" "unat (highest_open_iid mc) \<le> unat (p1_highest_open mc)"
    "unat (p1_highest_open mc) < 2 ^ 32 - 1"
    using ok(2) mc_invD(2) [OF inv] by (auto simp: counters_ok_def below_u32_def word_le_nat_alt)
  then show "unat i < 2 ^ 62" by simp
qed

lemma do_phase1_inv:
  assumes inv: "mc_inv cfg W A B mc" and q: "mir_at (mir_inst r) mc = q" "mir_status q = st_p1_pending"
    and same: "mir_inst q = mir_inst r" "assigned_cmd_key r = assigned_cmd_key q" "assigned_cmd_value r = assigned_cmd_value q"
      "assigned_cmd_size r = assigned_cmd_size q"
    and run: "mcaster_do_phase1 junk mc r = Inr (r', mc', out)"
  shows "mc_inv cfg W A B mc'" "maps_of out = {}" "keys_of out = {}"
proof -
  have p1: "0 < mir_inst q \<and> mir_inst q \<le> p1_highest_open mc"
    using stored_ok [OF inv, of "mir_inst r"] q by (auto simp: mir_ok_def)
  have eq: "mc' = save_mir (r\<lparr>mir_timeout := timer_set_timeout (mcaster_clock mc) (p1_interval (mc_cfg mc)), mir_status := st_p1_pending\<rparr>) mc"
    and out: "\<exists>m. out = [ToSuccessor m]"
    using run by (auto simp: mcaster_do_phase1_def res_eq_Inr Let_def)
  show "mc_inv cfg W A B mc'" unfolding eq by (rule resave(1) [OF inv, where q = q]) (use q same p1 in simp_all)
  show "maps_of out = {}" "keys_of out = {}" using out by auto
qed

lemma broadcast_mapping_eq:
  assumes "mcaster_broadcast_mapping mc r = Inr (r', mc', out)"
  shows "\<exists>v. assigned_bytes r = Inr v \<and> length v \<le> MAX_MESSAGE_SIZE
    \<and> (\<exists>u. r' = r\<lparr>repeat_cmdmap_timeout := u\<rparr>) \<and> mc' = save_mir r' mc
    \<and> out = [ToMulticast (command_map \<lparr>cm_inst = mir_inst r, cm_cmd_key = assigned_cmd_key r, cm_cmd_size = assigned_cmd_size r,
         cm_cmd_value = v\<rparr>)]"
  using assms by (force simp: mcaster_broadcast_mapping_def res_eq_Inr Let_def)

lemma mapping_then_phase2_eq:
  assumes "mapping_then_phase2 mc r = Inr (r', mc', out)"
  shows "\<exists>v m. assigned_bytes r = Inr v \<and> length v \<le> MAX_MESSAGE_SIZE
    \<and> (\<exists>t u. r' = r\<lparr>mir_status := st_p2_pending, mir_timeout := t, repeat_cmdmap_timeout := u\<rparr>) \<and> mc' = save_mir r' mc
    \<and> out = [ToMulticast (command_map \<lparr>cm_inst = mir_inst r, cm_cmd_key = assigned_cmd_key r, cm_cmd_size = assigned_cmd_size r,
         cm_cmd_value = v\<rparr>), ToMulticast (phase2 m)]"
proof -
  obtain r1 mc1 o1 o2 where 1: "mcaster_broadcast_mapping mc r = Inr (r1, mc1, o1)" "mcaster_do_phase2 mc1 r1 = Inr (r', mc', o2)"
      "out = o1 @ o2"
    using assms by (auto simp: mapping_then_phase2_def res_eq_Inr)
  obtain v u where v: "assigned_bytes r = Inr v" "length v \<le> MAX_MESSAGE_SIZE" "r1 = r\<lparr>repeat_cmdmap_timeout := u\<rparr>"
      "mc1 = save_mir r1 mc"
      "o1 = [ToMulticast (command_map \<lparr>cm_inst = mir_inst r, cm_cmd_key = assigned_cmd_key r, cm_cmd_size = assigned_cmd_size r,
         cm_cmd_value = v\<rparr>)]"
    using broadcast_mapping_eq [OF 1(1)] by blast
  obtain t m where t: "r' = r1\<lparr>mir_status := st_p2_pending, mir_timeout := t\<rparr>" "mc' = save_mir r' mc1" "o2 = [ToMulticast (phase2 m)]"
    using 1(2) by (auto simp: mcaster_do_phase2_def Let_def)
  have "mc' = save_mir r' mc" unfolding t(2) v(4) using t(1) by (simp add: save_mir_def put_mir_twice)
  moreover have "r' = r\<lparr>mir_status := st_p2_pending, mir_timeout := t, repeat_cmdmap_timeout := u\<rparr>"
    unfolding t(1) v(3) by simp
  ultimately show ?thesis using v(1,2,5) t(3) 1(3) by auto
qed

lemma assigned_bytes_update [simp]:
  "assigned_bytes (r\<lparr>mir_status := s\<rparr>) = assigned_bytes r" "assigned_bytes (r\<lparr>mir_timeout := t\<rparr>) = assigned_bytes r"
  "assigned_bytes (r\<lparr>repeat_cmdmap_timeout := t\<rparr>) = assigned_bytes r"
  by (simp_all add: assigned_bytes_def cong: option.case_cong)

lemma resend_inv:
  assumes inv: "mc_inv cfg W A B mc" and r: "r = mir_at (mir_inst r) mc" "mir_status r = st_p2_pending"
    and run: "mapping_then_phase2 mc r = Inr (r', mc', out)"
  shows "mc_inv cfg (W \<union> maps_of out) (A \<union> keys_of out) B mc'"
proof -
  obtain v m t u where e: "assigned_bytes r = Inr v" "length v \<le> MAX_MESSAGE_SIZE"
      "r' = r\<lparr>mir_status := st_p2_pending, mir_timeout := t, repeat_cmdmap_timeout := u\<rparr>" "mc' = save_mir r' mc"
      "out = [ToMulticast (command_map \<lparr>cm_inst = mir_inst r, cm_cmd_key = assigned_cmd_key r, cm_cmd_size = assigned_cmd_size r,
         cm_cmd_value = v\<rparr>), ToMulticast (phase2 m)]"
    using mapping_then_phase2_eq [OF run] by blast
  have same: "mir_inst r' = mir_inst r" "assigned_cmd_key r' = assigned_cmd_key r" "assigned_bytes r' = Inr v"
    using e(1) unfolding e(3) by simp_all
  have inv': "mc_inv cfg W A B mc'" "mir_at (mir_inst r') mc' = r'"
    unfolding e(4) by (rule resave [OF inv, where q = r]; use r e(3) in simp)+
  have b: "0 < unat (mir_inst r)" "unat (mir_inst r) < 2 ^ 62"
    by (rule open_bounds [OF inv]; use r in simp)+
  have "mc_inv cfg (insert (mir_inst r', assigned_cmd_key r', v) W) A B mc'"
    by (rule emit_map [OF inv'(1)]) (use inv'(2) same b e(2) in simp_all)
  then show ?thesis using e(5) same by simp
qed

text \<open>The periodic checks.\<close>

lemma mc_each_inv:
  assumes step: "\<And>x W A mc mc' out. x \<in> set xs \<Longrightarrow> mc_inv cfg W A B mc \<Longrightarrow> f x mc = Inr (mc', out)
      \<Longrightarrow> mc_inv cfg (W \<union> maps_of out) (A \<union> keys_of out) B mc'"
    and "mc_inv cfg W A B mc" "mc_each f xs mc = Inr (mc', out)"
  shows "mc_inv cfg (W \<union> maps_of out) (A \<union> keys_of out) B mc'"
  using assms
proof (induction xs arbitrary: W A mc out)
  case (Cons x xs)
  obtain mc1 o1 o2 where r: "f x mc = Inr (mc1, o1)" "mc_each f xs mc1 = Inr (mc', o2)" "out = o1 @ o2"
    using Cons.prems(3) by (auto simp: res_eq_Inr)
  have 1: "mc_inv cfg (W \<union> maps_of o1) (A \<union> keys_of o1) B mc1"
    by (rule Cons.prems(1) [OF _ Cons.prems(2) r(1)]) simp
  have "mc_inv cfg ((W \<union> maps_of o1) \<union> maps_of o2) ((A \<union> keys_of o1) \<union> keys_of o2) B mc'"
  proof (rule Cons.IH [OF _ 1 r(2)])
    fix y W A mc mc' out
    assume "y \<in> set xs" "mc_inv cfg W A B mc" "f y mc = Inr (mc', out)"
    then show "mc_inv cfg (W \<union> maps_of out) (A \<union> keys_of out) B mc'" by (intro Cons.prems(1)) simp_all
  qed
  then show ?case using r(3) by (simp add: Un_assoc)
qed simp

lemma check_expired_inv:
  assumes inv: "mc_inv cfg W A B mc" and run: "check_expired_one junk i mc = Inr (mc', out)"
  shows "mc_inv cfg (W \<union> maps_of out) (A \<union> keys_of out) B mc'"
proof -
  obtain r mc1 where g: "get_mir i mc = Inr (r, mc1)"
    using run by (auto simp: check_expired_one_def res_eq_Inr)
  note i = get_mir_inv [OF inv g]
  have r: "mir_at (mir_inst r) mc1 = r" using i(2,3) by simp
  consider "mc' = mc1" "out = []"
    | r' where "mir_status r = st_p1_pending" "mcaster_do_phase1 junk mc1 r = Inr (r', mc', out)"
    | r' where "mir_status r = st_p2_pending" "mapping_then_phase2 mc1 r = Inr (r', mc', out)"
    using run by (cases "mir_status r") (auto simp: check_expired_one_def g forget_mir_def res_eq_Inr split: if_splits)
  then show ?thesis
  proof cases
    case 1
    then show ?thesis using i(1) by simp
  next
    case 2
    show ?thesis using do_phase1_inv [OF i(1) r 2(1) refl refl refl refl 2(2)] by simp
  next
    case 3
    show ?thesis by (rule resend_inv [OF i(1) r [symmetric] 3])
  qed
qed

lemma check_all_inv:
  assumes "mc_inv cfg W A B mc" "mcaster_check_expired_instances junk mc = Inr (mc', out)"
  shows "mc_inv cfg (W \<union> maps_of out) (A \<union> keys_of out) B mc'"
proof -
  obtain "is" where r: "mc_each (check_expired_one junk) is mc = Inr (mc', out)"
    using assms(2) by (auto simp: mcaster_check_expired_instances_def res_eq_Inr Let_def)
  show ?thesis by (rule mc_each_inv [OF _ assms(1) r]) (rule check_expired_inv)
qed

lemma p1_open_each_inv:
  assumes "mc_inv cfg W A B (mc\<lparr>p1_highest_open := h\<rparr>)" "\<forall>i \<in> set is. 0 < i \<and> i \<le> h" "p1_open_each b is mc = Inr mc'"
  shows "mc_inv cfg W A B (mc'\<lparr>p1_highest_open := h\<rparr>) \<and> p1_highest_open mc' = p1_highest_open mc"
  using assms
proof (induction "is" arbitrary: mc)
  case (Cons i "is")
  obtain r msm where g: "mcaster_storage_get (mc_msm mc) i = Inr (r, msm)" "mir_status r = st_ready"
    and rest: "p1_open_each b is (save_mir (r\<lparr>mir_status := st_p1_pending, mir_ballot := b,
           mir_timeout := timer_set_timeout (mcaster_clock mc) (p1_interval (mc_cfg mc))\<rparr>) (mc\<lparr>mc_msm := msm\<rparr>)) = Inr mc'"
    using Cons.prems(3) by (auto simp: res_eq_Inr Let_def)
  let ?mc = "mc\<lparr>p1_highest_open := h, mc_msm := msm\<rparr>"
    and ?r = "r\<lparr>mir_status := st_p1_pending, mir_ballot := b, mir_timeout := timer_set_timeout (mcaster_clock mc) (p1_interval (mc_cfg mc))\<rparr>"
  have i: "mc_inv cfg W A B ?mc" "r = mir_at i ?mc" "mir_inst r = i"
    using storage_get_inv(1-3) [OF Cons.prems(1), of i r msm] g(1) by simp_all
  have "mc_inv cfg W A B (save_mir ?r ?mc)"
    by (rule resave(1) [OF i(1), where q = r]) (use i(2,3) g(2) Cons.prems(2) in simp_all)
  moreover have "save_mir ?r ?mc = (save_mir ?r (mc\<lparr>mc_msm := msm\<rparr>))\<lparr>p1_highest_open := h\<rparr>"
    by (simp add: save_mir_def)
  ultimately show ?case using Cons.IH [OF _ _ rest] Cons.prems(2) by simp
qed simp

lemma unat_ucast_u64: "unat (ucast (w :: u32) :: u64) = unat w"
  using unat_u32_less [of w] by (simp add: unsigned_ucast_eq take_bit_eq_mod)

lemma mc_iids32_bounds:
  assumes "below_u32 h" "from = p + 1" "below_u32 p"
  shows "\<forall>i \<in> set (mc_iids32 from h). 0 < i \<and> i \<le> h"
proof
  have "unat (p + 1) = Suc (unat p)" using assms(3) by (simp add: unat_word_ariths below_u32_def)
  then have start: "unat (ucast from :: u32) = Suc (unat p)"
    using assms(2,3) by (simp add: below_u32_def unsigned_ucast_eq take_bit_eq_mod)
  fix i assume "i \<in> set (mc_iids32 from h)"
  then obtain n where "i = word_of_nat n" "Suc (unat p) \<le> n" "n \<le> unat h" unfolding mc_iids32_def start by auto
  moreover have "unat (word_of_nat n :: u64) = n" if "n \<le> unat h" for n
    using that assms(1) by (simp add: below_u32_def unsigned_of_nat take_bit_nat_eq_self)
  ultimately show "0 < i \<and> i \<le> h" by (simp add: word_less_nat_alt word_le_nat_alt)
qed

lemma open_P1_inv:
  assumes inv: "mc_inv cfg W A B mc" and run: "mcaster_open_new_instances_P1 mc = Inr (mc', out)"
  shows "mc_inv cfg (W \<union> maps_of out) (A \<union> keys_of out) B mc'"
proof -
  let ?n = "(word_of_int (preexecution_window_size (mc_cfg mc)) :: u32) - (p1_ready_count mc + p1_ready_count mc)"
  let ?h = "p1_highest_open mc + ucast ?n" and ?from = "p1_highest_open mc + 1"
    and ?b = "make_first_ballot (self_acceptor_id (mc_cfg mc)) (ucast (lpconfig_get_incarnation_number (mc_cfg mc)))"
  consider "mc' = mc" "out = []"
    | mc1 where "below_u32 ?h" "p1_open_each ?b (mc_iids32 ?from ?h) mc = Inr mc1"
      "mc' = mc1\<lparr>p1_highest_open := p1_highest_open mc1 + ucast ?n, p1_ready_count := p1_ready_count mc1 + ?n\<rparr>"
      "out = mcaster_do_phase1_range ?from ?h ?b"
  proof (cases "p1_ready_count mc + p1_ready_count mc \<ge> (word_of_int (preexecution_window_size (mc_cfg mc)) :: u32) div 2")
    case True
    show ?thesis using run unfolding mcaster_open_new_instances_P1_def Let_def if_P [OF True] by (intro that(1)) simp_all
  next
    case False
    show ?thesis using run unfolding mcaster_open_new_instances_P1_def Let_def if_not_P [OF False] res_eq_Inr
        sum.inject(2) prod.inject
      by (elim conjE exE) (rule that(2); (assumption | (rule sym, assumption)))
  qed
  then show ?thesis
  proof cases
    case 1
    then show ?thesis using inv by simp
  next
    case 2
    have c: "counters_ok mc" by (rule mc_invD(2) [OF inv])
    then have p: "below_u32 (p1_highest_open mc)" by (simp add: counters_ok_def)
    have le: "p1_highest_open mc \<le> ?h"
    proof -
      have "unat (ucast ?n :: u64) < 2 ^ 32" using unat_u32_less [of ?n] by (simp add: unat_ucast_u64)
      then have "unat (p1_highest_open mc) + unat (ucast ?n :: u64) < 2 ^ 64" using p by (simp add: below_u32_def)
      then show ?thesis using unat_add_lem [of "p1_highest_open mc" "ucast ?n :: u64"] by (simp add: word_le_nat_alt)
    qed
    moreover have "highest_open_iid mc \<le> ?h" using c le by (auto simp: counters_ok_def intro: order_trans)
    ultimately have "mc_inv cfg W A B (mc\<lparr>p1_highest_open := ?h\<rparr>)"
      using inv_raise [OF inv le order_refl, of "highest_closed_iid mc"] c 2(1) by (simp add: counters_ok_def)
    then have "mc_inv cfg W A B (mc1\<lparr>p1_highest_open := ?h\<rparr>)" "p1_highest_open mc1 = p1_highest_open mc"
      using p1_open_each_inv [OF _ mc_iids32_bounds [OF 2(1) refl p] 2(2)] by simp_all
    then show ?thesis using 2(3,4) by (simp add: mcaster_do_phase1_range_def)
  qed
qed

text \<open>Opening an instance for phase 2: the command gets a key that is not null, and the window grows by one
  only below its bound.\<close>

lemma window_step:
  fixes c p :: u64 and R :: u32
  assumes "c \<le> p" "unat p - unat c \<le> unat R" "ucast R - (p - c) \<noteq> (0 :: u64)" "below_u32 p"
  shows "unat (p + 1) - unat c \<le> unat R" "unat (p + 1) = Suc (unat p)" "p < p + 1"
proof -
  show s: "unat (p + 1) = Suc (unat p)" using assms(4) by (simp add: unat_word_ariths below_u32_def)
  then show "p < p + 1" by (simp add: word_less_nat_alt)
  have d: "unat (p - c) = unat p - unat c" by (rule unat_sub [OF assms(1)])
  have "unat (p - c) \<noteq> unat (ucast R :: u64)"
  proof
    assume "unat (p - c) = unat (ucast R :: u64)"
    then have "p - c = ucast R" by (rule word_unat_eq_iff [THEN iffD2])
    then show False using assms(3) by simp
  qed
  moreover have "unat (ucast R :: u64) = unat R" by (simp add: unat_ucast_u64)
  ultimately show "unat (p + 1) - unat c \<le> unat R" using s d assms(2) by simp
qed

lemma create_value_key_ok:
  assumes "create_value_key msm = Inr (k, msm')" "seq_number msm \<noteq> 0" "seq_number msm \<noteq> 0xFFFF"
  shows "\<not> CMD_KEY_IS_NULL k \<and> mcaster_id k = self_acceptor_id (msm_cfg msm)" "\<exists>n. msm' = msm\<lparr>seq_number := n\<rparr> \<and> n \<noteq> 0 \<and> n \<noteq> 0xFFFF"
proof -
  show "\<not> CMD_KEY_IS_NULL k \<and> mcaster_id k = self_acceptor_id (msm_cfg msm)" using assms(1,2) by (auto simp: create_value_key_def res_eq_Inr Let_def CMD_KEY_IS_NULL_def)
  have "seq_number msm + 1 \<noteq> 0"
  proof
    assume "seq_number msm + 1 = 0"
    then have "seq_number msm = - 1" by (simp add: add_eq_0_iff2)
    then show False using assms(3) by simp
  qed
  then show "\<exists>n. msm' = msm\<lparr>seq_number := n\<rparr> \<and> n \<noteq> 0 \<and> n \<noteq> 0xFFFF"
    using assms(1) by (auto simp: create_value_key_def res_eq_Inr Let_def split: if_splits)
qed

lemma inv_seq:
  assumes "mc_inv cfg W A B (mc\<lparr>mc_msm := msm\<rparr>)" "n \<noteq> 0" "n \<noteq> 0xFFFF"
  shows "mc_inv cfg W A B (mc\<lparr>mc_msm := msm\<lparr>seq_number := n\<rparr>\<rparr>)"
  using assms unfolding mc_inv_def mir_ok_def counters_ok_def mir_at_def by auto

lemma p2_open_step:
  assumes inv: "mc_inv cfg W A B mc" and i: "i = highest_open_iid mc + 1" "i \<le> p1_highest_open mc"
    and room: "ucast (word_of_int (max_active_instances (mc_cfg mc)) :: u32) - (highest_open_iid mc - highest_closed_iid mc) \<noteq> 0"
    and get: "get_mir i mc = Inr (r, mc1)" "mir_status r = st_p1_done"
    and assign: "mcaster_storage_assign_value r v n (mc_msm mc1) = Inr (r2, msm)"
    and send: "mapping_then_phase2 (mc1\<lparr>mc_cvm := cvm, mc_msm := msm, p1_ready_count := c\<rparr>) r2 = Inr (r3, mc2, out)"
  shows "mc_inv cfg (W \<union> maps_of out) (A \<union> keys_of out) B (mc2\<lparr>highest_open_iid := highest_open_iid mc2 + 1\<rparr>)"
proof -
  note g = get_mir_inv [OF inv get(1)]
  obtain msm1 where m1: "mc1 = mc\<lparr>mc_msm := msm1\<rparr>" using g(4) by blast
  have same: "highest_open_iid mc1 = highest_open_iid mc" "highest_closed_iid mc1 = highest_closed_iid mc"
    "p1_highest_open mc1 = p1_highest_open mc" "mc_msm mc1 = msm1" "mc_cfg mc1 = mc_cfg mc" unfolding m1 by simp_all
  have c: "counters_ok mc1" by (rule mc_invD(2) [OF g(1)])
  obtain k msm2 where k: "create_value_key msm1 = Inr (k, msm2)"
      "r2 = r\<lparr>assigned_cmd_value := v, assigned_cmd_size := n, assigned_cmd_key := k\<rparr>" "msm = put_mir r2 msm2"
    using assign by (auto simp: mcaster_storage_assign_value_def res_eq_Inr Let_def same)
  have "seq_number msm1 \<noteq> 0" "seq_number msm1 \<noteq> 0xFFFF" using c by (simp_all add: counters_ok_def same)
  note kk = create_value_key_ok [OF k(1) this]
  obtain q where q: "msm2 = msm1\<lparr>seq_number := q\<rparr>" "q \<noteq> 0" "q \<noteq> 0xFFFF" using kk(2) by blast
  obtain w m t u where e: "assigned_bytes r2 = Inr w" "length w \<le> MAX_MESSAGE_SIZE"
      "r3 = r2\<lparr>mir_status := st_p2_pending, mir_timeout := t, repeat_cmdmap_timeout := u\<rparr>"
      "mc2 = save_mir r3 (mc1\<lparr>mc_cvm := cvm, mc_msm := msm, p1_ready_count := c\<rparr>)"
      "out = [ToMulticast (command_map \<lparr>cm_inst = mir_inst r2, cm_cmd_key = assigned_cmd_key r2, cm_cmd_size = assigned_cmd_size r2,
         cm_cmd_value = w\<rparr>), ToMulticast (phase2 m)]"
    using mapping_then_phase2_eq [OF send] by blast
  let ?b = "mc1\<lparr>mc_cvm := cvm, mc_msm := msm2, p1_ready_count := c, highest_open_iid := i\<rparr>"
  have r3: "mir_inst r3 = i" "mir_status r3 = st_p2_pending" "assigned_cmd_key r3 = k" "assigned_bytes r3 = Inr w"
    using e(1) unfolding e(3) by (simp_all add: k(2) g(3))
  have final: "mc2\<lparr>highest_open_iid := highest_open_iid mc2 + 1\<rparr> = save_mir r3 ?b"
    unfolding e(4) k(3) using i(1) g(3) by (simp add: save_mir_def put_mir_twice e(3) k(2) same)
  have w: "highest_closed_iid mc \<le> highest_open_iid mc" "unat (highest_open_iid mc) - unat (highest_closed_iid mc)
      \<le> unat (word_of_int (max_active_instances (mc_cfg mc)) :: u32)" "below_u32 (highest_open_iid mc)"
    using c by (auto simp: counters_ok_def window_size_def same below_u32_def word_le_nat_alt)
  note win = window_step [OF w(1,2) room w(3)]
  have "mc_inv cfg W A B (mc\<lparr>mc_msm := msm2\<rparr>)"
    unfolding q(1) by (rule inv_seq [OF _ q(2,3)]) (use g(1) m1 in simp)
  moreover have "counters_ok (mc\<lparr>mc_msm := msm2, p1_highest_open := p1_highest_open mc, highest_open_iid := i,
      highest_closed_iid := highest_closed_iid mc\<rparr>)"
    using c win i w(1) q by (simp add: counters_ok_def same window_size_def less_imp_le order_trans)
  ultimately have "mc_inv cfg W A B (mc\<lparr>mc_msm := msm2, p1_highest_open := p1_highest_open mc, highest_open_iid := i,
      highest_closed_iid := highest_closed_iid mc\<rparr>)"
    using win(3) i(1) by (intro inv_raise) simp_all
  moreover have "?b = (mc\<lparr>mc_msm := msm2, p1_highest_open := p1_highest_open mc, highest_open_iid := i,
      highest_closed_iid := highest_closed_iid mc\<rparr>)\<lparr>mc_cvm := cvm, p1_ready_count := c\<rparr>"
    unfolding m1 by simp
  ultimately have b: "mc_inv cfg W A B ?b" by (simp only: inv_update)
  have at: "mir_at i ?b = r" using g(2) q(1) by (simp add: mir_at_def same)
  have size: "array_size (mc_msm ?b) = array_size (mc_msm mc1)" using q(1) by (simp add: same)
  have ok: "mir_ok mc1 (i mod array_size (mc_msm mc1)) r" using stored_ok [OF g(1), of i] g(2) by simp
  have pos: "0 < i" using win(3) i(1) by (metis le_less_trans word_zero_le)
  have r0: "CMD_KEY_IS_NULL (assigned_cmd_key r)" using ok get(2) by (simp add: mir_ok_def)
  have inv': "mc_inv cfg W A B (save_mir r3 ?b)"
  proof (rule put_inv [OF b])
    show "mir_step (mir_at (mir_inst r3) ?b) r3" using r3 at g(3) get(2) r0 by (simp add: mir_step_def)
    show "mir_ok ?b (mir_inst r3 mod array_size (mc_msm ?b)) r3" using r3 pos kk(1) c by (simp add: mir_ok_def counters_ok_def same)
  qed (use r3 in simp)
  have at3: "mir_at (mir_inst r3) (save_mir r3 ?b) = r3" by (simp add: mir_at_def)
  have "0 < unat (mir_inst r3)" "unat (mir_inst r3) < 2 ^ 62"
    by (rule open_bounds [OF inv']; use r3 at3 in simp)+
  then have "mc_inv cfg (insert (mir_inst r3, assigned_cmd_key r3, w) W) A B (save_mir r3 ?b)"
    by (intro emit_map [OF inv']) (use at3 r3 e(2) in simp_all)
  then show ?thesis unfolding final using e(5) r3 k(2) g(3) by simp
qed

text \<open>What a turn of the loop does: it stops, or opens an instance and stops or goes on.\<close>

lemma p2_open_cases:
  assumes "p2_open_loop n mc = Inr (n', mc', out)"
  obtains "mc' = mc" "out = []"
  | r mc1 where "get_mir (highest_open_iid mc + 1) mc = Inr (r, mc1)" "mc' = mc1" "out = []"
  | r mc1 cvm where "get_mir (highest_open_iid mc + 1) mc = Inr (r, mc1)" "mc' = mc1\<lparr>mc_cvm := cvm\<rparr>" "out = []"
      "cvm_get_next_value (mc_cvm mc1) = Inr (None, cvm)"
  | r mc1 v k cvm r2 msm r3 mc2 o1 o2 where
      "highest_open_iid mc + 1 \<le> p1_highest_open mc"
      "ucast (word_of_int (max_active_instances (mc_cfg mc)) :: u32) - (highest_open_iid mc - highest_closed_iid mc) \<noteq> 0"
      "get_mir (highest_open_iid mc + 1) mc = Inr (r, mc1)" "mir_status r = st_p1_done"
      "mcaster_storage_assign_value r v k (mc_msm mc1) = Inr (r2, msm)"
      "mapping_then_phase2 (mc1\<lparr>mc_cvm := cvm, mc_msm := msm, p1_ready_count := p1_ready_count mc1 - 1\<rparr>) r2 = Inr (r3, mc2, o1)"
      "out = o1 @ o2"
      "mc' = mc2\<lparr>highest_open_iid := highest_open_iid mc2 + 1\<rparr> \<and> o2 = []
       \<or> n + 1 < max_p2_open_per_iteration (mc_cfg mc2)
          \<and> p2_open_loop (n + 1) (mc2\<lparr>highest_open_iid := highest_open_iid mc2 + 1\<rparr>) = Inr (n', mc', o2)"
      "cvm_get_next_value (mc_cvm mc1) = Inr (Some (v, k), cvm)"
proof -
  let ?R = "ucast (word_of_int (max_active_instances (mc_cfg mc)) :: u32) - (highest_open_iid mc - highest_closed_iid mc) :: u64"
  show ?thesis
  proof (cases "?R \<noteq> 0 \<and> highest_open_iid mc + 1 \<le> p1_highest_open mc \<and> p1_ready_count mc \<noteq> 0")
    case False
    show ?thesis
      by (rule that(1)) (use assms False in \<open>auto simp: p2_open_loop.simps [of n mc] Let_def not_le word_neq_0_conv split: if_splits\<close>)
  next
    case True
    obtain r mc1 where g: "get_mir (highest_open_iid mc + 1) mc = Inr (r, mc1)"
      using assms True by (auto simp: p2_open_loop.simps [of n mc] Let_def res_eq_Inr not_le [symmetric] word_neq_0_conv [symmetric])
    show ?thesis
    proof (cases "mir_status r = st_p1_done")
      case False
      show ?thesis
        by (rule that(2) [OF g])
          (use assms True g False in \<open>auto simp: p2_open_loop.simps [of n mc] Let_def res_eq_Inr not_le [symmetric] word_neq_0_conv [symmetric]\<close>)
    next
      case ready: True
      obtain w cvm where w: "cvm_get_next_value (mc_cvm mc1) = Inr (w, cvm)"
        using assms True g ready
        by (auto simp: p2_open_loop.simps [of n mc] Let_def res_eq_Inr not_le [symmetric] word_neq_0_conv [symmetric])
      show ?thesis
      proof (cases w)
        case None
        show ?thesis
          by (rule that(3) [OF g, of cvm])
            (use assms True g ready w None in \<open>auto simp: p2_open_loop.simps [of n mc] Let_def res_eq_Inr not_le [symmetric] word_neq_0_conv [symmetric]\<close>)
      next
        case (Some vk)
        obtain v k where vk: "vk = (v, k)" by (cases vk)
        let ?mc = "mc1\<lparr>mc_cvm := cvm\<rparr>"
        note loop = p2_open_loop.simps [of n mc] Let_def not_le [symmetric] word_neq_0_conv [symmetric]
        have run: "rbind (mcaster_storage_assign_value r v k (mc_msm mc1)) (\<lambda>(r2, msm).
            rbind (mapping_then_phase2 (mc1\<lparr>mc_cvm := cvm, mc_msm := msm, p1_ready_count := p1_ready_count mc1 - 1\<rparr>) r2)
              (\<lambda>(r3, mc2, o1). if max_p2_open_per_iteration (mc_cfg mc2) \<le> n + 1
                then Inr (n + 1, mc2\<lparr>highest_open_iid := highest_open_iid mc2 + 1\<rparr>, o1)
                else rbind (p2_open_loop (n + 1) (mc2\<lparr>highest_open_iid := highest_open_iid mc2 + 1\<rparr>))
                  (\<lambda>(j, mc, o2). Inr (j, mc, o1 @ o2)))) = Inr (n', mc', out)"
          using assms True g ready w unfolding Some vk by (simp add: loop res_eq_Inr)
        obtain r2 msm where 1: "mcaster_storage_assign_value r v k (mc_msm mc1) = Inr (r2, msm)"
          using run by (auto simp: res_eq_Inr)
        obtain r3 mc2 o1 where 2: "mapping_then_phase2 (mc1\<lparr>mc_cvm := cvm, mc_msm := msm, p1_ready_count := p1_ready_count mc1 - 1\<rparr>) r2
            = Inr (r3, mc2, o1)"
          using run 1 by (auto simp: res_eq_Inr)
        show ?thesis
        proof (cases "max_p2_open_per_iteration (mc_cfg mc2) \<le> n + 1")
          case True
          with run 1 2 have "mc' = mc2\<lparr>highest_open_iid := highest_open_iid mc2 + 1\<rparr> \<and> out = o1" by simp
          then show ?thesis using \<open>?R \<noteq> 0 \<and> _\<close> w Some vk by (intro that(4) [OF _ _ g ready 1 2, of "[]"]) simp_all
        next
          case False
          with run 1 2 obtain o2 where "p2_open_loop (n + 1) (mc2\<lparr>highest_open_iid := highest_open_iid mc2 + 1\<rparr>) = Inr (n', mc', o2)"
              "out = o1 @ o2"
            by (auto simp: res_eq_Inr)
          then show ?thesis using \<open>?R \<noteq> 0 \<and> _\<close> False w Some vk by (intro that(4) [OF _ _ g ready 1 2, of o2]) simp_all
        qed
      qed
    qed
  qed
qed

lemma p2_open_loop_inv:
  assumes "mc_inv cfg W A B mc" "p2_open_loop n mc = Inr (n', mc', out)"
  shows "mc_inv cfg (W \<union> maps_of out) (A \<union> keys_of out) B mc'"
  using assms
proof (induction "nat (max_p2_open_per_iteration cfg - n)" arbitrary: n mc W A out rule: less_induct)
  case less
  note inv = less.prems(1)
  show ?case using less.prems(2)
  proof (cases rule: p2_open_cases)
    case 1
    then show ?thesis using inv by simp
  next
    case (2 r mc1)
    then show ?thesis using get_mir_inv(1) [OF inv 2(1)] by simp
  next
    case (3 r mc1 cvm)
    then show ?thesis using get_mir_inv(1) [OF inv 3(1)] by simp
  next
    case (4 r mc1 v k cvm r2 msm r3 mc2 o1 o2)
    let ?mc = "mc2\<lparr>highest_open_iid := highest_open_iid mc2 + 1\<rparr>"
    have 1: "mc_inv cfg (W \<union> maps_of o1) (A \<union> keys_of o1) B ?mc"
      by (rule p2_open_step [OF inv refl 4(1-6)])
    have cfg: "mc_cfg mc2 = cfg" using mc_invD(1) [OF 1] by simp
    from 4(8) show ?thesis
    proof (elim disjE conjE)
      assume "n + 1 < max_p2_open_per_iteration (mc_cfg mc2)" "p2_open_loop (n + 1) ?mc = Inr (n', mc', o2)"
      then have "mc_inv cfg ((W \<union> maps_of o1) \<union> maps_of o2) ((A \<union> keys_of o1) \<union> keys_of o2) B mc'"
        by (intro less.hyps [OF _ 1]) (simp_all add: cfg)
      then show ?thesis using 4(7) by (simp add: Un_assoc)
    qed (use 1 4(7) in simp)
  qed
qed

lemma open_P2_inv:
  assumes "mc_inv cfg W A B mc" "mcaster_open_new_instances_P2 mc = Inr (mc', out)"
  shows "mc_inv cfg (W \<union> maps_of out) (A \<union> keys_of out) B mc'"
  using assms p2_open_loop_inv [OF assms(1)] by (auto simp: mcaster_open_new_instances_P2_def res_eq_Inr)

lemma periodic_inv:
  assumes inv: "mc_inv cfg W A B mc" and run: "on_mcaster_periodic_check junk t1 t2 t3 mc = Inr (mc', out)"
  shows "mc_inv cfg (W \<union> maps_of out) (A \<union> keys_of out) B mc'"
proof -
  obtain mc1 o1 mc2 o2 o3 where r: "mcaster_open_new_instances_P1 (mc\<lparr>mcaster_clock := t1\<rparr>) = Inr (mc1, o1)"
      "mcaster_check_expired_instances junk (mc1\<lparr>mcaster_clock := t2\<rparr>) = Inr (mc2, o2)"
      "mcaster_open_new_instances_P2 (mc2\<lparr>mcaster_clock := t3\<rparr>) = Inr (mc', o3)" "out = o1 @ o2 @ o3 @ [Flush]"
    using run by (auto simp: on_mcaster_periodic_check_def mcaster_update_wallclock_def res_eq_Inr)
  have 1: "mc_inv cfg (W \<union> maps_of o1) (A \<union> keys_of o1) B mc1"
    by (rule open_P1_inv [OF _ r(1)]) (simp add: inv)
  have 2: "mc_inv cfg ((W \<union> maps_of o1) \<union> maps_of o2) ((A \<union> keys_of o1) \<union> keys_of o2) B mc2"
    by (rule check_all_inv [OF _ r(2)]) (simp add: 1)
  have "mc_inv cfg (((W \<union> maps_of o1) \<union> maps_of o2) \<union> maps_of o3) (((A \<union> keys_of o1) \<union> keys_of o2) \<union> keys_of o3) B mc'"
    by (rule open_P2_inv [OF _ r(3)]) (simp add: 2)
  then show ?thesis using r(4) by (simp add: Un_assoc)
qed

text \<open>The answers of the ring.\<close>

lemma range_done_inv:
  assumes "mc_inv cfg W A B mc" "range_done_each is mc = Inr mc'"
  shows "mc_inv cfg W A B mc'"
  using assms
proof (induction "is" arbitrary: mc)
  case (Cons i "is")
  obtain r msm where g: "mcaster_storage_get (mc_msm mc) i = Inr (r, msm)" "mir_status r = st_p1_pending"
    and rest: "range_done_each is (save_mir (r\<lparr>mir_status := st_p1_done\<rparr>) (mc\<lparr>mc_msm := msm\<rparr>)) = Inr mc'"
    using Cons.prems(2) by (auto simp: res_eq_Inr)
  let ?mc = "mc\<lparr>mc_msm := msm\<rparr>"
  have i: "mc_inv cfg W A B ?mc" "r = mir_at i ?mc" "mir_inst r = i"
    by (rule storage_get_inv [OF Cons.prems(1) g(1)])+
  have "0 < i \<and> i \<le> p1_highest_open ?mc" using stored_ok [OF i(1), of i] i(2,3) g(2) by (auto simp: mir_ok_def)
  then have "mc_inv cfg W A B (save_mir (r\<lparr>mir_status := st_p1_done\<rparr>) ?mc)"
    by (intro resave(1) [OF i(1), where q = r]) (use i(2,3) g(2) in simp_all)
  then show ?case by (rule Cons.IH [OF _ rest])
qed simp

lemma handle_range_inv:
  assumes inv: "mc_inv cfg W A B mc" and run: "mcaster_handle_phase1_range_msg msg n mc = Inr (mc', out)"
  shows "mc_inv cfg (W \<union> maps_of out) (A \<union> keys_of out) B mc'"
proof -
  consider "mc' = mc" "maps_of out = {} \<and> keys_of out = {}"
    | "is" where "range_done_each is mc = Inr mc'" "out = []"
    using run by (auto simp: mcaster_handle_phase1_range_msg_def res_eq_Inr Let_def mcaster_do_phase1_range_def split: if_splits)
  then show ?thesis
  proof cases
    case 1
    then show ?thesis using inv by simp
  next
    case 2
    then show ?thesis using range_done_inv [OF _ 2(1)] inv by simp
  qed
qed

lemma handle_phase1_inv:
  assumes inv: "mc_inv cfg W A B mc" and run: "mcaster_handle_phase1_msg junk msg n mc = Inr (mc', out)"
  shows "mc_inv cfg (W \<union> maps_of out) (A \<union> keys_of out) B mc'"
proof (cases "p1_inst msg \<le> highest_closed_iid mc \<or> \<not> is_own_ballot mc (p1_ballot msg)")
  case True
  then have "mc' = mc \<and> out = []" using run by (auto simp: mcaster_handle_phase1_msg_def res_eq_Inr split: if_splits)
  then show ?thesis using inv by simp
next
  case False
  obtain r mc1 where g: "get_mir (p1_inst msg) mc = Inr (r, mc1)"
    using run False by (auto simp: mcaster_handle_phase1_msg_def res_eq_Inr)
  note i = get_mir_inv [OF inv g]
  have at: "mir_at (mir_inst r) mc1 = r" using i(2,3) by simp
  show ?thesis
  proof (cases "mir_status r = st_p1_pending \<and> mir_ballot r = p1_ballot msg")
    case other: False
    then have "mc' = mc1 \<and> out = []"
      using run False g by (auto simp: mcaster_handle_phase1_msg_def res_eq_Inr split: if_splits)
    then show ?thesis using i(1) by simp
  next
    case pending: True
    have ok: "assigned_cmd_value r = None" "0 < mir_inst r \<and> mir_inst r \<le> p1_highest_open mc1"
      using stored_ok [OF i(1), of "mir_inst r"] at pending by (auto simp: mir_ok_def)
    show ?thesis
    proof (cases "promises_count msg < quorum mc1")
      case True
      let ?r = "if highest_promised_ballot msg \<noteq> 0
                then r\<lparr>mir_ballot := raise_ballot (mir_ballot r) (highest_promised_ballot msg)\<rparr> else r"
      have "forget_mir (mcaster_do_phase1 junk mc1 ?r) = Inr (mc', out)"
        using run False g pending True by (simp add: mcaster_handle_phase1_msg_def res_eq_Inr Let_def)
      then obtain r' where p1: "mcaster_do_phase1 junk mc1 ?r = Inr (r', mc', out)"
        unfolding forget_mir_def res_eq_Inr by auto
      have same: "mir_inst ?r = mir_inst r" "assigned_cmd_key ?r = assigned_cmd_key r" "assigned_cmd_value ?r = assigned_cmd_value r"
        "assigned_cmd_size ?r = assigned_cmd_size r" by simp_all
      have "mc_inv cfg W A B mc' \<and> maps_of out = {} \<and> keys_of out = {}"
        using do_phase1_inv [OF i(1) _ _ same(1) [symmetric] same(2-4) p1] at pending unfolding same by blast
      then show ?thesis by simp
    next
      case enough: False
      have "mc' = save_mir (r\<lparr>mir_status := st_p1_done\<rparr>) mc1 \<and> out = []"
        using run False g pending enough ok(1) by (simp add: mcaster_handle_phase1_msg_def res_eq_Inr Let_def)
      moreover have "mc_inv cfg W A B (save_mir (r\<lparr>mir_status := st_p1_done\<rparr>) mc1)"
        by (rule resave(1) [where q = r]) (use i(1) at pending ok(2) in simp_all)
      ultimately show ?thesis by simp
    qed
  qed
qed

text \<open>Closing instances: a closed record is below the highest open one.\<close>

lemma close_loop_inv:
  "mc_inv cfg W A B mc \<Longrightarrow> close_loop i mc = Inr mc' \<Longrightarrow> mc_inv cfg W A B mc'"
proof (induction i mc rule: close_loop.induct)
  case (1 i mc)
  let ?c = "highest_closed_iid mc + 1" and ?r = "mir_at i mc"
  note inv = "1.prems"(1)
  show ?case
  proof (cases "mir_status ?r = st_done \<and> mir_inst ?r = ?c")
    case True
    have c0: "?c \<noteq> 0" and rest: "rbind (get_mir (?c + 1) (mc\<lparr>highest_closed_iid := ?c\<rparr>)) (\<lambda>r. close_loop (?c + 1) (snd r)) = Inr mc'"
      using "1.prems"(2) True by (simp_all add: close_loop.simps [of i mc] res_eq_Inr del: close_loop.simps)
    then obtain g where g: "get_mir (?c + 1) (mc\<lparr>highest_closed_iid := ?c\<rparr>) = Inr g" "close_loop (?c + 1) (snd g) = Inr mc'"
      by (auto simp: res_eq_Inr)
    have le: "?c \<le> highest_open_iid mc" using stored_ok [OF inv, of i] True by (auto simp: mir_ok_def)
    have c: "counters_ok mc" by (rule mc_invD(2) [OF inv])
    have "unat ?c = Suc (unat (highest_closed_iid mc))" by (rule u64_less_Suc(2) [OF c0])
    moreover have "unat (highest_open_iid mc) - unat (highest_closed_iid mc) \<le> window_size (mc_cfg mc)"
      using c by (simp add: counters_ok_def)
    ultimately have "unat (highest_open_iid mc) - unat ?c \<le> window_size (mc_cfg mc)" by arith
    then have "mc_inv cfg W A B (mc\<lparr>p1_highest_open := p1_highest_open mc, highest_open_iid := highest_open_iid mc, highest_closed_iid := ?c\<rparr>)"
      using c le by (intro inv_raise [OF inv]) (simp_all add: counters_ok_def)
    then have "mc_inv cfg W A B (mc\<lparr>highest_closed_iid := ?c\<rparr>)" by simp
    then have "mc_inv cfg W A B (snd g)" using get_mir_inv(1) [of cfg W A B _ "?c + 1" "fst g" "snd g"] g(1) by simp
    with "1.IH" [OF True c0 g(1)] g(2) show ?thesis by simp
  next
    case False
    then show ?thesis using "1.prems" by (auto simp: close_loop.simps [of i mc])
  qed
qed

lemma handle_phase2_inv:
  assumes inv: "mc_inv cfg W A B mc" and run: "mcaster_handle_phase2_msg msg n mc = Inr (mc', out)"
    and B: "quorum mc \<le> accepts_count msg \<Longrightarrow> (p2_inst msg, p2_cmd_key msg) \<in> B"
  shows "mc_inv cfg (W \<union> maps_of out) (A \<union> keys_of out) B mc'"
proof (cases "p2_inst msg \<le> highest_closed_iid mc")
  case True
  then have "mc' = mc \<and> out = []" using run by (auto simp: mcaster_handle_phase2_msg_def res_eq_Inr)
  then show ?thesis using inv by simp
next
  case False
  obtain r mc1 where g: "get_mir (p2_inst msg) mc = Inr (r, mc1)"
    using run False by (auto simp: mcaster_handle_phase2_msg_def res_eq_Inr)
  note i = get_mir_inv [OF inv g]
  have at: "mir_at (mir_inst r) mc1 = r" using i(2,3) by simp
  have quorum: "quorum mc1 = quorum mc" using i(4) by (auto simp: quorum_def)
  show ?thesis
  proof (cases "mir_status r = st_p2_pending \<and> mir_ballot r = p2_ballot msg")
    case other: False
    then have "mc' = mc1 \<and> out = []"
      using run False g by (auto simp: mcaster_handle_phase2_msg_def res_eq_Inr split: if_splits)
    then show ?thesis using i(1) by simp
  next
    case pending: True
    have key: "assigned_cmd_key r = p2_cmd_key msg"
      using run False g pending by (simp add: mcaster_handle_phase2_msg_def res_eq_Inr)
    show ?thesis
    proof (cases "accepts_count msg < quorum mc1")
      case True
      have "forget_mir (mapping_then_phase2 mc1 r) = Inr (mc', out)"
        using run False g pending True by (simp add: mcaster_handle_phase2_msg_def res_eq_Inr)
      then obtain r' where "mapping_then_phase2 mc1 r = Inr (r', mc', out)" unfolding forget_mir_def res_eq_Inr by auto
      then show ?thesis using resend_inv [OF i(1) at [symmetric]] pending by blast
    next
      case enough: False
      let ?r = "r\<lparr>mir_status := st_done\<rparr>"
      have c: "close_loop (p2_inst msg) (save_mir ?r mc1) = Inr mc'"
        and out: "out = [ToMulticast (acceptance \<lparr>am_inst = mir_inst ?r, am_cmd_key = assigned_cmd_key ?r\<rparr>)]"
        using run False g pending enough
        by (auto simp: mcaster_handle_phase2_msg_def mcaster_broadcast_acceptance_def res_eq_Inr Let_def)
      have s: "mc_inv cfg W A B (save_mir ?r mc1)" "mir_at (mir_inst ?r) (save_mir ?r mc1) = ?r"
        by (rule resave [OF i(1), where q = r]; use at pending key i(3) B enough quorum in simp)+
      have "mc_inv cfg W (insert (mir_inst ?r, assigned_cmd_key ?r) A) B (save_mir ?r mc1)"
        by (rule emit_key [OF s(1) s(2) [symmetric]]) simp
      then have "mc_inv cfg W (insert (mir_inst ?r, assigned_cmd_key ?r) A) B mc'" by (rule close_loop_inv [OF _ c])
      then show ?thesis unfolding out by simp
    qed
  qed
qed

text \<open>The requests of the learners.\<close>

lemma map_request_inv:
  assumes inv: "mc_inv cfg W A B mc" and run: "map_request_one i mc = Inr (mc', out)" and i: "0 < unat i" "unat i < 2 ^ 62"
  shows "mc_inv cfg (W \<union> maps_of out) (A \<union> keys_of out) B mc'"
proof -
  obtain r mc1 where g: "get_mir i mc = Inr (r, mc1)" using run by (auto simp: map_request_one_def res_eq_Inr)
  note s = get_mir_inv [OF inv g]
  have at: "mir_at (mir_inst r) mc1 = r" using s(2,3) by simp
  show ?thesis
  proof (cases "timer_is_expired (repeat_cmdmap_timeout r) (mcaster_clock mc1)")
    case True
    have "forget_mir (mcaster_broadcast_mapping mc1 r) = Inr (mc', out)" using run g True by (simp add: map_request_one_def)
    then obtain r' where "mcaster_broadcast_mapping mc1 r = Inr (r', mc', out)" unfolding forget_mir_def res_eq_Inr by auto
    then obtain v u where e: "assigned_bytes r = Inr v" "length v \<le> MAX_MESSAGE_SIZE" "r' = r\<lparr>repeat_cmdmap_timeout := u\<rparr>"
        "mc' = save_mir r' mc1"
        "out = [ToMulticast (command_map \<lparr>cm_inst = mir_inst r, cm_cmd_key = assigned_cmd_key r, cm_cmd_size = assigned_cmd_size r,
          cm_cmd_value = v\<rparr>)]"
      using broadcast_mapping_eq by blast
    have same: "mir_inst r' = i" "assigned_cmd_key r' = assigned_cmd_key r" "assigned_bytes r' = Inr v"
      using e(1) s(3) unfolding e(3) by simp_all
    have ok: "mir_ok mc1 (i mod array_size (mc_msm mc1)) r" using stored_ok [OF s(1), of i] s(2) by simp
    have dn: "mir_status r = st_done \<Longrightarrow> (mir_inst r, assigned_cmd_key r) \<in> B"
      using mc_invD(4) [OF s(1), of "i mod array_size (mc_msm mc1)"] s(2) by (simp add: mir_at_def)
    have s': "mc_inv cfg W A B mc'" "mir_at (mir_inst r') mc' = r'"
      unfolding e(4) by (rule resave [OF s(1), where q = r]; use at e(3) ok dn in \<open>simp add: mir_ok_def\<close>)+
    have "mc_inv cfg (insert (mir_inst r', assigned_cmd_key r', v) W) A B mc'"
      by (rule emit_map [OF s'(1)]) (use s'(2) same e(2) i in simp_all)
    then show ?thesis using e(5) same s(3) by simp
  next
    case False
    then have "mc' = mc1 \<and> out = []" using run g by (simp add: map_request_one_def)
    then show ?thesis using s(1) by simp
  qed
qed

lemma chosenval_request_inv:
  assumes inv: "mc_inv cfg W A B mc" and run: "chosenval_request_one i mc = Inr (mc', out)"
  shows "mc_inv cfg (W \<union> maps_of out) (A \<union> keys_of out) B mc'"
proof -
  obtain r mc1 where g: "get_mir i mc = Inr (r, mc1)" using run by (auto simp: chosenval_request_one_def res_eq_Inr)
  note s = get_mir_inv [OF inv g]
  have at: "r = mir_at (mir_inst r) mc1" using s(2,3) by simp
  consider "mc' = mc1" "out = []"
    | "mir_status r = st_done" "mc' = mc1" "out = [ToMulticast (acceptance \<lparr>am_inst = mir_inst r, am_cmd_key = assigned_cmd_key r\<rparr>)]"
    using run g by (auto simp: chosenval_request_one_def mcaster_broadcast_acceptance_def res_eq_Inr split: if_splits)
  then show ?thesis
  proof cases
    case 2
    then show ?thesis using emit_key [OF s(1) at] by simp
  qed (use s(1) in simp)
qed

end
