(* ===== verification/McasterValues.thy ===== *)
theory McasterValues
  imports McasterSpec
begin

text \<open>
  Where the commands that the multicaster proposes come from, and which instances it closes. A second
  invariant over the same handlers as in \<open>McasterSpec\<close>: the values of the queue and of the records of
  phase 2 are in a set \<open>V\<close> of submitted values, and the instances up to the highest closed one are among
  those whose acceptance was sent. What the acceptors report of earlier commands is not used at all.
\<close>

section \<open>Invariant\<close>

definition queue_vals :: "bytes set \<Rightarrow> clival_mngr \<Rightarrow> bool" where
  "queue_vals V cvm \<longleftrightarrow> (\<forall>q. cv_queue cvm = Some q \<longrightarrow>
     (\<exists>n xs. q_rep n q xs \<and> (\<forall>(d, s) \<in> set xs. d \<in> V \<and> length d = unat s)))"

definition rec_side :: "bytes set \<Rightarrow> sent_keys \<Rightarrow> mcaster_instance_record \<Rightarrow> bool" where
  "rec_side V A r \<longleftrightarrow> (mir_status r = st_done \<longrightarrow> (mir_inst r, assigned_cmd_key r) \<in> A)
     \<and> (mir_status r \<in> {st_p2_pending, st_done} \<longrightarrow>
          (\<exists>v \<in> V. assigned_cmd_value r = Some v \<and> length v = unat (assigned_cmd_size r)))"

definition side :: "bytes set \<Rightarrow> sent_keys \<Rightarrow> mcaster \<Rightarrow> bool" where
  "side V A mc \<longleftrightarrow> (\<forall>x. rec_side V A (mcaster_array (mc_msm mc) x))
     \<and> (\<forall>i. 0 < i \<and> i \<le> highest_closed_iid mc \<longrightarrow> i \<in> fst ` A) \<and> queue_vals V (mc_cvm mc)"

text \<open>The proposals that are sent, and what is asked of everything sent: a mapped command has a value of
  \<open>V\<close>, and a proposed command is mapped along with it.\<close>

definition proposals_of :: "mc_out list \<Rightarrow> phase2_msg set" where
  "proposals_of out = {m. ToMulticast (phase2 m) \<in> set out \<or> ToSuccessor (phase2 m) \<in> set out}"

definition out_ok :: "bytes set \<Rightarrow> mc_out list \<Rightarrow> bool" where
  "out_ok V out \<longleftrightarrow> (\<forall>i k v. (i, k, v) \<in> maps_of out \<and> \<not> CMD_KEY_IS_NULL k \<longrightarrow> v \<in> V)
     \<and> (\<forall>m \<in> proposals_of out. \<exists>v \<in> V. (p2_inst m, p2_cmd_key m, v) \<in> maps_of out)"

lemma out_ok_append: "out_ok V o1 \<Longrightarrow> out_ok V o2 \<Longrightarrow> out_ok V (o1 @ o2)"
  unfolding out_ok_def proposals_of_def by auto

lemma out_ok_other [simp]:
  "out_ok V []" "out_ok V [Flush]" "out_ok V [ToSuccessor (phase1 m)]" "out_ok V [ToSuccessor (phase1_range m')]"
  "out_ok V [ToMulticast (acceptance m'')]"
  by (simp_all add: out_ok_def proposals_of_def)

lemma rec_side_mono: "rec_side V A r \<Longrightarrow> A \<subseteq> A' \<Longrightarrow> rec_side V A' r"
  by (auto simp: rec_side_def)

lemma side_mono: "side V A mc \<Longrightarrow> A \<subseteq> A' \<Longrightarrow> side V A' mc"
  unfolding side_def by (blast intro: rec_side_mono)

lemma side_update [simp]:
  "side V A (mc\<lparr>mcaster_clock := t\<rparr>) = side V A mc" "side V A (mc\<lparr>p1_ready_count := n\<rparr>) = side V A mc"
  "side V A (mc\<lparr>p1_highest_open := j\<rparr>) = side V A mc" "side V A (mc\<lparr>highest_open_iid := j\<rparr>) = side V A mc"
  by (simp_all add: side_def)

lemma side_cvm: "side V A mc \<Longrightarrow> queue_vals V c \<Longrightarrow> side V A (mc\<lparr>mc_cvm := c\<rparr>)"
  by (simp add: side_def)

lemma side_save: "side V A mc \<Longrightarrow> rec_side V A r \<Longrightarrow> side V A (save_mir r mc)"
  by (simp add: side_def)

lemma rec_side_other: "mir_status r \<notin> {st_p2_pending, st_done} \<Longrightarrow> rec_side V A r"
  by (auto simp: rec_side_def)

lemma storage_get_side:
  assumes "side V A mc" "mcaster_storage_get (mc_msm mc) i = Inr (r, msm)"
  shows "side V A (mc\<lparr>mc_msm := msm\<rparr>)" "rec_side V A r"
proof -
  have s: "rec_side V A (mcaster_array (mc_msm mc) x)" for x using assms(1) by (simp add: side_def)
  have "mir_status r = st_ready \<and> msm = put_mir r (mc_msm mc) \<or> r = mcaster_array (mc_msm mc) (i mod array_size (mc_msm mc)) \<and> msm = mc_msm mc"
    using assms(2) by (auto simp: mcaster_storage_get_def res_eq_Inr Let_def split: if_splits)
  then have "rec_side V A r \<and> side V A (mc\<lparr>mc_msm := msm\<rparr>)"
  proof
    assume r: "mir_status r = st_ready \<and> msm = put_mir r (mc_msm mc)"
    then have "rec_side V A r" by (intro rec_side_other) simp
    then show ?thesis using side_save [OF assms(1)] r by (simp add: save_mir_def)
  qed (use s assms(1) in simp)
  then show "side V A (mc\<lparr>mc_msm := msm\<rparr>)" "rec_side V A r" by blast+
qed

lemma get_mir_side:
  assumes "side V A mc" "get_mir i mc = Inr (r, mc')"
  shows "side V A mc'" "rec_side V A r"
proof -
  obtain msm where "mcaster_storage_get (mc_msm mc) i = Inr (r, msm)" "mc' = mc\<lparr>mc_msm := msm\<rparr>"
    using assms(2) by (auto simp: get_mir_def res_eq_Inr)
  then show "side V A mc'" "rec_side V A r" using storage_get_side [OF assms(1)] by auto
qed

section \<open>The queue of values\<close>

lemma get_value_side:
  assumes "queue_vals V cvm" "cvm_get_next_value cvm = Inr (x, cvm')"
  shows "queue_vals V cvm'" "x = Some (v, s) \<Longrightarrow> \<exists>d \<in> V. v = Some d \<and> length d = unat s"
proof -
  obtain q q' where q: "cv_queue cvm = Some q" "queue_pop q = Inr (x, q')" "cvm' = cvm\<lparr>cv_queue := Some q'\<rparr>"
    using assms(2) by (auto simp: cvm_get_next_value_def on_cv_queue_def res_eq_Inr split: option.splits)
  obtain n xs where xs: "q_rep n q xs" "\<forall>(d, s) \<in> set xs. d \<in> V \<and> length d = unat s"
    using assms(1) q(1) by (auto simp: queue_vals_def)
  have "queue_vals V cvm' \<and> (x = Some (v, s) \<longrightarrow> (\<exists>d \<in> V. v = Some d \<and> length d = unat s))"
  proof (cases xs)
    case Nil
    then have "queue_pop q = Inr (None, q)" using queue_pop_nil xs(1) by blast
    then have "x = None \<and> q' = q" using q(2) by simp
    then show ?thesis using xs q(3) by (auto simp: queue_vals_def)
  next
    case (Cons y ys)
    then show ?thesis using queue_pop_cons [of n q y ys] xs q(2,3) by (auto simp: queue_vals_def)
  qed
  then show "queue_vals V cvm'" "x = Some (v, s) \<Longrightarrow> \<exists>d \<in> V. v = Some d \<and> length d = unat s" by blast+
qed

lemma save_value_side:
  assumes "queue_vals V cvm" "cvm_save_value w n cvm = Inr (b, cvm')" "\<And>v. mread w 0 (unat n) = Inr v \<Longrightarrow> v \<in> V"
  shows "queue_vals V cvm'"
proof -
  obtain q v q' where q: "cv_queue cvm = Some q" "mread w 0 (unat n) = Inr v" "queue_append v n q = Inr (b, q')"
      "cvm' = cvm\<lparr>cv_queue := Some q'\<rparr>"
    using assms(2) by (auto simp: cvm_save_value_def on_cv_queue_def res_eq_Inr split: option.splits)
  obtain k xs where xs: "q_rep k q xs" "\<forall>(d, s) \<in> set xs. d \<in> V \<and> length d = unat s"
    using assms(1) q(1) by (auto simp: queue_vals_def)
  have "q_rep k q' (snd (spec_op k (Append v n) xs))" using run_op_ok [OF xs(1), of "Append v n"] q(3) by auto
  moreover have "\<forall>(d, s) \<in> set (snd (spec_op k (Append v n) xs)). d \<in> V \<and> length d = unat s"
    using xs(2) assms(3) [OF q(2)] mread_length [OF q(2)] by auto
  ultimately show ?thesis using q(4) by (auto simp: queue_vals_def)
qed

section \<open>Sending\<close>

lemma do_phase1_side:
  assumes "side V A mc" "mcaster_do_phase1 junk mc r = Inr (r', mc', out)"
  shows "side V A mc' \<and> out_ok V out"
proof -
  have "mc' = save_mir r' mc \<and> mir_status r' = st_p1_pending \<and> (\<exists>m. out = [ToSuccessor (phase1 m)])"
    using assms(2) by (auto simp: mcaster_do_phase1_def res_eq_Inr Let_def)
  then show ?thesis using side_save [OF assms(1)] rec_side_other [of r' V A] by auto
qed

lemma has_value_bytes:
  "assigned_cmd_value r = Some v \<Longrightarrow> length v = unat (assigned_cmd_size r) \<Longrightarrow> assigned_bytes r = Inr v"
  by (simp add: assigned_bytes_def mread_def)

lemma phase2_side:
  assumes "side V A mc" "assigned_cmd_value r = Some v" "v \<in> V" "length v = unat (assigned_cmd_size r)"
    and run: "mapping_then_phase2 mc r = Inr (r', mc', out)"
  shows "side V A mc' \<and> out_ok V out"
proof -
  obtain w m t u where e: "assigned_bytes r = Inr w"
      "r' = r\<lparr>mir_status := st_p2_pending, mir_timeout := t, repeat_cmdmap_timeout := u\<rparr>" "mc' = save_mir r' mc"
      "out = [ToMulticast (command_map \<lparr>cm_inst = mir_inst r, cm_cmd_key = assigned_cmd_key r, cm_cmd_size = assigned_cmd_size r,
         cm_cmd_value = w\<rparr>), ToMulticast (phase2 m)]"
    using mapping_then_phase2_eq [OF run] by blast
  have "w = v" using has_value_bytes [OF assms(2,4)] e(1) by simp
  moreover have "p2_inst m = mir_inst r \<and> p2_cmd_key m = assigned_cmd_key r"
    using run e(4) by (auto simp: mapping_then_phase2_def mcaster_broadcast_mapping_def mcaster_do_phase2_def res_eq_Inr Let_def)
  ultimately have "out_ok V out" using assms(3) unfolding e(4) by (auto simp: out_ok_def proposals_of_def)
  moreover have "rec_side V A r'" using assms(2-4) unfolding e(2) by (simp add: rec_side_def)
  ultimately show ?thesis using side_save [OF assms(1)] e(3) by simp
qed

lemma resend_side:
  assumes "side V A mc" "rec_side V A r" "mir_status r = st_p2_pending" "mapping_then_phase2 mc r = Inr (r', mc', out)"
  shows "side V A mc' \<and> out_ok V out"
  using assms(2,3) phase2_side [OF assms(1) _ _ _ assms(4)] by (auto simp: rec_side_def)

section \<open>The periodic checks\<close>

lemma check_expired_side:
  assumes "side V A mc" "check_expired_one junk i mc = Inr (mc', out)"
  shows "side V A mc' \<and> out_ok V out"
proof -
  obtain r mc1 where g: "get_mir i mc = Inr (r, mc1)"
    using assms(2) by (auto simp: check_expired_one_def res_eq_Inr)
  note s = get_mir_side [OF assms(1) g]
  consider "mc' = mc1" "out = []"
    | r' where "mcaster_do_phase1 junk mc1 r = Inr (r', mc', out)"
    | r' where "mir_status r = st_p2_pending" "mapping_then_phase2 mc1 r = Inr (r', mc', out)"
    using assms(2) by (cases "mir_status r") (auto simp: check_expired_one_def g forget_mir_def res_eq_Inr split: if_splits)
  then show ?thesis
  proof cases
    case 1
    then show ?thesis using s(1) by simp
  next
    case (2 r')
    then show ?thesis by (rule do_phase1_side [OF s(1)])
  next
    case (3 r')
    then show ?thesis by (rule resend_side [OF s])
  qed
qed

lemma mc_each_side:
  assumes step: "\<And>x W A mc mc' out. x \<in> set xs \<Longrightarrow> mc_inv cfg W A B mc \<Longrightarrow> f x mc = Inr (mc', out)
      \<Longrightarrow> mc_inv cfg (W \<union> maps_of out) (A \<union> keys_of out) B mc'"
    and side: "\<And>x W A mc mc' out. x \<in> set xs \<Longrightarrow> mc_inv cfg W A B mc \<Longrightarrow> side V A mc \<Longrightarrow> f x mc = Inr (mc', out)
      \<Longrightarrow> side V (A \<union> keys_of out) mc' \<and> out_ok V out"
    and "mc_inv cfg W A B mc" "side V A mc" "mc_each f xs mc = Inr (mc', out)"
  shows "side V (A \<union> keys_of out) mc' \<and> out_ok V out"
  using assms
proof (induction xs arbitrary: W A mc out)
  case (Cons x xs)
  obtain mc1 o1 o2 where r: "f x mc = Inr (mc1, o1)" "mc_each f xs mc1 = Inr (mc', o2)" "out = o1 @ o2"
    using Cons.prems(5) by (auto simp: res_eq_Inr)
  have 1: "mc_inv cfg (W \<union> maps_of o1) (A \<union> keys_of o1) B mc1"
    by (rule Cons.prems(1) [OF _ Cons.prems(3) r(1)]) simp
  have 2: "side V (A \<union> keys_of o1) mc1 \<and> out_ok V o1" by (rule Cons.prems(2) [OF _ Cons.prems(3,4) r(1)]) simp
  have "side V ((A \<union> keys_of o1) \<union> keys_of o2) mc' \<and> out_ok V o2"
  proof (rule Cons.IH [OF _ _ 1 conjunct1 [OF 2] r(2)])
    fix y W A mc mc' out
    assume y: "y \<in> set xs" "mc_inv cfg W A B mc" "f y mc = Inr (mc', out)"
    show "mc_inv cfg (W \<union> maps_of out) (A \<union> keys_of out) B mc'"
      by (rule Cons.prems(1) [OF _ y(2,3)]) (use y(1) in simp)
    assume s: "side V A mc"
    show "side V (A \<union> keys_of out) mc' \<and> out_ok V out" by (rule Cons.prems(2) [OF _ y(2) s y(3)]) (use y(1) in simp)
  qed
  then show ?case using r(3) 2 out_ok_append by (simp add: Un_assoc)
qed simp

lemma check_all_side:
  assumes "mc_inv cfg W A B mc" "side V A mc" "mcaster_check_expired_instances junk mc = Inr (mc', out)"
  shows "side V (A \<union> keys_of out) mc' \<and> out_ok V out"
proof -
  obtain "is" where r: "mc_each (check_expired_one junk) is mc = Inr (mc', out)"
    using assms(3) by (auto simp: mcaster_check_expired_instances_def res_eq_Inr Let_def)
  show ?thesis
  proof (rule mc_each_side [OF _ _ assms(1,2) r])
    fix i W A mc mc' out
    assume r: "side V A mc" "check_expired_one junk i mc = Inr (mc', out)"
    show "side V (A \<union> keys_of out) mc' \<and> out_ok V out" using check_expired_side [OF r] side_mono by blast
  qed (rule check_expired_inv)
qed

lemma p1_open_each_side: "side V A mc \<Longrightarrow> p1_open_each b is mc = Inr mc' \<Longrightarrow> side V A mc'"
proof (induction "is" arbitrary: mc)
  case (Cons i "is")
  obtain r msm t where g: "mcaster_storage_get (mc_msm mc) i = Inr (r, msm)"
    and rest: "p1_open_each b is (save_mir (r\<lparr>mir_status := st_p1_pending, mir_ballot := b, mir_timeout := t\<rparr>) (mc\<lparr>mc_msm := msm\<rparr>)) = Inr mc'"
    using Cons.prems(2) by (auto simp: res_eq_Inr Let_def)
  show ?case
    by (rule Cons.IH [OF side_save [OF storage_get_side(1) [OF Cons.prems(1) g]] rest]) (simp add: rec_side_other)
qed simp

lemma open_P1_side:
  assumes "side V A mc" "mcaster_open_new_instances_P1 mc = Inr (mc', out)"
  shows "side V A mc' \<and> out_ok V out"
  using assms p1_open_each_side [OF assms(1)]
  by (auto simp: mcaster_open_new_instances_P1_def mcaster_do_phase1_range_def res_eq_Inr Let_def split: if_splits)

lemma p2_open_side:
  assumes "side V A mc" "p2_open_loop n mc = Inr (n', mc', out)"
  shows "side V A mc' \<and> out_ok V out"
  using assms
proof (induction "nat (max_p2_open_per_iteration (mc_cfg mc) - n)" arbitrary: n mc out rule: less_induct)
  case less
  show ?case using less.prems(2)
  proof (cases rule: p2_open_cases)
    case 1
    then show ?thesis using less.prems(1) by simp
  next
    case (2 r mc1)
    then show ?thesis using get_mir_side(1) [OF less.prems(1) 2(1)] by simp
  next
    case (3 r mc1 cvm)
    have s: "side V A mc1" by (rule get_mir_side(1) [OF less.prems(1) 3(1)])
    then have "queue_vals V cvm" using get_value_side(1) [OF _ 3(4)] by (simp add: side_def)
    then show ?thesis using side_cvm [OF s] 3(2,3) by simp
  next
    case (4 r mc1 v k cvm r2 msm r3 mc2 o1 o2)
    have s: "side V A mc1" "rec_side V A r" by (rule get_mir_side [OF less.prems(1) 4(3)])+
    have q: "queue_vals V (mc_cvm mc1)" using s(1) by (simp add: side_def)
    obtain d where d: "v = Some d" "d \<in> V" "length d = unat k" using get_value_side(2) [OF q 4(9) refl] by blast
    obtain key msm2 where a: "r2 = r\<lparr>assigned_cmd_value := v, assigned_cmd_size := k, assigned_cmd_key := key\<rparr>"
        "msm = put_mir r2 msm2" "\<exists>s. msm2 = (mc_msm mc1)\<lparr>seq_number := s\<rparr>"
      using 4(5) by (auto simp: mcaster_storage_assign_value_def create_value_key_def res_eq_Inr Let_def)
    have "rec_side V A r2" unfolding a(1) using 4(4) by (intro rec_side_other) simp
    then have "side V A (mc1\<lparr>mc_cvm := cvm, mc_msm := msm, p1_ready_count := p1_ready_count mc1 - 1\<rparr>)"
      using s(1) get_value_side(1) [OF q 4(9)] a(2,3) by (auto simp: side_def)
    then have 1: "side V A mc2 \<and> out_ok V o1" by (rule phase2_side [OF _ _ d(2) _ 4(6)]) (simp_all add: a(1) d(1,3))
    let ?mc = "mc2\<lparr>highest_open_iid := highest_open_iid mc2 + 1\<rparr>"
    have cfg: "mc_cfg mc2 = mc_cfg mc" using mapping_then_phase2_cfg [OF 4(6)] get_mir_cfg [OF 4(3)] by simp
    from 4(8) show ?thesis
    proof (elim disjE conjE)
      assume "n + 1 < max_p2_open_per_iteration (mc_cfg mc2)" "p2_open_loop (n + 1) ?mc = Inr (n', mc', o2)"
      then have "side V A mc' \<and> out_ok V o2" using less.hyps [of ?mc "n + 1" o2] 1 cfg by simp
      then show ?thesis using 1 4(7) out_ok_append by simp
    qed (use 1 4(7) in simp)
  qed
qed

lemma periodic_side:
  assumes inv: "mc_inv cfg W A B mc" and side: "side V A mc" and run: "on_mcaster_periodic_check junk t1 t2 t3 mc = Inr (mc', out)"
  shows "side V (A \<union> keys_of out) mc' \<and> out_ok V out"
proof -
  obtain mc1 o1 mc2 o2 o3 n where r: "mcaster_open_new_instances_P1 (mc\<lparr>mcaster_clock := t1\<rparr>) = Inr (mc1, o1)"
      "mcaster_check_expired_instances junk (mc1\<lparr>mcaster_clock := t2\<rparr>) = Inr (mc2, o2)"
      "p2_open_loop 0 (mc2\<lparr>mcaster_clock := t3\<rparr>) = Inr (n, mc', o3)" "out = o1 @ o2 @ o3 @ [Flush]"
    using run by (auto simp: on_mcaster_periodic_check_def mcaster_update_wallclock_def mcaster_open_new_instances_P2_def res_eq_Inr)
  have 1: "mc_inv cfg (W \<union> maps_of o1) (A \<union> keys_of o1) B mc1"
    by (rule open_P1_inv [OF _ r(1)]) (simp add: inv)
  have s1: "side V A mc1 \<and> out_ok V o1" by (rule open_P1_side [OF _ r(1)]) (simp add: side)
  then have "side V (A \<union> keys_of o1) mc1" using side_mono by blast
  then have s2: "side V ((A \<union> keys_of o1) \<union> keys_of o2) mc2 \<and> out_ok V o2"
    using check_all_side [OF _ _ r(2), of cfg "W \<union> maps_of o1" "A \<union> keys_of o1" B] 1 by simp
  then have s3: "side V ((A \<union> keys_of o1) \<union> keys_of o2) mc' \<and> out_ok V o3" by (intro p2_open_side [OF _ r(3)]) simp
  then have "side V (A \<union> keys_of out) mc'" by (elim conjE side_mono) (auto simp: r(4))
  then show ?thesis using s1 s2 s3 r(4) out_ok_append by simp
qed

section \<open>The answers of the ring\<close>

lemma range_done_side: "side V A mc \<Longrightarrow> range_done_each is mc = Inr mc' \<Longrightarrow> side V A mc'"
proof (induction "is" arbitrary: mc)
  case (Cons i "is")
  obtain r msm where g: "mcaster_storage_get (mc_msm mc) i = Inr (r, msm)"
    and rest: "range_done_each is (save_mir (r\<lparr>mir_status := st_p1_done\<rparr>) (mc\<lparr>mc_msm := msm\<rparr>)) = Inr mc'"
    using Cons.prems(2) by (auto simp: res_eq_Inr)
  show ?case
    by (rule Cons.IH [OF side_save [OF storage_get_side(1) [OF Cons.prems(1) g]] rest]) (simp add: rec_side_other)
qed simp

lemma handle_range_side:
  assumes "side V A mc" "mcaster_handle_phase1_range_msg msg n mc = Inr (mc', out)"
  shows "side V A mc' \<and> out_ok V out"
  using assms range_done_side [of V A mc _ mc']
  by (auto simp: mcaster_handle_phase1_range_msg_def mcaster_do_phase1_range_def res_eq_Inr Let_def split: if_splits)

text \<open>An instance in phase 1 has no command, so a promise has only two effects, which do not depend on the
  command it reports.\<close>

lemma handle_phase1_cases:
  assumes "mc_inv cfg W A B mc" "get_mir (p1_inst msg) mc = Inr (r, mc1)"
  shows "mcaster_handle_phase1_msg junk msg n mc =
    rassert (n = PH1_MSG_SIZE msg) (
    if p1_inst msg \<le> highest_closed_iid mc \<or> \<not> is_own_ballot mc (p1_ballot msg) then Inr (mc, [])
    else if mir_status r \<noteq> st_p1_pending \<or> mir_ballot r \<noteq> p1_ballot msg then Inr (mc1, [])
    else if promises_count msg < quorum mc1
    then forget_mir (mcaster_do_phase1 junk mc1 (if highest_promised_ballot msg \<noteq> 0
           then r\<lparr>mir_ballot := raise_ballot (mir_ballot r) (highest_promised_ballot msg)\<rparr> else r))
    else Inr (save_mir (r\<lparr>mir_status := st_p1_done\<rparr>) mc1, []))"
proof -
  note s = get_mir_inv [OF assms]
  have "mir_status r = st_p1_pending \<Longrightarrow> assigned_cmd_value r = None"
    using stored_ok [OF s(1), of "mir_inst r"] s(2,3) by (simp add: mir_ok_def)
  then show ?thesis using assms(2) by (simp add: mcaster_handle_phase1_msg_def Let_def)
qed

lemma handle_phase1_side:
  assumes inv: "mc_inv cfg W A B mc" and side: "side V A mc" and run: "mcaster_handle_phase1_msg junk msg n mc = Inr (mc', out)"
  shows "side V A mc' \<and> out_ok V out"
proof (cases "p1_inst msg \<le> highest_closed_iid mc \<or> \<not> is_own_ballot mc (p1_ballot msg)")
  case True
  then have "mc' = mc \<and> out = []" using run by (auto simp: mcaster_handle_phase1_msg_def res_eq_Inr split: if_splits)
  then show ?thesis using side by simp
next
  case False
  obtain r mc1 where g: "get_mir (p1_inst msg) mc = Inr (r, mc1)"
    using run False by (auto simp: mcaster_handle_phase1_msg_def res_eq_Inr)
  note s = get_mir_side [OF side g]
  have done_side: "side V A (save_mir (r\<lparr>mir_status := st_p1_done\<rparr>) mc1)"
    by (rule side_save [OF s(1)]) (simp add: rec_side_other)
  show ?thesis
    using run False s(1) done_side do_phase1_side [OF s(1), of junk]
    unfolding handle_phase1_cases [OF inv g] by (auto simp: res_eq_Inr forget_mir_def split: if_splits)
qed

text \<open>A promise without what it reports of an accepted command.\<close>

definition drop_report :: "phase1_msg \<Rightarrow> phase1_msg" where
  "drop_report m = m\<lparr>highest_accepted_ballot := 0, p1_cmd_key := clear_cmd_key (p1_cmd_key m),
     p1_cmd_value := replicate (length (p1_cmd_value m)) 0\<rparr>"

lemma handle_phase1_drop:
  assumes inv: "mc_inv cfg W A B mc"
  shows "mcaster_handle_phase1_msg junk (drop_report msg) n mc = mcaster_handle_phase1_msg junk msg n mc"
proof -
  have same: "p1_inst (drop_report msg) = p1_inst msg" "p1_ballot (drop_report msg) = p1_ballot msg"
      "PH1_MSG_SIZE (drop_report msg) = PH1_MSG_SIZE msg" "promises_count (drop_report msg) = promises_count msg"
      "highest_promised_ballot (drop_report msg) = highest_promised_ballot msg"
    by (simp_all add: drop_report_def PH1_MSG_SIZE_def)
  show ?thesis
  proof (cases "get_mir (p1_inst msg) mc")
    case (Inl f)
    then show ?thesis by (simp add: mcaster_handle_phase1_msg_def same)
  next
    case (Inr g)
    then have g: "get_mir (p1_inst msg) mc = Inr (fst g, snd g)" "get_mir (p1_inst (drop_report msg)) mc = Inr (fst g, snd g)"
      by (simp_all add: same)
    show ?thesis unfolding handle_phase1_cases [OF inv g(1)] handle_phase1_cases [OF inv g(2)] same ..
  qed
qed

text \<open>Closing: the loop only passes instances whose acceptance was sent.\<close>

lemma close_loop_side: "side V A mc \<Longrightarrow> close_loop i mc = Inr mc' \<Longrightarrow> side V A mc'"
proof (induction i mc rule: close_loop.induct)
  case (1 i mc)
  let ?c = "highest_closed_iid mc + 1" and ?r = "mir_at i mc"
  show ?case
  proof (cases "mir_status ?r = st_done \<and> mir_inst ?r = ?c")
    case True
    have c0: "?c \<noteq> 0" and rest: "rbind (get_mir (?c + 1) (mc\<lparr>highest_closed_iid := ?c\<rparr>)) (\<lambda>r. close_loop (?c + 1) (snd r)) = Inr mc'"
      using "1.prems"(2) True by (simp_all add: close_loop.simps [of i mc] res_eq_Inr del: close_loop.simps)
    then obtain g where g: "get_mir (?c + 1) (mc\<lparr>highest_closed_iid := ?c\<rparr>) = Inr g" "close_loop (?c + 1) (snd g) = Inr mc'"
      by (auto simp: res_eq_Inr)
    have "rec_side V A ?r" using "1.prems"(1) by (simp add: side_def mir_at_def)
    then have "(?c, assigned_cmd_key ?r) \<in> A" using True by (simp add: rec_side_def)
    then have "?c \<in> fst ` A" by force
    moreover have nxt: "i \<le> highest_closed_iid mc \<or> i = ?c" if "i \<le> ?c" for i
      using that u64_less_Suc(2) [OF c0] unfolding word_le_nat_alt word_unat_eq_iff by linarith
    ultimately have closed: "i \<in> fst ` A" if "0 < i" "i \<le> ?c" for i
      using nxt [OF that(2)] that(1) "1.prems"(1) unfolding side_def by blast
    have "side V A (mc\<lparr>highest_closed_iid := ?c\<rparr>)" using "1.prems"(1) closed by (simp add: side_def)
    then have "side V A (snd g)" using get_mir_side(1) [of V A _ "?c + 1" "fst g" "snd g"] g(1) by simp
    with "1.IH" [OF True c0 g(1)] g(2) show ?thesis by simp
  next
    case False
    then show ?thesis using "1.prems" by (auto simp: close_loop.simps [of i mc])
  qed
qed

lemma handle_phase2_side:
  assumes side: "side V A mc" and run: "mcaster_handle_phase2_msg msg n mc = Inr (mc', out)"
  shows "side V (A \<union> keys_of out) mc' \<and> out_ok V out"
proof (cases "p2_inst msg \<le> highest_closed_iid mc")
  case True
  then have "mc' = mc \<and> out = []" using run by (auto simp: mcaster_handle_phase2_msg_def res_eq_Inr)
  then show ?thesis using side by simp
next
  case False
  obtain r mc1 where g: "get_mir (p2_inst msg) mc = Inr (r, mc1)"
    using run False by (auto simp: mcaster_handle_phase2_msg_def res_eq_Inr)
  note s = get_mir_side [OF side g]
  let ?r = "r\<lparr>mir_status := st_done\<rparr>"
  consider "mc' = mc1" "out = []"
    | r' where "mir_status r = st_p2_pending" "mapping_then_phase2 mc1 r = Inr (r', mc', out)"
    | "mir_status r = st_p2_pending" "close_loop (p2_inst msg) (save_mir ?r mc1) = Inr mc'"
      "out = [ToMulticast (acceptance \<lparr>am_inst = mir_inst r, am_cmd_key = assigned_cmd_key r\<rparr>)]"
    using run False g
    by (auto simp: mcaster_handle_phase2_msg_def mcaster_broadcast_acceptance_def forget_mir_def res_eq_Inr Let_def split: if_splits)
  then show ?thesis
  proof cases
    case 1
    then show ?thesis using s(1) by simp
  next
    case (2 r')
    show ?thesis using resend_side [OF s 2] side_mono by blast
  next
    case 3
    have "side V (A \<union> keys_of out) mc1" using s(1) side_mono by blast
    moreover have "rec_side V (A \<union> keys_of out) ?r" using s(2) 3(1,3) by (auto simp: rec_side_def)
    ultimately have "side V (A \<union> keys_of out) (save_mir ?r mc1)" by (rule side_save)
    then have "side V (A \<union> keys_of out) mc'" by (rule close_loop_side [OF _ 3(2)])
    then show ?thesis using 3(3) by simp
  qed
qed

section \<open>Requests and clients\<close>

lemma map_request_side:
  assumes inv: "mc_inv cfg W A B mc" and side: "side V A mc" and run: "map_request_one i mc = Inr (mc', out)"
  shows "side V A mc' \<and> out_ok V out"
proof -
  obtain r mc1 where g: "get_mir i mc = Inr (r, mc1)" using run by (auto simp: map_request_one_def res_eq_Inr)
  note s = get_mir_side [OF side g] and i = get_mir_inv [OF inv g]
  show ?thesis
  proof (cases "timer_is_expired (repeat_cmdmap_timeout r) (mcaster_clock mc1)")
    case True
    then obtain r' where "mcaster_broadcast_mapping mc1 r = Inr (r', mc', out)"
      using run g by (auto simp: map_request_one_def forget_mir_def res_eq_Inr)
    then obtain w u where e: "assigned_bytes r = Inr w" "r' = r\<lparr>repeat_cmdmap_timeout := u\<rparr>" "mc' = save_mir r' mc1"
        "out = [ToMulticast (command_map \<lparr>cm_inst = mir_inst r, cm_cmd_key = assigned_cmd_key r, cm_cmd_size = assigned_cmd_size r,
          cm_cmd_value = w\<rparr>)]"
      using broadcast_mapping_eq by blast
    have "mir_ok mc1 (i mod array_size (mc_msm mc1)) r" using stored_ok [OF i(1), of i] i(2) by simp
    then have "CMD_KEY_IS_NULL (assigned_cmd_key r) \<or> mir_status r \<in> {st_p2_pending, st_done}" by (auto simp: mir_ok_def)
    then have "CMD_KEY_IS_NULL (assigned_cmd_key r) \<or> w \<in> V" using s(2) has_value_bytes [of r] e(1) by (auto simp: rec_side_def)
    then have "out_ok V out" unfolding e(4) by (auto simp: out_ok_def proposals_of_def)
    moreover have "rec_side V A r'" using s(2) unfolding e(2) by (simp add: rec_side_def)
    ultimately show ?thesis using side_save [OF s(1)] e(3) by simp
  next
    case False
    then have "mc' = mc1 \<and> out = []" using run g by (simp add: map_request_one_def)
    then show ?thesis using s(1) by simp
  qed
qed

lemma chosenval_request_side:
  assumes "side V A mc" "chosenval_request_one i mc = Inr (mc', out)"
  shows "side V (A \<union> keys_of out) mc' \<and> out_ok V out"
proof -
  obtain r mc1 where g: "get_mir i mc = Inr (r, mc1)" using assms(2) by (auto simp: chosenval_request_one_def res_eq_Inr)
  have "mc' = mc1 \<and> out_ok V out"
    using assms(2) g by (auto simp: chosenval_request_one_def mcaster_broadcast_acceptance_def res_eq_Inr split: if_splits)
  then show ?thesis using get_mir_side(1) [OF assms(1) g] side_mono by blast
qed

lemma client_data_side:
  assumes "side V A mc" "client_values_mngr_handle_data m n mc = Inr mc'"
    and "\<And>sm v. m = client_submit sm \<Longrightarrow> mread (sc_cmd_value sm) 0 (unat (sc_cmd_size sm)) = Inr v \<Longrightarrow> v \<in> V"
  shows "side V A mc'"
proof (cases "\<exists>sm. m = client_submit sm")
  case True
  then obtain sm b cvm where m: "m = client_submit sm" "cvm_save_value (sc_cmd_value sm) (sc_cmd_size sm) (mc_cvm mc) = Inr (b, cvm)"
      "mc' = mc\<lparr>mc_cvm := cvm\<rparr>"
    using assms(2) by (auto simp: client_values_mngr_handle_data_def mcaster_handle_value_submit_def res_eq_Inr)
  have "queue_vals V (mc_cvm mc)" using assms(1) by (simp add: side_def)
  then have "queue_vals V cvm" using save_value_side [OF _ m(2)] assms(3) [OF m(1)] by blast
  then show ?thesis using side_cvm [OF assms(1)] m(3) by simp
next
  case False
  then show ?thesis using assms(1,2) by (cases m) (auto simp: client_values_mngr_handle_data_def)
qed

lemma multicaster_init_side:
  assumes "multicaster_init cfg = Inr mc"
  shows "side V {} mc"
proof -
  obtain q where "queue_init 250 = Some (q :: bytes lpqueue)" by (simp add: queue_init_def)
  then have mc: "mc_cvm mc = \<lparr>cv_queue = Some q, cv_initialized = True\<rparr>" "mc_msm mc = mcaster_storage_init cfg"
      "highest_closed_iid mc = 0" and q: "q_rep 250 q []"
    using assms queue_init_rep [of 250 q]
    by (auto simp: multicaster_init_def client_values_mngr_init_queue_def client_values_mngr_UDP_init_def res_eq_Inr Let_def)
  have "queue_vals V (mc_cvm mc)" using q unfolding mc(1) queue_vals_def by (auto intro!: exI [of _ "250 :: nat"] exI [of _ "[]"])
  moreover have "i \<noteq> 0" if "0 < i" for i :: u64 using that by auto
  ultimately show ?thesis
    unfolding side_def mc(2,3) by (auto simp: rec_side_def mcaster_storage_init_def mcaster_storage_clear_record_def)
qed

end
