(* ===== verification/McasterProps.thy ===== *)
theory McasterProps
  imports McasterValues
begin

text \<open>
  Runs of the multicaster, and what holds of everything it sends in a run. The messages it receives are
  arbitrary, apart from the instance numbers that learners ask mappings for.
\<close>

section \<open>Runs\<close>

text \<open>What happens to the multicaster: a message of the ring or of a client, with the size the receiver
  reports; the periodic check, with the times it reads; a reading of the clock before messages are
  received.\<close>

datatype mc_event =
    Ring_msg "ring_iid \<Rightarrow> command_id" ring_msg u64
  | Client_msg ring_msg u64
  | Periodic "ring_iid \<Rightarrow> command_id" timeval timeval timeval
  | Clock timeval

fun mc_step :: "mc_event \<Rightarrow> mcaster \<Rightarrow> mc_result" where
  "mc_step (Ring_msg junk m n) mc = mcaster_on_predecessor_msg junk m n mc"
| "mc_step (Client_msg m n) mc = rbind (client_values_mngr_handle_data m n mc) (\<lambda>mc. Inr (mc, []))"
| "mc_step (Periodic junk t1 t2 t3) mc = on_mcaster_periodic_check junk t1 t2 t3 mc"
| "mc_step (Clock t) mc = Inr (mcaster_update_wallclock t mc, [])"

text \<open>The multicaster runs until an assertion fails. The result is the last state and everything sent.\<close>

fun mc_run :: "mc_event list \<Rightarrow> mcaster \<Rightarrow> mcaster \<times> mc_out list" where
  "mc_run [] mc = (mc, [])"
| "mc_run (ev # evs) mc = (case mc_step ev mc of Inl f \<Rightarrow> (mc, [])
     | Inr (mc', out) \<Rightarrow> (let (mc2, out2) = mc_run evs mc' in (mc2, out @ out2)))"

text \<open>A request for a mapping must be for an instance number that the window of a learner can have.\<close>

fun valid_request :: "mc_event \<Rightarrow> bool" where
  "valid_request (Ring_msg junk (map_request m) n) = (\<forall>i \<in> set (rq_inst_number m). 0 < unat i \<and> unat i < 2 ^ 62)"
| "valid_request ev = True"

text \<open>The commands that a quorum accepted, as the messages that went around the ring say.\<close>

definition accepted_by_quorum :: "config_mngr \<Rightarrow> mc_event list \<Rightarrow> sent_keys" where
  "accepted_by_quorum cfg evs = {(p2_inst m, p2_cmd_key m) |junk m n. Ring_msg junk (phase2 m) n \<in> set evs
     \<and> (word_of_int (quorum_size cfg) :: u32) \<le> accepts_count m}"

lemma client_data_inv:
  assumes "mc_inv cfg W A B mc" "client_values_mngr_handle_data m n mc = Inr mc'"
  shows "mc_inv cfg W A B mc'"
  using assms
  by (cases m) (auto simp: client_values_mngr_handle_data_def mcaster_handle_value_submit_def res_eq_Inr)

lemma request_iids_subset: "request_iids msg = Inr is \<Longrightarrow> set is \<subseteq> set (rq_inst_number msg)"
  by (auto simp: request_iids_def res_eq_Inr dest: in_set_takeD)

lemma mc_step_inv:
  assumes inv: "mc_inv cfg W A B mc" and run: "mc_step ev mc = Inr (mc', out)" and v: "valid_request ev"
    and B: "accepted_by_quorum cfg [ev] \<subseteq> B"
  shows "mc_inv cfg (W \<union> maps_of out) (A \<union> keys_of out) B mc'"
proof (cases ev)
  case (Ring_msg junk m n)
  show ?thesis
  proof (cases m)
    case (phase1 msg)
    show ?thesis by (rule handle_phase1_inv [OF inv]) (use run Ring_msg phase1 in \<open>simp add: mcaster_on_predecessor_msg_def\<close>)
  next
    case (phase1_range msg)
    show ?thesis by (rule handle_range_inv [OF inv]) (use run Ring_msg phase1_range in \<open>simp add: mcaster_on_predecessor_msg_def\<close>)
  next
    case (phase2 msg)
    have "mc_cfg mc = cfg" by (rule mc_invD(1) [OF inv])
    then have "(p2_inst msg, p2_cmd_key msg) \<in> B" if "quorum mc \<le> accepts_count msg"
      using that B Ring_msg phase2 by (auto simp: accepted_by_quorum_def quorum_def)
    then show ?thesis
      by (intro handle_phase2_inv [OF inv]) (use run Ring_msg phase2 in \<open>simp_all add: mcaster_on_predecessor_msg_def\<close>)
  next
    case (map_request msg)
    obtain "is" where r: "request_iids msg = Inr is" "mc_each map_request_one is mc = Inr (mc', out)"
      using run Ring_msg map_request
      by (auto simp: mcaster_on_predecessor_msg_def mcaster_handle_map_request_def res_eq_Inr)
    show ?thesis
    proof (rule mc_each_inv [OF _ inv r(2)])
      fix i W A mc mc' out
      assume i: "i \<in> set is" and "mc_inv cfg W A B mc" "map_request_one i mc = Inr (mc', out)"
      moreover have "0 < unat i" "unat i < 2 ^ 62"
        using i request_iids_subset [OF r(1)] v Ring_msg map_request by auto
      ultimately show "mc_inv cfg (W \<union> maps_of out) (A \<union> keys_of out) B mc'" by (intro map_request_inv)
    qed
  next
    case (chosenval_request msg)
    obtain "is" where r: "mc_each chosenval_request_one is mc = Inr (mc', out)"
      using run Ring_msg chosenval_request
      by (auto simp: mcaster_on_predecessor_msg_def mcaster_handle_chosenval_request_def res_eq_Inr)
    show ?thesis by (rule mc_each_inv [OF _ inv r]) (rule chosenval_request_inv)
  qed (use run inv Ring_msg in \<open>simp_all add: mcaster_on_predecessor_msg_def\<close>)
next
  case (Client_msg m n)
  then obtain "client_values_mngr_handle_data m n mc = Inr mc'" "out = []" using run by (auto simp: res_eq_Inr)
  then show ?thesis using client_data_inv [OF inv] by simp
next
  case (Periodic junk t1 t2 t3)
  show ?thesis by (rule periodic_inv [OF inv]) (use run Periodic in simp)
next
  case (Clock t)
  then show ?thesis using run inv by (auto simp: mcaster_update_wallclock_def)
qed

lemma mc_run_inv:
  assumes "mc_inv cfg W A B mc" "\<forall>ev \<in> set evs. valid_request ev" "accepted_by_quorum cfg evs \<subseteq> B"
    "mc_run evs mc = (mc', out)"
  shows "mc_inv cfg (W \<union> maps_of out) (A \<union> keys_of out) B mc'"
  using assms
proof (induction evs arbitrary: W A mc out)
  case (Cons ev evs)
  show ?case
  proof (cases "mc_step ev mc")
    case (Inl f)
    then show ?thesis using Cons.prems by simp
  next
    case (Inr p)
    obtain mc1 o1 where p: "p = (mc1, o1)" by (cases p)
    obtain o2 where o2: "mc_run evs mc1 = (mc', o2)" "out = o1 @ o2"
      using Cons.prems(4) Inr p by (auto split: prod.splits)
    have sub: "accepted_by_quorum cfg [ev] \<subseteq> B" "accepted_by_quorum cfg evs \<subseteq> B"
      using Cons.prems(3) by (auto simp: accepted_by_quorum_def)
    have "mc_inv cfg (W \<union> maps_of o1) (A \<union> keys_of o1) B mc1"
      by (rule mc_step_inv [OF Cons.prems(1) _ _ sub(1)]) (use Inr p Cons.prems(2) in simp_all)
    then have "mc_inv cfg ((W \<union> maps_of o1) \<union> maps_of o2) ((A \<union> keys_of o1) \<union> keys_of o2) B mc'"
      by (rule Cons.IH [OF _ _ sub(2) o2(1)]) (use Cons.prems(2) in simp)
    then show ?thesis using o2(2) by (simp add: Un_assoc)
  qed
qed simp

lemma multicaster_init_inv:
  assumes "multicaster_init cfg = Inr mc"
  shows "mc_inv cfg {} {} B mc"
  using assms
  by (auto simp: multicaster_init_def res_eq_Inr mc_inv_def counters_ok_def mir_ok_def mcaster_storage_init_def
      mcaster_storage_clear_record_def zero_mir_def below_u32_def)

lemma mc_run_init_inv:
  assumes "multicaster_init cfg = Inr mc" "\<forall>ev \<in> set evs. valid_request ev"
  shows "mc_inv cfg (maps_of (snd (mc_run evs mc))) (keys_of (snd (mc_run evs mc))) (accepted_by_quorum cfg evs) (fst (mc_run evs mc))"
  using mc_run_inv [OF multicaster_init_inv [OF assms(1)] assms(2) order_refl prod.collapse [symmetric]] by simp

text \<open>The values that clients submit in a run, and a run in which no promise reports an accepted command.\<close>

definition submitted :: "mc_event list \<Rightarrow> bytes set" where
  "submitted evs = {v. \<exists>sm n. Client_msg (client_submit sm) n \<in> set evs
     \<and> mread (sc_cmd_value sm) 0 (unat (sc_cmd_size sm)) = Inr v}"

fun without_report :: "mc_event \<Rightarrow> mc_event" where
  "without_report (Ring_msg junk (phase1 m) n) = Ring_msg junk (phase1 (drop_report m)) n"
| "without_report ev = ev"

lemma mc_step_side:
  assumes inv: "mc_inv cfg W A B mc" and side: "side V A mc" and run: "mc_step ev mc = Inr (mc', out)"
    and v: "valid_request ev" and V: "submitted [ev] \<subseteq> V"
  shows "side V (A \<union> keys_of out) mc' \<and> out_ok V out"
proof (cases ev)
  case (Ring_msg junk m n)
  have grow: "side V (A \<union> keys_of out) mc' \<and> out_ok V out" if "side V A mc' \<and> out_ok V out"
    using that side_mono by blast
  show ?thesis
  proof (cases m)
    case (phase1 msg)
    show ?thesis
      by (rule grow [OF handle_phase1_side [OF inv side]]) (use run Ring_msg phase1 in \<open>simp add: mcaster_on_predecessor_msg_def\<close>)
  next
    case (phase1_range msg)
    show ?thesis
      by (rule grow [OF handle_range_side [OF side]]) (use run Ring_msg phase1_range in \<open>simp add: mcaster_on_predecessor_msg_def\<close>)
  next
    case (phase2 msg)
    show ?thesis
      by (rule handle_phase2_side [OF side]) (use run Ring_msg phase2 in \<open>simp add: mcaster_on_predecessor_msg_def\<close>)
  next
    case (map_request msg)
    obtain "is" where r: "request_iids msg = Inr is" "mc_each map_request_one is mc = Inr (mc', out)"
      using run Ring_msg map_request
      by (auto simp: mcaster_on_predecessor_msg_def mcaster_handle_map_request_def res_eq_Inr)
    have ok: "0 < unat i \<and> unat i < 2 ^ 62" if "i \<in> set is" for i
      using that request_iids_subset [OF r(1)] v Ring_msg map_request by auto
    show ?thesis
    proof (rule mc_each_side [OF _ _ inv side r(2)])
      fix i W A mc mc' out
      assume i: "i \<in> set is" "mc_inv cfg W A B mc" "map_request_one i mc = Inr (mc', out)"
      show "mc_inv cfg (W \<union> maps_of out) (A \<union> keys_of out) B mc'" by (rule map_request_inv [OF i(2,3)]) (use ok i(1) in simp_all)
      assume s: "side V A mc"
      show "side V (A \<union> keys_of out) mc' \<and> out_ok V out" using map_request_side [OF i(2) s i(3)] side_mono by blast
    qed
  next
    case (chosenval_request msg)
    obtain "is" where r: "mc_each chosenval_request_one is mc = Inr (mc', out)"
      using run Ring_msg chosenval_request
      by (auto simp: mcaster_on_predecessor_msg_def mcaster_handle_chosenval_request_def res_eq_Inr)
    show ?thesis
      by (rule mc_each_side [OF _ _ inv side r]) (rule chosenval_request_inv, assumption+, rule chosenval_request_side)
  qed (use run side Ring_msg in \<open>simp_all add: mcaster_on_predecessor_msg_def\<close>)
next
  case (Client_msg m n)
  then have r: "client_values_mngr_handle_data m n mc = Inr mc'" "out = []" using run by (auto simp: res_eq_Inr)
  have "side V A mc'" by (rule client_data_side [OF side r(1)]) (use V Client_msg in \<open>auto simp: submitted_def\<close>)
  then show ?thesis using r(2) by simp
next
  case (Periodic junk t1 t2 t3)
  show ?thesis by (rule periodic_side [OF inv side]) (use run Periodic in simp)
next
  case (Clock t)
  then show ?thesis using run side by (auto simp: mcaster_update_wallclock_def)
qed

lemma mc_run_side:
  assumes "mc_inv cfg W A B mc" "side V A mc" "\<forall>ev \<in> set evs. valid_request ev" "accepted_by_quorum cfg evs \<subseteq> B"
    "submitted evs \<subseteq> V" "mc_run evs mc = (mc', out)"
  shows "side V (A \<union> keys_of out) mc' \<and> out_ok V out"
  using assms
proof (induction evs arbitrary: W A mc out)
  case (Cons ev evs)
  show ?case
  proof (cases "mc_step ev mc")
    case (Inl f)
    then show ?thesis using Cons.prems by simp
  next
    case (Inr p)
    obtain mc1 o1 where p: "mc_step ev mc = Inr (mc1, o1)" using Inr by (cases p) simp
    obtain o2 where o2: "mc_run evs mc1 = (mc', o2)" "out = o1 @ o2"
      using Cons.prems(6) p by (auto split: prod.splits)
    have "submitted [ev] \<subseteq> submitted (ev # evs)" "submitted evs \<subseteq> submitted (ev # evs)" by (auto simp: submitted_def)
    moreover have "accepted_by_quorum cfg [ev] \<subseteq> accepted_by_quorum cfg (ev # evs)"
        "accepted_by_quorum cfg evs \<subseteq> accepted_by_quorum cfg (ev # evs)" by (auto simp: accepted_by_quorum_def)
    ultimately have sub: "accepted_by_quorum cfg [ev] \<subseteq> B" "accepted_by_quorum cfg evs \<subseteq> B" "submitted [ev] \<subseteq> V" "submitted evs \<subseteq> V"
        "valid_request ev"
      using Cons.prems(3-5) by auto
    have 1: "mc_inv cfg (W \<union> maps_of o1) (A \<union> keys_of o1) B mc1" by (rule mc_step_inv [OF Cons.prems(1) p sub(5,1)])
    have 2: "side V (A \<union> keys_of o1) mc1 \<and> out_ok V o1" by (rule mc_step_side [OF Cons.prems(1,2) p sub(5,3)])
    have "side V ((A \<union> keys_of o1) \<union> keys_of o2) mc' \<and> out_ok V o2"
      by (rule Cons.IH [OF 1 _ _ sub(2,4) o2(1)]) (use Cons.prems(3) 2 in simp_all)
    then show ?thesis using 2 o2(2) out_ok_append by (simp add: Un_assoc)
  qed
qed simp

lemma mc_run_without_report:
  assumes "mc_inv cfg W A B mc" "\<forall>ev \<in> set evs. valid_request ev" "accepted_by_quorum cfg evs \<subseteq> B"
  shows "mc_run (map without_report evs) mc = mc_run evs mc"
  using assms
proof (induction evs arbitrary: W A mc)
  case (Cons ev evs)
  have same: "mc_step (without_report ev) mc = mc_step ev mc"
    by (cases ev rule: without_report.cases) (simp_all add: mcaster_on_predecessor_msg_def handle_phase1_drop [OF Cons.prems(1)])
  have sub: "accepted_by_quorum cfg [ev] \<subseteq> B" "accepted_by_quorum cfg evs \<subseteq> B" "valid_request ev"
    using Cons.prems(2,3) by (auto simp: accepted_by_quorum_def)
  have "mc_run (map without_report evs) mc1 = mc_run evs mc1" if "mc_step ev mc = Inr (mc1, o1)" for mc1 o1
    by (rule Cons.IH [OF mc_step_inv [OF Cons.prems(1) that sub(3,1)] _ sub(2)]) (use Cons.prems(2) in simp)
  then show ?case by (auto simp: same split: sum.splits)
qed simp

lemma mc_run_init_side:
  assumes "multicaster_init cfg = Inr mc" "\<forall>ev \<in> set evs. valid_request ev"
  shows "side (submitted evs) (keys_of (snd (mc_run evs mc))) (fst (mc_run evs mc)) \<and> out_ok (submitted evs) (snd (mc_run evs mc))"
  using mc_run_side [OF multicaster_init_inv [OF assms(1)] multicaster_init_side [OF assms(1)] assms(2) order_refl order_refl
      prod.collapse [symmetric]] by simp

section \<open>Examples\<close>

text \<open>A window is opened, the ring promises it, a client submits a value, which is proposed and accepted. In
  the second run, the acceptors answer phase 1 with a command they accepted earlier.\<close>

definition example_cfg :: config_mngr where
  "example_cfg = zero_config\<lparr>self_acceptor_id := 1, acceptors_count := 3, quorum_size := 2, working_set_size := 8,
     max_active_instances := 2, preexecution_window_size := 2, max_p2_open_per_iteration := 1, cfg_initialized := True\<rparr>"

definition example_mcaster :: mcaster where
  "example_mcaster = (case multicaster_init example_cfg of Inr mc \<Rightarrow> mc)"

lemma example_init: "multicaster_init example_cfg = Inr example_mcaster"
  by (simp add: example_mcaster_def multicaster_init_def client_values_mngr_init_queue_def client_values_mngr_UDP_init_def
      queue_init_def)

definition no_key :: command_id where
  "no_key = \<lparr>mcaster_id = 0, mcaster_incarnation = 0, cmd_seqnum = 0\<rparr>"

definition first_key :: command_id where
  "first_key = \<lparr>mcaster_id = 1, mcaster_incarnation = 0, cmd_seqnum = 1\<rparr>"

definition foreign_key :: command_id where
  "foreign_key = \<lparr>mcaster_id = 2, mcaster_incarnation = 0, cmd_seqnum = 9\<rparr>"

definition range_answer :: phase1_range_msg where
  "range_answer = \<lparr>pr_from = 1, pr_to = 2, pr_ballot = 0x10100, pr_promises_count = 2\<rparr>"

definition foreign_answer :: phase1_msg where
  "foreign_answer = \<lparr>p1_inst = 1, p1_ballot = 0x10100, promises_count = 2, highest_accepted_ballot = 0x10200,
     highest_promised_ballot = 0, p1_cmd_key = foreign_key, p1_cmd_size = 1, p1_cmd_value = [5]\<rparr>"

definition run_after :: "mc_event \<Rightarrow> mc_event list" where
  "run_after answer = [Periodic (\<lambda>_. no_key) (Timeval 1 0) (Timeval 1 0) (Timeval 1 0), answer,
     Client_msg (client_submit \<lparr>sc_cmd_size = 3, sc_cmd_value = [7, 8, 9]\<rparr>) 11,
     Periodic (\<lambda>_. no_key) (Timeval 2 0) (Timeval 2 0) (Timeval 2 0),
     Ring_msg (\<lambda>_. no_key) (phase2 \<lparr>p2_inst = 1, p2_ballot = 0x10100, accepts_count = 2, p2_cmd_key = first_key\<rparr>)
       sizeof_phase2_msg]"

definition example_run :: "mc_event list" where
  "example_run = run_after (Ring_msg (\<lambda>_. no_key) (phase1_range range_answer) sizeof_phase1_range_msg)"

definition foreign_run :: "mc_event list" where
  "foreign_run = run_after (Ring_msg (\<lambda>_. no_key) (phase1 foreign_answer) (PH1_MSG_SIZE foreign_answer))"

lemmas table_defs = Let_def get_mir_def mcaster_storage_get_def save_mir_def put_mir_def mc_iids_def mc_iids32_def below_u32_def
  mcaster_storage_assign_value_def create_value_key_def mcaster_storage_clear_record_def zero_mir_def clear_cmd_key_def
  upt_rec unsigned_ucast_eq take_bit_eq_mod mir_at_def
lemmas send_defs = mcaster_do_phase1_def mapping_then_phase2_def mcaster_broadcast_mapping_def mcaster_do_phase2_def assigned_bytes_def
  mcaster_do_phase1_range_def mcaster_broadcast_acceptance_def forget_mir_def mread_def MAX_MESSAGE_SIZE_def MAX_TCP_PAYLOAD_def
  sizeof_cmdmap_msg_def
lemmas handler_defs = on_mcaster_periodic_check_def mcaster_update_wallclock_def mcaster_open_new_instances_P1_def
  mcaster_check_expired_instances_def check_expired_one_def mcaster_open_new_instances_P2_def p2_open_loop.simps [of 0]
  mcaster_on_predecessor_msg_def mcaster_handle_phase1_range_msg_def mcaster_handle_phase1_msg_def mcaster_handle_phase2_msg_def
  close_loop.simps [of 1] close_loop.simps [of 2]
  client_values_mngr_handle_data_def mcaster_handle_value_submit_def cvm_save_value_def cvm_get_next_value_def on_cv_queue_def
  is_own_ballot_def quorum_def make_first_ballot_def is_my_ballot_def lpconfig_get_incarnation_number_def
lemmas init_defs = multicaster_init_def client_values_mngr_init_queue_def client_values_mngr_UDP_init_def queue_init_def
  mcaster_storage_init_def example_mcaster_def example_cfg_def zero_config_def
lemmas queue_defs = queue_append_def queue_pop_def set_element_def get_element_def next_index_def MAX_QUEUE_SIZE_BYTES_def
  SUBMIT_CMD_MSG_SIZE_def null_element_def sizeof_phase2_msg_def sizeof_phase1_range_msg_def timer_set_timeout_def timer_is_expired_def
  first_key_def no_key_def
lemmas run_defs = example_run_def foreign_run_def run_after_def range_answer_def foreign_answer_def foreign_key_def

lemma example_out: "maps_of (snd (mc_run example_run example_mcaster)) = {(1, first_key, [7, 8, 9])}
    \<and> keys_of (snd (mc_run example_run example_mcaster)) = {(1, first_key)}"
  by (simp add: run_defs table_defs send_defs handler_defs init_defs queue_defs)

lemma foreign_out: "maps_of (snd (mc_run foreign_run example_mcaster)) = {(1, first_key, [7, 8, 9])}"
  by (simp add: run_defs table_defs send_defs handler_defs init_defs queue_defs)

section \<open>Properties\<close>

text \<open>C8. Whatever the multicaster receives: it chooses at most one command for an instance, and only one
  that a quorum accepted; it maps a command of an instance to one value; all instance numbers and values
  are in the bounds that the learners rely on.\<close>

theorem mcaster_consistent:
  assumes "multicaster_init cfg = Inr mc" "\<forall>ev \<in> set evs. valid_request ev" "out = snd (mc_run evs mc)"
  shows "(\<forall>i k l. (i, k) \<in> keys_of out \<and> (i, l) \<in> keys_of out \<longrightarrow> k = l)
    \<and> (\<forall>i k v w. (i, k, v) \<in> maps_of out \<and> (i, k, w) \<in> maps_of out \<longrightarrow> v = w)
    \<and> keys_of out \<subseteq> accepted_by_quorum cfg evs
    \<and> (\<forall>i k v. (i, k, v) \<in> maps_of out \<longrightarrow> 0 < unat i \<and> unat i < 2 ^ 62 \<and> length v \<le> MAX_MESSAGE_SIZE)"
proof -
  have inv: "mc_inv cfg (maps_of out) (keys_of out) (accepted_by_quorum cfg evs) (fst (mc_run evs mc))"
    unfolding assms(3) by (rule mc_run_init_inv [OF assms(1,2)])
  have "0 < unat i \<and> unat i < 2 ^ 62 \<and> length v \<le> MAX_MESSAGE_SIZE" if "(i, k, v) \<in> maps_of out" for i k v
    using mc_invD(5) [OF inv that] by (simp add: sent_map_ok_def)
  then show ?thesis using mc_invD(7-9) [OF inv] by blast
qed

theorem mcaster_consistent_witness:
  "keys_of (snd (mc_run example_run example_mcaster)) = {(1, first_key)} \<and> {(1, first_key)} \<subseteq> accepted_by_quorum example_cfg example_run"
  using mcaster_consistent [OF example_init _ refl, of example_run] example_out by (simp add: example_run_def run_after_def)

text \<open>C31. The window: at most \<^verbatim>\<open>max_active_instances\<close> instances are open for phase 2,
  only after they were open for phase 1, and they are closed without a gap, each only after the acceptance of
  a command was sent for it, one that a quorum accepted.\<close>

theorem mcaster_window:
  assumes "multicaster_init cfg = Inr mc" "\<forall>ev \<in> set evs. valid_request ev" "mc' = fst (mc_run evs mc)"
  shows "highest_closed_iid mc' \<le> highest_open_iid mc' \<and> highest_open_iid mc' \<le> p1_highest_open mc'
    \<and> unat (highest_open_iid mc') - unat (highest_closed_iid mc') \<le> window_size cfg
    \<and> (\<forall>i. 0 < i \<and> i \<le> highest_closed_iid mc' \<longrightarrow>
         (\<exists>k. (i, k) \<in> keys_of (snd (mc_run evs mc)) \<and> (i, k) \<in> accepted_by_quorum cfg evs))"
proof -
  note inv = mc_run_init_inv [OF assms(1,2)]
  have "counters_ok mc'" "mc_cfg mc' = cfg" unfolding assms(3) by (rule mc_invD(2) [OF inv], rule mc_invD(1) [OF inv])
  moreover have "\<exists>k. (i, k) \<in> keys_of (snd (mc_run evs mc)) \<and> (i, k) \<in> accepted_by_quorum cfg evs"
    if "0 < i" "i \<le> highest_closed_iid mc'" for i
    using that mc_run_init_side [OF assms(1,2)] mc_invD(9) [OF inv] unfolding assms(3) side_def by fastforce
  ultimately show ?thesis by (simp add: counters_ok_def)
qed

theorem mcaster_window_witness:
  "highest_closed_iid (fst (mc_run example_run example_mcaster)) = 1
    \<and> unat (highest_open_iid (fst (mc_run example_run example_mcaster))) - 1 \<le> 2
    \<and> (\<exists>k. (1, k) \<in> keys_of (snd (mc_run example_run example_mcaster)) \<and> (1, k) \<in> accepted_by_quorum example_cfg example_run)"
proof -
  have 1: "highest_closed_iid (fst (mc_run example_run example_mcaster)) = 1"
    by (simp add: run_defs table_defs send_defs handler_defs init_defs queue_defs)
  have "window_size example_cfg = 2" by (simp add: window_size_def example_cfg_def zero_config_def)
  then show ?thesis using mcaster_window [OF example_init _ refl, of example_run] 1
    by (simp add: example_run_def run_after_def)
qed

text \<open>C32. A command that acceptors report in phase 1 is dropped: the run is the same as one in which no
  promise reports an accepted command. Every command the multicaster maps has its own id as creator and a
  value that a client submitted in this run, and it proposes only commands that it maps. So after a change of
  the multicaster it proposes another command where one may already have been chosen.\<close>

theorem mcaster_proposes_own_commands:
  assumes "multicaster_init cfg = Inr mc" "\<forall>ev \<in> set evs. valid_request ev" "out = snd (mc_run evs mc)"
  shows "mc_run (map without_report evs) mc = mc_run evs mc
    \<and> (\<forall>i k v. (i, k, v) \<in> maps_of out \<and> \<not> CMD_KEY_IS_NULL k \<longrightarrow> mcaster_id k = self_acceptor_id cfg \<and> v \<in> submitted evs)
    \<and> (\<forall>m \<in> proposals_of out. \<exists>v \<in> submitted evs. (p2_inst m, p2_cmd_key m, v) \<in> maps_of out)"
proof (intro conjI)
  show "mc_run (map without_report evs) mc = mc_run evs mc"
    by (rule mc_run_without_report [OF multicaster_init_inv [OF assms(1)] assms(2) order_refl])
qed (use mc_invD(10) [OF mc_run_init_inv [OF assms(1,2)]] mc_run_init_side [OF assms(1,2)] in
    \<open>unfold assms(3) out_ok_def, blast+\<close>)

theorem mcaster_proposes_own_commands_witness:
  "mc_run (map without_report foreign_run) example_mcaster = mc_run foreign_run example_mcaster
    \<and> (1, first_key, [7, 8, 9]) \<in> maps_of (snd (mc_run foreign_run example_mcaster)) \<and> [7, 8, 9] \<in> submitted foreign_run"
proof -
  have "\<not> CMD_KEY_IS_NULL first_key" by (simp add: CMD_KEY_IS_NULL_def first_key_def)
  then show ?thesis using mcaster_proposes_own_commands [OF example_init _ refl, of foreign_run] foreign_out
    by (simp add: foreign_run_def run_after_def)
qed

text \<open>A second answer for a range of instances: after the first one, none of them waits for promises.\<close>

definition promised_slot :: "ring_iid \<Rightarrow> mcaster \<Rightarrow> bool" where
  "promised_slot i mc \<longleftrightarrow> i \<le> mir_inst (mir_at i mc) \<and> (mir_inst (mir_at i mc) = i \<longrightarrow> mir_status (mir_at i mc) = st_p1_done)"

lemma range_done_step:
  assumes "range_done_each (j # is) mc = Inr mc'"
  obtains "mir_inst (mir_at j mc) = j" "mir_status (mir_at j mc) = st_p1_pending"
    "range_done_each is (save_mir ((mir_at j mc)\<lparr>mir_status := st_p1_done\<rparr>) mc) = Inr mc'"
    "msm_initialized (mc_msm mc)" "array_size (mc_msm mc) \<noteq> 0"
proof -
  obtain r msm where g: "mcaster_storage_get (mc_msm mc) j = Inr (r, msm)" "mir_inst r = j" "mir_status r = st_p1_pending"
    and rest: "range_done_each is (save_mir (r\<lparr>mir_status := st_p1_done\<rparr>) (mc\<lparr>mc_msm := msm\<rparr>)) = Inr mc'"
    using assms by (auto simp: res_eq_Inr)
  have "mir_status r = st_ready \<or> r = mir_at j mc \<and> msm = mc_msm mc \<and> msm_initialized (mc_msm mc) \<and> array_size (mc_msm mc) \<noteq> 0"
    using g(1) by (auto simp: mcaster_storage_get_def mir_at_def res_eq_Inr Let_def split: if_splits)
  then have e: "r = mir_at j mc" "msm = mc_msm mc" "msm_initialized (mc_msm mc)" "array_size (mc_msm mc) \<noteq> 0"
    using g(3) by auto
  show ?thesis by (rule that) (use g(2,3) rest e(3,4) in \<open>simp_all add: e(1,2)\<close>)
qed

lemma mir_at_save: "mir_at i (save_mir r mc) = (if i mod array_size (mc_msm mc) = mir_inst r mod array_size (mc_msm mc) then r else mir_at i mc)"
  by (simp add: mir_at_def)

lemma range_done_keeps:
  assumes "range_done_each is mc = Inr mc'" "promised_slot i mc" "0 < i"
  shows "promised_slot i mc' \<and> array_size (mc_msm mc') = array_size (mc_msm mc) \<and> highest_closed_iid mc' = highest_closed_iid mc
    \<and> mc_cfg mc' = mc_cfg mc \<and> msm_initialized (mc_msm mc') = msm_initialized (mc_msm mc)"
  using assms
proof (induction "is" arbitrary: mc)
  case (Cons j "is")
  from Cons.prems(1) show ?case
  proof (cases rule: range_done_step)
    case 1
    let ?r = "(mir_at j mc)\<lparr>mir_status := st_p1_done\<rparr>"
    have "promised_slot i (save_mir ?r mc)"
    proof (cases "i mod array_size (mc_msm mc) = j mod array_size (mc_msm mc)")
      case True
      then have "mir_inst (mir_at i mc) = j" using 1(1) by (simp add: mir_at_def)
      then have "i \<le> j" using Cons.prems(2) by (auto simp: promised_slot_def)
      have at: "mir_at i (save_mir ?r mc) = ?r" using True 1(1) by (simp add: mir_at_save)
      show ?thesis unfolding promised_slot_def at using \<open>i \<le> j\<close> 1(1) by simp
    next
      case False
      then show ?thesis using Cons.prems(2) 1(1) by (simp add: promised_slot_def mir_at_save)
    qed
    from Cons.IH [OF 1(3) this Cons.prems(3)] show ?thesis by simp
  qed
qed simp

lemma promised_slot_fails:
  assumes "promised_slot i mc" "0 < i" "msm_initialized (mc_msm mc)" "array_size (mc_msm mc) \<noteq> 0"
  shows "range_done_each (i # is) mc = Inl AssertFailed"
proof (cases "mir_inst (mir_at i mc) = i")
  case True
  then show ?thesis using assms by (simp add: promised_slot_def mcaster_storage_get_def mir_at_def Let_def)
next
  case False
  then have "i < mir_inst (mir_at i mc)" using assms(1) by (auto simp: promised_slot_def)
  moreover from this have "mir_inst (mir_at i mc) \<noteq> 0" "\<not> mir_inst (mir_at i mc) < i" by auto
  ultimately show ?thesis using assms(3,4) by (simp add: mcaster_storage_get_def mir_at_def Let_def)
qed

text \<open>The network may deliver the answer of the ring to a range of instances twice. The second one makes the
  multicaster fail an assertion.\<close>

theorem second_range_answer_aborts:
  assumes "mcaster_handle_phase1_range_msg msg n mc = Inr (mc', out)" "is_own_ballot mc (pr_ballot msg)"
    and "quorum mc \<le> pr_promises_count msg" "pr_from msg \<le> pr_to msg"
  shows "mcaster_handle_phase1_range_msg msg n mc' = Inl AssertFailed"
proof -
  let ?from = "pr_from msg"
  have q: "\<not> pr_promises_count msg < quorum mc" using assms(3) by simp
  have c: "n = sizeof_phase1_range_msg" "highest_closed_iid mc < ?from" "below_u32 (pr_to msg)"
    and run: "range_done_each (mc_iids32 ?from (pr_to msg)) mc = Inr mc'"
    using assms(1,2) q by (auto simp: mcaster_handle_phase1_range_msg_def res_eq_Inr Let_def)
  have le: "unat ?from \<le> unat (pr_to msg)" "unat (pr_to msg) < 2 ^ 32 - 1"
    using assms(4) c(3) by (simp_all add: word_le_nat_alt below_u32_def)
  then have "unat (ucast ?from :: u32) = unat ?from" by (simp add: unsigned_ucast_eq take_bit_eq_mod)
  moreover have "[unat ?from ..< Suc (unat (pr_to msg))] = unat ?from # [Suc (unat ?from) ..< Suc (unat (pr_to msg))]"
    by (rule upt_conv_Cons) (use le(1) in simp)
  ultimately obtain "is" where ids: "mc_iids32 ?from (pr_to msg) = ?from # is"
    by (simp add: mc_iids32_def del: upt_Suc)
  have "0 < ?from" using c(2) by (metis le_less_trans word_zero_le)
  from run [unfolded ids] show ?thesis
  proof (cases rule: range_done_step)
    case 1
    have "promised_slot ?from (save_mir ((mir_at ?from mc)\<lparr>mir_status := st_p1_done\<rparr>) mc)"
      using 1(1) by (simp add: promised_slot_def mir_at_save)
    from range_done_keeps [OF 1(3) this \<open>0 < ?from\<close>]
    have k: "promised_slot ?from mc'" "msm_initialized (mc_msm mc')" "array_size (mc_msm mc') \<noteq> 0"
      "highest_closed_iid mc' = highest_closed_iid mc" "mc_cfg mc' = mc_cfg mc"
      using 1(4,5) by simp_all
    have "range_done_each (mc_iids32 ?from (pr_to msg)) mc' = Inl AssertFailed"
      unfolding ids by (rule promised_slot_fails [OF k(1) \<open>0 < ?from\<close> k(2,3)])
    then show ?thesis using c assms(2) q k(4,5)
      by (simp add: mcaster_handle_phase1_range_msg_def is_own_ballot_def quorum_def Let_def)
  qed
qed

definition opened_mcaster :: mcaster where
  "opened_mcaster = fst (mc_run [Periodic (\<lambda>_. no_key) (Timeval 1 0) (Timeval 1 0) (Timeval 1 0)] example_mcaster)"

theorem second_range_answer_aborts_witness:
  "\<exists>mc. mcaster_handle_phase1_range_msg range_answer sizeof_phase1_range_msg opened_mcaster = Inr (mc, [])
    \<and> mcaster_handle_phase1_range_msg range_answer sizeof_phase1_range_msg mc = Inl AssertFailed"
proof -
  have own: "is_own_ballot opened_mcaster (pr_ballot range_answer)" "quorum opened_mcaster \<le> pr_promises_count range_answer"
    by (simp_all add: opened_mcaster_def run_defs table_defs send_defs handler_defs init_defs queue_defs)
  obtain mc where "mcaster_handle_phase1_range_msg range_answer sizeof_phase1_range_msg opened_mcaster = Inr (mc, [])"
    by (simp add: opened_mcaster_def run_defs table_defs send_defs handler_defs init_defs queue_defs)
  with second_range_answer_aborts [OF this own] show ?thesis by (auto simp: range_answer_def)
qed

end
