(* ===== verification/RingSystem.thy ===== *)
theory RingSystem
  imports RingAcceptorSpec McasterProps RingTopology
begin

text \<open>
  The whole ring of \<^verbatim>\<open>ring_paxos\<close>: the multicaster is acceptor 1, the acceptors 2 to n
  forward to their successors (\<^verbatim>\<open>lib/topology_manager.c\<close>), and the last one to the
  multicaster; what the multicaster multicasts reaches every acceptor. The network may lose, repeat, delay
  and reorder messages: a link keeps everything that was ever sent on it, and a process may receive any of
  it at any time. A process that fails an assertion does nothing from then on: its steps change nothing.
  Clients may send anything, and so may learners, who send their requests to the multicaster.
\<close>

record ring_sys =
  sys_mc :: mcaster
  sys_acc :: "nat \<Rightarrow> ring_acceptor"
  link_to :: "nat \<Rightarrow> ring_msg list"
  mcast_sent :: "ring_msg list"

definition successor :: "config_mngr \<Rightarrow> nat \<Rightarrow> nat" where
  "successor cfg j = (case lptopo_get_successor_id (cfg\<lparr>self_acceptor_id := word_of_nat j\<rparr>) of
     Inl f \<Rightarrow> 0 | Inr i \<Rightarrow> unat i)"

datatype sys_event = Mc mc_event | Acc nat ring_event

fun is_request :: "ring_msg \<Rightarrow> bool" where
  "is_request (map_request m) = True"
| "is_request (chosenval_request m) = True"
| "is_request m = False"

fun can_receive :: "config_mngr \<Rightarrow> ring_sys \<Rightarrow> sys_event \<Rightarrow> bool" where
  "can_receive cfg s (Mc (Ring_msg junk m n)) \<longleftrightarrow> is_request m \<or> m \<in> set (link_to s 1)"
| "can_receive cfg s (Mc ev) \<longleftrightarrow> True"
| "can_receive cfg s (Acc j (FromPredecessor junk m n)) \<longleftrightarrow> 2 \<le> j \<and> int j \<le> acceptors_count cfg \<and> m \<in> set (link_to s j)"
| "can_receive cfg s (Acc j (FromMulticast m n)) \<longleftrightarrow> 2 \<le> j \<and> int j \<le> acceptors_count cfg \<and> m \<in> set (mcast_sent s)"

definition to_successor :: "mc_out list \<Rightarrow> ring_msg list" where
  "to_successor out = concat (map (\<lambda>x. case x of ToSuccessor m \<Rightarrow> [m] | _ \<Rightarrow> []) out)"

definition to_multicast :: "mc_out list \<Rightarrow> ring_msg list" where
  "to_multicast out = concat (map (\<lambda>x. case x of ToMulticast m \<Rightarrow> [m] | _ \<Rightarrow> []) out)"

definition send_on :: "nat \<Rightarrow> ring_msg list \<Rightarrow> ring_sys \<Rightarrow> ring_sys" where
  "send_on j ms s = s\<lparr>link_to := (link_to s)(j := link_to s j @ ms)\<rparr>"

fun sys_do :: "config_mngr \<Rightarrow> sys_event \<Rightarrow> ring_sys \<Rightarrow> ring_sys" where
  "sys_do cfg (Mc ev) s = (case mc_step ev (sys_mc s) of Inl f \<Rightarrow> s
     | Inr (mc, out) \<Rightarrow> send_on (successor cfg 1) (to_successor out)
         (s\<lparr>sys_mc := mc, mcast_sent := mcast_sent s @ to_multicast out\<rparr>))"
| "sys_do cfg (Acc j ev) s = (case ring_event_step (word_of_nat j) ev (sys_acc s j) of Inl f \<Rightarrow> s
     | Inr (acc, out) \<Rightarrow> send_on (successor cfg j) out (s\<lparr>sys_acc := (sys_acc s)(j := acc)\<rparr>))"

definition sys_step :: "config_mngr \<Rightarrow> sys_event \<Rightarrow> ring_sys \<Rightarrow> ring_sys" where
  "sys_step cfg ev s = (if can_receive cfg s ev then sys_do cfg ev s else s)"

definition sys_run :: "config_mngr \<Rightarrow> sys_event list \<Rightarrow> ring_sys \<Rightarrow> ring_sys" where
  "sys_run cfg evs s = fold (sys_step cfg) evs s"

definition sys_init :: "config_mngr \<Rightarrow> mcaster \<Rightarrow> ring_sys" where
  "sys_init cfg mc = \<lparr>sys_mc = mc, sys_acc = (\<lambda>j. regular_acceptor_init (word_of_int (working_set_size cfg))),
     link_to = (\<lambda>j. []), mcast_sent = []\<rparr>"

text \<open>What was mapped and chosen, as the learners can see it; what the record of an acceptor holds.\<close>

definition mapped_by :: "ring_sys \<Rightarrow> sent_maps" where
  "mapped_by s = {(cm_inst m, cm_cmd_key m, cm_cmd_value m) |m. command_map m \<in> set (mcast_sent s)}"

definition chosen_by :: "ring_sys \<Rightarrow> sent_keys" where
  "chosen_by s = {(am_inst m, am_cmd_key m) |m. acceptance m \<in> set (mcast_sent s)}"

definition has_accepted :: "ring_acceptor \<Rightarrow> ring_iid \<Rightarrow> command_id \<Rightarrow> ring_ballot \<Rightarrow> bool" where
  "has_accepted acc i k b \<longleftrightarrow>
     (let ir = instances_array (ssm acc) (record_index (ssm acc) i)
      in ir_inst ir = i \<and> accepted_cmd_key ir = k \<and> accept_ballot ir = b)"

end
