(* ===== verification/RingRange.thy ===== *)
theory RingRange
  imports RingAcceptorSpec
begin

text \<open>
  Phase 1 for a range of instances (\<^verbatim>\<open>acceptor_handle_phase1_range_msg\<close>): when none
  of them was seen before, the acceptor promises them in one pass over its records and sends one message. That is
  equivalent to handling a phase 1 message for each instance, which is what it does otherwise.
\<close>

text \<open>No record was accepted in a higher ballot than it was promised.\<close>

definition accepts_promised :: "stable_storage_mngr \<Rightarrow> bool" where
  "accepts_promised s \<longleftrightarrow> (\<forall>x. accept_ballot (instances_array s x) \<le> ir_ballot (instances_array s x))"

lemma get_record_promised:
  assumes "ssm_get_record s i = Inr (ir, s')" "accepts_promised s"
  shows "accepts_promised s' \<and> accept_ballot ir \<le> ir_ballot ir"
  using assms
  by (auto simp: ssm_get_record_def accepts_promised_def res_eq_Inr Let_def ssm_archive_record_def ssm_get_archived_record_def
      clear_instance_record_def split: if_splits)

lemma put_ir_promised: "accepts_promised s \<Longrightarrow> accept_ballot ir \<le> ir_ballot ir \<Longrightarrow> accepts_promised (put_ir i ir s)"
  by (simp add: accepts_promised_def)

definition promise_msg :: "phase1_range_msg \<Rightarrow> ring_iid \<Rightarrow> ring_msg" where
  "promise_msg m i = phase1 ((p1_temp_msg m i)\<lparr>promises_count := pr_promises_count m + 1\<rparr>)"

lemma promise_one:
  assumes g: "ssm_get_record (ssm acc) i = Inr (ir, s)" "ir_inst ir = i" "ir_ballot ir = 0" "accept_ballot ir = 0"
    and u: "ssm_initialized s" and i: "highest_instance_seen acc < i"
  shows "acceptor_handle_phase1_msg junk (p1_temp_msg m i) (PH1_MSG_SIZE (p1_temp_msg m i)) acc
    = Inr (acc\<lparr>ssm := put_ir i (ir\<lparr>ir_ballot := pr_ballot m\<rparr>) s, highest_instance_seen := i\<rparr>, [promise_msg m i])"
  using assms
  by (simp add: acceptor_handle_phase1_msg_def p1_temp_msg_def PH1_MSG_SIZE_def Let_def track_instance_def ssm_update_record_def
      promise_msg_def)

lemma promise_range_each:
  assumes "promise_range (pr_ballot m) is (ssm acc) = Inr s'" "accepts_promised (ssm acc)" "sorted_wrt (<) is"
    and "\<forall>i \<in> set is. highest_instance_seen acc < i"
  shows "break_range junk m is acc
    = Inr (acc\<lparr>ssm := s', highest_instance_seen := (if is = [] then highest_instance_seen acc else last is)\<rparr>, map (promise_msg m) is)"
  using assms
proof (induction "is" arbitrary: acc)
  case (Cons i "is")
  obtain ir s where g: "ssm_get_record (ssm acc) i = Inr (ir, s)" "ir_inst ir = i" "ir_ballot ir = 0"
      and run: "promise_range (pr_ballot m) is (put_ir i (ir\<lparr>ir_ballot := pr_ballot m\<rparr>) s) = Inr s'" and u: "ssm_initialized s"
    using Cons.prems(1) by (auto simp: res_eq_Inr Let_def ssm_update_record_def)
  have p: "accepts_promised s" "accept_ballot ir = 0" using get_record_promised [OF g(1) Cons.prems(2)] g(3) by simp_all
  let ?acc = "acc\<lparr>ssm := put_ir i (ir\<lparr>ir_ballot := pr_ballot m\<rparr>) s, highest_instance_seen := i\<rparr>"
  have "acceptor_handle_phase1_msg junk (p1_temp_msg m i) (PH1_MSG_SIZE (p1_temp_msg m i)) acc = Inr (?acc, [promise_msg m i])"
    by (rule promise_one [OF g p(2) u]) (use Cons.prems(4) in simp)
  moreover have "break_range junk m is ?acc
      = Inr (?acc\<lparr>ssm := s', highest_instance_seen := (if is = [] then i else last is)\<rparr>, map (promise_msg m) is)"
    using Cons.IH [of ?acc] run Cons.prems(3) put_ir_promised [OF p(1)] p(2) by simp
  ultimately show ?case by simp
qed simp

section \<open>The invariant\<close>

text \<open>What the blocks for accepting and for mappings keep: the ballots, and all records in the table.\<close>

definition keeps_ballots :: "instance_record \<Rightarrow> stable_storage_mngr \<Rightarrow> (instance_record \<times> stable_storage_mngr) res \<Rightarrow> bool" where
  "keeps_ballots ir s r \<longleftrightarrow> (\<forall>ir' s'. r = Inr (ir', s') \<longrightarrow> instances_array s' = instances_array s
     \<and> ir_ballot ir' = ir_ballot ir \<and> accept_ballot ir' = accept_ballot ir)"

lemma memory_keeps:
  "c_free p s = Inr s' \<Longrightarrow> instances_array s' = instances_array s"
  "ptr_write p v s = Inr s' \<Longrightarrow> instances_array s' = instances_array s"
  "c_malloc k s = (q, s') \<Longrightarrow> instances_array s' = instances_array s"
proof -
  show "c_free p s = Inr s' \<Longrightarrow> instances_array s' = instances_array s"
    by (auto simp: c_free_def res_eq_Inr split: option.splits cmd_ptr.splits)
  show "ptr_write p v s = Inr s' \<Longrightarrow> instances_array s' = instances_array s"
    by (cases p; cases "the p") (auto simp: ptr_write_def res_eq_Inr split: option.splits)
  show "c_malloc k s = (q, s') \<Longrightarrow> instances_array s' = instances_array s"
    by (auto simp: c_malloc_def)
qed

lemma store_block_keeps: "keeps_ballots ir s (store_in_block msg ir s)"
  by (auto simp: keeps_ballots_def store_in_block_def res_eq_Inr dest!: memory_keeps split: prod.splits)

lemma blocks_keep:
  "keeps_ballots ir s (accept_again k slot ir s)" "keeps_ballots ir s (accept_first slot ir s)" "keeps_ballots ir s (accept_other b slot ir s)"
  "keeps_ballots ir s (known_accepted msg ir s)" "keeps_ballots ir s (known_proposed msg ir s)" "keeps_ballots ir s (store_in_slot msg slot ir s)"
  by (auto simp: keeps_ballots_def accept_again_def accept_first_def accept_other_def known_accepted_def known_proposed_def
      store_in_slot_def res_eq_Inr dest!: memory_keeps split: if_splits)

lemma replace_block_keeps: "keeps_ballots ir s (replace_block msg ir s)"
  using store_block_keeps [of ir _ msg] by (auto simp: keeps_ballots_def replace_block_def res_eq_Inr dest!: memory_keeps)

lemma phase1_promised:
  assumes "acceptor_handle_phase1_msg junk m n acc = Inr (acc', out)" "accepts_promised (ssm acc)"
  shows "accepts_promised (ssm acc')"
proof -
  obtain ir s where g: "ssm_get_record (ssm acc) (p1_inst m) = Inr (ir, s)"
    using assms(1) by (auto simp: acceptor_handle_phase1_msg_def res_eq_Inr)
  have p: "accepts_promised s" "accept_ballot ir \<le> ir_ballot ir" using get_record_promised [OF g assms(2)] by simp_all
  have "ssm acc' = s \<or> ssm acc' = put_ir (p1_inst m) (ir\<lparr>ir_ballot := p1_ballot m\<rparr>) s \<and> ir_ballot ir \<le> p1_ballot m"
    using assms(1) g by (auto simp: acceptor_handle_phase1_msg_def res_eq_Inr Let_def ssm_update_record_def not_less split: if_splits)
  then show ?thesis using p put_ir_promised [OF p(1)] by auto
qed

lemma break_range_promised:
  "break_range junk m is acc = Inr (acc', out) \<Longrightarrow> accepts_promised (ssm acc) \<Longrightarrow> accepts_promised (ssm acc')"
proof (induction "is" arbitrary: acc out)
  case (Cons i "is")
  then obtain acc1 o1 o2 where "acceptor_handle_phase1_msg junk (p1_temp_msg m i) (PH1_MSG_SIZE (p1_temp_msg m i)) acc = Inr (acc1, o1)"
      "break_range junk m is acc1 = Inr (acc', o2)"
    by (auto simp: res_eq_Inr)
  then show ?case using Cons.IH phase1_promised Cons.prems(2) by blast
qed simp

lemma promise_range_promised: "promise_range b is s = Inr s' \<Longrightarrow> accepts_promised s \<Longrightarrow> accepts_promised s'"
proof (induction "is" arbitrary: s)
  case (Cons i "is")
  obtain ir s1 where g: "ssm_get_record s i = Inr (ir, s1)" "ir_ballot ir = 0"
      "promise_range b is (put_ir i (ir\<lparr>ir_ballot := b\<rparr>) s1) = Inr s'"
    using Cons.prems(1) by (auto simp: res_eq_Inr Let_def ssm_update_record_def)
  then show ?case using Cons.IH get_record_promised [OF g(1) Cons.prems(2)] put_ir_promised [of s1 "ir\<lparr>ir_ballot := b\<rparr>" i] by simp
qed simp

lemma range_promised:
  assumes "acceptor_handle_phase1_range_msg junk m n acc = Inr (acc', out)" "accepts_promised (ssm acc)"
  shows "accepts_promised (ssm acc')"
proof (cases "pr_from m > highest_instance_seen acc")
  case True
  obtain s where s: "promise_range (pr_ballot m) (iids (pr_from m) (pr_to m)) (ssm acc) = Inr s" "ssm acc' = s"
    using assms(1) True by (auto simp: acceptor_handle_phase1_range_msg_def res_eq_Inr Let_def)
  then show ?thesis using promise_range_promised assms(2) by blast
next
  case False
  then have "break_range junk m (iids (pr_from m) (pr_to m)) acc = Inr (acc', out)"
    using assms(1) by (simp add: acceptor_handle_phase1_range_msg_def res_eq_Inr)
  then show ?thesis using break_range_promised assms(2) by blast
qed

lemma put_after_block:
  assumes "keeps_ballots ir s r" "r = Inr (ir', s')" "accepts_promised s" "accept_ballot ir \<le> ir_ballot ir"
  shows "accepts_promised (put_ir i ir' s')" "accepts_promised (put_ir i (ir'\<lparr>ir_ballot := b, accept_ballot := b\<rparr>) s')"
proof -
  have "instances_array s' = instances_array s" "ir_ballot ir' = ir_ballot ir" "accept_ballot ir' = accept_ballot ir"
    using assms(1,2) by (auto simp: keeps_ballots_def)
  then show "accepts_promised (put_ir i ir' s')" "accepts_promised (put_ir i (ir'\<lparr>ir_ballot := b, accept_ballot := b\<rparr>) s')"
    using assms(3,4) by (auto intro!: put_ir_promised simp: accepts_promised_def)
qed

section \<open>Phase 2 and mappings\<close>

lemma rbind_pairE:
  assumes "rbind x f = Inr y"
  obtains a b where "x = Inr (a, b)" "f (a, b) = Inr y"
  using assms by (cases x) auto

text \<open>The handler of phase 2 ignores the message, or accepts the command in one of three ways.\<close>

lemma phase2_cases:
  assumes "acceptor_handle_phase2_msg m n acc = Inr (acc', out)"
  obtains ir s where "ssm_get_record (ssm acc) (p2_inst m) = Inr (ir, s)" "acc' = acc\<lparr>ssm := s\<rparr>" "out = []"
  | ir s slot s1 ir1 s2 where "ssm_get_record (ssm acc) (p2_inst m) = Inr (ir, s)" "ir_inst ir = p2_inst m"
      "ssm_get_command_slot s (p2_inst m) = Inr (slot, s1)"
      "p2_cmd_key m = accepted_cmd_key ir \<and> accept_again (p2_cmd_key m) slot ir s1 = Inr (ir1, s2)
       \<or> p2_cmd_key m = proposed_cmd_key ir \<and> (accept_first slot ir s1 = Inr (ir1, s2) \<or> accept_other True slot ir s1 = Inr (ir1, s2))"
      "acc' = (track_instance (p2_inst m) acc)\<lparr>ssm := put_ir (p2_inst m) (ir1\<lparr>ir_ballot := p2_ballot m, accept_ballot := p2_ballot m\<rparr>) s2\<rparr>"
      "out = [phase2 (m\<lparr>accepts_count := accepts_count m + 1\<rparr>)]"
proof -
  have upd: "ssm_update_record s ir = (if ssm_initialized s then Inr s else Inl AssertFailed)" for s ir
    by (simp add: ssm_update_record_def rassert_def)
  obtain ir s where g: "ssm_get_record (ssm acc) (p2_inst m) = Inr (ir, s)" "ir_inst ir = p2_inst m"
    using assms(1) by (auto simp: acceptor_handle_phase2_msg_def res_eq_Inr)
  show ?thesis
  proof (cases "p2_ballot m < ir_ballot ir \<or> p2_cmd_key m \<noteq> accepted_cmd_key ir \<and> p2_cmd_key m \<noteq> proposed_cmd_key ir")
    case True
    have "acceptor_handle_phase2_msg m n acc = Inr (acc', out) \<Longrightarrow> out = [] \<and> acc' = acc\<lparr>ssm := s\<rparr>"
      unfolding acceptor_handle_phase2_msg_def using g True by (auto simp: Let_def res_eq_Inr split: if_splits)
    then show ?thesis using assms that(1) [OF g(1)] by simp
  next
    case False
    let ?acc = "track_instance (p2_inst m) acc"
    define a p where ap: "a \<longleftrightarrow> p2_cmd_key m = accepted_cmd_key ir" "p \<longleftrightarrow> p2_cmd_key m = proposed_cmd_key ir"
    let ?accept = "\<lambda>slot s. if a then accept_again (p2_cmd_key m) slot ir s
          else if p \<and> accepted_cmd ir = None then accept_first slot ir s else accept_other p slot ir s"
    let ?upd = "\<lambda>ir. ir\<lparr>ir_ballot := p2_ballot m, accept_ballot := p2_ballot m\<rparr>"
    have nb: "\<not> p2_ballot m < ir_ballot ir" "a \<or> p" using False by (auto simp: ap)
    have run: "rbind (ssm_get_command_slot s (p2_inst m)) (\<lambda>(slot, s). rbind (?accept slot s) (\<lambda>(ir, s).
        rbind (ssm_update_record (put_ir (p2_inst m) (?upd ir) s) (?upd ir)) (\<lambda>s.
          Inr (?acc\<lparr>ssm := s\<rparr>, [phase2 (m\<lparr>accepts_count := accepts_count m + 1\<rparr>)])))) = Inr (acc', out)"
      using assms(1) nb unfolding acceptor_handle_phase2_msg_def g(1) rbind_simps prod.case g(2) Let_def CMD_KEY_EQUALS_iff ap [symmetric]
      by (cases a; cases p) (simp_all add: rassert_eq_Inr)
    obtain slot s1 where slot: "ssm_get_command_slot s (p2_inst m) = Inr (slot, s1)"
        and step: "rbind (?accept slot s1) (\<lambda>(ir, s). rbind (ssm_update_record (put_ir (p2_inst m) (?upd ir) s) (?upd ir))
          (\<lambda>s. Inr (?acc\<lparr>ssm := s\<rparr>, [phase2 (m\<lparr>accepts_count := accepts_count m + 1\<rparr>)]))) = Inr (acc', out)"
      by (rule rbind_pairE [OF run]) (rule that, assumption, simp only: prod.case)
    obtain ir1 s2 where r: "?accept slot s1 = Inr (ir1, s2)"
        "rbind (ssm_update_record (put_ir (p2_inst m) (?upd ir1) s2) (?upd ir1))
          (\<lambda>s. Inr (?acc\<lparr>ssm := s\<rparr>, [phase2 (m\<lparr>accepts_count := accepts_count m + 1\<rparr>)])) = Inr (acc', out)"
      by (rule rbind_pairE [OF step]) (rule that, assumption, simp only: prod.case)
    have e: "acc' = ?acc\<lparr>ssm := put_ir (p2_inst m) (?upd ir1) s2\<rparr>" "out = [phase2 (m\<lparr>accepts_count := accepts_count m + 1\<rparr>)]"
      using r(2) by (simp_all add: upd split: if_splits)
    have "a \<and> accept_again (p2_cmd_key m) slot ir s1 = Inr (ir1, s2)
       \<or> p \<and> (accept_first slot ir s1 = Inr (ir1, s2) \<or> accept_other True slot ir s1 = Inr (ir1, s2))"
      using r(1) nb(2) by (cases a; cases p) (simp_all split: if_splits)
    then show ?thesis by (intro that(2) [OF g slot _ e]) (simp add: ap)
  qed
qed

lemma command_slot_promised: "ssm_get_command_slot s i = Inr (slot, s') \<Longrightarrow> accepts_promised s \<Longrightarrow> accepts_promised s'"
  using get_record_promised by (auto simp: ssm_get_command_slot_def res_eq_Inr)

lemma phase2_promised:
  assumes "acceptor_handle_phase2_msg m n acc = Inr (acc', out)" "accepts_promised (ssm acc)"
  shows "accepts_promised (ssm acc')"
  using assms(1)
proof (cases rule: phase2_cases)
  case (1 ir s)
  then show ?thesis using get_record_promised [OF 1(1) assms(2)] by simp
next
  case (2 ir s slot s1 ir1 s2)
  have p: "accepts_promised s1" "accept_ballot ir \<le> ir_ballot ir"
    using get_record_promised [OF 2(1) assms(2)] command_slot_promised [OF 2(3)] by simp_all
  from 2(4) obtain r where "keeps_ballots ir s1 r" "r = Inr (ir1, s2)" using blocks_keep by metis
  then show ?thesis using put_after_block(2) [OF _ _ p] 2(5) by simp
qed

lemma cmdmap_promised:
  assumes "acceptor_handle_cmdmap_msg m n acc = Inr (acc', out)" "accepts_promised (ssm acc)"
  shows "accepts_promised (ssm acc')"
proof -
  obtain ir s slot s1 where g: "ssm_get_record (ssm acc) (cm_inst m) = Inr (ir, s)"
      "ssm_get_command_slot s (cm_inst m) = Inr (slot, s1)"
    using assms(1) by (auto simp: acceptor_handle_cmdmap_msg_def res_eq_Inr Let_def)
  have p: "accepts_promised s1" "accept_ballot ir \<le> ir_ballot ir"
    using get_record_promised [OF g(1) assms(2)] command_slot_promised [OF g(2)] by simp_all
  define r where "r = (if accepted_cmd ir \<noteq> None \<and> CMD_KEY_EQUALS (cm_cmd_key m) (accepted_cmd_key ir) then known_accepted m ir s1
            else if proposed_cmd ir \<noteq> None \<and> CMD_KEY_EQUALS (cm_cmd_key m) (proposed_cmd_key ir) then known_proposed m ir s1
            else if accepted_cmd ir = None then store_in_slot m slot ir s1
            else if proposed_cmd ir = None then store_in_block m ir s1
            else replace_block m ir s1)"
  have k: "keeps_ballots ir s1 r" unfolding r_def by (simp add: blocks_keep store_block_keeps replace_block_keeps)
  have "rbind r (\<lambda>(ir, s). Inr (acc\<lparr>ssm := put_ir (cm_inst m) ir s\<rparr>, [])) = Inr (acc', out)"
    using assms(1) unfolding acceptor_handle_cmdmap_msg_def g rbind_simps prod.case Let_def r_def by (simp add: rassert_eq_Inr)
  then obtain ir1 s2 where "r = Inr (ir1, s2)" "acc' = acc\<lparr>ssm := put_ir (cm_inst m) ir1 s2\<rparr>"
    by (rule rbind_pairE) simp
  then show ?thesis using put_after_block(1) [OF k _ p] by simp
qed

section \<open>Runs\<close>

lemma event_promised:
  assumes "ring_event_step self ev acc = Inr (acc', out)" "accepts_promised (ssm acc)"
  shows "accepts_promised (ssm acc')"
proof (cases ev)
  case (FromPredecessor junk m n)
  then show ?thesis using assms phase1_promised range_promised phase2_promised
    by (cases m) (auto simp: acceptor_on_predecessor_msg_def)
next
  case (FromMulticast m n)
  then show ?thesis using assms phase2_promised cmdmap_promised
    by (cases m) (auto simp: on_multicast_msg_def acceptor_handle_acceptance_msg_def ssm_save_delivered_value_def res_eq_Inr split: if_splits)
qed

lemma run_promised: "ring_run self evs acc = Inr (acc', out) \<Longrightarrow> accepts_promised (ssm acc) \<Longrightarrow> accepts_promised (ssm acc')"
proof (induction evs arbitrary: acc out)
  case (Cons ev evs)
  then obtain acc1 o1 o2 where "ring_event_step self ev acc = Inr (acc1, o1)" "ring_run self evs acc1 = Inr (acc', o2)"
    by (auto simp: res_eq_Inr)
  then show ?case using Cons.IH event_promised Cons.prems(2) by blast
qed simp

lemma init_promised: "accepts_promised (ssm (regular_acceptor_init n))"
  by (simp add: accepts_promised_def regular_acceptor_init_def stable_storage_init_def clear_instance_record_def)

text \<open>C37. The optimised phase 1: in every state an acceptor reaches, promising a range of new instances in one
  pass gives the same state as handling a phase 1 message for each of them, which would send as many
  promises; the one message that is sent stands for all of them.\<close>

theorem range_equals_each:
  assumes "ring_run self evs (regular_acceptor_init n) = Inr (acc, out)"
    and "acceptor_handle_phase1_range_msg junk m sz acc = Inr (acc', out')"
    and "highest_instance_seen acc < pr_from m" "pr_from m \<le> pr_to m"
  shows "break_range junk m (iids (pr_from m) (pr_to m)) acc = Inr (acc', map (promise_msg m) (iids (pr_from m) (pr_to m)))
    \<and> out' = [phase1_range (m\<lparr>pr_promises_count := pr_promises_count m + 1\<rparr>)]"
proof -
  have p: "accepts_promised (ssm acc)" by (rule run_promised [OF assms(1) init_promised])
  obtain s where s: "promise_range (pr_ballot m) (iids (pr_from m) (pr_to m)) (ssm acc) = Inr s"
      "acc' = acc\<lparr>ssm := s, highest_instance_seen := pr_to m\<rparr>"
      "out' = [phase1_range (m\<lparr>pr_promises_count := pr_promises_count m + 1\<rparr>)]"
    using assms(2,3) by (auto simp: acceptor_handle_phase1_range_msg_def res_eq_Inr Let_def)
  have "i \<in> set (iids (pr_from m) (pr_to m)) \<Longrightarrow> highest_instance_seen acc < i" for i
    using iids_ends(3) [OF assms(4)] assms(3) less_le_trans by blast
  then show ?thesis using promise_range_each [OF s(1) p iids_sorted] s(2,3) iids_ends(1,2) [OF assms(4)] by simp
qed

definition example_range :: phase1_range_msg where
  "example_range = \<lparr>pr_from = 1, pr_to = 2, pr_ballot = 0x10100, pr_promises_count = 0\<rparr>"

theorem range_equals_each_witness:
  "\<forall>junk. \<exists>acc. acceptor_handle_phase1_range_msg junk example_range sizeof_phase1_range_msg (regular_acceptor_init 8)
       = Inr (acc, [phase1_range (example_range\<lparr>pr_promises_count := 1\<rparr>)])
    \<and> break_range junk example_range [1, 2] (regular_acceptor_init 8) = Inr (acc, [promise_msg example_range 1, promise_msg example_range 2])"
proof
  fix junk
  have ids: "iids 1 2 = [1, 2]" by (simp add: iids_def upt_rec)
  obtain acc out where r: "acceptor_handle_phase1_range_msg junk example_range sizeof_phase1_range_msg (regular_acceptor_init 8) = Inr (acc, out)"
    by (simp add: acceptor_handle_phase1_range_msg_def example_range_def ids regular_acceptor_init_def stable_storage_init_def Let_def
        ssm_get_record_def ssm_update_record_def clear_instance_record_def zero_record_def record_index_def put_ir_def)
  have "break_range junk example_range (iids (pr_from example_range) (pr_to example_range)) (regular_acceptor_init 8)
      = Inr (acc, map (promise_msg example_range) (iids (pr_from example_range) (pr_to example_range)))
    \<and> out = [phase1_range (example_range\<lparr>pr_promises_count := pr_promises_count example_range + 1\<rparr>)]"
    by (rule range_equals_each [of 2 "[]" 8, OF _ r]) (simp_all add: regular_acceptor_init_def example_range_def)
  then show "\<exists>acc. acceptor_handle_phase1_range_msg junk example_range sizeof_phase1_range_msg (regular_acceptor_init 8)
       = Inr (acc, [phase1_range (example_range\<lparr>pr_promises_count := 1\<rparr>)])
    \<and> break_range junk example_range [1, 2] (regular_acceptor_init 8) = Inr (acc, [promise_msg example_range 1, promise_msg example_range 2])"
    using r by (simp add: example_range_def ids)
qed

end
