(* ===== verification/RingSystemSpec.thy ===== *)
theory RingSystemSpec
  imports RingSystem RingRange
begin

text \<open>
  Agreement in the whole ring: the count of a phase 2 message is the number of the acceptors that accepted
  it, and everything that is chosen was accepted by each of them.
\<close>

section \<open>What the multicaster sends\<close>

text \<open>Every phase 2 message of the multicaster is a multicast with a count of zero.\<close>

definition fresh :: "mc_out list \<Rightarrow> bool" where
  "fresh out \<longleftrightarrow> (\<forall>m. ToSuccessor (phase2 m) \<notin> set out \<and> (ToMulticast (phase2 m) \<in> set out \<longrightarrow> accepts_count m = 0))"

lemma fresh_simps [simp]: "fresh []" "fresh (out @ out') \<longleftrightarrow> fresh out \<and> fresh out'" "fresh (Flush # out) \<longleftrightarrow> fresh out"
  "fresh (ToSuccessor (phase1 p) # out) \<longleftrightarrow> fresh out" "fresh (ToSuccessor (phase1_range r) # out) \<longleftrightarrow> fresh out"
  "fresh (ToMulticast (command_map c) # out) \<longleftrightarrow> fresh out" "fresh (ToMulticast (acceptance a) # out) \<longleftrightarrow> fresh out"
  "fresh (ToMulticast (phase2 m) # out) \<longleftrightarrow> accepts_count m = 0 \<and> fresh out"
  by (auto simp: fresh_def)

text \<open>A handler sends only such messages: the rules follow the structure of its body.\<close>

definition outputs :: "('o list \<Rightarrow> bool) \<Rightarrow> ('s \<times> 'o list) res \<Rightarrow> bool" where
  "outputs P r \<longleftrightarrow> (\<forall>s out. r = Inr (s, out) \<longrightarrow> P out)"

abbreviation sends_fresh :: "mc_result \<Rightarrow> bool" where
  "sends_fresh \<equiv> outputs fresh"

lemma outputsD: "outputs P r \<Longrightarrow> r = Inr (s, out) \<Longrightarrow> P out"
  by (simp add: outputs_def)

named_theorems fresh_rules

lemma outputs_rules [fresh_rules]:
  "outputs P (Inl e)"
  "P out \<Longrightarrow> outputs P (Inr (s, out))"
  "outputs P r \<Longrightarrow> outputs P (rassert c r)"
  "outputs P r \<Longrightarrow> outputs P (rguard c r)"
  "(\<And>y. x = Inr y \<Longrightarrow> outputs P (f y)) \<Longrightarrow> outputs P (rbind x f)"
  "outputs P r \<Longrightarrow> outputs P r' \<Longrightarrow> outputs P (if c then r else r')"
  "(\<And>a b. outputs P (g a b)) \<Longrightarrow> outputs P (case p of (a, b) \<Rightarrow> g a b)"
  "(\<And>x. outputs P (h x)) \<Longrightarrow> outputs P (Let y h)"
  by (auto simp: outputs_def rassert_def rguard_def rbind_def Let_def split: sum.splits prod.splits)

lemma mapping_phase2_fresh: "mapping_then_phase2 mc mir = Inr (mir', mc', out) \<Longrightarrow> fresh out"
  by (auto simp: mapping_then_phase2_def mcaster_broadcast_mapping_def mcaster_do_phase2_def res_eq_Inr Let_def)

lemma forget_fresh [fresh_rules]:
  "sends_fresh (forget_mir (mcaster_do_phase2 mc mir))"
  "sends_fresh (forget_mir (mcaster_do_phase1 junk mc mir))"
  "sends_fresh (forget_mir (mcaster_broadcast_mapping mc mir))"
  "sends_fresh (forget_mir (mapping_then_phase2 mc mir))"
  by (auto simp: outputs_def forget_mir_def mcaster_do_phase1_def mcaster_broadcast_mapping_def mcaster_do_phase2_def
      res_eq_Inr Let_def dest: mapping_phase2_fresh)

lemma other_fresh [fresh_rules]:
  "fresh (mcaster_do_phase1_range i j b)" "mcaster_broadcast_acceptance mir = Inr out \<Longrightarrow> fresh out" "fresh []"
  by (auto simp: mcaster_do_phase1_range_def mcaster_broadcast_acceptance_def res_eq_Inr)

lemma each_fresh [fresh_rules]:
  assumes "\<And>x mc. sends_fresh (f x mc)"
  shows "sends_fresh (mc_each f xs mc)"
proof (induction xs arbitrary: mc)
  case (Cons x xs)
  show ?case using assms [of x mc] Cons.IH by (auto simp: outputs_def res_eq_Inr)
qed (simp add: outputs_def)

lemma expired_fresh [fresh_rules]: "sends_fresh (check_expired_one junk i mc)"
  unfolding check_expired_one_def
  by (intro fresh_rules) (auto split: mcaster_instance_status.split intro: fresh_rules)

lemma p2_loop_fresh:
  assumes "p2_open_loop n mc = Inr (n', mc', out)"
  shows "fresh out"
  using assms
proof (induction "nat (max_p2_open_per_iteration (mc_cfg mc) - n)" arbitrary: n mc out rule: less_induct)
  case less
  show ?case using less.prems
  proof (cases rule: p2_open_cases)
    case (4 r mc1 v k cvm r2 msm r3 mc2 o1 o2)
    have "mc_cfg mc2 = mc_cfg mc" using mapping_then_phase2_cfg [OF 4(6)] get_mir_cfg [OF 4(3)] by simp
    then have "fresh o2" using 4(8) less.hyps [of "mc2\<lparr>highest_open_iid := highest_open_iid mc2 + 1\<rparr>" "n + 1" o2] by auto
    then show ?thesis using 4(7) mapping_phase2_fresh [OF 4(6)] by simp
  qed simp_all
qed

lemma open_fresh [fresh_rules]:
  "sends_fresh (mcaster_open_new_instances_P1 mc)" "sends_fresh (mcaster_check_expired_instances junk mc)"
  "sends_fresh (mcaster_open_new_instances_P2 mc)"
proof -
  show "sends_fresh (mcaster_open_new_instances_P1 mc)"
    unfolding mcaster_open_new_instances_P1_def by (intro fresh_rules)
  show "sends_fresh (mcaster_check_expired_instances junk mc)"
    unfolding mcaster_check_expired_instances_def by (intro fresh_rules)
  show "sends_fresh (mcaster_open_new_instances_P2 mc)"
    using p2_loop_fresh by (auto simp: outputs_def mcaster_open_new_instances_P2_def res_eq_Inr)
qed

lemma periodic_fresh: "sends_fresh (on_mcaster_periodic_check junk t1 t2 t3 mc)"
  by (auto simp: outputs_def on_mcaster_periodic_check_def res_eq_Inr dest: outputsD [OF open_fresh(1)]
      outputsD [OF open_fresh(2)] outputsD [OF open_fresh(3)])

lemma requests_fresh [fresh_rules]: "sends_fresh (map_request_one i mc)" "sends_fresh (chosenval_request_one i mc)"
  unfolding map_request_one_def chosenval_request_one_def by (intro fresh_rules; assumption)+

lemma handlers_fresh:
  "sends_fresh (mcaster_handle_phase1_msg junk m1 n mc)" "sends_fresh (mcaster_handle_phase1_range_msg r n mc)"
  "sends_fresh (mcaster_handle_phase2_msg m2 n mc)" "sends_fresh (mcaster_handle_map_request q n mc)"
  "sends_fresh (mcaster_handle_chosenval_request q n mc)"
  unfolding mcaster_handle_phase1_msg_def mcaster_handle_phase1_range_msg_def mcaster_handle_phase2_msg_def
    mcaster_handle_map_request_def mcaster_handle_chosenval_request_def
  by (intro fresh_rules; assumption?)+

lemma mc_step_fresh: "sends_fresh (mc_step ev mc)"
proof (cases ev)
  case (Ring_msg junk m n)
  then show ?thesis by (cases m) (simp_all add: mcaster_on_predecessor_msg_def handlers_fresh outputs_rules(2))
qed (auto simp: periodic_fresh intro!: fresh_rules)

section \<open>What an acceptor sends\<close>

text \<open>An acceptor sends a phase 2 message only in answer to one, and only when it has accepted the command.\<close>

lemma phase2_sends:
  assumes "acceptor_handle_phase2_msg m n acc = Inr (acc', out)" "phase2 m' \<in> set out"
  shows "m' = m\<lparr>accepts_count := accepts_count m + 1\<rparr> \<and> has_accepted acc' (p2_inst m) (p2_cmd_key m) (p2_ballot m)"
  using assms(1)
proof (cases rule: phase2_cases)
  case (1 ir s)
  then show ?thesis using assms(2) by simp
next
  case (2 ir s slot s1 ir1 s2)
  have "ir_inst ir1 = p2_inst m \<and> accepted_cmd_key ir1 = p2_cmd_key m"
    using 2(4) 2(2) by (auto simp: accept_again_def accept_first_def accept_other_def res_eq_Inr split: if_splits)
  then show ?thesis using 2(5,6) assms(2) by (simp add: has_accepted_def Let_def)
qed

definition no_phase2 :: "ring_msg list \<Rightarrow> bool" where
  "no_phase2 out \<longleftrightarrow> (\<forall>m. phase2 m \<notin> set out)"

lemma no_phase2_simps [simp]: "no_phase2 []" "no_phase2 (phase1 m # out) \<longleftrightarrow> no_phase2 out"
  "no_phase2 (phase1_range r # out) \<longleftrightarrow> no_phase2 out" "no_phase2 (out @ out') \<longleftrightarrow> no_phase2 out \<and> no_phase2 out'"
  by (auto simp: no_phase2_def)

lemma phase1_sends: "outputs no_phase2 (acceptor_handle_phase1_msg junk m n acc)"
  unfolding acceptor_handle_phase1_msg_def by (intro fresh_rules) simp_all

lemma break_range_sends: "outputs no_phase2 (break_range junk m is acc)"
proof (induction "is" arbitrary: acc)
  case (Cons i "is")
  show ?case using phase1_sends [of junk "p1_temp_msg m i" "PH1_MSG_SIZE (p1_temp_msg m i)" acc] Cons.IH
    by (auto simp: outputs_def res_eq_Inr)
qed (simp add: outputs_def)

lemma range_sends: "outputs no_phase2 (acceptor_handle_phase1_range_msg junk m n acc)"
  unfolding acceptor_handle_phase1_range_msg_def by (intro fresh_rules break_range_sends) simp_all

lemma mapping_sends: "outputs no_phase2 (acceptor_handle_cmdmap_msg m n acc)" "outputs no_phase2 (acceptor_handle_acceptance_msg a n acc)"
  unfolding acceptor_handle_cmdmap_msg_def acceptor_handle_acceptance_msg_def by (intro fresh_rules; simp?)+

lemma no_phase2D: "outputs no_phase2 r \<Longrightarrow> r = Inr (acc, out) \<Longrightarrow> phase2 m \<notin> set out"
  by (auto simp: outputs_def no_phase2_def)

fun event_msg :: "ring_event \<Rightarrow> ring_msg" where
  "event_msg (FromPredecessor junk m n) = m"
| "event_msg (FromMulticast m n) = m"

lemma event_sends:
  assumes "ring_event_step self ev acc = Inr (acc', out)" "phase2 m' \<in> set out"
  obtains m where "event_msg ev = phase2 m" "m' = m\<lparr>accepts_count := accepts_count m + 1\<rparr>"
    "has_accepted acc' (p2_inst m) (p2_cmd_key m) (p2_ballot m)" "\<And>n. ev = FromMulticast (phase2 m) n \<Longrightarrow> self = 2"
proof (cases ev)
  case (FromPredecessor junk m n)
  then show ?thesis
  proof (cases m)
    case (phase2 p)
    then have "acceptor_handle_phase2_msg p n acc = Inr (acc', out)" using assms FromPredecessor by (simp add: acceptor_on_predecessor_msg_def)
    from phase2_sends [OF this assms(2)] show ?thesis using phase2 FromPredecessor by (intro that [of p]) simp_all
  qed (use assms FromPredecessor in \<open>auto simp: acceptor_on_predecessor_msg_def dest: no_phase2D [OF phase1_sends] no_phase2D [OF range_sends]\<close>)
next
  case (FromMulticast m n)
  then show ?thesis
  proof (cases m)
    case (phase2 p)
    then have "acceptor_handle_phase2_msg p n acc = Inr (acc', out)" "self = 2"
      using assms FromMulticast by (auto simp: on_multicast_msg_def am_i_first_in_ring_def split: if_splits)
    from phase2_sends [OF this(1) assms(2)] show ?thesis using phase2 FromMulticast \<open>self = 2\<close> by (intro that [of p]) simp_all
  qed (use assms FromMulticast in \<open>auto simp: on_multicast_msg_def dest: no_phase2D [OF mapping_sends(1)]
      no_phase2D [OF mapping_sends(2)]\<close>)
qed

section \<open>The ring\<close>

definition ring_of :: "config_mngr \<Rightarrow> nat \<Rightarrow> bool" where
  "ring_of cfg n \<longleftrightarrow> cfg_initialized cfg \<and> acceptors_count cfg = int n \<and> 0 < n \<and> n < 255"

lemma successor_ring:
  assumes "ring_of cfg n" "1 \<le> j" "j \<le> n"
  shows "successor cfg j = (if j = n then 1 else Suc j)"
proof -
  have "unat (word_of_nat j :: u8) = Suc (j - 1)"
    using assms by (simp add: ring_of_def unsigned_of_nat take_bit_nat_eq_self)
  moreover have "j - 1 < n" using assms by simp
  ultimately obtain i where "lptopo_get_successor_id (cfg\<lparr>self_acceptor_id := word_of_nat j\<rparr>) = Inr i" "unat i = Suc (Suc (j - 1) mod n)"
    using successor_id [of "cfg\<lparr>self_acceptor_id := word_of_nat j\<rparr>" n "j - 1"] assms by (auto simp: ring_of_def)
  then show ?thesis using assms by (auto simp: successor_def)
qed

text \<open>The number of the acceptor that sends on the link to acceptor \<open>j\<close>.\<close>

definition before :: "nat \<Rightarrow> nat \<Rightarrow> nat" where
  "before n j = (if j = 1 then n else j - 1)"

lemma before_successor: "ring_of cfg n \<Longrightarrow> 1 \<le> j \<Longrightarrow> j \<le> n \<Longrightarrow> before n (successor cfg j) = j \<or> n = 1"
  by (simp add: successor_ring before_def)

type_synonym accept_history = "(nat \<times> ring_iid \<times> command_id \<times> ring_ballot) set"

definition agreed :: "config_mngr \<Rightarrow> nat \<Rightarrow> accept_history \<Rightarrow> sent_keys" where
  "agreed cfg n H = {(i, k). (word_of_int (quorum_size cfg) :: u32) \<le> word_of_nat (n - 1) \<and> (\<exists>b. \<forall>j \<in> {2..n}. (j, i, k, b) \<in> H)}"

definition count_ok :: "nat \<Rightarrow> accept_history \<Rightarrow> nat \<Rightarrow> phase2_msg \<Rightarrow> bool" where
  "count_ok n H j m \<longleftrightarrow> unat (accepts_count m) = before n j - 1
     \<and> (\<forall>j' \<in> {2..before n j}. (j', p2_inst m, p2_cmd_key m, p2_ballot m) \<in> H)"

definition sys_inv :: "config_mngr \<Rightarrow> nat \<Rightarrow> accept_history \<Rightarrow> ring_sys \<Rightarrow> bool" where
  "sys_inv cfg n H s \<longleftrightarrow> mc_inv cfg (mapped_by s) (chosen_by s) (agreed cfg n H) (sys_mc s)
     \<and> (\<forall>m. phase2 m \<in> set (mcast_sent s) \<longrightarrow> accepts_count m = 0)
     \<and> (\<forall>j m. 1 \<le> j \<longrightarrow> j \<le> n \<longrightarrow> phase2 m \<in> set (link_to s j) \<longrightarrow> count_ok n H j m)"

definition accepted_now :: "ring_sys \<Rightarrow> accept_history" where
  "accepted_now s = {(j, i, k, b). has_accepted (sys_acc s j) i k b}"

lemma agreed_mono: "H \<subseteq> H' \<Longrightarrow> agreed cfg n H \<subseteq> agreed cfg n H'"
  by (fastforce simp: agreed_def)

lemma mc_inv_mono: "mc_inv cfg W A B mc \<Longrightarrow> B \<subseteq> B' \<Longrightarrow> mc_inv cfg W A B' mc"
  unfolding mc_inv_def by blast

lemma sys_inv_mono: "sys_inv cfg n H s \<Longrightarrow> H \<subseteq> H' \<Longrightarrow> sys_inv cfg n H' s"
  using mc_inv_mono [of cfg "mapped_by s" "chosen_by s" "agreed cfg n H" "sys_mc s" "agreed cfg n H'"] agreed_mono [of H H' cfg n]
  by (auto simp: sys_inv_def count_ok_def)

lemma sent_sys [simp]:
  "sys_mc (send_on j ms s) = sys_mc s" "mcast_sent (send_on j ms s) = mcast_sent s" "sys_acc (send_on j ms s) = sys_acc s"
  "link_to (send_on j ms s) = (link_to s)(j := link_to s j @ ms)"
  "mapped_by (send_on j ms s) = mapped_by s" "chosen_by (send_on j ms s) = chosen_by s"
  by (simp_all add: send_on_def mapped_by_def chosen_by_def)

lemma to_sent: "m \<in> set (to_multicast out) \<longleftrightarrow> ToMulticast m \<in> set out" "m \<in> set (to_successor out) \<longleftrightarrow> ToSuccessor m \<in> set out"
  by (force simp: to_multicast_def to_successor_def split: mc_out.splits)+

lemma mc_sends:
  "mapped_by (s\<lparr>sys_mc := mc, mcast_sent := mcast_sent s @ to_multicast out\<rparr>) = mapped_by s \<union> maps_of out"
  "chosen_by (s\<lparr>sys_mc := mc, mcast_sent := mcast_sent s @ to_multicast out\<rparr>) = chosen_by s \<union> keys_of out"
  by (auto simp: mapped_by_def chosen_by_def maps_of_def keys_of_def to_sent)

section \<open>The invariant\<close>

fun valid_sys_event :: "sys_event \<Rightarrow> bool" where
  "valid_sys_event (Mc ev) = valid_request ev"
| "valid_sys_event (Acc j ev) = True"

text \<open>A step of the multicaster: only a message that went around the whole ring can reach the quorum.\<close>

lemma mc_step_sys:
  assumes ring: "ring_of cfg n" and inv: "sys_inv cfg n H s" and rec: "can_receive cfg s (Mc ev)" and v: "valid_request ev"
  shows "sys_inv cfg n H (sys_do cfg (Mc ev) s)"
proof (cases "mc_step ev (sys_mc s)")
  case (Inr p)
  obtain mc out where p: "p = (mc, out)" by (cases p)
  note i = inv [unfolded sys_inv_def]
  have "accepted_by_quorum cfg [ev] \<subseteq> agreed cfg n H"
  proof clarify
    fix i k
    assume "(i, k) \<in> accepted_by_quorum cfg [ev]"
    then obtain m junk sz where m: "ev = Ring_msg junk (phase2 m) sz" "(word_of_int (quorum_size cfg) :: u32) \<le> accepts_count m"
        "i = p2_inst m" "k = p2_cmd_key m"
      by (auto simp: accepted_by_quorum_def)
    then have "count_ok n H 1 m" using rec i ring by (auto simp: ring_of_def)
    then have c: "unat (accepts_count m) = n - 1" "\<forall>j \<in> {2..n}. (j, i, k, p2_ballot m) \<in> H"
      using m(3,4) by (auto simp: count_ok_def before_def)
    have "accepts_count m = word_of_nat (n - 1)" unfolding c(1) [symmetric] by simp
    then show "(i, k) \<in> agreed cfg n H" using c(2) m(2) by (auto simp: agreed_def)
  qed
  then have mc: "mc_inv cfg (mapped_by s \<union> maps_of out) (chosen_by s \<union> keys_of out) (agreed cfg n H) mc"
    using mc_step_inv [OF _ _ v] i Inr p by blast
  have f: "fresh out" by (rule outputsD [OF mc_step_fresh]) (use Inr p in simp)
  then have "phase2 m \<notin> set (to_successor out)" "phase2 m \<in> set (to_multicast out) \<Longrightarrow> accepts_count m = 0" for m
    by (auto simp: to_sent fresh_def)
  then show ?thesis using mc i Inr p by (auto simp: sys_inv_def mc_sends)
qed (use inv in simp)

text \<open>A step of an acceptor: it forwards a message with a count that is one higher, and has accepted.\<close>

lemma acc_step_sys:
  assumes ring: "ring_of cfg n" and inv: "sys_inv cfg n H s" and rec: "can_receive cfg s (Acc j ev)"
    and H: "accepted_now (sys_do cfg (Acc j ev) s) \<subseteq> H"
  shows "sys_inv cfg n H (sys_do cfg (Acc j ev) s)"
proof (cases "ring_event_step (word_of_nat j) ev (sys_acc s j)")
  case (Inr p)
  obtain acc out where p: "p = (acc, out)" by (cases p)
  note i = inv [unfolded sys_inv_def]
  have j: "2 \<le> j" "j \<le> n" "n < 255" using rec ring by (cases ev; simp add: ring_of_def)+
  have now: "has_accepted acc i k b \<Longrightarrow> (j, i, k, b) \<in> H" for i k b
    using H Inr p by (auto simp: accepted_now_def)
  have bs: "before n (successor cfg j) = j" using before_successor [OF ring, of j] j by simp
  have "count_ok n H (successor cfg j) m'" if "phase2 m' \<in> set out" for m'
  proof -
    have "phase2 m' \<in> set out" "ring_event_step (word_of_nat j) ev (sys_acc s j) = Inr (acc, out)" using that Inr p by simp_all
    from event_sends [OF this(2,1)] obtain m where m: "event_msg ev = phase2 m" "m' = m\<lparr>accepts_count := accepts_count m + 1\<rparr>"
        "has_accepted acc (p2_inst m) (p2_cmd_key m) (p2_ballot m)"
        "\<And>sz. ev = FromMulticast (phase2 m) sz \<Longrightarrow> (word_of_nat j :: u8) = 2"
      by blast
    have "count_ok n H j m"
    proof (cases ev)
      case (FromPredecessor junk m1 sz)
      then show ?thesis using rec i m(1) j by auto
    next
      case (FromMulticast m1 sz)
      have "unat (word_of_nat j :: u8) = j" using j by (simp add: unsigned_of_nat take_bit_nat_eq_self)
      then have "j = 2" using m(1,4) FromMulticast by simp
      moreover have "accepts_count m = 0" using rec i m(1) FromMulticast by auto
      ultimately show ?thesis by (simp add: count_ok_def before_def)
    qed
    then have c: "unat (accepts_count m) = j - 2" "\<forall>j' \<in> {2..j - 1}. (j', p2_inst m, p2_cmd_key m, p2_ballot m) \<in> H"
      using j by (auto simp: count_ok_def before_def)
    have "unat (accepts_count m + 1) = j - 1" using c(1) j unat_u32_Suc [of "accepts_count m"] by simp
    moreover have "(j', p2_inst m, p2_cmd_key m, p2_ballot m) \<in> H" if "2 \<le> j'" "j' \<le> j" for j'
      using c(2) now [OF m(3)] that by (cases "j' = j") auto
    ultimately show ?thesis using m(2) by (simp add: count_ok_def bs)
  qed
  then show ?thesis using i Inr p by (auto simp: sys_inv_def mapped_by_def chosen_by_def)
qed (use inv in simp)

lemma sys_step_inv:
  assumes "ring_of cfg n" "sys_inv cfg n H s" "valid_sys_event ev" "accepted_now (sys_step cfg ev s) \<subseteq> H"
  shows "sys_inv cfg n H (sys_step cfg ev s)"
proof (cases "can_receive cfg s ev")
  case True
  then show ?thesis using assms mc_step_sys acc_step_sys by (cases ev) (auto simp: sys_step_def)
qed (use assms in \<open>simp add: sys_step_def\<close>)

section \<open>Runs\<close>

text \<open>What acceptors had accepted at some time of a run.\<close>

definition ring_history :: "config_mngr \<Rightarrow> sys_event list \<Rightarrow> ring_sys \<Rightarrow> accept_history" where
  "ring_history cfg evs s = (\<Union>t \<in> {..length evs}. accepted_now (sys_run cfg (take t evs) s))"

lemma history_snoc: "ring_history cfg (evs @ [ev]) s = ring_history cfg evs s \<union> accepted_now (sys_run cfg (evs @ [ev]) s)"
proof -
  have "{..length (evs @ [ev])} = insert (Suc (length evs)) {..length evs}" by auto
  then show ?thesis by (auto simp: ring_history_def)
qed

lemma agreed_history:
  assumes "(i, k) \<in> agreed cfg n (ring_history cfg evs s)"
  obtains b where "\<forall>j \<in> {2..n}. \<exists>t \<le> length evs. has_accepted (sys_acc (sys_run cfg (take t evs) s) j) i k b"
    "(word_of_int (quorum_size cfg) :: u32) \<le> word_of_nat (n - 1)"
proof -
  obtain b where q: "(word_of_int (quorum_size cfg) :: u32) \<le> word_of_nat (n - 1)"
      and b: "\<forall>j \<in> {2..n}. (j, i, k, b) \<in> ring_history cfg evs s"
    using assms by (auto simp: agreed_def)
  have "\<exists>t \<le> length evs. has_accepted (sys_acc (sys_run cfg (take t evs) s) j) i k b" if "j \<in> {2..n}" for j
    using b that by (auto simp: ring_history_def accepted_now_def)
  then show ?thesis using q by (intro that [of b]) simp_all
qed

lemma sys_init_inv: "multicaster_init cfg = Inr mc \<Longrightarrow> sys_inv cfg n H (sys_init cfg mc)"
  using multicaster_init_inv [of cfg mc] by (simp add: sys_inv_def sys_init_def mapped_by_def chosen_by_def)

lemma sys_run_inv:
  assumes "ring_of cfg n" "multicaster_init cfg = Inr mc" "\<forall>ev \<in> set evs. valid_sys_event ev"
  shows "sys_inv cfg n (ring_history cfg evs (sys_init cfg mc)) (sys_run cfg evs (sys_init cfg mc))"
  using assms(3)
proof (induction evs rule: rev_induct)
  case (snoc ev evs)
  let ?s = "sys_init cfg mc"
  have "sys_inv cfg n (ring_history cfg (evs @ [ev]) ?s) (sys_run cfg evs ?s)"
    by (rule sys_inv_mono [OF snoc.IH]) (use snoc.prems in \<open>simp_all add: history_snoc\<close>)
  then have "sys_inv cfg n (ring_history cfg (evs @ [ev]) ?s) (sys_step cfg ev (sys_run cfg evs ?s))"
    by (rule sys_step_inv [OF assms(1)]) (use snoc.prems in \<open>simp_all add: history_snoc sys_run_def\<close>)
  then show ?case by (simp add: sys_run_def)
qed (simp add: sys_run_def sys_init_inv [OF assms(2)])

end
