(* ===== verification/RingSystemProps.thy ===== *)
theory RingSystemProps
  imports RingSystemSpec
begin

text \<open>
  Agreement in the whole ring, and a run of a ring of three acceptors that chooses a command.
\<close>

section \<open>A run\<close>

text \<open>A window is promised by the acceptors 2 and 3, a client submits a value, which is mapped, accepted on the
  way around the ring, and chosen.\<close>

definition ex_map1 :: cmdmap_msg where "ex_map1 = \<lparr>cm_inst = 1, cm_cmd_key = first_key, cm_cmd_size = 3, cm_cmd_value = [7, 8, 9]\<rparr>"
definition ex_p2_1 :: "u32 \<Rightarrow> phase2_msg" where "ex_p2_1 c = \<lparr>p2_inst = 1, p2_ballot = 0x10100, accepts_count = c, p2_cmd_key = first_key\<rparr>"
definition ex_range1 :: "u32 \<Rightarrow> phase1_range_msg" where "ex_range1 c = \<lparr>pr_from = 1, pr_to = 2, pr_ballot = 0x10100, pr_promises_count = c\<rparr>"
definition ex_junk1 :: phase1_msg where "ex_junk1 = \<lparr>p1_inst = 0, p1_ballot = 0, promises_count = 0, highest_accepted_ballot = 0,
     highest_promised_ballot = 0, p1_cmd_key = no_key, p1_cmd_size = 0, p1_cmd_value = []\<rparr>"

lemmas acceptor_eval_defs = acceptor_on_predecessor_msg_def on_multicast_msg_def am_i_first_in_ring_def acceptor_handle_phase1_range_msg_def
  acceptor_handle_phase2_msg_def acceptor_handle_cmdmap_msg_def iids_def regular_acceptor_init_def stable_storage_init_def
  ssm_get_record_def ssm_update_record_def ssm_get_command_slot_def record_index_def put_ir_def clear_instance_record_def
  zero_record_def store_in_slot_def accept_first_def ptr_write_def ptr_target_def mwrite_def mread_def track_instance_def
  ex_map1_def ex_p2_1_def ex_range1_def CMDMAP_MSG_SIZE_def sizeof_cmdmap_msg_def MAX_MESSAGE_SIZE_def MAX_TCP_PAYLOAD_def clear_cmd_key_def first_key_def no_key_def
  sizeof_phase2_msg_def sizeof_phase1_range_msg_def


lemma ring3: "ring_of example_cfg 3" by (simp add: ring_of_def example_cfg_def zero_config_def)
lemma succ3: "successor example_cfg 1 = 2" "successor example_cfg 2 = 3" "successor example_cfg 3 = 1" "successor example_cfg (Suc 0) = 2"
  by (simp_all add: successor_ring [OF ring3])


definition result_of :: "('s \<times> 'o) res \<Rightarrow> 's" where
  "result_of r = (case r of Inr (s, out) \<Rightarrow> s | Inl e \<Rightarrow> undefined)"

lemma result_of_simp [simp]: "result_of (Inr (s, out)) = s"
  by (simp add: result_of_def)

lemma result_ofI: "(case r of Inr (s, out) \<Rightarrow> out = o1 | Inl e \<Rightarrow> False) \<Longrightarrow> r = Inr (result_of r, o1)"
  by (auto split: sum.splits)

definition ex_ev1 where "ex_ev1 = Periodic (\<lambda>_. no_key) (Timeval 1 0) (Timeval 1 0) (Timeval 1 0)"
definition ex_ev2 where "ex_ev2 = Ring_msg (\<lambda>_. no_key) (phase1_range (ex_range1 2)) sizeof_phase1_range_msg"
definition ex_ev3 where "ex_ev3 = Client_msg (client_submit \<lparr>sc_cmd_size = 3, sc_cmd_value = [7, 8, 9]\<rparr>) 11"
definition ex_ev4 where "ex_ev4 = Periodic (\<lambda>_. no_key) (Timeval 2 0) (Timeval 2 0) (Timeval 2 0)"
definition ex_ev5 where "ex_ev5 = Ring_msg (\<lambda>_. no_key) (phase2 (ex_p2_1 2)) sizeof_phase2_msg"
definition ex_mc1 where "ex_mc1 = result_of (mc_step ex_ev1 example_mcaster)"
definition ex_mc2 where "ex_mc2 = result_of (mc_step ex_ev2 ex_mc1)"
definition ex_mc3 where "ex_mc3 = result_of (mc_step ex_ev3 ex_mc2)"
definition ex_mc4 where "ex_mc4 = result_of (mc_step ex_ev4 ex_mc3)"
definition ex_mc5 where "ex_mc5 = result_of (mc_step ex_ev5 ex_mc4)"
lemmas mc_eval_defs = ex_ev1_def ex_ev2_def ex_ev3_def ex_ev4_def ex_ev5_def ex_mc1_def ex_mc2_def ex_mc3_def ex_mc4_def ex_mc5_def

lemma mc_steps:
  "mc_step ex_ev1 example_mcaster = Inr (ex_mc1, [ToSuccessor (phase1_range (ex_range1 0)), Flush])"
  "mc_step ex_ev2 ex_mc1 = Inr (ex_mc2, [])"
  "mc_step ex_ev3 ex_mc2 = Inr (ex_mc3, [])"
  "mc_step ex_ev4 ex_mc3 = Inr (ex_mc4, [ToMulticast (command_map ex_map1), ToMulticast (phase2 (ex_p2_1 0)), Flush])"
  "mc_step ex_ev5 ex_mc4 = Inr (ex_mc5, [ToMulticast (acceptance \<lparr>am_inst = 1, am_cmd_key = first_key\<rparr>)])"
  by (simp_all add: mc_eval_defs ex_map1_def ex_p2_1_def ex_range1_def Let_def table_defs send_defs handler_defs init_defs queue_defs run_defs)

definition ex_acc0 where "ex_acc0 = regular_acceptor_init (word_of_int (working_set_size example_cfg))"
definition ex_acc1 where "ex_acc1 = result_of (ring_event_step 2 (FromPredecessor ex_junk1 (phase1_range (ex_range1 0)) sizeof_phase1_range_msg) ex_acc0)"
definition ex_acc2 where "ex_acc2 = result_of (ring_event_step 2 (FromMulticast (command_map ex_map1) (CMDMAP_MSG_SIZE ex_map1)) ex_acc1)"
definition ex_acc3 where "ex_acc3 = result_of (ring_event_step 2 (FromMulticast (phase2 (ex_p2_1 0)) sizeof_phase2_msg) ex_acc2)"
lemmas acc_eval_defs = ex_acc0_def ex_acc1_def ex_acc2_def ex_acc3_def

lemma acc_steps:
  "ring_event_step 2 (FromPredecessor ex_junk1 (phase1_range (ex_range1 0)) sizeof_phase1_range_msg) ex_acc0 = Inr (ex_acc1, [phase1_range (ex_range1 1)])"
  "ring_event_step 3 (FromPredecessor ex_junk1 (phase1_range (ex_range1 1)) sizeof_phase1_range_msg) ex_acc0 = Inr (ex_acc1, [phase1_range (ex_range1 2)])"
  "ring_event_step 2 (FromMulticast (command_map ex_map1) (CMDMAP_MSG_SIZE ex_map1)) ex_acc1 = Inr (ex_acc2, [])"
  "ring_event_step 3 (FromMulticast (command_map ex_map1) (CMDMAP_MSG_SIZE ex_map1)) ex_acc1 = Inr (ex_acc2, [])"
  "ring_event_step 2 (FromMulticast (phase2 (ex_p2_1 0)) sizeof_phase2_msg) ex_acc2 = Inr (ex_acc3, [phase2 (ex_p2_1 1)])"
  "ring_event_step 3 (FromPredecessor ex_junk1 (phase2 (ex_p2_1 1)) sizeof_phase2_msg) ex_acc2 = Inr (ex_acc3, [phase2 (ex_p2_1 2)])"
  by (simp_all add: acc_eval_defs acceptor_eval_defs example_cfg_def zero_config_def Let_def upt_rec unsigned_ucast_eq take_bit_eq_mod)

definition ring_trace :: "sys_event list" where
  "ring_trace = [Mc ex_ev1, Acc 2 (FromPredecessor ex_junk1 (phase1_range (ex_range1 0)) sizeof_phase1_range_msg),
     Acc 3 (FromPredecessor ex_junk1 (phase1_range (ex_range1 1)) sizeof_phase1_range_msg), Mc ex_ev2, Mc ex_ev3, Mc ex_ev4,
     Acc 3 (FromMulticast (command_map ex_map1) (CMDMAP_MSG_SIZE ex_map1)), Acc 2 (FromMulticast (command_map ex_map1) (CMDMAP_MSG_SIZE ex_map1)),
     Acc 2 (FromMulticast (phase2 (ex_p2_1 0)) sizeof_phase2_msg), Acc 3 (FromPredecessor ex_junk1 (phase2 (ex_p2_1 1)) sizeof_phase2_msg), Mc ex_ev5]"

lemma can_steps: "can_receive cfg s (Mc ex_ev1)" "can_receive cfg s (Mc ex_ev2) \<longleftrightarrow> phase1_range (ex_range1 2) \<in> set (link_to s 1)"
  "can_receive cfg s (Mc ex_ev3)" "can_receive cfg s (Mc ex_ev4)" "can_receive cfg s (Mc ex_ev5) \<longleftrightarrow> phase2 (ex_p2_1 2) \<in> set (link_to s 1)"
  by (simp_all add: mc_eval_defs)

lemma example_count: "acceptors_count example_cfg = 3"
  by (simp add: example_cfg_def)

lemma ring_trace_chosen: "mcast_sent (sys_run example_cfg ring_trace (sys_init example_cfg example_mcaster))
     = [command_map ex_map1, phase2 (ex_p2_1 0), acceptance \<lparr>am_inst = 1, am_cmd_key = first_key\<rparr>]"
  unfolding sys_run_def ring_trace_def sys_init_def ex_acc0_def [symmetric]
  by (simp add: sys_step_def succ3 mc_steps acc_steps can_steps to_multicast_def to_successor_def send_on_def example_count
      del: ring_event_step.simps)

section \<open>Agreement\<close>

text \<open>C7. The whole ring: whatever the network loses, repeats and reorders, an instance has one chosen
  command, and every acceptor of the ring had accepted it in one ballot; a command is mapped to one value; and nothing is chosen
  when the quorum is larger than the number of the acceptors that follow the multicaster.\<close>

theorem ring_agreement:
  assumes "ring_of cfg n" "multicaster_init cfg = Inr mc" "\<forall>ev \<in> set evs. valid_sys_event ev"
    and "s = sys_run cfg evs (sys_init cfg mc)" "(i, k) \<in> chosen_by s"
  shows "(\<forall>l. (i, l) \<in> chosen_by s \<longrightarrow> l = k) \<and> (\<forall>v w. (i, k, v) \<in> mapped_by s \<and> (i, k, w) \<in> mapped_by s \<longrightarrow> v = w)
    \<and> (\<exists>b. \<forall>j \<in> {2..n}. \<exists>t \<le> length evs. has_accepted (sys_acc (sys_run cfg (take t evs) (sys_init cfg mc)) j) i k b)
    \<and> (word_of_int (quorum_size cfg) :: u32) \<le> word_of_nat (n - 1)"
proof -
  have inv: "mc_inv cfg (mapped_by s) (chosen_by s) (agreed cfg n (ring_history cfg evs (sys_init cfg mc))) (sys_mc s)"
    using sys_run_inv [OF assms(1-3)] by (simp add: sys_inv_def assms(4))
  have "(i, k) \<in> agreed cfg n (ring_history cfg evs (sys_init cfg mc))" using mc_invD(9) [OF inv] assms(5) by blast
  then obtain b where "\<forall>j \<in> {2..n}. \<exists>t \<le> length evs. has_accepted (sys_acc (sys_run cfg (take t evs) (sys_init cfg mc)) j) i k b"
      "(word_of_int (quorum_size cfg) :: u32) \<le> word_of_nat (n - 1)"
    by (rule agreed_history)
  moreover have "l = k" if "(i, l) \<in> chosen_by s" for l using mc_invD(8) [OF inv that assms(5)] .
  moreover have "v = w" if "(i, k, v) \<in> mapped_by s" "(i, k, w) \<in> mapped_by s" for v w using mc_invD(7) [OF inv that] .
  ultimately show ?thesis by blast
qed

theorem ring_agreement_witness:
  "(1, first_key) \<in> chosen_by (sys_run example_cfg ring_trace (sys_init example_cfg example_mcaster))
    \<and> (\<exists>b. \<forall>j \<in> {2..3}. \<exists>t \<le> length ring_trace.
         has_accepted (sys_acc (sys_run example_cfg (take t ring_trace) (sys_init example_cfg example_mcaster)) j) 1 first_key b)"
proof -
  have c: "(1, first_key) \<in> chosen_by (sys_run example_cfg ring_trace (sys_init example_cfg example_mcaster))"
    by (simp add: chosen_by_def ring_trace_chosen)
  have "\<forall>ev \<in> set ring_trace. valid_sys_event ev" by (simp add: ring_trace_def mc_eval_defs)
  from ring_agreement [OF ring3 example_init this refl c] c show ?thesis by blast
qed

end
