(* ===== verification/RingAgreement.thy ===== *)
theory RingAgreement
  imports McasterProps DeliveryQueueSpec
begin

text \<open>
  What the invariant of the multicaster means for a learner: the mappings and acceptances it receives, in
  any order, any number of times and with any losses, are consistent, so its delivery queue delivers what
  was chosen.
\<close>

lemma inv_consistent:
  assumes inv: "mc_inv cfg W A B mc" and l: "cmdmaps_of l \<subseteq> W" "acceptances_of l \<subseteq> A"
  shows "consistent (cmdmaps_of l) (acceptances_of l)"
proof -
  have "0 < unat i \<and> unat i < 2 ^ 62 \<and> length v \<le> MAX_MESSAGE_SIZE" if "(i, k, v) \<in> cmdmaps_of l" for i k v
    using mc_invD(5) [OF inv, of i k v] that l(1) by (auto simp: sent_map_ok_def)
  moreover have "k = l'" if "(i, k) \<in> acceptances_of l" "(i, l') \<in> acceptances_of l" for i k l'
    using mc_invD(8) [OF inv] that l(2) by blast
  moreover have "v = w" if "(i, k, v) \<in> cmdmaps_of l" "(i, k, w) \<in> cmdmaps_of l" for i k v w
    using mc_invD(7) [OF inv] that l(1) by blast
  ultimately show ?thesis unfolding consistent_def by blast
qed

text \<open>The values a learner delivers are those of chosen commands, in the order of the instances.\<close>

definition delivers_chosen :: "sent_maps \<Rightarrow> sent_keys \<Rightarrow> bytes list \<Rightarrow> bool" where
  "delivers_chosen W A vs \<longleftrightarrow>
     (\<forall>j < length vs. \<exists>k. (word_of_nat (Suc j), k) \<in> A \<and> (word_of_nat (Suc j), k, vs ! j) \<in> W)"

lemma inv_delivers:
  assumes inv: "mc_inv cfg W A B mc" and l: "cmdmaps_of l \<subseteq> W" "acceptances_of l \<subseteq> A" and n: "0 < unat n" "unat n < 2 ^ 62"
  obtains dq vs where "dq_run l (delivery_queue_init n pc) = Inr (dq, vs)" "delivers_chosen W A vs"
proof -
  have start: "(delivery_queue_init n pc)\<lparr>highest_delivered := 0\<rparr> = delivery_queue_init n pc"
    by (simp add: delivery_queue_init_def)
  obtain dq vs where r: "dq_run l (delivery_queue_init n pc) = Inr (dq, vs)"
      "\<forall>j < length vs. \<exists>k. Acceptance (word_of_nat (Suc j)) k \<in> set l \<and> Cmdmap (word_of_nat (Suc j)) k (vs ! j) \<in> set l"
    using delivers_in_order [OF inv_consistent [OF inv l] n, of 0 pc] unfolding start by (auto simp del: of_nat_Suc)
  have "delivers_chosen W A vs"
    using r(2) l unfolding delivers_chosen_def cmdmaps_of_def acceptances_of_def by blast
  then show ?thesis by (rule that [OF r(1)])
qed

lemma delivered_agree:
  assumes inv: "mc_inv cfg W A B mc" and d: "delivers_chosen W A vs" "delivers_chosen W A vs'"
    and j: "j < length vs" "j < length vs'"
  shows "vs ! j = vs' ! j"
proof -
  obtain k where k: "(word_of_nat (Suc j), k) \<in> A" "(word_of_nat (Suc j), k, vs ! j) \<in> W"
    using d(1) j(1) unfolding delivers_chosen_def by blast
  obtain k' where k': "(word_of_nat (Suc j), k') \<in> A" "(word_of_nat (Suc j), k', vs' ! j) \<in> W"
    using d(2) j(2) unfolding delivers_chosen_def by blast
  show ?thesis using mc_invD(7) [OF inv k(2)] mc_invD(8) [OF inv k(1) k'(1)] k'(2) by blast
qed

end
