(* ===== verification/RingStart.thy ===== *)
theory RingStart
  imports RingNetwork RingTopology Mcaster RingAcceptor
begin

text \<open>
  The start of a process of \<^verbatim>\<open>ring_paxos\<close> (\<^verbatim>\<open>ring-paxos/acceptor.c\<close>): the
  configuration is read, the links to the neighbours are opened, and the acceptor becomes the multicaster
  if it has the id 1. What the operating system answers to the requests for sockets is a parameter; libevent and the event
  counters are not modelled.
\<close>

record os_sockets =
  sock_opened :: bool
  sock_connected :: bool
  sock_bound :: bool
  sock_joined :: bool

definition must :: "'a option res \<Rightarrow> 'a res" where
  "must r = rbind r (\<lambda>x. case x of None \<Rightarrow> Inl AssertFailed | Some y \<Rightarrow> Inr y)"

text \<open>The sender to the successor, the interval of its flushes, and the receiver from the predecessor.\<close>

definition common_init :: "os_config \<Rightarrow> os_sockets \<Rightarrow> config_mngr \<Rightarrow> (udp_sender \<times> timeval \<times> udp_receiver) res" where
  "common_init env os cfg =
     rbind (lptopo_get_successor_addr cfg) (\<lambda>addr.
     rbind (lptopo_get_successor_port cfg) (\<lambda>port.
     rbind (must (udp_sender_init (inet_addr_ok env) (sock_opened os) (sock_connected os) (Some addr))) (\<lambda>succ_send.
     rbind (udp_sender_enable_autoflush succ_send 1) (\<lambda>interval.
     rbind (lpconfig_get_self_ip_addr cfg) (\<lambda>own.
     rbind (lpconfig_get_ring_inbound_port cfg) (\<lambda>port.
     rbind (must (udp_receiver_init (sock_opened os) (sock_bound os) (Some own))) (\<lambda>pred_recv.
       Inr (succ_send, interval, pred_recv))))))))"

datatype ring_role =
    Leader mcaster udp_sender timeval udp_receiver
  | Regular ring_acceptor udp_receiver udp_receiver

definition multicaster_start :: "os_config \<Rightarrow> os_sockets \<Rightarrow> config_mngr \<Rightarrow> udp_receiver \<Rightarrow> ring_role res" where
  "multicaster_start env os cfg pred_recv =
     rbind (multicaster_init cfg) (\<lambda>mc.
     rbind (conf_getter mcast_addr cfg) (\<lambda>addr.
     rbind (conf_getter mcast_port cfg) (\<lambda>port.
     rbind (must (mcast_sender_init (inet_addr_ok env) (sock_opened os) (sock_connected os) (sock_joined os) (Some addr))) (\<lambda>mcast_send.
     rbind (conf_getter mcaster_clock_interval cfg) (\<lambda>interval.
     rbind (udp_receiver_set_preread_callback pred_recv) (\<lambda>pred_recv.
       Inr (Leader mc mcast_send interval pred_recv)))))))"

definition regular_acceptor_start :: "os_sockets \<Rightarrow> config_mngr \<Rightarrow> udp_receiver \<Rightarrow> ring_role res" where
  "regular_acceptor_start os cfg pred_recv =
     rbind (conf_getter working_set_size cfg) (\<lambda>n.
     rbind (conf_getter mcast_addr cfg) (\<lambda>addr.
     rbind (conf_getter mcast_port cfg) (\<lambda>port.
     rbind (must (mcast_receiver_init (sock_opened os) (sock_bound os) (sock_joined os) (Some addr))) (\<lambda>mcast_recv.
     rbind (lpconfig_get_self_ip_addr cfg) (\<lambda>own.
     rbind (lpconfig_get_learners_inbound_port cfg) (\<lambda>port.
       Inr (Regular (regular_acceptor_init (word_of_int n)) mcast_recv pred_recv)))))))"

definition ring_acceptor_init :: "os_config \<Rightarrow> os_sockets \<Rightarrow> scan_junk \<Rightarrow> string list option \<Rightarrow> u8 \<Rightarrow> (config_mngr \<times> udp_sender \<times> ring_role) res" where
  "ring_acceptor_init env os j file acc_id =
     rbind (config_mngr_init env j file acc_id) (\<lambda>(result, cfg).
     rassert (result = 0) (case cfg of None \<Rightarrow> Inl NullPointer
     | Some cfg \<Rightarrow>
       rbind (common_init env os cfg) (\<lambda>(succ_send, interval, pred_recv).
       rbind (conf_getter self_acceptor_id cfg) (\<lambda>self.
       rbind (if am_i_leader self then multicaster_start env os cfg pred_recv else regular_acceptor_start os cfg pred_recv) (\<lambda>role.
         Inr (cfg, succ_send, role))))))"

end
