(* ===== verification/RingStartSpec.thy ===== *)
theory RingStartSpec
  imports RingStart RingConfigSpec McasterProps
begin

text \<open>
  When a process of the ring starts: exactly when the address of its successor is usable and, for the
  multicaster, the multicast address too, which the validation of the configuration does not guarantee.
\<close>

section \<open>What the parser keeps\<close>

text \<open>The table has its size, no address is longer than its array, an unused entry has none, and the own
  id is the given one.\<close>

definition cfg_shape :: "u8 \<Rightarrow> config_mngr \<Rightarrow> bool" where
  "cfg_shape i cfg \<longleftrightarrow> length (acc_infos cfg) = MAX_ACCEPTORS \<and> (\<forall>ai \<in> set (acc_infos cfg). length (ip_addr ai) < 16 \<and> (ai_id ai = 0 \<longrightarrow> ip_addr ai = []))
     \<and> length (mcast_addr cfg) < 16 \<and> self_acceptor_id cfg = i"

lemma add_acceptor_shape: "add_acceptor_info cm a ip p1 p2 = Inr (added, cm') \<Longrightarrow> cfg_shape i cm \<Longrightarrow> cfg_shape i cm'"
  by (auto simp: add_acceptor_info_def cfg_shape_def res_eq_Inr split: if_splits dest!: subsetD [OF set_update_subset_insert])

lemma parse_acceptor_shape: "parse_acceptor j line cm = Inr (added, cm') \<Longrightarrow> cfg_shape i cm \<Longrightarrow> cfg_shape i cm'"
  by (auto simp: parse_acceptor_def store16_def res_eq_Inr split: option.splits prod.splits dest: add_acceptor_shape)

lemma parse_multicast_shape: "parse_multicast line cm = Inr cm' \<Longrightarrow> cfg_shape i cm \<Longrightarrow> cfg_shape i cm'"
  by (auto simp: parse_multicast_def store16_def cfg_shape_def res_eq_Inr split: option.splits prod.splits)

lemma parse_line_shape: "parse_line j line cm = Inr (Some cm') \<Longrightarrow> cfg_shape i cm \<Longrightarrow> cfg_shape i cm'"
  by (auto simp: parse_line_def res_eq_Inr split: if_splits dest: parse_acceptor_shape parse_multicast_shape) (auto simp: cfg_shape_def)

lemma open_and_parse_shape: "open_and_parse j lines cm = Inr (Some cm') \<Longrightarrow> cfg_shape i cm \<Longrightarrow> cfg_shape i cm'"
proof (induction lines arbitrary: cm)
  case (Cons line lines)
  obtain cm1 where "parse_line j line cm = Inr (Some cm1)" "open_and_parse j lines cm1 = Inr (Some cm')"
    using Cons.prems(1) by (auto simp: res_eq_Inr split: option.splits)
  then show ?case using Cons.IH parse_line_shape Cons.prems(2) by blast
qed simp

lemma validate_shape: "validate_config env cfg = Inr (Some cfg') \<Longrightarrow> cfg_shape i cfg \<Longrightarrow> cfg_shape i cfg'"
  unfolding validate_config_def Let_def validate_eq
  by (auto simp: res_eq_Inr validate_eq cfg_shape_def split: option.splits)

lemma config_accepted:
  assumes "config_mngr_init env j file i = Inr (0, Some cfg)"
  shows "cfg_shape i cfg \<and> config_valid env cfg"
proof -
  obtain lines cm where l: "open_and_parse j lines (zero_config\<lparr>self_acceptor_id := i\<rparr>) = Inr (Some cm)"
      and v: "validate_config env (cm\<lparr>cfg_initialized := True\<rparr>) = Inr (Some cfg)"
    using assms by (auto simp: config_mngr_init_def res_eq_Inr split: option.splits)
  have "cfg_shape i (zero_config\<lparr>self_acceptor_id := i\<rparr>)"
    by (auto simp: cfg_shape_def zero_config_def zero_acceptor_info_def MAX_ACCEPTORS_def)
  then have "cfg_shape i cm" by (rule open_and_parse_shape [OF l])
  then have "cfg_shape i (cm\<lparr>cfg_initialized := True\<rparr>)" by (simp add: cfg_shape_def)
  moreover have "windows_ok cm" by (rule open_and_parse_windows [OF l]) (simp add: windows_ok_def zero_config_def is_c_int_def)
  then have "config_valid env cfg" by (intro validate_config_ok [OF v]) (simp_all add: windows_ok_def)
  ultimately show ?thesis using validate_shape [OF v] by simp
qed

section \<open>The start\<close>

text \<open>Addresses that the senders take.\<close>

definition usable_addr :: "os_config \<Rightarrow> string \<Rightarrow> bool" where
  "usable_addr env addr \<longleftrightarrow> 7 \<le> length addr \<and> length addr < 16 \<and> inet_addr_ok env addr"

definition sockets_ok :: "os_sockets \<Rightarrow> bool" where
  "sockets_ok os \<longleftrightarrow> sock_opened os \<and> sock_connected os \<and> sock_bound os \<and> sock_joined os"

lemma must_sender:
  "sockets_ok os \<Longrightarrow> must (udp_sender_init (inet_addr_ok env) (sock_opened os) (sock_connected os) (Some addr))
    = (if usable_addr env addr then Inr udp_sender_new else Inl AssertFailed)"
  by (auto simp: must_def udp_sender_init_def usable_addr_def sockets_ok_def MAX_MESSAGE_SIZE_def MAX_TCP_PAYLOAD_def
      MAX_UDP_PAYLOAD_def)

lemma must_mcast_sender:
  "sockets_ok os \<Longrightarrow> must (mcast_sender_init (inet_addr_ok env) (sock_opened os) (sock_connected os) (sock_joined os) (Some addr))
    = (if usable_addr env addr then Inr (udp_sender_new\<lparr>us_is_multicast := True\<rparr>) else Inl AssertFailed)"
  by (auto simp: must_def mcast_sender_init_def udp_sender_init_def usable_addr_def sockets_ok_def MAX_MESSAGE_SIZE_def
      MAX_TCP_PAYLOAD_def MAX_UDP_PAYLOAD_def udp_sender_new_def Let_def)

lemma must_receiver:
  "sockets_ok os \<Longrightarrow> length addr < 16 \<Longrightarrow> must (udp_receiver_init (sock_opened os) (sock_bound os) (Some addr)) = Inr udp_receiver_new"
  "sockets_ok os \<Longrightarrow> length addr < 16 \<Longrightarrow> must (mcast_receiver_init (sock_opened os) (sock_bound os) (sock_joined os) (Some addr))
    = Inr (udp_receiver_new\<lparr>ur_is_multicast := True\<rparr>)"
  by (auto simp: must_def mcast_receiver_init_def udp_receiver_init_def sockets_ok_def udp_receiver_new_def Let_def)

lemma acceptor_info_entry:
  assumes "cfg_shape j cfg" "config_valid env cfg" "0 < unat i" "unat i < MAX_ACCEPTORS"
  shows "lpconfig_get_acceptor_info cfg i = Inr (acc_infos cfg ! unat i)"
proof -
  have "unat (ai_id (acc_infos cfg ! unat i)) \<le> MAX_ACCEPTORS"
    using assms by (auto simp: config_valid_def entry_valid_def MAX_ACCEPTORS_def)
  then show ?thesis using assms by (simp add: lpconfig_get_acceptor_info_def Let_def cfg_shape_def config_valid_def)
qed

definition successor_entry :: "config_mngr \<Rightarrow> nat \<Rightarrow> acceptor_info" where
  "successor_entry cfg n = acc_infos cfg ! Suc (unat (self_acceptor_id cfg) mod n)"

definition role_is :: "u8 \<Rightarrow> config_mngr \<Rightarrow> ring_role \<Rightarrow> bool" where
  "role_is i cfg role \<longleftrightarrow> (if i = 1
     then \<exists>mc us tv ur. role = Leader mc us tv ur \<and> multicaster_init cfg = Inr mc
     else \<exists>r1 r2. role = Regular (regular_acceptor_init (word_of_int (working_set_size cfg))) r1 r2)"

lemma own_addr_short:
  assumes "cfg_shape i cfg" "unat i < MAX_ACCEPTORS"
  shows "length (ip_addr (acc_infos cfg ! unat i)) < 16"
  using assms by (simp add: cfg_shape_def)

text \<open>The addresses that the start of an acceptor needs: the successor's, and the multicaster's own multicast
  address. An address of fewer than seven characters is refused by the senders.\<close>

definition can_start :: "os_config \<Rightarrow> u8 \<Rightarrow> config_mngr \<Rightarrow> nat \<Rightarrow> bool" where
  "can_start env i cfg n \<longleftrightarrow> usable_addr env (ip_addr (successor_entry cfg n)) \<and> (i = 1 \<longrightarrow> usable_addr env (mcast_addr cfg))"

text \<open>C38. The start of a process with an accepted configuration of at most nine acceptors, among whose numbers
  its own id is, when the operating system opens its sockets: it becomes the multicaster (id 1) or an acceptor in
  its initial state if the address of its successor is usable and, for the multicaster, the multicast address is
  too; otherwise it fails an assertion. The identifiers need not be consecutive for a configuration to be
  accepted, and an acceptor whose successor is missing cannot start.\<close>

theorem acceptor_starts:
  assumes "config_mngr_init env j file i = Inr (0, Some cfg)" "sockets_ok os"
    and "acceptors_count cfg = int n" "n < MAX_ACCEPTORS" "1 \<le> unat i" "unat i \<le> n"
  shows "(can_start env i cfg n \<longrightarrow>
      (\<exists>us role. ring_acceptor_init env os j file i = Inr (cfg, us, role) \<and> current_buf_size us = 0 \<and> role_is i cfg role))
    \<and> (\<not> can_start env i cfg n \<longrightarrow> ring_acceptor_init env os j file i = Inl AssertFailed)
    \<and> (ai_id (successor_entry cfg n) = 0 \<longrightarrow> ring_acceptor_init env os j file i = Inl AssertFailed)"
proof -
  have c: "cfg_shape i cfg" "config_valid env cfg" using config_accepted [OF assms(1)] by simp_all
  have init: "cfg_initialized cfg" "self_acceptor_id cfg = i" using c by (simp_all add: config_valid_def cfg_shape_def)
  have n255: "n < 255" using assms(4) by (simp add: MAX_ACCEPTORS_def)
  obtain k where k: "unat i = Suc k" "k < n" using assms(5,6) by (cases "unat i") auto
  obtain si where si: "lptopo_get_successor_id cfg = Inr si" "unat si = Suc (unat i mod n)"
    using successor_id [of cfg n k] init assms(3) n255 k by auto
  have bounds: "0 < unat si" "unat si < MAX_ACCEPTORS" "0 < unat i" "unat i < MAX_ACCEPTORS"
  proof -
    have "unat i mod n < n" by (rule mod_less_divisor) (use k in simp)
    then show "0 < unat si" "unat si < MAX_ACCEPTORS" "0 < unat i" "unat i < MAX_ACCEPTORS" using si(2) assms(4-6) by linarith+
  qed
  note entries = acceptor_info_entry [OF c bounds(1,2)] acceptor_info_entry [OF c bounds(3,4)]
  have succ: "successor_entry cfg n = acc_infos cfg ! unat si" by (simp add: successor_entry_def init(2) si(2))
  have own: "length (ip_addr (acc_infos cfg ! unat i)) < 16" "length (mcast_addr cfg) < 16" "length (acc_infos cfg) = MAX_ACCEPTORS"
    using own_addr_short [OF c(1) bounds(4)] c(1) by (simp_all add: cfg_shape_def)
  note topo = lptopo_get_successor_addr_def lptopo_get_successor_port_def lpconfig_get_ip_addr_of_def lpconfig_get_ring_port_of_def
    lpconfig_get_self_ip_addr_def lpconfig_get_ring_inbound_port_def lpconfig_get_learners_inbound_port_def own_info_def conf_getter_def
  have common: "common_init env os cfg = (if usable_addr env (ip_addr (successor_entry cfg n))
      then Inr (udp_sender_new, Timeval 0 1000, udp_receiver_new) else Inl AssertFailed)"
    using own bounds by (simp add: common_init_def topo si(1) entries init succ must_sender [OF assms(2)] must_receiver [OF assms(2)]
        udp_sender_enable_autoflush_def udp_sender_new_def)
  have empty: "ai_id (successor_entry cfg n) = 0 \<Longrightarrow> \<not> usable_addr env (ip_addr (successor_entry cfg n))"
    using c(1) bounds(2) by (auto simp: succ cfg_shape_def usable_addr_def)
  have start: "ring_acceptor_init env os j file i = rbind (common_init env os cfg) (\<lambda>(succ_send, interval, pred_recv).
      rbind (if am_i_leader i then multicaster_start env os cfg pred_recv else regular_acceptor_start os cfg pred_recv) (\<lambda>role.
        Inr (cfg, succ_send, role)))"
    by (simp add: ring_acceptor_init_def assms(1) conf_getter_def init)
  have none: "ring_acceptor_init env os j file i = Inl AssertFailed" if "\<not> usable_addr env (ip_addr (successor_entry cfg n))"
    using that common start by simp
  show ?thesis
  proof (cases "usable_addr env (ip_addr (successor_entry cfg n))")
    case False
    then show ?thesis using none by (simp add: can_start_def)
  next
    case successor: True
    define role_res where "role_res = (if am_i_leader i then multicaster_start env os cfg udp_receiver_new
        else regular_acceptor_start os cfg udp_receiver_new)"
    have run: "ring_acceptor_init env os j file i = rbind role_res (\<lambda>role. Inr (cfg, udp_sender_new, role))"
      using common start successor by (simp add: role_res_def)
    obtain mc where mc: "multicaster_init cfg = Inr mc"
      by (auto simp: multicaster_init_def client_values_mngr_init_queue_def client_values_mngr_UDP_init_def queue_init_def)
    have no_addr: "role_res = Inl AssertFailed" if "i = 1" "\<not> usable_addr env (mcast_addr cfg)"
      using that init mc by (simp add: role_res_def am_i_leader_def multicaster_start_def conf_getter_def must_mcast_sender [OF assms(2)])
    have starts: "\<exists>role. role_res = Inr role \<and> role_is i cfg role" if "i = 1 \<longrightarrow> usable_addr env (mcast_addr cfg)"
    proof (cases "i = 1")
      case True
      then show ?thesis using that init mc
        by (simp add: role_res_def am_i_leader_def multicaster_start_def conf_getter_def must_mcast_sender [OF assms(2)] role_is_def
            udp_receiver_set_preread_callback_def udp_receiver_new_def)
    next
      case False
      then show ?thesis using own bounds init
        by (simp add: role_res_def am_i_leader_def regular_acceptor_start_def topo entries must_receiver [OF assms(2)] role_is_def)
    qed
    show ?thesis
      using run no_addr starts successor empty by (auto simp: can_start_def udp_sender_new_def)
  qed
qed

definition all_open :: os_sockets where
  "all_open = \<lparr>sock_opened = True, sock_connected = True, sock_bound = True, sock_joined = True\<rparr>"

theorem acceptor_starts_witness:
  "\<exists>cfg us role. ring_acceptor_init sample_env all_open sample_junk (Some sample_file) 1 = Inr (cfg, us, role) \<and> role_is 1 cfg role"
proof -
  obtain cfg where c: "config_mngr_init sample_env sample_junk (Some sample_file) 1 = Inr (0, Some cfg)"
      and f: "acceptors_count cfg = 1" "mcast_addr cfg = ''239.0.0.1''" "acc_infos cfg = acc_infos sample_config"
    using sample_accepted by blast
  have "ip_addr (successor_entry cfg 1) = ''10.0.0.1''" by (simp add: successor_entry_def f(3) sample_config_def)
  then have "can_start sample_env 1 cfg 1"
    by (simp add: can_start_def usable_addr_def sample_env_def f(2))
  with acceptor_starts [OF c, of all_open 1] show ?thesis by (auto simp: f(1) sockets_ok_def all_open_def MAX_ACCEPTORS_def)
qed

end
