(* ===== verification/RingClient.thy ===== *)
theory RingClient
  imports RingLearner RingTimers
begin

text \<open>
  The client of \<^verbatim>\<open>ring_paxos\<close> that submits values and learns
  (\<^verbatim>\<open>ring-paxos/client_proposer_learner.c\<close>): it keeps a fixed number of values
  outstanding, sends a value again when its time runs out, and replaces it by a new one when it is
  delivered. The results of \<^verbatim>\<open>random\<close> and \<^verbatim>\<open>gettimeofday\<close> are arguments; the
  periodic events are libevent's, and printing is not modelled.
\<close>

section \<open>State\<close>

definition CONCURRENT_VALUES :: nat where "CONCURRENT_VALUES = 80"

definition MAX_VAL_SIZE :: nat where "MAX_VAL_SIZE = MAX_COMMAND_SIZE"

definition MIN_VAL_SIZE :: nat where "MIN_VAL_SIZE = MAX_COMMAND_SIZE - 50"

text \<open>A message has room for a value of the largest size in \<^verbatim>\<open>values_buffer\<close>.\<close>

record client_proposal =
  submit_time :: timeval
  cp_timeout :: timeval
  submit_msg :: submit_cmd_msg

record client =
  current_inst_number :: ring_iid
  value_timeout_interval :: timeval
  cl_current_time :: timeval
  timeout_count :: u64
  deliver_count :: u64
  deliver_bytes :: u64
  latency_samples_count :: u32
  latency_samples_sum :: u64
  min_latency :: u64
  max_latency :: u64
  pending_values :: "client_proposal list"

text \<open>\<^verbatim>\<open>clear\<close>; the smallest latency starts at \<^verbatim>\<open>LONG_MAX\<close>.\<close>

definition clear_client :: client where
  "clear_client = \<lparr>current_inst_number = 0, value_timeout_interval = Timeval 1 0, cl_current_time = Timeval 1 0,
     timeout_count = 0, deliver_count = 0, deliver_bytes = 0, latency_samples_count = 0, latency_samples_sum = 0,
     min_latency = 2 ^ 63 - 1, max_latency = 0,
     pending_values = replicate CONCURRENT_VALUES \<lparr>submit_time = Timeval 0 0, cp_timeout = Timeval 0 0,
       submit_msg = \<lparr>sc_cmd_size = 0, sc_cmd_value = replicate MAX_VAL_SIZE 0\<rparr>\<rparr>\<rparr>"

section \<open>Values\<close>

text \<open>Four results of \<^verbatim>\<open>random\<close>: the character, the size, and an identifier of two
  \<^verbatim>\<open>long\<close>s at the start of the value.\<close>

type_synonym randoms = "nat \<times> nat \<times> nat \<times> nat"

definition generate_random_value :: "randoms \<Rightarrow> submit_cmd_msg \<Rightarrow> submit_cmd_msg" where
  "generate_random_value rs sm = (case rs of (r1, r2, r3, r4) \<Rightarrow>
     let c = word_of_nat (r1 mod 94 + 33) :: u8;
         n = r2 mod (MAX_VAL_SIZE - MIN_VAL_SIZE) + MIN_VAL_SIZE;
         v = replicate n c @ drop n (sc_cmd_value sm);
         v = le_bytes 8 r3 @ drop 8 v;
         v = take 8 v @ le_bytes 8 r4 @ drop 16 v
     in \<lparr>sc_cmd_size = word_of_nat n, sc_cmd_value = v\<rparr>)"

text \<open>The sender copies the counted bytes.\<close>

definition submit_value :: "submit_cmd_msg \<Rightarrow> lc_out list" where
  "submit_value sm = [LcSend (client_submit (sm\<lparr>sc_cmd_value := take (unat (sc_cmd_size sm)) (sc_cmd_value sm)\<rparr>))
     (SUBMIT_CMD_MSG_SIZE sm)]"

text \<open>Division of C goes towards zero.\<close>

definition c_quot :: "int \<Rightarrow> int \<Rightarrow> int" where
  "c_quot a b = (if a < 0 then - ((- a) div b) else a div b)"

definition save_latency :: "timeval \<Rightarrow> timeval \<Rightarrow> client \<Rightarrow> client" where
  "save_latency submitted delivered cl =
     (let msec_diff = (word_of_int ((tv_sec delivered - tv_sec submitted) * 1000
            + c_quot (tv_usec delivered - tv_usec submitted) 1000) :: u32);
          l = ucast msec_diff :: u64
      in cl\<lparr>latency_samples_sum := latency_samples_sum cl + l, latency_samples_count := latency_samples_count cl + 1,
           max_latency := (if l > max_latency cl then l else max_latency cl),
           min_latency := (if l < min_latency cl then l else min_latency cl)\<rparr>)"

text \<open>Submitting, saving the time and setting the deadline, which follow each other in three places.\<close>

definition submit_at :: "timeval \<Rightarrow> timeval \<Rightarrow> client_proposal \<Rightarrow> client_proposal" where
  "submit_at now interval c = c\<lparr>submit_time := now, cp_timeout := timer_set_timeout now interval\<rparr>"

section \<open>Events\<close>

text \<open>The proposals one after the other: an expired one is sent again.\<close>

fun timeout_each :: "timeval \<Rightarrow> timeval \<Rightarrow> client_proposal list \<Rightarrow> u64 \<Rightarrow> client_proposal list \<times> u64 \<times> lc_out list" where
  "timeout_each now interval [] n = ([], n, [])"
| "timeout_each now interval (c # cs) n =
     (if timer_is_expired (cp_timeout c) now
      then let (cs, n, out) = timeout_each now interval cs (n + 1)
           in (submit_at now interval c # cs, n, submit_value (submit_msg c) @ out)
      else let (cs, n, out) = timeout_each now interval cs n in (c # cs, n, out))"

definition values_timeout_check :: "timeval \<Rightarrow> client \<Rightarrow> client \<times> lc_out list" where
  "values_timeout_check now cl =
     (let cl = cl\<lparr>cl_current_time := now\<rparr>;
          (cs, n, out) = timeout_each now (value_timeout_interval cl) (pending_values cl) (timeout_count cl)
      in (cl\<lparr>pending_values := cs, timeout_count := n\<rparr>, out))"

fun submit_first :: "timeval \<Rightarrow> timeval \<Rightarrow> randoms list \<Rightarrow> client_proposal list \<Rightarrow> client_proposal list \<times> lc_out list" where
  "submit_first now interval (r # rs) (c # cs) =
     (let c = c\<lparr>submit_msg := generate_random_value r (submit_msg c)\<rparr>;
          (cs, out) = submit_first now interval rs cs
      in (submit_at now interval c # cs, submit_value (submit_msg c) @ out))"
| "submit_first now interval rs cs = (cs, [])"

definition client_pl_init :: "timeval \<Rightarrow> randoms list \<Rightarrow> client \<Rightarrow> client \<times> lc_out list" where
  "client_pl_init now rs cl =
     (let cl = cl\<lparr>cl_current_time := now\<rparr>;
          (cs, out) = submit_first now (value_timeout_interval cl) rs (pending_values cl)
      in (cl\<lparr>pending_values := cs\<rparr>, out))"

definition own_value :: "bytes \<Rightarrow> client_proposal \<Rightarrow> bool" where
  "own_value v c \<longleftrightarrow> (let msg = submit_msg c in
     length v = unat (sc_cmd_size msg) \<and> take (length v) (sc_cmd_value msg) = v)"

text \<open>The loop ends with the first proposal that has the value.\<close>

definition on_deliver :: "timeval \<Rightarrow> randoms \<Rightarrow> bytes \<Rightarrow> client \<Rightarrow> client \<times> lc_out list" where
  "on_deliver now rs v cl =
     (let cl = cl\<lparr>current_inst_number := current_inst_number cl + 1\<rparr> in
      case List.find (\<lambda>i. own_value v (pending_values cl ! i)) [0 ..< length (pending_values cl)] of
        None \<Rightarrow> (cl, [])
      | Some i \<Rightarrow>
          let cl = cl\<lparr>deliver_count := deliver_count cl + 1, deliver_bytes := deliver_bytes cl + word_of_nat (length v),
                     cl_current_time := now\<rparr>;
              c = pending_values cl ! i;
              cl = save_latency (submit_time c) now cl;
              c = c\<lparr>submit_msg := generate_random_value rs (submit_msg c)\<rparr>
          in (cl\<lparr>pending_values := (pending_values cl)[i := submit_at now (value_timeout_interval cl) c]\<rparr>,
              submit_value (submit_msg c)))"

text \<open>The statistics start again after they are printed.\<close>

definition print_stats :: "client \<Rightarrow> client" where
  "print_stats cl =
     (if latency_samples_count cl > 0
      then cl\<lparr>latency_samples_count := 0, latency_samples_sum := 0, max_latency := 0, min_latency := 2 ^ 63 - 1\<rparr>
      else cl)"

end
