(* ===== verification/RingPrograms.thy ===== *)
theory RingPrograms
  imports RingClient
begin

text \<open>
  What surrounds the library of \<^verbatim>\<open>ring_paxos\<close>: the limits of the operating system
  (\<^verbatim>\<open>lib/os_dependent.c\<close>), the flags of sockets (\<^verbatim>\<open>lib/network_common.c\<close>), periodic
  events (\<^verbatim>\<open>lib/timers.c\<close>), the check of the command line (\<^verbatim>\<open>lib/util.c\<close>), and the
  programs \<^verbatim>\<open>ring-paxos/client_learner.c\<close> and \<^verbatim>\<open>ring-paxos/client_proposer.c\<close>. Files, system calls,
  times and random numbers are arguments.
\<close>

section \<open>Limits of the operating system\<close>

text \<open>The content of the files that can be opened.\<close>

type_synonym files = "string \<Rightarrow> string option"

text \<open>\<^verbatim>\<open>fgets\<close> reads up to a newline or \<open>n - 1\<close> characters, and nothing at the end
  of a file.\<close>

definition fgets :: "nat \<Rightarrow> string \<Rightarrow> string option" where
  "fgets n s = (if s = [] then None
     else let line = takeWhile (\<lambda>c. c \<noteq> CHR 0x0A) s in Some (take (n - 1) (line @ take 1 (drop (length line) s))))"

text \<open>\<^verbatim>\<open>atoi\<close> is 0 where there is no number; larger numbers are cut to 32 bits, as by
  \<open>%d\<close>.\<close>

definition atoi :: "string \<Rightarrow> int" where
  "atoi s = (case scan_int s of None \<Rightarrow> 0 | Some (v, _) \<Rightarrow> v)"

definition read_proc_variable :: "files \<Rightarrow> string \<Rightarrow> int" where
  "read_proc_variable fs path =
     (case fs path of None \<Rightarrow> - 1
      | Some content \<Rightarrow> (case fgets 100 content of None \<Rightarrow> - 1
        | Some linebuf \<Rightarrow> let v = atoi linebuf in if v \<le> 0 then - 1 else v))"

definition get_os_max_wbuf_size :: "files \<Rightarrow> int" where
  "get_os_max_wbuf_size fs = read_proc_variable fs ''/proc/sys/net/core/wmem_max''"

definition get_os_max_rbuf_size :: "files \<Rightarrow> int" where
  "get_os_max_rbuf_size fs = read_proc_variable fs ''/proc/sys/net/core/wmem_max''"

definition os_limits :: "(string \<Rightarrow> bool) \<Rightarrow> files \<Rightarrow> os_config" where
  "os_limits addr_ok fs = \<lparr>inet_addr_ok = addr_ok, os_max_rbuf = get_os_max_rbuf_size fs, os_max_wbuf = get_os_max_wbuf_size fs\<rparr>"

section \<open>Sockets\<close>

definition set_sock_attribute :: "int \<Rightarrow> int \<Rightarrow> int" where
  "set_sock_attribute getfl setfl = (if getfl = - 1 then - 1 else if setfl = - 1 then - 1 else 0)"

definition socket_set_nonblocking :: "int \<Rightarrow> int \<Rightarrow> unit res" where
  "socket_set_nonblocking getfl setfl = rassert (set_sock_attribute getfl setfl = 0) (Inr ())"

text \<open>The second option is set where the system has it.\<close>

definition socket_set_reuse_port :: "int \<Rightarrow> int option \<Rightarrow> unit res" where
  "socket_set_reuse_port reuseaddr reuseport =
     rassert (reuseaddr = 0) (case reuseport of None \<Rightarrow> Inr () | Some r \<Rightarrow> rassert (r = 0) (Inr ()))"

section \<open>Periodic events\<close>

text \<open>An event of libevent is over when it has happened; the wrapper adds it again, after the callback.
  The callback is a function of the state of the process; the result has the interval of the event that was added.\<close>

record 's periodic_event =
  pe_interval :: timeval
  pe_cb :: "'s \<Rightarrow> 's"

definition set_periodic_event :: "int \<Rightarrow> timeval \<Rightarrow> ('s \<Rightarrow> 's) \<Rightarrow> ('s periodic_event \<times> timeval) res" where
  "set_periodic_event event_add interval cb =
     (let p = \<lparr>pe_interval = interval, pe_cb = cb\<rparr> in rassert (event_add = 0) (Inr (p, pe_interval p)))"

definition periodic_event_wrapper :: "int \<Rightarrow> 's periodic_event \<Rightarrow> 's \<Rightarrow> ('s \<times> timeval) res" where
  "periodic_event_wrapper event_add pe s =
     (let s = pe_cb pe s in rassert (event_add = 0) (Inr (s, pe_interval pe)))"

section \<open>The command line\<close>

text \<open>\<^verbatim>\<open>stat\<close> answers whether the path is a regular file, if it exists. False is an exit.\<close>

definition validate_acceptor_args_or_quit :: "(string \<Rightarrow> bool option) \<Rightarrow> string list \<Rightarrow> bool" where
  "validate_acceptor_args_or_quit stat argv =
     (if length argv \<noteq> 3 then False
      else if atoi (argv ! 1) = 0 then False
      else case stat (argv ! 2) of None \<Rightarrow> False | Some regular \<Rightarrow> regular)"

text \<open>The id of the acceptor has 8 bits.\<close>

definition acceptor_id_arg :: "string list \<Rightarrow> u8" where
  "acceptor_id_arg argv = word_of_int (atoi (argv ! 1))"

section \<open>The learner program\<close>

record learner_stats =
  st_start_time :: int
  st_deliver_count :: u64
  st_deliver_bytes :: u64
  st_prev_time :: int
  ls_deliver_count :: u64
  ls_deliver_bytes :: u64

definition empty_stats :: learner_stats where
  "empty_stats = \<lparr>st_start_time = 0, st_deliver_count = 0, st_deliver_bytes = 0, st_prev_time = 0,
     ls_deliver_count = 0, ls_deliver_bytes = 0\<rparr>"

definition stats_custom_init :: "int \<Rightarrow> learner_stats \<Rightarrow> learner_stats" where
  "stats_custom_init now ls = (let ls = ls\<lparr>st_start_time := now\<rparr> in ls\<lparr>st_prev_time := st_start_time ls\<rparr>)"

definition stats_on_deliver :: "bytes \<Rightarrow> learner_stats \<Rightarrow> learner_stats" where
  "stats_on_deliver v ls = ls\<lparr>ls_deliver_count := ls_deliver_count ls + 1,
     ls_deliver_bytes := ls_deliver_bytes ls + word_of_nat (length v)\<rparr>"

text \<open>A division by zero, when no second has passed, is a fault.\<close>

definition stats_print :: "int \<Rightarrow> learner_stats \<Rightarrow> learner_stats res" where
  "stats_print current_time ls =
     (if ls_deliver_count ls = 0 then Inr ls
      else rguard (current_time - st_prev_time ls \<noteq> 0) (
        let ls = ls\<lparr>st_prev_time := current_time, st_deliver_count := st_deliver_count ls + ls_deliver_count ls,
                   ls_deliver_count := 0, st_deliver_bytes := st_deliver_bytes ls + ls_deliver_bytes ls, ls_deliver_bytes := 0\<rparr>
        in rguard (current_time - st_start_time ls \<noteq> 0) (Inr ls)))"

section \<open>The program that submits values\<close>

definition NUM_VALUES :: nat where "NUM_VALUES = 500000"

definition SUBMIT_PER_WAKE :: nat where "SUBMIT_PER_WAKE = 16"

definition generate_random_val :: "nat \<times> nat \<Rightarrow> bytes \<Rightarrow> bytes \<times> u64" where
  "generate_random_val r buf =
     (let c = word_of_nat (fst r mod 94 + 33) :: u8;
          s = snd r mod (MAX_VAL_SIZE - MIN_VAL_SIZE) + MIN_VAL_SIZE
      in (replicate s c @ drop s buf, word_of_nat s))"

text \<open>The values of one wake-up; the static buffer is the state, \<open>rnd\<close> the results of
  \<^verbatim>\<open>random\<close> for the value of a number.\<close>

fun submit_wake :: "(nat \<Rightarrow> nat \<times> nat) \<Rightarrow> nat \<Rightarrow> nat \<Rightarrow> bytes \<Rightarrow> bytes \<times> lc_out list" where
  "submit_wake rnd 0 count buf = (buf, [])"
| "submit_wake rnd (Suc n) count buf =
     (let (buf, s) = generate_random_val (rnd (count + 1)) buf;
          out = submit_command \<lparr>sc_cmd_size = s, sc_cmd_value = take (unat s) buf\<rparr>;
          (buf, out') = submit_wake rnd n (count + 1) buf
      in (buf, out @ out'))"

function submit_loop :: "(nat \<Rightarrow> nat \<times> nat) \<Rightarrow> nat \<Rightarrow> bytes \<Rightarrow> lc_out list" where
  "submit_loop rnd count buf =
     (if count < NUM_VALUES
      then let (buf, out) = submit_wake rnd SUBMIT_PER_WAKE count buf
           in out @ submit_proxy_flush_now @ submit_loop rnd (count + SUBMIT_PER_WAKE) buf
      else [])"
  by pat_completeness auto

termination
  by (relation "measure (\<lambda>(rnd, count, buf). NUM_VALUES - count)") (auto simp: SUBMIT_PER_WAKE_def)

declare submit_loop.simps [simp del]

end
