(* ===== verification/RingClientSpec.thy ===== *)
theory RingClientSpec
  imports RingClient
begin

text \<open>
  The client keeps its values outstanding: each of them was sent, and is sent again when its time runs out.
\<close>

section \<open>Messages\<close>

definition value_ok :: "submit_cmd_msg \<Rightarrow> bool" where
  "value_ok sm \<longleftrightarrow> length (sc_cmd_value sm) = MAX_VAL_SIZE \<and> MIN_VAL_SIZE \<le> unat (sc_cmd_size sm) \<and> unat (sc_cmd_size sm) < MAX_VAL_SIZE"

definition sent_msg :: "submit_cmd_msg \<Rightarrow> submit_cmd_msg" where
  "sent_msg sm = sm\<lparr>sc_cmd_value := take (unat (sc_cmd_size sm)) (sc_cmd_value sm)\<rparr>"

definition submits :: "lc_out list \<Rightarrow> submit_cmd_msg set" where
  "submits out = {sm. LcSend (client_submit sm) (SUBMIT_CMD_MSG_SIZE sm) \<in> set out}"

definition submission_ok :: "lc_out \<Rightarrow> bool" where
  "submission_ok x \<longleftrightarrow> (\<exists>sm. x = LcSend (client_submit sm) (SUBMIT_CMD_MSG_SIZE sm) \<and> length (sc_cmd_value sm) = unat (sc_cmd_size sm)
     \<and> MIN_VAL_SIZE \<le> unat (sc_cmd_size sm) \<and> unat (sc_cmd_size sm) < MAX_VAL_SIZE)"

lemma val_sizes: "MAX_VAL_SIZE = 8940" "MIN_VAL_SIZE = 8890"
  by (simp_all add: MAX_VAL_SIZE_def MIN_VAL_SIZE_def MAX_COMMAND_SIZE_def MAX_MESSAGE_SIZE_def MAX_TCP_PAYLOAD_def sizeof_phase1_msg_def)

lemma size_of_sent [simp]: "SUBMIT_CMD_MSG_SIZE (sent_msg sm) = SUBMIT_CMD_MSG_SIZE sm"
  by (simp add: SUBMIT_CMD_MSG_SIZE_def sent_msg_def)

lemma generated_ok: "length (sc_cmd_value sm) = MAX_VAL_SIZE \<Longrightarrow> value_ok (generate_random_value r sm)"
proof -
  assume l: "length (sc_cmd_value sm) = MAX_VAL_SIZE"
  obtain r1 r2 r3 r4 where r: "r = (r1, r2, r3, r4)" by (cases r)
  define m where "m = r2 mod 50 + 8890"
  have "r2 mod 50 < 50" by simp
  then have b: "8890 \<le> m" "m < 8940" by (simp_all add: m_def)
  then have n: "unat (word_of_nat m :: u64) = m" by (simp add: unsigned_of_nat take_bit_nat_eq_self)
  have e: "r2 mod (MAX_VAL_SIZE - MIN_VAL_SIZE) + MIN_VAL_SIZE = m" by (simp add: m_def val_sizes)
  show ?thesis unfolding value_ok_def generate_random_value_def r Let_def prod.case e using l n b by (simp add: val_sizes)
qed

lemma submit_value_ok:
  assumes "value_ok sm"
  shows "list_all submission_ok (submit_value sm)" "sent_msg sm \<in> submits (submit_value sm)" "length (submit_value sm) = 1"
  using assms by (auto simp: submit_value_def submits_def sent_msg_def submission_ok_def value_ok_def SUBMIT_CMD_MSG_SIZE_def)

lemma submits_append [simp]: "submits (out @ out') = submits out \<union> submits out'" "submits [] = {}"
  by (auto simp: submits_def)

section \<open>The invariant\<close>

definition client_ok :: "client \<Rightarrow> lc_out list \<Rightarrow> bool" where
  "client_ok cl out \<longleftrightarrow> length (pending_values cl) = CONCURRENT_VALUES \<and> value_timeout_interval cl = Timeval 1 0
     \<and> (\<forall>c \<in> set (pending_values cl). value_ok (submit_msg c) \<and> sent_msg (submit_msg c) \<in> submits out)
     \<and> list_all submission_ok out \<and> word_of_nat (length out) = 80 + timeout_count cl + deliver_count cl"

lemma timeout_each_ok:
  assumes "timeout_each now iv cs n = (cs', n', out)" "\<forall>c \<in> set cs. value_ok (submit_msg c)"
  shows "map submit_msg cs' = map submit_msg cs \<and> list_all submission_ok out \<and> n' = n + word_of_nat (length out)"
  using assms
proof (induction cs arbitrary: n cs' n' out)
  case (Cons c cs)
  obtain cs1 n1 o1 where r: "timeout_each now iv cs (if timer_is_expired (cp_timeout c) now then n + 1 else n) = (cs1, n1, o1)"
    by (metis prod_cases3)
  note ih = Cons.IH [OF r]
  show ?case using Cons.prems r ih submit_value_ok [of "submit_msg c"]
    by (cases "timer_is_expired (cp_timeout c) now") (auto simp: submit_at_def)
qed simp

lemma timeout_each_deadlines:
  assumes "timeout_each now (Timeval 1 0) cs n = (cs', n', out)" "normal_time now" "c \<in> set cs'"
  shows "\<not> timer_is_expired (cp_timeout c) now"
  using assms
proof (induction cs arbitrary: n cs' n' out)
  case (Cons x cs)
  obtain cs1 n1 o1 where r: "timeout_each now (Timeval 1 0) cs (if timer_is_expired (cp_timeout x) now then n + 1 else n) = (cs1, n1, o1)"
    by (metis prod_cases3)
  have late: "\<not> timer_is_expired (timer_set_timeout now (Timeval 1 0)) now"
    using Cons.prems(2) by (simp add: timer_is_expired_def timer_set_timeout_def normal_time_def Let_def)
  show ?case using Cons.prems r late Cons.IH [OF r Cons.prems(2)]
    by (cases "timer_is_expired (cp_timeout x) now") (auto simp: submit_at_def)
qed simp

lemma check_ok:
  assumes "client_ok cl out" "values_timeout_check now cl = (cl', out')"
  shows "client_ok cl' (out @ out')"
proof -
  obtain cs n where r: "timeout_each now (Timeval 1 0) (pending_values cl) (timeout_count cl) = (cs, n, out')"
      and e: "cl' = cl\<lparr>cl_current_time := now, pending_values := cs, timeout_count := n\<rparr>"
    using assms by (auto simp: values_timeout_check_def client_ok_def Let_def split: prod.splits)
  have t: "map submit_msg cs = map submit_msg (pending_values cl)" "list_all submission_ok out'" "n = timeout_count cl + word_of_nat (length out')"
    using timeout_each_ok [OF r] assms(1) by (simp_all add: client_ok_def)
  have "length cs = length (pending_values cl)" using t(1) by (metis length_map)
  moreover have "\<exists>d \<in> set (pending_values cl). submit_msg d = submit_msg c" if "c \<in> set cs" for c
    using t(1) that by (metis image_iff list.set_map)
  ultimately show ?thesis using assms(1) t(2,3) e unfolding client_ok_def by (auto simp: algebra_simps) metis+
qed

lemma save_latency_keeps [simp]:
  "pending_values (save_latency a b cl) = pending_values cl" "value_timeout_interval (save_latency a b cl) = value_timeout_interval cl"
  "timeout_count (save_latency a b cl) = timeout_count cl" "deliver_count (save_latency a b cl) = deliver_count cl"
  by (simp_all add: save_latency_def Let_def)

lemma deliver_ok:
  assumes "client_ok cl out" "on_deliver now rs v cl = (cl', out')"
  shows "client_ok cl' (out @ out')"
proof (cases "List.find (\<lambda>i. own_value v (pending_values cl ! i)) [0 ..< length (pending_values cl)]")
  case None
  then show ?thesis using assms by (auto simp: on_deliver_def client_ok_def Let_def)
next
  case (Some i)
  then have i: "i < length (pending_values cl)" by (auto simp: find_Some_iff)
  define sm where "sm = generate_random_value rs (submit_msg (pending_values cl ! i))"
  have ok: "value_ok sm" unfolding sm_def
    using assms(1) i by (intro generated_ok) (simp add: client_ok_def value_ok_def)
  define c where "c = submit_at now (value_timeout_interval cl) ((pending_values cl ! i)\<lparr>submit_msg := sm\<rparr>)"
  have c: "submit_msg c = sm" by (simp add: c_def submit_at_def)
  have e: "pending_values cl' = (pending_values cl)[i := c]" "out' = submit_value sm"
      and r: "value_timeout_interval cl' = value_timeout_interval cl" "timeout_count cl' = timeout_count cl" "deliver_count cl' = deliver_count cl + 1"
    using assms(2) Some by (auto simp: on_deliver_def Let_def c_def sm_def)
  have mem: "d = c \<or> d \<in> set (pending_values cl)" if "d \<in> set (pending_values cl')" for d
    using that e(1) set_update_subset_insert by fastforce
  show ?thesis using assms(1) submit_value_ok [OF ok] ok c e r mem
    unfolding client_ok_def by (auto simp: algebra_simps)
qed

lemma submit_first_ok:
  assumes "submit_first now iv rs cs = (cs', out)" "length rs = length cs" "\<forall>c \<in> set cs. length (sc_cmd_value (submit_msg c)) = MAX_VAL_SIZE"
  shows "length cs' = length cs \<and> length out = length cs \<and> list_all submission_ok out
    \<and> (\<forall>c \<in> set cs'. value_ok (submit_msg c) \<and> sent_msg (submit_msg c) \<in> submits out)"
  using assms
proof (induction rs cs arbitrary: cs' out rule: list_induct2')
  case (4 r rs c cs)
  obtain cs1 o1 where r: "submit_first now iv rs cs = (cs1, o1)" by (metis surj_pair)
  have ok: "value_ok (generate_random_value r (submit_msg c))" using 4 by (intro generated_ok) simp
  show ?case using 4 r submit_value_ok [OF ok] ok by (auto simp: Let_def submit_at_def)
qed auto

section \<open>Runs\<close>

datatype client_event = Check timeval | Delivered timeval randoms bytes | PrintStats

fun client_do :: "client_event \<Rightarrow> client \<times> lc_out list \<Rightarrow> client \<times> lc_out list" where
  "client_do (Check now) (cl, out) = (let (cl, o1) = values_timeout_check now cl in (cl, out @ o1))"
| "client_do (Delivered now rs v) (cl, out) = (let (cl, o1) = on_deliver now rs v cl in (cl, out @ o1))"
| "client_do PrintStats (cl, out) = (print_stats cl, out)"

definition client_runs :: "timeval \<Rightarrow> randoms list \<Rightarrow> client_event list \<Rightarrow> client \<times> lc_out list" where
  "client_runs now rs evs = fold client_do evs (client_pl_init now rs clear_client)"

lemma print_stats_ok: "client_ok cl out \<Longrightarrow> client_ok (print_stats cl) out"
  by (simp add: print_stats_def client_ok_def)

lemma client_do_ok: "client_ok cl out \<Longrightarrow> client_do ev (cl, out) = (cl', out') \<Longrightarrow> client_ok cl' out'"
  by (cases ev) (auto intro: check_ok deliver_ok print_stats_ok split: prod.splits)

lemma fold_client_ok: "client_ok cl out \<Longrightarrow> fold client_do evs (cl, out) = (cl', out') \<Longrightarrow> client_ok cl' out'"
proof (induction evs arbitrary: cl out)
  case (Cons ev evs)
  obtain cl1 o1 where r: "client_do ev (cl, out) = (cl1, o1)" by (metis surj_pair)
  show ?case using Cons r client_do_ok [OF Cons.prems(1) r] by simp
qed simp

lemma init_ok:
  assumes "length rs = CONCURRENT_VALUES" "client_pl_init now rs clear_client = (cl, out)"
  shows "client_ok cl out"
proof -
  obtain cs where r: "submit_first now (Timeval 1 0) rs (pending_values clear_client) = (cs, out)"
      and e: "cl = clear_client\<lparr>cl_current_time := now, pending_values := cs\<rparr>"
    using assms(2) by (auto simp: client_pl_init_def clear_client_def Let_def split: prod.splits)
  have "length (pending_values clear_client) = CONCURRENT_VALUES"
    "\<forall>c \<in> set (pending_values clear_client). length (sc_cmd_value (submit_msg c)) = MAX_VAL_SIZE"
    by (simp_all add: clear_client_def)
  from submit_first_ok [OF r _ this(2)] this(1) assms(1) show ?thesis
    by (simp add: client_ok_def e) (simp add: clear_client_def CONCURRENT_VALUES_def)
qed

text \<open>C40. Whatever it is told is delivered and whenever it looks at its clock, the client keeps 80 values outstanding: each
  has a size the code allows and is in a submission it made, it makes one submission for each initial value,
  each value that timed out and each delivered value of its own, and after a check at a time whose sum with the
  interval does not overflow no value is expired.
\<close>

theorem client_keeps_outstanding:
  assumes "length rs = CONCURRENT_VALUES" "client_runs now rs evs = (cl, out)"
  shows "length (pending_values cl) = 80
    \<and> (\<forall>c \<in> set (pending_values cl). value_ok (submit_msg c) \<and> sent_msg (submit_msg c) \<in> submits out)
    \<and> list_all submission_ok out
    \<and> word_of_nat (length out) = 80 + timeout_count cl + deliver_count cl
    \<and> (normal_time t \<longrightarrow> (\<forall>c \<in> set (pending_values (fst (values_timeout_check t cl))). \<not> timer_is_expired (cp_timeout c) t))"
proof -
  obtain cl0 out0 where i: "client_pl_init now rs clear_client = (cl0, out0)" by (metis surj_pair)
  have ok: "client_ok cl out"
    by (rule fold_client_ok [OF init_ok [OF assms(1) i]]) (use assms(2) i in \<open>simp add: client_runs_def\<close>)
  obtain cs n o1 where r: "timeout_each t (Timeval 1 0) (pending_values cl) (timeout_count cl) = (cs, n, o1)" by (metis prod_cases3)
  have "pending_values (fst (values_timeout_check t cl)) = cs"
    using r ok by (simp add: values_timeout_check_def client_ok_def Let_def)
  then show ?thesis using ok timeout_each_deadlines [OF r] by (auto simp: client_ok_def CONCURRENT_VALUES_def)
qed

lemma client_keeps_outstanding_witness:
  "\<exists>cl out. client_runs (Timeval 5 0) (replicate 80 (1, 2, 3, 4)) [Check (Timeval 7 0), PrintStats] = (cl, out)
     \<and> length (pending_values cl) = 80"
proof -
  obtain cl out where r: "client_runs (Timeval 5 0) (replicate 80 (1, 2, 3, 4)) [Check (Timeval 7 0), PrintStats] = (cl, out)"
    by (metis surj_pair)
  show ?thesis using r client_keeps_outstanding [OF _ r, of "Timeval 7 0"] by (auto simp: CONCURRENT_VALUES_def)
qed

end
