(* ===== verification/RingProgramsSpec.thy ===== *)
theory RingProgramsSpec
  imports RingPrograms RingClientSpec RingNetworkSpec
begin

text \<open>
  The sizes of commands from the client to the messages of the ring, and what the programs around the library do.
\<close>

section \<open>Sizes of commands\<close>

lemma word_size_add:
  fixes a b :: u64
  assumes "unat b < 2 ^ 63" "unat a < 2 ^ 63"
  shows "unat (a + b) = unat a + unat b"
  using assms by (intro unat_add_lem [THEN iffD1]) simp

lemma net_send_drops: "us_initialized us \<Longrightarrow> int MAX_MESSAGE_SIZE < sz \<Longrightarrow> net_send_udp os1 os2 us data sz t = Inr (us, [])"
  by (simp add: net_send_udp_def)

lemma header_sizes: "unat sizeof_cmdmap_msg = 24" "unat sizeof_phase1_msg = 40"
  by (simp_all add: sizeof_cmdmap_msg_def sizeof_phase1_msg_def)

text \<open>
  A command of at most \<open>MAX_COMMAND_SIZE\<close> bytes is submitted by the proxy and fits into every message that carries it.
  But the proxy, which reserves 14 bytes for headers, also passes larger commands, up to 8958 bytes: above 8940 bytes no
  acceptor can report the command in phase 1, and above 8956 the multicaster cannot even map it to an instance, since the
  sender drops the message without a trace.
\<close>

theorem large_commands_dropped:
  assumes "submit_command sm \<noteq> []" "unat (sc_cmd_size sm) < 2 ^ 63" "us_initialized us"
    and "cm_cmd_size m = sc_cmd_size sm" "p1_cmd_size p = sc_cmd_size sm"
  shows "unat (sc_cmd_size sm) \<le> 8958
    \<and> (unat (sc_cmd_size sm) \<le> MAX_COMMAND_SIZE \<longrightarrow>
         unat (CMDMAP_MSG_SIZE m) \<le> MAX_MESSAGE_SIZE \<and> unat (PH1_MSG_SIZE p) \<le> MAX_MESSAGE_SIZE)
    \<and> (unat (sc_cmd_size sm) > MAX_COMMAND_SIZE \<longrightarrow>
         net_send_udp os1 os2 us data (int (unat (PH1_MSG_SIZE p))) t = Inr (us, []))
    \<and> (unat (sc_cmd_size sm) > 8956 \<longrightarrow>
         net_send_udp os1 os2 us data (int (unat (CMDMAP_MSG_SIZE m))) t = Inr (us, []))"
proof -
  let ?n = "unat (sc_cmd_size sm)"
  note max = MAX_COMMAND_SIZE_def MAX_MESSAGE_SIZE_def MAX_TCP_PAYLOAD_def header_sizes
  have s: "unat (SUBMIT_CMD_MSG_SIZE sm) = 8 + ?n"
    unfolding SUBMIT_CMD_MSG_SIZE_def using word_size_add [OF assms(2), of 8] by simp
  have p: "unat (PH1_MSG_SIZE p) = 40 + ?n" "unat (CMDMAP_MSG_SIZE m) = 24 + ?n"
    unfolding PH1_MSG_SIZE_def CMDMAP_MSG_SIZE_def assms(4,5)
    using word_size_add [OF assms(2), of sizeof_phase1_msg] word_size_add [OF assms(2), of sizeof_cmdmap_msg] by (simp_all add: header_sizes)
  have "\<not> SUBMIT_CMD_MSG_SIZE sm > word_of_nat MAX_MESSAGE_SIZE - LARGEST_PAXOS_HEADER"
    using assms(1) by (auto simp: submit_command_def split: if_splits)
  then have "unat (SUBMIT_CMD_MSG_SIZE sm) \<le> 8966"
    by (simp add: word_le_nat_alt max LARGEST_PAXOS_HEADER_def not_less)
  then have le: "?n \<le> 8958" using s by simp
  have c: "MAX_MESSAGE_SIZE = 8980" "MAX_COMMAND_SIZE = 8940" by (simp_all add: max)
  have drop: "8980 < k + n \<Longrightarrow> net_send_udp os1 os2 us data (int (k + n)) t = Inr (us, [])" for k n
    by (rule net_send_drops [OF assms(3)]) (simp add: c)
  show ?thesis unfolding p c(2) using le drop [of 40 ?n] drop [of 24 ?n] c(1) by auto
qed

definition largest_submit :: submit_cmd_msg where
  "largest_submit = \<lparr>sc_cmd_size = 8958, sc_cmd_value = replicate 8958 65\<rparr>"

definition largest_map :: cmdmap_msg where
  "largest_map = \<lparr>cm_inst = 1, cm_cmd_key = \<lparr>mcaster_id = 1, mcaster_incarnation = 0, cmd_seqnum = 1\<rparr>,
     cm_cmd_size = 8958, cm_cmd_value = replicate 8958 65\<rparr>"

definition largest_phase1 :: phase1_msg where
  "largest_phase1 = \<lparr>p1_inst = 1, p1_ballot = 1, promises_count = 1, highest_accepted_ballot = 1, highest_promised_ballot = 1,
     p1_cmd_key = cm_cmd_key largest_map, p1_cmd_size = 8958, p1_cmd_value = cm_cmd_value largest_map\<rparr>"

lemma largest_sizes: "sc_cmd_size largest_submit = 8958" "cm_cmd_size largest_map = 8958" "p1_cmd_size largest_phase1 = 8958"
  by (simp_all add: largest_submit_def largest_map_def largest_phase1_def)

theorem large_commands_dropped_witness:
  "net_send_udp int int udp_sender_new [] (int (unat (CMDMAP_MSG_SIZE largest_map))) 4 = Inr (udp_sender_new, [])"
proof -
  have 1: "submit_command largest_submit \<noteq> []"
    by (simp add: submit_command_def SUBMIT_CMD_MSG_SIZE_def largest_sizes MAX_MESSAGE_SIZE_def MAX_TCP_PAYLOAD_def LARGEST_PAXOS_HEADER_def)
  have 2: "unat (sc_cmd_size largest_submit) < 2 ^ 63" "us_initialized udp_sender_new" "cm_cmd_size largest_map = sc_cmd_size largest_submit"
    "p1_cmd_size largest_phase1 = sc_cmd_size largest_submit" "unat (sc_cmd_size largest_submit) > 8956"
    by (simp_all add: largest_sizes udp_sender_new_def)
  show ?thesis using large_commands_dropped [OF 1 2(1-4), of int int "[]" 4] 2(5) by blast
qed

section \<open>The program that submits values\<close>

lemma generated_val:
  assumes "MAX_VAL_SIZE \<le> length buf" "generate_random_val r buf = (buf', s)"
  shows "length buf' = length buf \<and> MIN_VAL_SIZE \<le> unat s \<and> unat s < MAX_VAL_SIZE"
proof -
  define m where "m = snd r mod 50 + 8890"
  have "snd r mod 50 < 50" by simp
  then have b: "8890 \<le> m" "m < 8940" by (simp_all add: m_def)
  then have n: "unat (word_of_nat m :: u64) = m" by (simp add: unsigned_of_nat take_bit_nat_eq_self)
  have e: "snd r mod (MAX_VAL_SIZE - MIN_VAL_SIZE) + MIN_VAL_SIZE = m" by (simp add: m_def val_sizes)
  show ?thesis using assms n b unfolding generate_random_val_def Let_def e by (auto simp: val_sizes)
qed

lemma submit_wake_ok:
  assumes "MAX_VAL_SIZE \<le> length buf" "submit_wake rnd n count buf = (buf', out)"
  shows "length buf' = length buf \<and> length out = n \<and> list_all submission_ok out"
  using assms
proof (induction n arbitrary: count buf buf' out)
  case (Suc n)
  obtain b1 s where g: "generate_random_val (rnd (count + 1)) buf = (b1, s)" by (metis surj_pair)
  obtain b2 o2 where w: "submit_wake rnd n (count + 1) b1 = (b2, o2)" by (metis surj_pair)
  note s = generated_val [OF Suc.prems(1) g]
  let ?sm = "\<lparr>sc_cmd_size = s, sc_cmd_value = take (unat s) b1\<rparr>"
  have len: "length (take (unat s) b1) = unat s" using s Suc.prems(1) by simp
  have "unat (8 + s) = 8 + unat s" using word_size_add [of s 8] s by (simp add: val_sizes)
  then have "submit_command ?sm = [LcSend (client_submit ?sm) (SUBMIT_CMD_MSG_SIZE ?sm)]"
    using s by (simp add: submit_command_def SUBMIT_CMD_MSG_SIZE_def word_less_nat_alt val_sizes MAX_MESSAGE_SIZE_def MAX_TCP_PAYLOAD_def
        LARGEST_PAXOS_HEADER_def)
  moreover have "submission_ok (LcSend (client_submit ?sm) (SUBMIT_CMD_MSG_SIZE ?sm))"
    unfolding submission_ok_def using s len by (intro exI [of _ ?sm]) simp
  ultimately show ?case using Suc.IH [OF _ w] Suc.prems s g w by auto
qed simp

text \<open>The program ends after 31250 packets of 16 values, and the proxy drops none of them.\<close>

definition packet :: "lc_out list \<Rightarrow> bool" where
  "packet b \<longleftrightarrow> length b = SUBMIT_PER_WAKE \<and> list_all submission_ok b"

lemma submit_loop_packets:
  assumes "MAX_VAL_SIZE \<le> length buf" "count + SUBMIT_PER_WAKE * k = NUM_VALUES"
  shows "\<exists>bs. submit_loop rnd count buf = concat (map (\<lambda>b. b @ [LcFlush]) bs) \<and> length bs = k \<and> list_all packet bs"
  using assms
proof (induction k arbitrary: count buf)
  case 0
  then show ?case by (simp add: submit_loop.simps)
next
  case (Suc k)
  obtain b1 out where w: "submit_wake rnd SUBMIT_PER_WAKE count buf = (b1, out)" by (metis surj_pair)
  have c: "count < NUM_VALUES" "(count + SUBMIT_PER_WAKE) + SUBMIT_PER_WAKE * k = NUM_VALUES"
    using Suc.prems(2) by (simp_all add: SUBMIT_PER_WAKE_def)
  note o = submit_wake_ok [OF Suc.prems(1) w]
  have "MAX_VAL_SIZE \<le> length b1" using o Suc.prems(1) by simp
  from Suc.IH [OF this c(2)] obtain bs where "submit_loop rnd (count + SUBMIT_PER_WAKE) b1 = concat (map (\<lambda>b. b @ [LcFlush]) bs)"
      "length bs = k" "list_all packet bs" by blast
  moreover have "packet out" using o by (simp add: packet_def)
  ultimately show ?case using c(1) w
    by (intro exI [of _ "out # bs"]) (simp add: submit_loop.simps [of rnd count] submit_proxy_flush_now_def)
qed

lemma submit_loop_sends:
  assumes "MAX_VAL_SIZE \<le> length buf"
  shows "\<exists>bs. submit_loop rnd 0 buf = concat (map (\<lambda>b. b @ [LcFlush]) bs) \<and> length bs = 31250 \<and> list_all packet bs"
  by (rule submit_loop_packets [OF assms]) (simp add: SUBMIT_PER_WAKE_def NUM_VALUES_def)

section \<open>The learner program\<close>

datatype stats_event = StDeliver bytes | StPrint int

fun stats_do :: "stats_event \<Rightarrow> learner_stats res \<Rightarrow> learner_stats res" where
  "stats_do (StDeliver v) r = rbind r (\<lambda>ls. Inr (stats_on_deliver v ls))"
| "stats_do (StPrint t) r = rbind r (stats_print t)"

fun delivered_values :: "stats_event list \<Rightarrow> bytes list" where
  "delivered_values [] = []"
| "delivered_values (StDeliver v # evs) = v # delivered_values evs"
| "delivered_values (StPrint t # evs) = delivered_values evs"

text \<open>Whatever is printed in between, the two counts together are the number of values and of bytes.\<close>

lemma stats_counts:
  assumes "fold stats_do evs (Inr ls) = Inr ls'"
  shows "st_deliver_count ls' + ls_deliver_count ls' = st_deliver_count ls + ls_deliver_count ls + word_of_nat (length (delivered_values evs))
    \<and> st_deliver_bytes ls' + ls_deliver_bytes ls'
      = st_deliver_bytes ls + ls_deliver_bytes ls + word_of_nat (sum_list (map length (delivered_values evs)))"
  using assms
proof (induction evs arbitrary: ls)
  case (Cons ev evs)
  have stop: "fold stats_do es (Inl f) = Inl f" for es f
  proof (induction es)
    case (Cons e es)
    then show ?case by (cases e) simp_all
  qed simp
  obtain ls1 where s: "stats_do ev (Inr ls) = Inr ls1" using Cons.prems stop by (cases "stats_do ev (Inr ls)") auto
  show ?case using Cons.IH [of ls1] Cons.prems s
    by (cases ev) (auto simp: stats_on_deliver_def stats_print_def rguard_eq_Inr Let_def algebra_simps split: if_splits)
qed simp

section \<open>The limits, the timers and the command line\<close>

text \<open>The limit for receiving is read from the file of the limit for sending.\<close>

lemma receive_limit_not_read:
  "validate_socket_buffer_size (os_limits addr_ok fs) cfg \<longleftrightarrow>
     0 \<le> get_os_max_wbuf_size fs \<and> socket_buffers_size cfg \<le> get_os_max_wbuf_size fs"
  by (auto simp: validate_socket_buffer_size_def os_limits_def get_os_max_rbuf_size_def get_os_max_wbuf_size_def)

lemma receive_limit_exceeded:
  assumes "fs ''/proc/sys/net/core/wmem_max'' = Some ''4096''" "fs ''/proc/sys/net/core/rmem_max'' = Some ''1024''"
    and "socket_buffers_size cfg = 4096"
  shows "validate_socket_buffer_size (os_limits addr_ok fs) cfg"
  using assms by (simp add: receive_limit_not_read get_os_max_wbuf_size_def read_proc_variable_def fgets_def atoi_def scan_int_def
      scan_digits_def c_int_def is_space_def is_digit_def digit_value_def Let_def)

lemma read_proc_variable_bound: "read_proc_variable fs path = - 1 \<or> 0 < read_proc_variable fs path"
  by (auto simp: read_proc_variable_def Let_def split: option.splits)

text \<open>A periodic event runs its callback once for each time it happens, and is added again with its interval.\<close>

fun fire :: "nat \<Rightarrow> 's periodic_event \<Rightarrow> 's \<times> timeval \<Rightarrow> ('s \<times> timeval) res" where
  "fire 0 pe (s, t) = Inr (s, t)"
| "fire (Suc n) pe (s, t) = rbind (periodic_event_wrapper 0 pe s) (fire n pe)"

lemma fire_times: "set_periodic_event 0 interval cb = Inr (pe, t) \<Longrightarrow> fire n pe (s, t) = Inr ((cb ^^ n) s, interval)"
proof (induction n arbitrary: s)
  case (Suc n)
  then show ?case by (auto simp: periodic_event_wrapper_def set_periodic_event_def Let_def rassert_eq_Inr funpow_swap1)
qed (simp add: set_periodic_event_def Let_def rassert_eq_Inr)

text \<open>The check of the command line accepts every number but 0; the id is then cut to 8 bits.\<close>

lemma acceptor_args_checked:
  "validate_acceptor_args_or_quit stat argv \<Longrightarrow> length argv = 3 \<and> atoi (argv ! 1) \<noteq> 0 \<and> stat (argv ! 2) = Some True"
  by (auto simp: validate_acceptor_args_or_quit_def split: if_splits option.splits)

lemma acceptor_id_cut:
  "validate_acceptor_args_or_quit (\<lambda>_. Some True) [''acceptor'', ''256'', ''ring.conf''] \<and> acceptor_id_arg [''acceptor'', ''256'', ''ring.conf''] = 0"
  "validate_acceptor_args_or_quit (\<lambda>_. Some True) [''acceptor'', ''-2'', ''ring.conf''] \<and> acceptor_id_arg [''acceptor'', ''-2'', ''ring.conf''] = 254"
  by code_simp+

end
