(* ===== verification/Startup.thy ===== *)
theory Startup
  imports AcceptorSpec LearnerInit ProposerSpec
begin

text \<open>
  The start of the processes of \<^verbatim>\<open>paxos2\<close>: the sockets
  (\<^verbatim>\<open>udp_sendbuf_new\<close>, \<^verbatim>\<open>udp_receiver_new\<close>), the timers, the opening of the database
  (\<^verbatim>\<open>bdb_init_tx_handle\<close>, \<^verbatim>\<open>bdb_init_db\<close> and their caller) and the custom functions that the
  learner thread runs. What the system calls and the calls of Berkeley DB answer are parameters; the results are the return
  value and what was done, in order.
\<close>

section \<open>Sockets\<close>

datatype endpoint = SendTo group | RecvFrom group

text \<open>The answers to \<^verbatim>\<open>socket\<close>, two calls of \<^verbatim>\<open>setsockopt\<close>, \<^verbatim>\<open>inet_addr\<close>,
  \<^verbatim>\<open>bind\<close> and two calls of \<^verbatim>\<open>fcntl\<close>.\<close>

record socket_answers =
  ans_socket :: int
  ans_reuse :: int
  ans_membership :: int
  ans_inet_addr :: bool
  ans_bind :: int
  ans_getfl :: int
  ans_setfl :: int

text \<open>The result is the descriptor, or none for \<^verbatim>\<open>NULL\<close>. The macro
  \<^verbatim>\<open>PAXOS_UDP_SEND_NONBLOCK\<close> is not defined in the repository.\<close>

definition udp_sendbuf_socket :: "socket_answers \<Rightarrow> int option" where
  "udp_sendbuf_socket a =
     (if ans_socket a < 0 then None
      else if \<not> ans_inet_addr a then None
      else Some (ans_socket a))"

definition udp_receiver_blocking_new :: "socket_answers \<Rightarrow> int option" where
  "udp_receiver_blocking_new a =
     (if ans_socket a < 0 then None
      else if ans_reuse a \<noteq> 0 then None
      else if ans_membership a \<noteq> 0 then None
      else if \<not> ans_inet_addr a then None
      else if ans_bind a \<noteq> 0 then None
      else Some (ans_socket a))"

definition udp_receiver_open :: "socket_answers \<Rightarrow> int option" where
  "udp_receiver_open a =
     (case udp_receiver_blocking_new a of
        None \<Rightarrow> None
      | Some sock \<Rightarrow>
          if ans_getfl a < 0 then None
          else if ans_setfl a < 0 then None
          else Some sock)"

text \<open>The structure is freed whether or not the socket could be closed.\<close>

definition udp_receiver_destroy :: "int \<Rightarrow> int" where
  "udp_receiver_destroy close_result = (if close_result \<noteq> 0 then - 1 else 0)"

section \<open>Steps of a start\<close>

datatype start_event =
    Opened endpoint int
  | Watches endpoint int
  | TimerSet nat nat
  | SuspendLearner
  | StorageInit
  | FirstPing
  | LeaderInit
  | CustomInit

type_synonym start = "int \<times> start_event list"

text \<open>One step after the other, until one fails.\<close>

definition and_then :: "start \<Rightarrow> start \<Rightarrow> start" where
  "and_then s t = (if fst s \<noteq> 0 then (- 1, snd s) else (fst t, snd s @ snd t))"

definition open_sender :: "(endpoint \<Rightarrow> socket_answers) \<Rightarrow> group \<Rightarrow> start" where
  "open_sender os g = (case udp_sendbuf_socket (os (SendTo g)) of None \<Rightarrow> (- 1, []) | Some s \<Rightarrow> (0, [Opened (SendTo g) s]))"

definition open_receiver :: "(endpoint \<Rightarrow> socket_answers) \<Rightarrow> group \<Rightarrow> start" where
  "open_receiver os g = (case udp_receiver_open (os (RecvFrom g)) of
     None \<Rightarrow> (- 1, []) | Some s \<Rightarrow> (0, [Opened (RecvFrom g) s, Watches (RecvFrom g) s]))"

definition LEARNER_HOLECHECK_INTERVAL :: nat where "LEARNER_HOLECHECK_INTERVAL = 500000"

definition ACCEPTOR_REPEAT_INTERVAL :: nat where "ACCEPTOR_REPEAT_INTERVAL = 3"

section \<open>The learner\<close>

definition init_lea_network :: "(endpoint \<Rightarrow> socket_answers) \<Rightarrow> start" where
  "init_lea_network os = and_then (open_sender os Acceptors) (open_receiver os Learners)"

definition init_lea_timers :: "int \<Rightarrow> start" where
  "init_lea_timers event_add =
     (if event_add \<noteq> 0 then (- 1, [])
      else (0, [TimerSet (LEARNER_HOLECHECK_INTERVAL div 1000000) (LEARNER_HOLECHECK_INTERVAL mod 1000000)]))"

section \<open>The acceptor\<close>

definition init_acc_network :: "(endpoint \<Rightarrow> socket_answers) \<Rightarrow> start" where
  "init_acc_network os =
     and_then (open_sender os Proposers) (and_then (open_sender os Learners) (open_receiver os Acceptors))"

definition init_acc_timers :: "int \<Rightarrow> start" where
  "init_acc_timers event_add = (if event_add \<noteq> 0 then (- 1, []) else (0, [TimerSet ACCEPTOR_REPEAT_INTERVAL 0]))"

text \<open>The macro \<^verbatim>\<open>ACCEPTOR_UPDATE_ON_DELIVER\<close> is the argument \<open>upd\<close>.\<close>

definition init_acceptor :: "bool \<Rightarrow> (endpoint \<Rightarrow> socket_answers) \<Rightarrow> int \<Rightarrow> int \<Rightarrow> start" where
  "init_acceptor upd os event_add storage =
     and_then (0, if upd then [] else [SuspendLearner])
       (and_then (init_acc_network os)
         (and_then (init_acc_timers event_add)
           (if storage \<noteq> 0 then - 1 else 0, [StorageInit])))"

section \<open>The proposer\<close>

definition init_pro_network :: "(endpoint \<Rightarrow> socket_answers) \<Rightarrow> start" where
  "init_pro_network os = and_then (open_sender os Acceptors) (open_receiver os Proposers)"

definition init_pro_fd_events :: "(endpoint \<Rightarrow> socket_answers) \<Rightarrow> start" where
  "init_pro_fd_events os =
     and_then (open_sender os PingsNet) (and_then (open_receiver os OracleNet) (0, [FirstPing]))"

definition init_proposer :: "(endpoint \<Rightarrow> socket_answers) \<Rightarrow> int \<Rightarrow> int option \<Rightarrow> proposer \<Rightarrow> start" where
  "init_proposer os leader_result client_custom_init st =
     and_then (init_pro_network os)
       (and_then (init_pro_fd_events os)
         (and_then (fst (init_pro_structs st), [])
           (and_then (if LEADER_IS_ME st then (if leader_result \<noteq> 0 then - 1 else 0, [LeaderInit]) else (0, []))
             (case client_custom_init of None \<Rightarrow> (0, []) | Some r \<Rightarrow> (if r \<noteq> 0 then - 1 else 0, [CustomInit])))))"

section \<open>The processes\<close>

text \<open>The learner thread with the custom function of its process; the answers to the calls of libevent are arguments.\<close>

definition learner_process :: "(endpoint \<Rightarrow> socket_answers) \<Rightarrow> bool \<Rightarrow> int \<Rightarrow> start option \<Rightarrow> int \<Rightarrow> status" where
  "learner_process os libevent_ok event_add custom ready_event =
     init_learner_thread True libevent_ok (fst (init_lea_network os)) (fst (init_lea_timers event_add))
       (map_option fst custom) (if ready_event \<noteq> 0 then - 1 else 0)"

definition acceptor_process :: "int \<Rightarrow> status \<Rightarrow> int" where
  "acceptor_process acceptor_id thread =
     (if N_OF_ACCEPTORS \<ge> 32 then - 1
      else if acceptor_id < 0 \<or> acceptor_id \<ge> int N_OF_ACCEPTORS then - 1
      else if result_of thread \<noteq> 0 then - 1
      else 0)"

definition proposer_process :: "int \<Rightarrow> status \<Rightarrow> int" where
  "proposer_process proposer_id thread =
     (if proposer_id < 0 \<or> proposer_id \<ge> int MAX_N_OF_PROPOSERS then - 1
      else if result_of thread \<noteq> 0 then - 1
      else 0)"

section \<open>The opening of the database\<close>

text \<open>The last two answers are those of an environment or a database that was created but not opened; its
  documentation only allows to close it.\<close>

record bdb_answers =
  env_create :: int
  env_set_flags :: int
  env_set_cachesize :: int
  env_open :: int
  dbp_create :: int
  dbp_set_cachesize :: int
  dbp_open :: int
  begin_unopened :: int
  sync_unopened :: int

datatype bdb_call =
    EnvCreate | EnvSetFlags string | EnvSetErrfile | EnvSetCachesize | EnvOpen
  | DbCreate | DbSetCachesize | TxnBegin | DbOpen db_file | TxnEnd

definition bdb_init_tx_handle :: "bdb_answers \<Rightarrow> string \<Rightarrow> int \<times> bdb_call list" where
  "bdb_init_tx_handle a tx_mode =
     (if env_create a \<noteq> 0 then (- 1, [EnvCreate])
      else if env_set_flags a \<noteq> 0 then (- 1, [EnvCreate, EnvSetFlags tx_mode])
      else if env_set_cachesize a \<noteq> 0 then (- 1, [EnvCreate, EnvSetFlags tx_mode, EnvSetErrfile, EnvSetCachesize])
      else (if env_open a \<noteq> 0 then - 1 else 0, [EnvCreate, EnvSetFlags tx_mode, EnvSetErrfile, EnvSetCachesize, EnvOpen]))"

text \<open>What \<^verbatim>\<open>dbenv\<close> is after that: null until \<^verbatim>\<open>db_env_create\<close> succeeds, then the
  handle of an environment that may have been opened or not.\<close>

datatype env_handle = NullHandle | NotOpened | EnvOpened

definition env_handle :: "bdb_answers \<Rightarrow> init_action list \<Rightarrow> env_handle" where
  "env_handle a acts =
     (if acts = [] \<or> env_create a \<noteq> 0 then NullHandle
      else if list_ex (\<lambda>x. case x of InitTxHandle m \<Rightarrow> fst (bdb_init_tx_handle a m) = 0 | _ \<Rightarrow> False) acts then EnvOpened
      else NotOpened)"

text \<open>The transaction around the opening of the database, whose result is tested after it. The transaction
  dereferences \<^verbatim>\<open>dbenv\<close>; in mode 20 its end is a \<^verbatim>\<open>sync\<close> of the database.\<close>

definition tx_begin_handle :: "'db bdb \<Rightarrow> bdb_answers \<Rightarrow> env_handle \<Rightarrow> 'db storage \<Rightarrow> 'db storage res" where
  "tx_begin_handle E a handle st =
     (if DURABILITY_MODE E = 0 \<or> DURABILITY_MODE E = 20 then stablestorage_tx_begin E st
      else case handle of
        NullHandle \<Rightarrow> Inl NullPointer
      | NotOpened \<Rightarrow> rassert (begin_unopened a = 0) (Inr st)
      | EnvOpened \<Rightarrow> stablestorage_tx_begin E st)"

definition tx_end_handle :: "'db bdb \<Rightarrow> bdb_answers \<Rightarrow> 'db storage \<Rightarrow> 'db storage res" where
  "tx_end_handle E a st =
     (if DURABILITY_MODE E = 20 \<and> dbp_open a \<noteq> 0 then rassert (sync_unopened a = 0) (Inr st)
      else stablestorage_tx_end E st)"

definition bdb_init_db :: "'db bdb \<Rightarrow> bdb_answers \<Rightarrow> env_handle \<Rightarrow> db_file \<Rightarrow> 'db storage \<Rightarrow> (int \<times> 'db storage \<times> bdb_call list) res" where
  "bdb_init_db E a handle db_path st =
     (let manual = DURABILITY_MODE E = 0 \<or> DURABILITY_MODE E = 20 in
      if dbp_create a \<noteq> 0 then Inr (- 1, st, [DbCreate])
      else if manual \<and> dbp_set_cachesize a \<noteq> 0 then Inr (- 1, st, [DbCreate, DbSetCachesize])
      else rbind (tx_begin_handle E a handle st) (\<lambda>st.
           rbind (tx_end_handle E a st) (\<lambda>st.
             Inr (if dbp_open a \<noteq> 0 then - 1 else 0, st,
               DbCreate # (if manual then [DbSetCachesize] else []) @ [TxnBegin, DbOpen db_path, TxnEnd]))))"

text \<open>The whole opening. The result of the handle is only printed, as are the failures of emptying the
  directory.\<close>

definition storage_start ::
  "'db bdb \<Rightarrow> bool \<Rightarrow> init_env \<Rightarrow> bdb_answers \<Rightarrow> 'db storage \<Rightarrow> (int \<times> 'db storage \<times> bdb_call list) res" where
  "storage_start E do_recovery e a st =
     (if do_recovery \<and> (\<not> dir_exists e \<or> \<not> db_exists e) then Inr (- 1, st, [])
      else if \<not> dir_exists e \<and> \<not> mkdir_ok e then Inr (- 1, st, [])
      else case durability_switch (DURABILITY_MODE E) of
        None \<Rightarrow> Inr (- 1, st, [])
      | Some (acts, file) \<Rightarrow>
          let calls = concat (map (\<lambda>x. case x of InitTxHandle m \<Rightarrow> snd (bdb_init_tx_handle a m) | _ \<Rightarrow> []) acts) in
          rbind (bdb_init_db E a (env_handle a acts) file st) (\<lambda>(r, st, calls').
            Inr (if r \<noteq> 0 then - 1 else 0, st, calls @ calls')))"

end
