(* ===== verification/StartupSpec.thy ===== *)
theory StartupSpec
  imports Startup
begin

text \<open>
  When an acceptor of \<^verbatim>\<open>paxos2\<close> starts: its exact condition over what the system and Berkeley DB
  answer, and the answers that the code prints and goes on from.
\<close>

section \<open>Steps\<close>

lemma and_then_ok [simp]: "fst (and_then s t) = 0 \<longleftrightarrow> fst s = 0 \<and> fst t = 0"
  by (auto simp: and_then_def)

definition sender_answers :: "socket_answers \<Rightarrow> bool" where
  "sender_answers a \<longleftrightarrow> 0 \<le> ans_socket a \<and> ans_inet_addr a"

definition receiver_answers :: "socket_answers \<Rightarrow> bool" where
  "receiver_answers a \<longleftrightarrow> 0 \<le> ans_socket a \<and> ans_reuse a = 0 \<and> ans_membership a = 0 \<and> ans_inet_addr a \<and> ans_bind a = 0
     \<and> 0 \<le> ans_getfl a \<and> 0 \<le> ans_setfl a"

lemma open_sender_ok [simp]: "fst (open_sender os g) = 0 \<longleftrightarrow> sender_answers (os (SendTo g))"
  by (auto simp: open_sender_def udp_sendbuf_socket_def sender_answers_def)

lemma open_receiver_ok [simp]: "fst (open_receiver os g) = 0 \<longleftrightarrow> receiver_answers (os (RecvFrom g))"
  by (auto simp: open_receiver_def udp_receiver_open_def udp_receiver_blocking_new_def receiver_answers_def split: option.splits)

lemma learner_process_ok:
  "result_of (learner_process os libevent_ok ea custom rd) = 0 \<longleftrightarrow> libevent_ok \<and> ea = 0 \<and> rd = 0
     \<and> (case custom of None \<Rightarrow> True | Some c \<Rightarrow> fst c = 0)
     \<and> sender_answers (os (SendTo Acceptors)) \<and> receiver_answers (os (RecvFrom Learners))"
  by (auto simp: learner_process_def init_learner_thread_def result_of_def init_lea_structs_ok init_lea_network_def init_lea_timers_def
      split: option.splits)


section \<open>The proposer\<close>

lemma init_pro_structs_ok: "fst (init_pro_structs st) = 0"
  by (simp add: init_pro_structs_def PROPOSER_ARRAY_SIZE_def PROPOSER_PREEXEC_WIN_SIZE_def)

lemma init_proposer_ok:
  "fst (init_proposer os l cif st) = 0 \<longleftrightarrow> sender_answers (os (SendTo Acceptors)) \<and> receiver_answers (os (RecvFrom Proposers))
     \<and> sender_answers (os (SendTo PingsNet)) \<and> receiver_answers (os (RecvFrom OracleNet)) \<and> (LEADER_IS_ME st \<longrightarrow> l = 0) \<and> (cif = None \<or> cif = Some 0)"
  by (auto simp: init_proposer_def init_pro_network_def init_pro_fd_events_def init_pro_structs_ok split: option.splits)

lemma proposer_process_ok:
  "proposer_process i (learner_process os libevent_ok ea (Some (init_proposer os l cif st)) rd) = 0 \<longleftrightarrow>
     0 \<le> i \<and> i < int MAX_N_OF_PROPOSERS \<and> libevent_ok \<and> ea = 0 \<and> rd = 0
     \<and> sender_answers (os (SendTo Acceptors)) \<and> receiver_answers (os (RecvFrom Learners)) \<and> fst (init_proposer os l cif st) = 0"
  by (auto simp: proposer_process_def learner_process_ok)

section \<open>The database\<close>













section \<open>The acceptor\<close>







end
