(* ===== verification/Spec2Isabelle.thy ===== *)
theory Spec2Isabelle
  imports Agreement LearnerInit ValuesHandler ProposerSpec MemoryPool DeliveryQueueSpec RingAcceptorProps RingNetworkSpec RingLearnerSpec RingConfigSpec RingSystemProps RingAgreement RingStartSpec RingProgramsSpec StartupSpec
begin

text \<open>
  Verification of the two Paxos implementations in \<^verbatim>\<open>lib/paxos2\<close> and
  \<^verbatim>\<open>lib/ring_paxos\<close>. Paths below are relative to the directory of the library.

  \<^bold>\<open>The program.\<close> \<^verbatim>\<open>paxos2\<close> is a library of three roles over IP multicast. A
  proposer, which may be the leader, sends batches of prepare requests and accept requests to the
  acceptors; an acceptor answers the proposers with prepare acknowledgements and the learners with accept
  acknowledgements, and stores its records in Berkeley DB; a learner counts acknowledgements, delivers the
  instances in order and asks for what is missing. Messages are batches that are written to a send
  buffer, sent as one datagram, validated by the receiver and read in a loop.
  \<^verbatim>\<open>ring_paxos\<close> arranges the acceptors in a ring. The first of them, the multicaster, multicasts the
  commands of the clients and a phase 2 message; the acceptors accept and forward the message along the ring, each
  adding one to its count; when it comes back with a quorum the multicaster multicasts the
  key of the chosen command, and the delivery queue of a learner delivers the command when it has both.

  \<^bold>\<open>How the code is represented.\<close> A struct is a record, an enum or a tagged message a
  datatype, an integer a word of its width (a C \<^verbatim>\<open>short\<close> is \<open>u16\<close> read
  with \<open>sint\<close>), and a function with effects takes and returns the state. A failed assertion, a
  null dereference and an access outside of a block are the value \<open>Inl fault\<close>; a function that has no
  such outcome has no fault in its type. What is sent and the calls of callbacks are lists of outputs, in
  order. Memory whose bytes matter is a list of bytes read and written with bounds (\<open>mread\<close>,
  \<open>mwrite\<close>); uninitialized memory is an argument (\<open>junk\<close>). Tables of instances are
  functions of the index, which the code computes with a mask. The time, random numbers, the
  results of \<^verbatim>\<open>send\<close> and of the calls for sockets are arguments. Berkeley DB is the
  parameter \<open>bdb\<close>, with the documented behaviour of an opened environment and database as the hypothesis
  \<open>bdb_ok\<close>, which a database in memory satisfies (\<open>map_bdb_ok\<close>); the answers of a handle
  whose opening failed are parameters of \<open>Startup\<close>.

  \<^bold>\<open>Theories.\<close>
  \<^item> \<open>Prelude\<close>: words, bytes, the result monad, memory blocks, and the locale
    \<open>circular\<close> of tables indexed modulo their size.
  \<^item> \<open>Messages\<close>, \<open>SendBuf\<close>, \<open>Receiver\<close>, \<open>Transport\<close>
    (\<^verbatim>\<open>paxos2/include/libpaxos_messages.h\<close>, \<^verbatim>\<open>paxos2/lib/udp_sendbuf.c\<close>,
    \<^verbatim>\<open>udp_receiver.c\<close>): the layout of the messages, the buffer that flushes itself, the
    validation, and the link from one to the other, the locale \<open>batch_link\<close>, interpreted for
    each kind of batch: what was added is read back, in order.
  \<^item> \<open>StableStorage\<close>, \<open>Acceptor\<close>, \<open>AcceptorSpec\<close>
    (\<^verbatim>\<open>acceptor_stable_storage.c\<close>, \<^verbatim>\<open>acceptor.c\<close>): every handler and the periodic
    repeater. The locale \<open>acceptor_op\<close> is a handler that answers each request of a batch within one
    transaction; its three interpretations refine pure functions on records (\<open>spec_prepare\<close>,
    \<open>code_accept\<close>, \<open>spec_repeat\<close>), and nothing is sent before it is committed.
    \<open>spec_accept\<close> is the acceptance of Paxos; \<open>code_accept\<close> has the test of the code and
    is the same unless the record has another ballot than the request (\<open>code_accept_is_spec\<close>).
  \<^item> \<open>Learner\<close>, \<open>LearnerSpec\<close> (\<^verbatim>\<open>learner.c\<close>): delivery in order, each value
    backed by a quorum of acknowledgements of its ballot (the code does not compare their values, so that these carry the
    delivered value when a ballot has one value), and liveness with two acknowledgements. \<open>Agreement\<close> composes proposers'
    requests, acceptors and learners: the ballot test of \<^verbatim>\<open>acc_apply_accept\<close> is reversed and two learners can
    deliver different values.
  \<^item> \<open>LearnerInit\<close> (the two threads of \<^verbatim>\<open>learner_init\<close> as an inductive step relation),
    \<open>Startup\<close>, \<open>StartupSpec\<close> (sockets, timers, the opening of the database, and when the
    processes start).
  \<^item> \<open>Fifo\<close> (the locale \<open>fifo\<close> of a bounded queue), \<open>ValuesHandler\<close>
    (\<^verbatim>\<open>proposer_values_handler.c\<close>, a linked list in an explicit heap, an interpretation of it).
  \<^item> \<open>Timeval\<close>, \<open>Proposer\<close>, \<open>ProposerSpec\<close> (\<^verbatim>\<open>proposer.c\<close>,
    \<^verbatim>\<open>proposer_leader.c\<close>): ballots, phase 1 and 2, timeouts and the change of the leader. Here the
    queue of client values is a list; \<open>ValuesHandler\<close> proves that the pointers implement it.
  \<^item> \<open>Queue\<close>, \<open>MemoryPool\<close>, \<open>RingBallot\<close>, \<open>RingTimers\<close>
    (\<^verbatim>\<open>ring_paxos/lib/queue.c\<close>, \<^verbatim>\<open>memory_pool.c\<close>, \<^verbatim>\<open>util.c\<close>,
    \<^verbatim>\<open>timers.c\<close>): the ring buffer refines a list and interprets \<open>fifo\<close>; a pool never shares
    a chunk.
  \<^item> \<open>DeliveryQueue\<close>, \<open>DeliveryQueueSpec\<close> (\<^verbatim>\<open>delivery_queue.c\<close>): on
    consistent messages, in any order and repeated, it never faults and delivers the chosen values in order.
  \<^item> \<open>RingMessages\<close>, \<open>RingStorage\<close>, \<open>RingAcceptor\<close>, \<open>RingAcceptorSpec\<close>,
    \<open>RingAcceptorProps\<close>, \<open>RingRange\<close> (\<^verbatim>\<open>stable_storage_1.c\<close>,
    \<^verbatim>\<open>ring-paxos/acceptor_helpers.c\<close>, \<^verbatim>\<open>acceptor_events.c\<close>): the pointers of a record are
    explicit (\<open>cmd_ptr\<close>) with the heap they point to; the acceptor refines an abstract Paxos
    acceptor, keeps its promises, and a range of phase 1 is as good as its instances one by one.
  \<^item> \<open>RingConfig\<close>, \<open>RingConfigSpec\<close>, \<open>RingTopology\<close>, \<open>RingStart\<close>,
    \<open>RingStartSpec\<close> (\<^verbatim>\<open>config_parser.c\<close>, \<^verbatim>\<open>topology_manager.c\<close>,
    \<^verbatim>\<open>ring-paxos/acceptor.c\<close>): what an accepted file guarantees, the ring, and when a process starts.
  \<^item> \<open>Mcaster\<close>, \<open>McasterStorage\<close>, \<open>McasterSpec\<close>, \<open>McasterValues\<close>,
    \<open>McasterProps\<close>
    (\<^verbatim>\<open>acceptor_helpers_mcaster.c\<close>, \<^verbatim>\<open>mcaster_storage.c\<close>,
    \<^verbatim>\<open>client_values_manager.c\<close>): whatever it receives, the multicaster chooses one command for an
    instance, after a quorum accepted it (the invariant \<open>mc_inv\<close>); every command it proposes
    carries a value that a client submitted to it, the instances it closes are announced, and what the promises
    of phase 1 report is dropped (\<open>McasterValues\<close>).
  \<^item> \<open>RingNetwork\<close>, \<open>RingNetworkSpec\<close> (\<^verbatim>\<open>network_udp.c\<close>): framing of messages in
    datagrams, and reading within bounds. \<open>RingLearner\<close>, \<open>RingLearnerSpec\<close>
    (\<^verbatim>\<open>ringpaxos_learner.c\<close>, \<^verbatim>\<open>ringpaxos_submit_proxy.c\<close>): a periodic check asks for all
    that is missing. \<open>RingClient\<close>, \<open>RingClientSpec\<close>
    (\<^verbatim>\<open>ring-paxos/client_proposer_learner.c\<close>): the client that keeps its values outstanding.
    \<open>RingPrograms\<close>, \<open>RingProgramsSpec\<close> (\<^verbatim>\<open>client_learner.c\<close>,
    \<^verbatim>\<open>client_proposer.c\<close>, \<^verbatim>\<open>os_dependent.c\<close>,
    \<^verbatim>\<open>network_common.c\<close>, the periodic events of \<^verbatim>\<open>timers.c\<close> and the command line of
    \<^verbatim>\<open>util.c\<close>): the other programs, the sockets and the timers, with the answers of the system as arguments.
  \<^item> \<open>RingSystem\<close>, \<open>RingSystemSpec\<close>, \<open>RingSystemProps\<close>,
    \<open>RingAgreement\<close>: multicaster, acceptors and clients over a network that keeps all that was ever sent
    and lets any process receive any of it at any time. The count of a phase 2 message is the number of the
    acceptors that accepted it; with the delivery queues this gives the agreement of the learners, proved at
    the end of this theory.

  \<^bold>\<open>Bounds.\<close> A loop over instance numbers up to the largest of its type never ends in the code; the
  model leaves such an input out with a fault (\<open>rguard\<close>). The same holds of the two loops of the leader of \<^verbatim>\<open>paxos2\<close> over its open instances.
  The integers of a configuration are C ints of 32 bits: \<open>c_int\<close> wraps what is read, and the sum that
  \<open>validate_config\<close> tests wraps too (\<open>window_sum_overflows\<close>). Two loops of the multicaster have a
  variable of 32 bits; \<open>mc_iids32\<close> truncates their first number. Statements about tables of instances
  assume numbers below \<open>2 ^ 62\<close> where an index would wrap otherwise. No definition uses fuel: recursion is
  on the data or has a measure.

  \<^bold>\<open>Not modelled.\<close>
  \<^item> \<^verbatim>\<open>cityhash-1.1.0\<close>: a third-party library, which nothing here calls.
  \<^item> \<^verbatim>\<open>paxos2/lib/paxos_malloc.c\<close> and every failure of an allocation: the models allocate without limit.
  \<^item> Of \<^verbatim>\<open>ring_paxos/lib/network_common.c\<close> and \<^verbatim>\<open>os_dependent.c\<close>: the sizes of socket
    buffers and what is compiled on other systems than Linux. All of libevent: its answers are parameters and an event is
    a call of its handler.
  \<^item> \<^verbatim>\<open>ring_paxos/lib/learners_manager.c\<close>: a stub that allocates a structure.
  \<^item> The \<^verbatim>\<open>main\<close> functions of the programs and those of the test directories: calls of the
    modelled functions in a fixed order, and exit codes.
  \<^item> Printing, log messages, event counters and statistics, except for the array of counters of the multicaster that
    can be overrun and the latencies of the client.
\<close>

section \<open>The multicaster and the learners\<close>

text \<open>Agreement of the learners of \<^verbatim>\<open>ring_paxos\<close>: whatever the multicaster receives, and
  however the network loses, repeats and reorders what it sends, two learners never fault, deliver the same
  value for every instance that both deliver, and only values of commands that a quorum accepted.\<close>

theorem multicast_agreement:
  assumes "multicaster_init cfg = Inr mc" "\<forall>ev \<in> set evs. valid_request ev" "out = snd (mc_run evs mc)"
    and "cmdmaps_of l1 \<union> cmdmaps_of l2 \<subseteq> maps_of out" "acceptances_of l1 \<union> acceptances_of l2 \<subseteq> keys_of out"
    and "0 < unat n1" "unat n1 < 2 ^ 62" "0 < unat n2" "unat n2 < 2 ^ 62"
  shows "\<exists>dq1 vs1 dq2 vs2. dq_run l1 (delivery_queue_init n1 pc1) = Inr (dq1, vs1) \<and> dq_run l2 (delivery_queue_init n2 pc2) = Inr (dq2, vs2)
    \<and> (\<forall>j < min (length vs1) (length vs2). vs1 ! j = vs2 ! j)
    \<and> (\<forall>j < length vs1. \<exists>k. (word_of_nat (Suc j), k) \<in> accepted_by_quorum cfg evs \<and> (word_of_nat (Suc j), k, vs1 ! j) \<in> maps_of out)"
proof -
  have inv: "mc_inv cfg (maps_of out) (keys_of out) (accepted_by_quorum cfg evs) (fst (mc_run evs mc))"
    unfolding assms(3) by (rule mc_run_init_inv [OF assms(1,2)])
  obtain dq1 vs1 where 1: "dq_run l1 (delivery_queue_init n1 pc1) = Inr (dq1, vs1)" "delivers_chosen (maps_of out) (keys_of out) vs1"
    using inv_delivers [OF inv _ _ assms(6,7)] assms(4,5) by (metis le_sup_iff)
  obtain dq2 vs2 where 2: "dq_run l2 (delivery_queue_init n2 pc2) = Inr (dq2, vs2)" "delivers_chosen (maps_of out) (keys_of out) vs2"
    using inv_delivers [OF inv _ _ assms(8,9)] assms(4,5) by (metis le_sup_iff)
  have "\<exists>k. (word_of_nat (Suc j), k) \<in> accepted_by_quorum cfg evs \<and> (word_of_nat (Suc j), k, vs1 ! j) \<in> maps_of out"
    if "j < length vs1" for j
    using 1(2) that mc_invD(9) [OF inv] unfolding delivers_chosen_def by blast
  then show ?thesis using 1 2 delivered_agree [OF inv 1(2) 2(2)] by auto
qed

theorem multicast_agreement_witness:
  "\<exists>dq1 vs1 dq2 vs2. dq_run [Cmdmap 1 first_key [7, 8, 9], Acceptance 1 first_key] (delivery_queue_init 4 False) = Inr (dq1, vs1)
    \<and> dq_run [Acceptance 1 first_key, Acceptance 1 first_key, Cmdmap 1 first_key [7, 8, 9]] (delivery_queue_init 8 True) = Inr (dq2, vs2)
    \<and> (\<forall>j < min (length vs1) (length vs2). vs1 ! j = vs2 ! j)
    \<and> (\<forall>j < length vs1. \<exists>k. (word_of_nat (Suc j), k) \<in> accepted_by_quorum example_cfg example_run
         \<and> (word_of_nat (Suc j), k, vs1 ! j) \<in> maps_of (snd (mc_run example_run example_mcaster)))"
proof (rule multicast_agreement [OF example_init _ refl])
  show "\<forall>ev \<in> set example_run. valid_request ev" by (simp add: example_run_def run_after_def)
qed (auto simp: example_out cmdmaps_of_def acceptances_of_def)

section \<open>The whole ring and its learners\<close>

text \<open>C1. Agreement of the whole system of \<^verbatim>\<open>ring_paxos\<close>: a multicaster, the acceptors
  of the ring and two learners, over a network that loses, repeats and reorders messages. The learners never
  fault, deliver the same value for every instance that both deliver, and every value they deliver
  is the value of a command that all the acceptors after the multicaster had accepted in one ballot.\<close>

theorem ring_learners_agree:
  assumes "ring_of cfg n" "multicaster_init cfg = Inr mc" "\<forall>ev \<in> set evs. valid_sys_event ev"
    and "s = sys_run cfg evs (sys_init cfg mc)"
    and "cmdmaps_of l1 \<union> cmdmaps_of l2 \<subseteq> mapped_by s" "acceptances_of l1 \<union> acceptances_of l2 \<subseteq> chosen_by s"
    and "0 < unat n1" "unat n1 < 2 ^ 62" "0 < unat n2" "unat n2 < 2 ^ 62"
  shows "\<exists>dq1 vs1 dq2 vs2. dq_run l1 (delivery_queue_init n1 pc1) = Inr (dq1, vs1) \<and> dq_run l2 (delivery_queue_init n2 pc2) = Inr (dq2, vs2)
    \<and> (\<forall>i < min (length vs1) (length vs2). vs1 ! i = vs2 ! i)
    \<and> (\<forall>i < length vs1. \<exists>k b. (word_of_nat (Suc i), k, vs1 ! i) \<in> mapped_by s
         \<and> (\<forall>j \<in> {2..n}. \<exists>t \<le> length evs.
              has_accepted (sys_acc (sys_run cfg (take t evs) (sys_init cfg mc)) j) (word_of_nat (Suc i)) k b))"
proof -
  let ?H = "ring_history cfg evs (sys_init cfg mc)"
  have inv: "mc_inv cfg (mapped_by s) (chosen_by s) (agreed cfg n ?H) (sys_mc s)"
    using sys_run_inv [OF assms(1-3)] by (simp add: sys_inv_def assms(4))
  obtain dq1 vs1 where 1: "dq_run l1 (delivery_queue_init n1 pc1) = Inr (dq1, vs1)" "delivers_chosen (mapped_by s) (chosen_by s) vs1"
    using inv_delivers [OF inv _ _ assms(7,8)] assms(5,6) by (metis le_sup_iff)
  obtain dq2 vs2 where 2: "dq_run l2 (delivery_queue_init n2 pc2) = Inr (dq2, vs2)" "delivers_chosen (mapped_by s) (chosen_by s) vs2"
    using inv_delivers [OF inv _ _ assms(9,10)] assms(5,6) by (metis le_sup_iff)
  have "\<exists>k b. (word_of_nat (Suc i), k, vs1 ! i) \<in> mapped_by s \<and> (\<forall>j \<in> {2..n}. \<exists>t \<le> length evs.
      has_accepted (sys_acc (sys_run cfg (take t evs) (sys_init cfg mc)) j) (word_of_nat (Suc i)) k b)" if i: "i < length vs1" for i
  proof -
    obtain k where k: "(word_of_nat (Suc i), k) \<in> agreed cfg n ?H" "(word_of_nat (Suc i), k, vs1 ! i) \<in> mapped_by s"
      using 1(2) i mc_invD(9) [OF inv] unfolding delivers_chosen_def by blast
    from agreed_history [OF k(1)] obtain b where "\<forall>j \<in> {2..n}. \<exists>t \<le> length evs.
        has_accepted (sys_acc (sys_run cfg (take t evs) (sys_init cfg mc)) j) (word_of_nat (Suc i)) k b" .
    then show ?thesis using k(2) by blast
  qed
  then show ?thesis using 1 2 delivered_agree [OF inv 1(2) 2(2)] by auto
qed

theorem ring_learners_agree_witness:
  "\<exists>dq1 vs1 dq2 vs2. dq_run [Cmdmap 1 first_key [7, 8, 9], Acceptance 1 first_key] (delivery_queue_init 4 False) = Inr (dq1, vs1)
    \<and> dq_run [Acceptance 1 first_key, Acceptance 1 first_key, Cmdmap 1 first_key [7, 8, 9]] (delivery_queue_init 8 True) = Inr (dq2, vs2)
    \<and> (\<forall>i < min (length vs1) (length vs2). vs1 ! i = vs2 ! i)"
proof -
  let ?s = "sys_run example_cfg ring_trace (sys_init example_cfg example_mcaster)"
  have "\<forall>ev \<in> set ring_trace. valid_sys_event ev" by (simp add: ring_trace_def mc_eval_defs)
  from ring_learners_agree [OF ring3 example_init this refl, of "[Cmdmap 1 first_key [7, 8, 9], Acceptance 1 first_key]"
      "[Acceptance 1 first_key, Acceptance 1 first_key, Cmdmap 1 first_key [7, 8, 9]]" 4 8 False True]
  show ?thesis by (auto simp: cmdmaps_of_def acceptances_of_def mapped_by_def chosen_by_def ring_trace_chosen ex_map1_def)
qed

end
